(* ===== verification/Prelude.thy ===== *)
theory Prelude
  imports Main "HOL-Library.Word"
begin

unbundle bit_operations_syntax

text \<open>
  What every component shares: the machine integers of the Rust sources as words, the
  checked, saturating and rounding operations of the Rust standard library on them, and
  \<open>Result\<close> values as sums with their monadic composition (the \<open>?\<close> operator).
  The two collections are the automation of the component theories: \<open>rust_result\<close>
  inverts a composed \<open>Result\<close>, \<open>rust_int\<close> moves a checked operation to \<open>nat\<close>.
\<close>

named_theorems rust_result "inversion rules for Result values"
named_theorems rust_int "integer operations read as natural numbers"

section \<open>Integers\<close>

text \<open>
  \<open>u8\<close>, \<open>u32\<close>, \<open>u64\<close> are words read with \<open>unat\<close>; \<open>i32\<close> and \<open>i64\<close> are
  words read with \<open>sint\<close>. A \<open>usize\<close> that is a length or an index of a collection is a
  natural number.
\<close>

type_synonym u8 = "8 word"
type_synonym u32 = "32 word"
type_synonym u64 = "64 word"
type_synonym i32 = "32 word"
type_synonym i64 = "64 word"
type_synonym usize = nat

definition u64_of_u32 :: "u32 \<Rightarrow> u64" where
  "u64_of_u32 w = ucast w"

definition is_negative :: "'a::len word \<Rightarrow> bool" where
  "is_negative w \<longleftrightarrow> sint w < 0"

definition checked_add :: "'a::len word \<Rightarrow> 'a word \<Rightarrow> 'a word option" where
  "checked_add a b = (if unat a + unat b < 2 ^ LENGTH('a) then Some (a + b) else None)"

definition checked_mul :: "'a::len word \<Rightarrow> 'a word \<Rightarrow> 'a word option" where
  "checked_mul a b = (if unat a * unat b < 2 ^ LENGTH('a) then Some (a * b) else None)"

definition saturating_sub :: "'a::len word \<Rightarrow> 'a word \<Rightarrow> 'a word" where
  "saturating_sub a b = (if a < b then 0 else a - b)"

definition saturating_mul :: "'a::len word \<Rightarrow> 'a word \<Rightarrow> 'a word" where
  "saturating_mul a b = (case checked_mul a b of Some c \<Rightarrow> c | None \<Rightarrow> - 1)"

definition is_multiple_of :: "'a::len word \<Rightarrow> 'a word \<Rightarrow> bool" where
  "is_multiple_of a b \<longleftrightarrow> (if b = 0 then a = 0 else a mod b = 0)"

definition div_ceil :: "'a::len word \<Rightarrow> 'a word \<Rightarrow> 'a word" where
  "div_ceil a b = (let d = a div b; r = a mod b in if 0 < r then d + 1 else d)"

definition u32_try_from :: "u64 \<Rightarrow> u32 option" where
  "u32_try_from w = (if unat w < 2 ^ 32 then Some (ucast w) else None)"

lemma checked_add_Some [rust_int]:
  "checked_add a b = Some (c :: 'a::len word) \<longleftrightarrow>
     unat a + unat b < 2 ^ LENGTH('a) \<and> unat c = unat a + unat b"
  by (auto simp: checked_add_def word_unat_eq_iff unat_word_ariths split: if_splits)

lemma checked_add_None [rust_int]:
  "checked_add a b = (None :: 'a::len word option) \<longleftrightarrow> 2 ^ LENGTH('a) \<le> unat a + unat b"
  by (auto simp: checked_add_def)

lemma checked_mul_Some [rust_int]:
  "checked_mul a b = Some (c :: 'a::len word) \<longleftrightarrow>
     unat a * unat b < 2 ^ LENGTH('a) \<and> unat c = unat a * unat b"
  by (auto simp: checked_mul_def word_unat_eq_iff unat_word_ariths split: if_splits)

lemma checked_mul_None [rust_int]:
  "checked_mul a b = (None :: 'a::len word option) \<longleftrightarrow> 2 ^ LENGTH('a) \<le> unat a * unat b"
  by (auto simp: checked_mul_def)

lemma checked_add_chain [rust_int]:
  "Option.bind (checked_add a b) (\<lambda>s. checked_add s c) = Some (e :: 'a::len word) \<longleftrightarrow>
     unat a + unat b + unat c < 2 ^ LENGTH('a) \<and> unat e = unat a + unat b + unat c"
proof (cases "unat a + unat b < 2 ^ LENGTH('a)")
  case True
  then have sum: "unat (a + b) = unat a + unat b" by (simp add: unat_word_ariths)
  from True have "Option.bind (checked_add a b) (\<lambda>s. checked_add s c) = checked_add (a + b) c"
    by (simp add: checked_add_def)
  then show ?thesis by (simp add: checked_add_Some sum)
qed (simp add: checked_add_def)

lemma unat_u32_less: "unat (w :: u32) < 4294967296"
  using unsigned_less [of w] by simp

lemma unat_u64_less: "unat (w :: u64) < 18446744073709551616"
  using unsigned_less [of w] by simp

lemma unat_u64_of_u32 [simp]: "unat (u64_of_u32 w) = unat w"
  by (simp add: u64_of_u32_def unsigned_ucast_eq take_bit_nat_eq_self_iff
      less_trans [OF unat_u32_less])

lemma u64_of_u32_eq_0 [simp]: "u64_of_u32 w = 0 \<longleftrightarrow> w = 0"
  by (metis unat_eq_zero unat_u64_of_u32)

lemma u32_product_bound: "unat (a :: u32) * unat (b :: u32) < 18446744073709551616"
proof -
  have "unat a \<le> 4294967295" "unat b \<le> 4294967295"
    using unat_u32_less [of a] unat_u32_less [of b] by linarith+
  then have "unat a * unat b \<le> 4294967295 * 4294967295"
    by (rule mult_le_mono)
  then show ?thesis by simp
qed

text \<open>Widening a product of two \<open>u32\<close> to \<open>u64\<close> never wraps.\<close>

lemma unat_widening_mul [simp]:
  "unat (u64_of_u32 a * u64_of_u32 b) = unat a * unat b"
  using u32_product_bound [of a b] by (simp add: unat_word_ariths)

lemma unat_saturating_sub [simp]: "unat (saturating_sub a b) = unat a - unat b"
  by (auto simp: saturating_sub_def word_less_nat_alt unat_sub word_le_nat_alt)

lemma is_multiple_of_unat [rust_int]:
  "is_multiple_of a (b :: 'a::len word) \<longleftrightarrow> unat b dvd unat a"
  by (auto simp: is_multiple_of_def word_unat_eq_iff unat_mod dvd_eq_mod_eq_0)

lemma word_less_unat [rust_int]: "(a :: 'a::len word) < b \<longleftrightarrow> unat a < unat b"
  by (rule word_less_nat_alt)

lemma word_le_unat [rust_int]: "(a :: 'a::len word) \<le> b \<longleftrightarrow> unat a \<le> unat b"
  by (rule word_le_nat_alt)

lemma word_pos_unat: "(a :: 'a::len word) \<noteq> 0 \<longleftrightarrow> 0 < unat a"
  by (simp add: word_unat_eq_iff)

lemma u32_try_from_Some [rust_int]:
  "u32_try_from w = Some v \<longleftrightarrow> unat w < 2 ^ 32 \<and> unat v = unat w"
  by (auto simp: u32_try_from_def word_unat_eq_iff unsigned_ucast_eq take_bit_nat_eq_self)

lemma u32_try_from_None [rust_int]: "u32_try_from w = None \<longleftrightarrow> 2 ^ 32 \<le> unat w"
  by (auto simp: u32_try_from_def)

lemma unat_linear:
  assumes "unat a + unat b * unat c + unat d < 2 ^ LENGTH('a)"
  shows "unat (a + b * c + (d :: 'a::len word)) = unat a + unat b * unat c + unat d"
proof -
  have "unat b * unat c < 2 ^ LENGTH('a)" "unat a + unat b * unat c < 2 ^ LENGTH('a)"
    using assms by linarith+
  then show ?thesis using assms by (simp add: unat_word_ariths)
qed

text \<open>Rounding down to a multiple of four.\<close>

lemma unat_and_not_3 [simp]: "unat (w AND NOT (3 :: u64)) = 4 * (unat w div 4)"
proof -
  have "(3 :: u64) = mask 2" by (simp add: mask_eq_exp_minus_1)
  then have "w AND NOT (3 :: u64) = push_bit 2 (drop_bit 2 w)"
    by (auto simp: bit_eq_iff bit_simps not_less dest!: le_Suc_ex)
  moreover have "unat w div 4 * 4 < 18446744073709551616" "unat w div 4 < 18446744073709551616"
    using unat_u64_less [of w] by linarith+
  then have "unat (push_bit 2 (drop_bit 2 w)) = 4 * (unat w div 4)"
    by (simp add: push_bit_eq_mult drop_bit_eq_div unat_word_ariths unat_div)
  ultimately show ?thesis by simp
qed

lemma unat_and_minus_4 [simp]: "unat (w AND (- 4 :: u64)) = 4 * (unat w div 4)"
  using unat_and_not_3 [of w] by (simp del: unat_and_not_3)

text \<open>A signed word below half its range is non-negative and reads the same unsigned.\<close>

lemma sint_small:
  assumes "unat (w :: 'a::len word) < 2 ^ (LENGTH('a) - Suc 0)"
  shows "sint w = int (unat w)"
proof -
  have "uint w < 2 ^ (LENGTH('a) - Suc 0)"
    using assms by (metis of_nat_less_iff of_nat_numeral of_nat_power uint_nat unat_eq_nat_uint)
  then have "signed_take_bit (LENGTH('a) - Suc 0) (uint w) = uint w"
    by (intro signed_take_bit_int_eq_self) (auto intro: order_trans [of _ 0])
  then show ?thesis by (simp add: sint_uint)
qed

lemma small_not_negative:
  "unat (w :: 'a::len word) < 2 ^ (LENGTH('a) - Suc 0) \<Longrightarrow> \<not> is_negative w"
  by (simp add: is_negative_def sint_small)

section \<open>Result values\<close>

abbreviation Ok :: "'a \<Rightarrow> 'e + 'a" where
  "Ok \<equiv> Inr"

abbreviation Err :: "'e \<Rightarrow> 'e + 'a" where
  "Err \<equiv> Inl"

definition result_bind :: "'e + 'a \<Rightarrow> ('a \<Rightarrow> 'e + 'b) \<Rightarrow> 'e + 'b" where
  "result_bind r f = (case r of Inl e \<Rightarrow> Inl e | Inr x \<Rightarrow> f x)"

definition map_ok :: "('a \<Rightarrow> 'b) \<Rightarrow> 'e + 'a \<Rightarrow> 'e + 'b" where
  "map_ok f r = (case r of Inl e \<Rightarrow> Inl e | Inr x \<Rightarrow> Inr (f x))"

definition map_err :: "('e \<Rightarrow> 'f) \<Rightarrow> 'e + 'a \<Rightarrow> 'f + 'a" where
  "map_err f r = (case r of Inl e \<Rightarrow> Inl (f e) | Inr x \<Rightarrow> Inr x)"

definition ok_or :: "'e \<Rightarrow> 'a option \<Rightarrow> 'e + 'a" where
  "ok_or e x = (case x of None \<Rightarrow> Inl e | Some y \<Rightarrow> Inr y)"

definition result_ok :: "'e + 'a \<Rightarrow> 'a option" where
  "result_ok r = (case r of Inl e \<Rightarrow> None | Inr x \<Rightarrow> Some x)"

definition is_ok :: "'e + 'a \<Rightarrow> bool" where
  "is_ok r \<longleftrightarrow> (case r of Inl e \<Rightarrow> False | Inr x \<Rightarrow> True)"

lemma result_bind_simps [simp]:
  "result_bind (Inl e) f = Inl e"
  "result_bind (Inr x) f = f x"
  by (simp_all add: result_bind_def)

lemma map_ok_simps [simp]: "map_ok f (Inl e) = Inl e" "map_ok f (Inr x) = Inr (f x)"
  by (simp_all add: map_ok_def)

lemma map_err_simps [simp]: "map_err f (Inl e) = Inl (f e)" "map_err f (Inr x) = Inr x"
  by (simp_all add: map_err_def)

lemma ok_or_simps [simp]: "ok_or e None = Inl e" "ok_or e (Some x) = Inr x"
  by (simp_all add: ok_or_def)

lemma result_ok_simps [simp]: "result_ok (Inl e) = None" "result_ok (Inr x) = Some x"
  by (simp_all add: result_ok_def)

lemma is_ok_simps [simp]: "\<not> is_ok (Inl e)" "is_ok (Inr x)"
  by (simp_all add: is_ok_def)

lemma result_bind_Inr [rust_result]:
  "result_bind r f = Inr y \<longleftrightarrow> (\<exists>x. r = Inr x \<and> f x = Inr y)"
  by (cases r) simp_all

lemma result_bind_Inl [rust_result]:
  "result_bind r f = Inl e \<longleftrightarrow> r = Inl e \<or> (\<exists>x. r = Inr x \<and> f x = Inl e)"
  by (cases r) simp_all

lemma map_ok_Inr [rust_result]: "map_ok f r = Inr y \<longleftrightarrow> (\<exists>x. r = Inr x \<and> y = f x)"
  by (cases r) auto

lemma map_ok_Inl [rust_result]: "map_ok f r = Inl e \<longleftrightarrow> r = Inl e"
  by (cases r) auto

lemma map_err_Inr [rust_result]: "map_err f r = Inr y \<longleftrightarrow> r = Inr y"
  by (cases r) auto

lemma map_err_Inl [rust_result]: "map_err f r = Inl e \<longleftrightarrow> (\<exists>d. r = Inl d \<and> e = f d)"
  by (cases r) auto

lemma ok_or_Inr [rust_result]: "ok_or e x = Inr y \<longleftrightarrow> x = Some y"
  by (cases x) auto

lemma ok_or_Inl [rust_result]: "ok_or e x = Inl d \<longleftrightarrow> x = None \<and> d = e"
  by (cases x) auto

lemma if_Err_Inr [rust_result]: "(if c then Inl e else r) = Inr y \<longleftrightarrow> \<not> c \<and> r = Inr y"
  by auto

lemma is_ok_iff: "is_ok r \<longleftrightarrow> (\<exists>x. r = Inr x)"
  by (cases r) auto

section \<open>Lists\<close>

lemma list_all2_preimage:
  "list_all2 P xs ys \<Longrightarrow> \<forall>y \<in> set ys. \<exists>x \<in> set xs. P x y"
  by (induction rule: list_all2_induct) auto

end
