(* ===== verification/Errors.thy ===== *)
theory Errors
  imports Prelude
begin

text \<open>
  The error enumerations of \<open>error.rs\<close> and of \<open>format.rs\<close>: one constructor per
  variant, carrying the values the message prints. A \<open>usize\<close> field is a natural number.
\<close>

text \<open>The \<open>kind\<close> strings of \<open>TooManyEntries\<close>.\<close>

datatype entry_kind = Entry_objects | Entry_layers | Entry_planes_in_one_layer

datatype validation_error =
    ZeroCodedSize u32 u32
  | ZeroVisibleSize u32 u32
  | VisibleRectOverflow
  | VisibleRectOutOfBounds u32 u32 u32 u32 u32 u32
  | UnsupportedDescriptorVersion u32
  | EmptyObjects
  | EmptyLayers
  | TooManyEntries entry_kind usize usize
  | NegativeFd usize i32
  | NegativeAcquireFence i32
  | EmptyBinaryPlanes
  | UnsupportedBinaryPlaneCount usize
  | ZeroBinaryStride
  | BinaryOffsetOutOfBounds u64 u64
  | BinaryLastRowOutOfBounds u64 u64
  | BinaryStorageRequiresImplicitSync
  | UnreferencedObject usize
  | ZeroObjectSize usize
  | InvalidFourcc usize
  | EmptyPlanes usize
  | TooManyPlanes usize usize
  | ZeroPitch usize usize
  | InvalidObjectIndex usize usize u32 usize
  | PlaneOffsetOutOfBounds usize usize u32 u64 u64

text \<open>\<open>'io\<close> is the operating system's \<open>io::Error\<close>.\<close>

datatype 'io allocation_size_error =
    Stat_failed 'io
  | Seek_failed 'io
  | Restore_failed 'io
  | Zero_size
  | NegativeStat i64
  | ProbeMismatch u64 u64

datatype 'io duplicate_error =
    InvalidFrame validation_error
  | Duplicate_NegativeAcquireFence i32
  | DuplicateObjectFd usize i32 'io
  | DuplicateAcquireFence i32 'io

datatype format_validation_error =
    ZeroSize u32 u32
  | InvalidFramerate u32 u32
  | Format_InvalidFourcc
  | MissingBw1Polarity
  | UnexpectedBw1Polarity
  | BinaryFormatRequiresImplicitSync
  | BinaryFormatRequiresOpaqueAlpha
  | InvalidPixelAspectRatio u32 u32

text \<open>
  \<open>vulkan/error.rs\<close>. \<open>'m\<close> stands for the messages of the \<open>String\<close> variants: each
  component has an enumeration of the messages it formats, with the values they print.
\<close>

datatype pool_name = Packed_output | Nv12_output

datatype 'm vulkan_import_error =
    PoolSaturated pool_name usize
  | AllocationSizeMismatch u64 u64
  | AllocationSizeProbe 'm
  | AllocationSize 'm
  | Other 'm

fun is_allocation_size :: "'m vulkan_import_error \<Rightarrow> bool" where
  "is_allocation_size (AllocationSizeMismatch declared observed) = True"
| "is_allocation_size (AllocationSizeProbe message) = True"
| "is_allocation_size (AllocationSize message) = True"
| "is_allocation_size (PoolSaturated pool limit) = False"
| "is_allocation_size (Other message) = False"

end
