(* ===== verification/Fd_Table.thy ===== *)
theory Fd_Table
  imports Errors
begin

text \<open>
  \<open>fd.rs\<close> and the ownership of file descriptors. The operating system's \<open>fcntl\<close>,
  \<open>close\<close> and \<open>errno\<close> are parameters; the locale \<open>fcntl_os\<close> states what they
  document about the set of open descriptors, and the locale \<open>fd_duplicator\<close> is the
  interface the descriptor and frame duplication rely on. The first gives the second by
  \<open>duplicate_fd_cloexec\<close>. An \<open>OwnedFd\<close> is the number of an open descriptor, and
  dropping it closes it.
\<close>

definition duplicate_fd_cloexec ::
  "(i32 \<Rightarrow> 'os \<Rightarrow> i32 \<times> 'os) \<Rightarrow> ('os \<Rightarrow> 'io) \<Rightarrow> i32 \<Rightarrow> 'os \<Rightarrow> ('io + i32) \<times> 'os" where
  "duplicate_fd_cloexec fcntl last_os_error fd s =
     (case fcntl fd s of (duplicated, s') \<Rightarrow>
        if is_negative duplicated then (Err (last_os_error s'), s')
        else (Ok duplicated, s'))"

text \<open>Dropping a vector of owned descriptors closes them front to back.\<close>

fun close_all :: "(i32 \<Rightarrow> 'os \<Rightarrow> 'os) \<Rightarrow> i32 list \<Rightarrow> 'os \<Rightarrow> 'os" where
  "close_all close [] s = s"
| "close_all close (fd # fds) s = close_all close fds (close fd s)"

locale fd_duplicator =
  fixes duplicate :: "i32 \<Rightarrow> 'os \<Rightarrow> ('io + i32) \<times> 'os"
    and close :: "i32 \<Rightarrow> 'os \<Rightarrow> 'os"
    and open_fds :: "'os \<Rightarrow> i32 set"
  assumes duplicate_fresh: "duplicate fd s = (Ok d, s') \<Longrightarrow> d \<notin> open_fds s"
    and duplicate_opens: "duplicate fd s = (Ok d, s') \<Longrightarrow> open_fds s' = insert d (open_fds s)"
    and duplicate_fails: "duplicate fd s = (Err e, s') \<Longrightarrow> open_fds s' = open_fds s"
    and close_closes: "open_fds (close d s) = open_fds s - {d}"
begin

lemma close_all_open: "open_fds (close_all close fds s) = open_fds s - set fds"
  by (induction fds arbitrary: s) (auto simp: close_closes)

end

locale fcntl_os =
  fixes fcntl :: "i32 \<Rightarrow> 'os \<Rightarrow> i32 \<times> 'os"
    and last_os_error :: "'os \<Rightarrow> 'io"
    and close :: "i32 \<Rightarrow> 'os \<Rightarrow> 'os"
    and open_fds :: "'os \<Rightarrow> i32 set"
  assumes fcntl_success: "fcntl fd s = (d, s') \<Longrightarrow> \<not> is_negative d \<Longrightarrow>
      d \<notin> open_fds s \<and> open_fds s' = insert d (open_fds s)"
    and fcntl_failure: "fcntl fd s = (d, s') \<Longrightarrow> is_negative d \<Longrightarrow> open_fds s' = open_fds s"
    and close_removes: "open_fds (close d s) = open_fds s - {d}"

sublocale fcntl_os \<subseteq> dup: fd_duplicator "duplicate_fd_cloexec fcntl last_os_error" close open_fds
proof unfold_locales
  fix fd s d s'
  assume "duplicate_fd_cloexec fcntl last_os_error fd s = (Ok d, s')"
  then have call: "fcntl fd s = (d, s')" and ok: "\<not> is_negative d"
    by (auto simp: duplicate_fd_cloexec_def split: prod.splits if_splits)
  show "d \<notin> open_fds s" and "open_fds s' = insert d (open_fds s)"
    using fcntl_success [OF call ok] by simp_all
next
  fix fd s e s'
  assume "duplicate_fd_cloexec fcntl last_os_error fd s = (Err e, s')"
  then obtain d where "fcntl fd s = (d, s')" and "is_negative d"
    by (auto simp: duplicate_fd_cloexec_def split: prod.splits if_splits)
  then show "open_fds s' = open_fds s" by (rule fcntl_failure)
qed (rule close_removes)

section \<open>The descriptor table of a process\<close>

text \<open>
  The POSIX table: \<open>F_DUPFD_CLOEXEC\<close> with minimum 0 returns the lowest descriptor that
  is not open, fails with \<open>EBADF\<close> on a descriptor that is not open and with \<open>EMFILE\<close>
  when the limit is reached, and a failure leaves the table as it was.
\<close>

datatype fd_errno = No_errno | EBADF | EMFILE

record fd_table =
  ft_open :: "i32 list"
  ft_limit :: nat
  ft_errno :: fd_errno

definition posix_fcntl :: "i32 \<Rightarrow> fd_table \<Rightarrow> i32 \<times> fd_table" where
  "posix_fcntl fd t =
     (if fd \<notin> set (ft_open t) then (- 1, t\<lparr>ft_errno := EBADF\<rparr>)
      else case find (\<lambda>d. \<not> is_negative d \<and> d \<notin> set (ft_open t))
             (map word_of_nat [0..<ft_limit t]) of
        None \<Rightarrow> (- 1, t\<lparr>ft_errno := EMFILE\<rparr>)
      | Some d \<Rightarrow> (d, t\<lparr>ft_open := ft_open t @ [d]\<rparr>))"

definition posix_close :: "i32 \<Rightarrow> fd_table \<Rightarrow> fd_table" where
  "posix_close fd t = t\<lparr>ft_open := removeAll fd (ft_open t)\<rparr>"

definition posix_open :: "fd_table \<Rightarrow> i32 set" where
  "posix_open t = set (ft_open t)"

lemma is_negative_minus_1 [simp]: "is_negative (- 1 :: i32)"
  by (simp add: is_negative_def)

lemma posix_fcntl_success:
  assumes "posix_fcntl fd t = (d, t')" and "\<not> is_negative d"
  shows "d \<notin> posix_open t \<and> posix_open t' = insert d (posix_open t)"
  using assms
  by (auto simp: posix_fcntl_def posix_open_def find_Some_iff split: if_splits option.splits)

lemma posix_fcntl_failure:
  assumes "posix_fcntl fd t = (d, t')" and "is_negative d"
  shows "posix_open t' = posix_open t"
  using assms
  by (auto simp: posix_fcntl_def posix_open_def find_Some_iff split: if_splits option.splits)

interpretation posix: fcntl_os posix_fcntl ft_errno posix_close posix_open
  by unfold_locales
    (auto dest: posix_fcntl_success posix_fcntl_failure simp: posix_close_def posix_open_def)

text \<open>The lowest free descriptor of the table with 0, 1, 2 and 5 open is 3.\<close>

lemma posix_fcntl_example:
  "fst (duplicate_fd_cloexec posix_fcntl ft_errno 5
     \<lparr>ft_open = [0, 1, 2, 5], ft_limit = 8, ft_errno = No_errno\<rparr>) = Ok 3"
  by (simp add: duplicate_fd_cloexec_def posix_fcntl_def is_negative_def upt_rec)

end
