(* ===== verification/Geometry.thy ===== *)
theory Geometry
  imports Errors
begin

text \<open>
  \<open>geometry.rs\<close>: the visible rectangle of a frame and its validation against the coded
  size. The specification \<open>rect_within\<close> is over natural numbers, so that it also says
  that the checked additions of the code never hide a wrapped edge.
\<close>

record rect =
  rect_x :: u32
  rect_y :: u32
  rect_width :: u32
  rect_height :: u32

definition rect_validate :: "rect \<Rightarrow> u32 \<Rightarrow> u32 \<Rightarrow> validation_error + unit" where
  "rect_validate r coded_width coded_height =
     (if coded_width = 0 \<or> coded_height = 0
      then Err (ZeroCodedSize coded_width coded_height)
      else if rect_width r = 0 \<or> rect_height r = 0
      then Err (ZeroVisibleSize (rect_width r) (rect_height r))
      else result_bind (ok_or VisibleRectOverflow (checked_add (rect_x r) (rect_width r)))
        (\<lambda>right. result_bind (ok_or VisibleRectOverflow (checked_add (rect_y r) (rect_height r)))
          (\<lambda>bottom. if coded_width < right \<or> coded_height < bottom
             then Err (VisibleRectOutOfBounds (rect_x r) (rect_y r) (rect_width r)
                    (rect_height r) coded_width coded_height)
             else Ok ())))"

definition rect_within :: "rect \<Rightarrow> u32 \<Rightarrow> u32 \<Rightarrow> bool" where
  "rect_within r cw ch \<longleftrightarrow>
     0 < unat cw \<and> 0 < unat ch \<and> 0 < unat (rect_width r) \<and> 0 < unat (rect_height r) \<and>
     unat (rect_x r) + unat (rect_width r) \<le> unat cw \<and>
     unat (rect_y r) + unat (rect_height r) \<le> unat ch"

lemma rect_validate_Ok_iff: "rect_validate r cw ch = Ok u \<longleftrightarrow> rect_within r cw ch"
proof -
  have edge: "(\<exists>e. checked_add a b = Some e \<and> \<not> c < e) \<longleftrightarrow> unat a + unat b \<le> unat c"
    for a b c :: u32
  proof
    assume "\<exists>e. checked_add a b = Some e \<and> \<not> c < e"
    then show "unat a + unat b \<le> unat c"
      by (auto simp: rust_int)
  next
    assume le: "unat a + unat b \<le> unat c"
    then have "unat a + unat b < 2 ^ 32"
      using unat_u32_less [of c] by simp
    then have "checked_add a b = Some (a + b)"
      by (simp add: checked_add_def)
    moreover from this have "unat (a + b) = unat a + unat b"
      by (simp add: rust_int)
    ultimately show "\<exists>e. checked_add a b = Some e \<and> \<not> c < e"
      using le by (auto simp: rust_int)
  qed
  have "rect_validate r cw ch = Ok u \<longleftrightarrow>
      \<not> (cw = 0 \<or> ch = 0) \<and> \<not> (rect_width r = 0 \<or> rect_height r = 0) \<and>
      (\<exists>e. checked_add (rect_x r) (rect_width r) = Some e \<and> \<not> cw < e) \<and>
      (\<exists>e. checked_add (rect_y r) (rect_height r) = Some e \<and> \<not> ch < e)"
    by (auto simp: rect_validate_def rust_result)
  then show ?thesis
    by (simp only: edge) (auto simp: rect_within_def word_unat_eq_iff)
qed

text \<open>The failures are ranked: each error is reported only where the earlier checks passed.\<close>

lemma rect_validate_overflow_iff:
  "rect_validate r cw ch = Err VisibleRectOverflow \<longleftrightarrow>
     cw \<noteq> 0 \<and> ch \<noteq> 0 \<and> rect_width r \<noteq> 0 \<and> rect_height r \<noteq> 0 \<and>
     (2 ^ 32 \<le> unat (rect_x r) + unat (rect_width r) \<or>
      2 ^ 32 \<le> unat (rect_y r) + unat (rect_height r))"
  by (auto simp: rect_validate_def rust_result checked_add_def split: if_splits)

section \<open>Modifiers\<close>

text \<open>\<open>modifier.rs\<close>: the DRM modifier of an object.\<close>

datatype modifier = Implicit | Explicit u64

definition modifier_linear :: modifier where
  "modifier_linear = Explicit 0"

fun modifier_explicit :: "modifier \<Rightarrow> u64 option" where
  "modifier_explicit Implicit = None"
| "modifier_explicit (Explicit value) = Some value"

end
