(* ===== verification/Format_Schema.thy ===== *)
theory Format_Schema
  imports Geometry
begin

text \<open>
  \<open>format.rs\<close>: the stream format, its numeric validation, and the hand-written term
  codecs of \<open>ModifierPolicy\<close>, \<open>StorageFormat\<close> and (in \<open>modifier.rs\<close>) \<open>Modifier\<close>.
  The term layer is Rustler's; what the codecs use of it is the record \<open>nif_env\<close>, and
  \<open>nif_laws\<close> states the documented behaviour the round trips rely on.
\<close>

type_synonym rational = "u32 \<times> u32"

datatype acquire_sync_policy = Policy_Implicit | Policy_SyncFile | Policy_PerFrame

datatype modifier_policy = PerBuffer | Policy_ModImplicit | Policy_ModExplicit u64

datatype primaries =
    Primaries_Unspecified | Primaries_Bt709 | Primaries_Bt470M | Primaries_Bt470Bg
  | Primaries_Smpte170m | Primaries_Smpte240m | Primaries_Film | Primaries_Bt2020
  | Primaries_Smpte428 | Primaries_Smpte431 | Primaries_Smpte432 | Primaries_Ebu3213

datatype transfer =
    Transfer_Unspecified | Transfer_Bt709 | Transfer_Gamma22 | Transfer_Gamma28
  | Transfer_Smpte170m | Transfer_Smpte240m | Transfer_Linear | Transfer_Log
  | Transfer_LogSqrt | Transfer_Iec61966_2_4 | Transfer_Bt1361 | Transfer_Iec61966_2_1
  | Transfer_Bt2020_10 | Transfer_Bt2020_12 | Transfer_Smpte2084 | Transfer_Smpte428
  | Transfer_AribStdB67

datatype matrix =
    Matrix_Unspecified | Matrix_Rgb | Matrix_Bt709 | Matrix_Fcc | Matrix_Bt470Bg
  | Matrix_Smpte170m | Matrix_Smpte240m | Matrix_Ycgco | Matrix_Bt2020Ncl | Matrix_Bt2020Cl
  | Matrix_Smpte2085 | Matrix_ChromaDerivedNcl | Matrix_ChromaDerivedCl | Matrix_Ictcp

datatype color_range = Range_Unspecified | Range_Limited | Range_Full

datatype chroma_location =
    Chroma_Unspecified | Chroma_Left | Chroma_Center | Chroma_TopLeft | Chroma_Top
  | Chroma_BottomLeft | Chroma_Bottom

datatype interlace_mode =
    Progressive | InterlacedTopFirst | InterlacedBottomFirst | Interlace_Mixed

datatype alpha_mode = Opaque | Straight | Premultiplied

record colorimetry =
  color_primaries :: primaries
  color_transfer :: transfer
  color_matrix :: matrix
  color_range :: color_range
  color_chroma_location :: chroma_location

definition colorimetry_default :: colorimetry where
  "colorimetry_default =
     \<lparr>color_primaries = Primaries_Unspecified, color_transfer = Transfer_Unspecified,
      color_matrix = Matrix_Unspecified, color_range = Range_Unspecified,
      color_chroma_location = Chroma_Unspecified\<rparr>"

datatype binary_pixel_format = Rgba8888 | Bgra8888 | Rgb888 | Gray8 | Gray2 | Bw1

datatype bw1_polarity = OneIsBlack | OneIsWhite

record binary_format =
  bf_pixel_format :: binary_pixel_format
  bf_bw1_polarity :: "bw1_polarity option"

record dmabuf_format =
  df_fourcc :: u32
  df_modifier :: modifier_policy

datatype storage_format = Format_Binary binary_format | Format_DmaBuf dmabuf_format

record stream_format =
  sf_width :: u32
  sf_height :: u32
  sf_framerate :: "rational option"
  sf_storage :: storage_format
  sf_acquire_sync :: acquire_sync_policy
  sf_colorimetry :: colorimetry
  sf_pixel_aspect_ratio :: rational
  sf_interlace_mode :: interlace_mode
  sf_alpha_mode :: alpha_mode

section \<open>Validation\<close>

definition binary_format_validate :: "binary_format \<Rightarrow> format_validation_error + unit" where
  "binary_format_validate b =
     (case (bf_pixel_format b, bf_bw1_polarity b) of
        (Bw1, None) \<Rightarrow> Err MissingBw1Polarity
      | (Bw1, Some _) \<Rightarrow> Ok ()
      | (_, None) \<Rightarrow> Ok ()
      | (_, Some _) \<Rightarrow> Err UnexpectedBw1Polarity)"

definition dmabuf_format_validate :: "dmabuf_format \<Rightarrow> format_validation_error + unit" where
  "dmabuf_format_validate d =
     (if df_fourcc d = 0 then Err Format_InvalidFourcc else Ok ())"

definition storage_format_validate :: "storage_format \<Rightarrow> format_validation_error + unit" where
  "storage_format_validate s =
     (case s of Format_Binary b \<Rightarrow> binary_format_validate b
      | Format_DmaBuf d \<Rightarrow> dmabuf_format_validate d)"

definition has_alpha_channel :: "binary_pixel_format \<Rightarrow> bool" where
  "has_alpha_channel p \<longleftrightarrow> (case p of Rgba8888 \<Rightarrow> True | Bgra8888 \<Rightarrow> True | _ \<Rightarrow> False)"

text \<open>
  \<open>Format::validate\<close>: size, framerate, storage, the two rules of binary storage, and the
  pixel aspect ratio, in that order, stopping at the first failure.
\<close>

definition format_validate :: "stream_format \<Rightarrow> format_validation_error + unit" where
  "format_validate f =
     (if sf_width f = 0 \<or> sf_height f = 0 then Err (ZeroSize (sf_width f) (sf_height f))
      else result_bind
        (case sf_framerate f of
           Some (numerator, denominator) \<Rightarrow>
             if numerator = 0 \<or> denominator = 0
             then Err (InvalidFramerate numerator denominator) else Ok ()
         | None \<Rightarrow> Ok ())
        (\<lambda>_. result_bind (storage_format_validate (sf_storage f))
        (\<lambda>_. result_bind
          (case sf_storage f of
             Format_Binary b \<Rightarrow>
               if sf_acquire_sync f \<noteq> Policy_Implicit
               then Err BinaryFormatRequiresImplicitSync
               else if \<not> has_alpha_channel (bf_pixel_format b) \<and> sf_alpha_mode f \<noteq> Opaque
               then Err BinaryFormatRequiresOpaqueAlpha
               else Ok ()
           | Format_DmaBuf _ \<Rightarrow> Ok ())
          (\<lambda>_. case sf_pixel_aspect_ratio f of (numerator, denominator) \<Rightarrow>
             if numerator = 0 \<or> denominator = 0
             then Err (InvalidPixelAspectRatio numerator denominator) else Ok ()))))"

definition positive_rational :: "rational \<Rightarrow> bool" where
  "positive_rational q \<longleftrightarrow> fst q \<noteq> 0 \<and> snd q \<noteq> 0"

definition binary_format_ok :: "binary_format \<Rightarrow> bool" where
  "binary_format_ok b \<longleftrightarrow> (bf_pixel_format b = Bw1 \<longleftrightarrow> bf_bw1_polarity b \<noteq> None)"

text \<open>The schema invariant the code enforces, as one predicate.\<close>

definition format_ok :: "stream_format \<Rightarrow> bool" where
  "format_ok f \<longleftrightarrow>
     sf_width f \<noteq> 0 \<and> sf_height f \<noteq> 0 \<and>
     (case sf_framerate f of None \<Rightarrow> True | Some q \<Rightarrow> positive_rational q) \<and>
     positive_rational (sf_pixel_aspect_ratio f) \<and>
     (case sf_storage f of
        Format_DmaBuf d \<Rightarrow> df_fourcc d \<noteq> 0
      | Format_Binary b \<Rightarrow> binary_format_ok b \<and> sf_acquire_sync f = Policy_Implicit \<and>
          (has_alpha_channel (bf_pixel_format b) \<or> sf_alpha_mode f = Opaque))"

lemma binary_format_validate_Ok_iff:
  "binary_format_validate b = Ok u \<longleftrightarrow> binary_format_ok b"
  by (auto simp: binary_format_validate_def binary_format_ok_def
      split: binary_pixel_format.splits option.splits)

lemma storage_format_validate_Ok_iff [rust_result]:
  "storage_format_validate s = Ok u \<longleftrightarrow>
     (case s of Format_Binary b \<Rightarrow> binary_format_ok b | Format_DmaBuf d \<Rightarrow> df_fourcc d \<noteq> 0)"
  by (auto simp: storage_format_validate_def dmabuf_format_validate_def
      binary_format_validate_Ok_iff split: storage_format.splits)

lemma format_validate_Ok_iff_ok: "format_validate f = Ok u \<longleftrightarrow> format_ok f"
  by (cases "sf_storage f"; cases "sf_framerate f"; cases "sf_pixel_aspect_ratio f")
    (auto simp: format_validate_def format_ok_def positive_rational_def rust_result
      split: prod.splits)

section \<open>Term codecs\<close>

datatype nif_error = BadArg | Nif_other nat

record ('t, 'a) nif_env =
  decode_atom :: "'t \<Rightarrow> nif_error + 'a"
  decode_u64 :: "'t \<Rightarrow> nif_error + u64"
  encode_atom :: "'a \<Rightarrow> 't"
  encode_u64 :: "u64 \<Rightarrow> 't"
  atom_named :: "string \<Rightarrow> 'a"

definition nif_laws :: "('t, 'a, 'z) nif_env_scheme \<Rightarrow> bool" where
  "nif_laws env \<longleftrightarrow>
     (\<forall>a. decode_atom env (encode_atom env a) = Ok a) \<and>
     (\<forall>n. decode_u64 env (encode_u64 env n) = Ok n) \<and>
     (\<forall>n. \<not> is_ok (decode_atom env (encode_u64 env n))) \<and>
     inj (atom_named env)"

definition modifier_policy_decode ::
  "('t, 'a, 'z) nif_env_scheme \<Rightarrow> 't \<Rightarrow> nif_error + modifier_policy" where
  "modifier_policy_decode env t =
     (case decode_atom env t of
        Inr atom \<Rightarrow>
          if atom = atom_named env ''per_buffer'' then Ok PerBuffer
          else if atom = atom_named env ''implicit'' then Ok Policy_ModImplicit
          else Err BadArg
      | Inl _ \<Rightarrow> map_ok Policy_ModExplicit (decode_u64 env t))"

fun modifier_policy_encode :: "('t, 'a, 'z) nif_env_scheme \<Rightarrow> modifier_policy \<Rightarrow> 't" where
  "modifier_policy_encode env PerBuffer = encode_atom env (atom_named env ''per_buffer'')"
| "modifier_policy_encode env Policy_ModImplicit = encode_atom env (atom_named env ''implicit'')"
| "modifier_policy_encode env (Policy_ModExplicit value) = encode_u64 env value"

definition modifier_decode ::
  "('t, 'a, 'z) nif_env_scheme \<Rightarrow> 't \<Rightarrow> nif_error + modifier" where
  "modifier_decode env t =
     (case decode_atom env t of
        Inr atom \<Rightarrow> if atom = atom_named env ''implicit'' then Ok Implicit else Err BadArg
      | Inl _ \<Rightarrow> map_ok Explicit (decode_u64 env t))"

fun modifier_encode :: "('t, 'a, 'z) nif_env_scheme \<Rightarrow> modifier \<Rightarrow> 't" where
  "modifier_encode env Implicit = encode_atom env (atom_named env ''implicit'')"
| "modifier_encode env (Explicit value) = encode_u64 env value"

text \<open>
  \<open>StorageFormat\<close> tries the DMA-BUF struct first and the binary struct next; the two
  derived decoders are Rustler's and stay parameters.
\<close>

definition storage_format_decode ::
  "('t \<Rightarrow> nif_error + dmabuf_format) \<Rightarrow> ('t \<Rightarrow> nif_error + binary_format) \<Rightarrow>
   't \<Rightarrow> nif_error + storage_format" where
  "storage_format_decode decode_dmabuf decode_binary t =
     (case decode_dmabuf t of
        Inr fmt \<Rightarrow> Ok (Format_DmaBuf fmt)
      | Inl _ \<Rightarrow> map_ok Format_Binary (decode_binary t))"

fun storage_format_encode ::
  "(dmabuf_format \<Rightarrow> 't) \<Rightarrow> (binary_format \<Rightarrow> 't) \<Rightarrow> storage_format \<Rightarrow> 't" where
  "storage_format_encode encode_dmabuf encode_binary (Format_Binary fmt) = encode_binary fmt"
| "storage_format_encode encode_dmabuf encode_binary (Format_DmaBuf fmt) = encode_dmabuf fmt"

lemma atom_named_eq [simp]:
  "nif_laws env \<Longrightarrow> atom_named env s = atom_named env s' \<longleftrightarrow> s = s'"
  by (auto simp: nif_laws_def inj_eq)

lemma nif_decode_encode [simp]:
  assumes "nif_laws env"
  shows "decode_atom env (encode_atom env a) = Ok a"
    and "decode_u64 env (encode_u64 env n) = Ok n"
  using assms by (simp_all add: nif_laws_def)

lemma nif_atom_of_integer [simp]:
  assumes "nif_laws env"
  shows "decode_atom env (encode_u64 env n) \<noteq> Ok a"
proof
  assume "decode_atom env (encode_u64 env n) = Ok a"
  then have "is_ok (decode_atom env (encode_u64 env n))" by simp
  with assms show False unfolding nif_laws_def by blast
qed

lemma modifier_policy_decode_encode:
  "nif_laws env \<Longrightarrow> modifier_policy_decode env (modifier_policy_encode env p) = Ok p"
  by (cases p) (auto simp: modifier_policy_decode_def split: sum.splits)

lemma modifier_decode_encode:
  "nif_laws env \<Longrightarrow> modifier_decode env (modifier_encode env m) = Ok m"
  by (cases m) (auto simp: modifier_decode_def split: sum.splits)

text \<open>A small term model that satisfies the laws: terms are atoms or integers.\<close>

definition atom_or_integer :: "(string + u64, string) nif_env" where
  "atom_or_integer =
     \<lparr>decode_atom = (\<lambda>t. case t of Inl a \<Rightarrow> Ok a | Inr _ \<Rightarrow> Err BadArg),
      decode_u64 = (\<lambda>t. case t of Inl _ \<Rightarrow> Err BadArg | Inr n \<Rightarrow> Ok n),
      encode_atom = Inl, encode_u64 = Inr, atom_named = (\<lambda>s. s)\<rparr>"

lemma nif_laws_atom_or_integer: "nif_laws atom_or_integer"
  by (simp add: nif_laws_def atom_or_integer_def)

section \<open>Properties\<close>

text \<open>C39: \<open>Format::validate\<close> accepts exactly the formats of the schema: positive size, framerate
  and pixel aspect ratio, a fourcc for DMA-BUF storage, a polarity for one-bit storage and only
  there, and for binary storage implicit synchronisation and opaque alpha unless the pixels carry
  an alpha channel.\<close>

theorem format_validate_iff_ok: "format_validate f = Ok () \<longleftrightarrow> format_ok f"
  by (rule format_validate_Ok_iff_ok)

text \<open>C40: the hand-written term codecs round-trip: a decoded encoding of a modifier policy or of
  a modifier is the value encoded, so no explicit modifier is read back as an atom or the
  converse.\<close>

theorem modifier_codecs_round_trip:
  assumes "nif_laws env"
  shows "modifier_policy_decode env (modifier_policy_encode env p) = Ok p \<and>
     modifier_decode env (modifier_encode env m) = Ok m"
  using assms by (simp add: modifier_policy_decode_encode modifier_decode_encode)

lemma modifier_codecs_round_trip_witness:
  "modifier_policy_decode atom_or_integer (modifier_policy_encode atom_or_integer (Policy_ModExplicit 7))
     = Ok (Policy_ModExplicit 7) \<and>
   modifier_decode atom_or_integer (modifier_encode atom_or_integer Implicit) = Ok Implicit"
  by (rule modifier_codecs_round_trip [OF nif_laws_atom_or_integer])

end
