(* ===== verification/DmaBuf.thy ===== *)
theory DmaBuf
  imports Fd_Table Format_Schema
begin

text \<open>
  \<open>dmabuf.rs\<close> and \<open>vulkan/identity.rs\<close>: the DMA-BUF descriptor, its validation, its
  duplication into owned descriptors, its bounded term decoder, and the probe that reads the
  allocation size of a descriptor. \<open>descriptor_ok\<close> is the specification of the
  validation; the duplication is stated over the interface \<open>fd_duplicator\<close>.
\<close>

section \<open>Data\<close>

definition av_drm_max_entries :: usize where
  "av_drm_max_entries = 4"

record dmabuf_object =
  obj_fd :: i32
  obj_size :: u64
  obj_modifier :: modifier

record dmabuf_plane =
  pl_object_index :: u32
  pl_offset :: u64
  pl_pitch :: u32

record dmabuf_layer =
  ly_fourcc :: u32
  ly_planes :: "dmabuf_plane list"

record descriptor =
  ds_version :: u32
  ds_objects :: "dmabuf_object list"
  ds_layers :: "dmabuf_layer list"

text \<open>An owned object holds an owned descriptor number; the other fields are copied.\<close>

record owned_object =
  oobj_fd :: i32
  oobj_size :: u64
  oobj_modifier :: modifier

record owned_descriptor =
  od_version :: u32
  od_objects :: "owned_object list"
  od_layers :: "dmabuf_layer list"

section \<open>Validation\<close>

text \<open>The loops of \<open>Descriptor::validate\<close>, each with the index \<open>enumerate\<close> counts.\<close>

fun check_objects :: "usize \<Rightarrow> dmabuf_object list \<Rightarrow> validation_error + unit" where
  "check_objects index [] = Ok ()"
| "check_objects index (obj # rest) =
     (if is_negative (obj_fd obj) then Err (NegativeFd index (obj_fd obj))
      else if obj_size obj = 0 then Err (ZeroObjectSize index)
      else check_objects (Suc index) rest)"

fun check_planes ::
  "dmabuf_object list \<Rightarrow> usize \<Rightarrow> usize \<Rightarrow> dmabuf_plane list \<Rightarrow> validation_error + unit" where
  "check_planes objects layer_index plane_index [] = Ok ()"
| "check_planes objects layer_index plane_index (plane # rest) =
     (if pl_pitch plane = 0 then Err (ZeroPitch layer_index plane_index)
      else if length objects \<le> unat (pl_object_index plane)
      then Err (InvalidObjectIndex layer_index plane_index (pl_object_index plane)
             (length objects))
      else if obj_size (objects ! unat (pl_object_index plane)) \<le> pl_offset plane
      then Err (PlaneOffsetOutOfBounds layer_index plane_index (pl_object_index plane)
             (pl_offset plane) (obj_size (objects ! unat (pl_object_index plane))))
      else check_planes objects layer_index (Suc plane_index) rest)"

fun check_layers ::
  "dmabuf_object list \<Rightarrow> usize \<Rightarrow> dmabuf_layer list \<Rightarrow> validation_error + unit" where
  "check_layers objects layer_index [] = Ok ()"
| "check_layers objects layer_index (layer # rest) =
     (if ly_fourcc layer = 0 then Err (InvalidFourcc layer_index)
      else if ly_planes layer = [] then Err (EmptyPlanes layer_index)
      else if av_drm_max_entries < length (ly_planes layer)
      then Err (TooManyEntries Entry_planes_in_one_layer (length (ly_planes layer))
             av_drm_max_entries)
      else result_bind (check_planes objects layer_index 0 (ly_planes layer))
        (\<lambda>_. check_layers objects (Suc layer_index) rest))"

definition all_planes :: "descriptor \<Rightarrow> dmabuf_plane list" where
  "all_planes d = concat (map ly_planes (ds_layers d))"

definition referenced_objects :: "descriptor \<Rightarrow> usize set" where
  "referenced_objects d = set (map (\<lambda>plane. unat (pl_object_index plane)) (all_planes d))"

definition descriptor_validate :: "descriptor \<Rightarrow> validation_error + unit" where
  "descriptor_validate d =
     (if ds_version d \<noteq> 1 then Err (UnsupportedDescriptorVersion (ds_version d))
      else if ds_objects d = [] then Err EmptyObjects
      else if av_drm_max_entries < length (ds_objects d)
      then Err (TooManyEntries Entry_objects (length (ds_objects d)) av_drm_max_entries)
      else if ds_layers d = [] then Err EmptyLayers
      else if av_drm_max_entries < length (ds_layers d)
      then Err (TooManyEntries Entry_layers (length (ds_layers d)) av_drm_max_entries)
      else result_bind (check_objects 0 (ds_objects d))
        (\<lambda>_. result_bind (check_layers (ds_objects d) 0 (ds_layers d))
        (\<lambda>_. let total_planes = sum_list (map (\<lambda>layer. length (ly_planes layer)) (ds_layers d)) in
          if av_drm_max_entries < total_planes
          then Err (TooManyPlanes total_planes av_drm_max_entries)
          else case find (\<lambda>index. index \<notin> referenced_objects d) [0..<length (ds_objects d)] of
              Some index \<Rightarrow> Err (UnreferencedObject index)
            | None \<Rightarrow> Ok ())))"

text \<open>The specification: what a validated descriptor satisfies.\<close>

definition object_ok :: "dmabuf_object \<Rightarrow> bool" where
  "object_ok obj \<longleftrightarrow> 0 \<le> sint (obj_fd obj) \<and> obj_size obj \<noteq> 0"

definition plane_ok :: "dmabuf_object list \<Rightarrow> dmabuf_plane \<Rightarrow> bool" where
  "plane_ok objects plane \<longleftrightarrow>
     pl_pitch plane \<noteq> 0 \<and> unat (pl_object_index plane) < length objects \<and>
     unat (pl_offset plane) < unat (obj_size (objects ! unat (pl_object_index plane)))"

definition descriptor_ok :: "descriptor \<Rightarrow> bool" where
  "descriptor_ok d \<longleftrightarrow>
     ds_version d = 1 \<and>
     ds_objects d \<noteq> [] \<and> length (ds_objects d) \<le> 4 \<and> ds_layers d \<noteq> [] \<and>
     (\<forall>obj \<in> set (ds_objects d). object_ok obj) \<and>
     (\<forall>layer \<in> set (ds_layers d). ly_fourcc layer \<noteq> 0 \<and> ly_planes layer \<noteq> []) \<and>
     length (all_planes d) \<le> 4 \<and>
     (\<forall>plane \<in> set (all_planes d). plane_ok (ds_objects d) plane) \<and>
     (\<forall>index < length (ds_objects d).
        \<exists>plane \<in> set (all_planes d). unat (pl_object_index plane) = index)"

lemma check_objects_Ok_iff:
  "check_objects index objects = Ok u \<longleftrightarrow> (\<forall>obj \<in> set objects. object_ok obj)"
  by (induction objects arbitrary: index) (auto simp: object_ok_def is_negative_def)

lemma check_planes_Ok_iff:
  "check_planes objects l p planes = Ok u \<longleftrightarrow> (\<forall>plane \<in> set planes. plane_ok objects plane)"
  by (induction planes arbitrary: p) (auto simp: plane_ok_def word_le_nat_alt)

lemma check_layers_Ok_iff:
  "check_layers objects l layers = Ok u \<longleftrightarrow>
     (\<forall>layer \<in> set layers. ly_fourcc layer \<noteq> 0 \<and> ly_planes layer \<noteq> [] \<and>
        length (ly_planes layer) \<le> 4 \<and> (\<forall>plane \<in> set (ly_planes layer). plane_ok objects plane))"
  by (induction layers arbitrary: l)
    (auto simp: rust_result check_planes_Ok_iff av_drm_max_entries_def)

lemma length_all_planes:
  "length (all_planes d) = sum_list (map (\<lambda>layer. length (ly_planes layer)) (ds_layers d))"
  by (simp add: all_planes_def length_concat comp_def)

lemma layer_planes_le_total:
  assumes "layer \<in> set (ds_layers d)"
  shows "length (ly_planes layer) \<le> length (all_planes d)"
  unfolding length_all_planes using assms by (intro member_le_sum_list) simp_all

lemma nonempty_layers_le_planes:
  assumes "\<forall>layer \<in> set layers. ly_planes layer \<noteq> []"
  shows "length layers \<le> length (concat (map ly_planes layers))"
  using assms
proof (induction layers)
  case (Cons layer layers)
  then have "length (ly_planes layer) \<noteq> 0" by simp
  then have "1 \<le> length (ly_planes layer)" by linarith
  with Cons show ?case by simp
qed simp

lemma unreferenced_None_iff:
  "find (\<lambda>index. index \<notin> referenced_objects d) [0..<n] = None \<longleftrightarrow>
     (\<forall>index < n. \<exists>plane \<in> set (all_planes d). unat (pl_object_index plane) = index)"
  by (auto simp: find_None_iff referenced_objects_def)

lemma descriptor_validate_Ok_iff_ok: "descriptor_validate d = Ok u \<longleftrightarrow> descriptor_ok d"
proof -
  let ?layers = "\<forall>layer \<in> set (ds_layers d). ly_fourcc layer \<noteq> 0 \<and> ly_planes layer \<noteq> [] \<and>
        length (ly_planes layer) \<le> 4 \<and>
        (\<forall>plane \<in> set (ly_planes layer). plane_ok (ds_objects d) plane)"
  let ?used = "\<forall>index < length (ds_objects d).
        \<exists>plane \<in> set (all_planes d). unat (pl_object_index plane) = index"
  have "descriptor_validate d = Ok u \<longleftrightarrow>
      ds_version d = 1 \<and> ds_objects d \<noteq> [] \<and> length (ds_objects d) \<le> 4 \<and>
      ds_layers d \<noteq> [] \<and> length (ds_layers d) \<le> 4 \<and>
      (\<forall>obj \<in> set (ds_objects d). object_ok obj) \<and> ?layers \<and>
      length (all_planes d) \<le> 4 \<and> ?used"
    unfolding descriptor_validate_def length_all_planes [symmetric] Let_def
      unreferenced_None_iff [symmetric]
    by (auto simp: rust_result check_objects_Ok_iff check_layers_Ok_iff av_drm_max_entries_def
        split: option.splits)
  moreover have "?layers \<and> length (all_planes d) \<le> 4 \<longleftrightarrow>
      (\<forall>layer \<in> set (ds_layers d). ly_fourcc layer \<noteq> 0 \<and> ly_planes layer \<noteq> []) \<and>
      length (all_planes d) \<le> 4 \<and>
      (\<forall>plane \<in> set (all_planes d). plane_ok (ds_objects d) plane)"
    using layer_planes_le_total [of _ d] by (fastforce simp: all_planes_def)
  moreover have "(\<forall>layer \<in> set (ds_layers d). ly_planes layer \<noteq> []) \<and>
      length (all_planes d) \<le> 4 \<Longrightarrow> length (ds_layers d) \<le> 4"
    using nonempty_layers_le_planes [of "ds_layers d"] by (simp add: all_planes_def)
  ultimately show ?thesis
    unfolding descriptor_ok_def by metis
qed

section \<open>Duplication\<close>

text \<open>
  \<open>collect::<Result<Vec<_>, _>>\<close> stops at the first error and drops the owned objects
  collected so far, which closes their descriptors.
\<close>

fun duplicate_objects ::
  "(i32 \<Rightarrow> 'os \<Rightarrow> ('io + i32) \<times> 'os) \<Rightarrow> (i32 \<Rightarrow> 'os \<Rightarrow> 'os) \<Rightarrow> usize \<Rightarrow> dmabuf_object list \<Rightarrow>
   owned_object list \<Rightarrow> 'os \<Rightarrow> ('io duplicate_error + owned_object list) \<times> 'os" where
  "duplicate_objects duplicate close index [] collected s = (Ok collected, s)"
| "duplicate_objects duplicate close index (obj # rest) collected s =
     (case duplicate (obj_fd obj) s of
        (Inl source, s') \<Rightarrow>
          (Err (DuplicateObjectFd index (obj_fd obj) source),
           close_all close (map oobj_fd collected) s')
      | (Inr fd, s') \<Rightarrow>
          duplicate_objects duplicate close (Suc index) rest
            (collected @ [\<lparr>oobj_fd = fd, oobj_size = obj_size obj,
               oobj_modifier = obj_modifier obj\<rparr>]) s')"

definition descriptor_duplicate_with ::
  "(i32 \<Rightarrow> 'os \<Rightarrow> ('io + i32) \<times> 'os) \<Rightarrow> (i32 \<Rightarrow> 'os \<Rightarrow> 'os) \<Rightarrow> descriptor \<Rightarrow> 'os \<Rightarrow>
   ('io duplicate_error + owned_descriptor) \<times> 'os" where
  "descriptor_duplicate_with duplicate close d s =
     (case map_err InvalidFrame (descriptor_validate d) of
        Inl e \<Rightarrow> (Err e, s)
      | Inr _ \<Rightarrow>
          (case duplicate_objects duplicate close 0 (ds_objects d) [] s of
             (Inl e, s') \<Rightarrow> (Err e, s')
           | (Inr objects, s') \<Rightarrow>
               (Ok \<lparr>od_version = ds_version d, od_objects = objects, od_layers = ds_layers d\<rparr>,
                s')))"

definition descriptor_duplicate_cloexec ::
  "(i32 \<Rightarrow> 'os \<Rightarrow> i32 \<times> 'os) \<Rightarrow> ('os \<Rightarrow> 'io) \<Rightarrow> (i32 \<Rightarrow> 'os \<Rightarrow> 'os) \<Rightarrow> descriptor \<Rightarrow> 'os \<Rightarrow>
   ('io duplicate_error + owned_descriptor) \<times> 'os" where
  "descriptor_duplicate_cloexec fcntl last_os_error close =
     descriptor_duplicate_with (duplicate_fd_cloexec fcntl last_os_error) close"

text \<open>The descriptors an owned value holds, in the order its drop closes them.\<close>

definition owned_fds :: "owned_descriptor \<Rightarrow> i32 list" where
  "owned_fds d = map oobj_fd (od_objects d)"

definition copies_object :: "dmabuf_object \<Rightarrow> owned_object \<Rightarrow> bool" where
  "copies_object obj owned \<longleftrightarrow>
     oobj_size owned = obj_size obj \<and> oobj_modifier owned = obj_modifier obj"

context fd_duplicator begin

lemma duplicate_objects_Ok:
  assumes "duplicate_objects duplicate close index objs collected s = (Ok owned, s')"
    and "distinct (map oobj_fd collected)" and "set (map oobj_fd collected) \<subseteq> open_fds s"
  shows "\<exists>fresh. owned = collected @ fresh \<and> list_all2 copies_object objs fresh \<and>
     distinct (map oobj_fd owned) \<and> set (map oobj_fd fresh) \<inter> open_fds s = {} \<and>
     open_fds s' = open_fds s \<union> set (map oobj_fd fresh)"
  using assms
proof (induction objs arbitrary: index collected s)
  case (Cons obj rest)
  then obtain fd s1 where dup: "duplicate (obj_fd obj) s = (Ok fd, s1)"
    and go: "duplicate_objects duplicate close (Suc index) rest
      (collected @ [\<lparr>oobj_fd = fd, oobj_size = obj_size obj, oobj_modifier = obj_modifier obj\<rparr>]) s1
      = (Ok owned, s')"
    by (auto split: prod.splits sum.splits)
  note fresh = duplicate_fresh [OF dup] and opens = duplicate_opens [OF dup]
  let ?new = "\<lparr>oobj_fd = fd, oobj_size = obj_size obj, oobj_modifier = obj_modifier obj\<rparr>"
  have "\<exists>more. owned = (collected @ [?new]) @ more \<and> list_all2 copies_object rest more \<and>
      distinct (map oobj_fd owned) \<and> set (map oobj_fd more) \<inter> open_fds s1 = {} \<and>
      open_fds s' = open_fds s1 \<union> set (map oobj_fd more)"
    using Cons.prems(2,3) fresh opens by (intro Cons.IH [OF go]) auto
  then obtain more where more: "owned = collected @ ?new # more"
    "list_all2 copies_object rest more" "distinct (map oobj_fd owned)"
    "set (map oobj_fd more) \<inter> open_fds s1 = {}"
    "open_fds s' = open_fds s1 \<union> set (map oobj_fd more)"
    by auto
  show ?case
  proof (intro exI conjI)
    show "owned = collected @ (?new # more)" by (fact more(1))
    show "list_all2 copies_object (obj # rest) (?new # more)"
      using more(2) by (simp add: copies_object_def)
  qed (use more(3-5) fresh opens in auto)
qed auto

lemma duplicate_objects_Err:
  assumes "duplicate_objects duplicate close index objs collected s = (Err e, s')"
  shows "open_fds s' = open_fds s - set (map oobj_fd collected)"
  using assms
proof (induction objs arbitrary: index collected s)
  case (Cons obj rest)
  obtain r s1 where dup: "duplicate (obj_fd obj) s = (r, s1)" by (cases "duplicate (obj_fd obj) s")
  show ?case
  proof (cases r)
    case (Inl source)
    note dup = dup [unfolded Inl]
    have "s' = close_all close (map oobj_fd collected) s1"
      using Cons.prems dup by simp
    then show ?thesis
      by (simp only: close_all_open duplicate_fails [OF dup])
  next
    case (Inr fd)
    note dup = dup [unfolded Inr]
    have "open_fds s' = open_fds s1 - set (map oobj_fd
        (collected @ [\<lparr>oobj_fd = fd, oobj_size = obj_size obj, oobj_modifier = obj_modifier obj\<rparr>]))"
      using Cons.prems dup by (intro Cons.IH [of "Suc index"]) simp
    then show ?thesis
      using duplicate_opens [OF dup] duplicate_fresh [OF dup] by auto
  qed
qed simp

lemma descriptor_duplicate_Ok:
  assumes "descriptor_duplicate_with duplicate close d s = (Ok owned, s')"
  shows "descriptor_ok d \<and> od_layers owned = ds_layers d \<and> od_version owned = ds_version d \<and>
     list_all2 copies_object (ds_objects d) (od_objects owned) \<and>
     distinct (owned_fds owned) \<and> set (owned_fds owned) \<inter> open_fds s = {} \<and>
     open_fds s' = open_fds s \<union> set (owned_fds owned)"
proof -
  from assms obtain objects u where "descriptor_validate d = Ok u"
    and dup: "duplicate_objects duplicate close 0 (ds_objects d) [] s = (Ok objects, s')"
    and owned: "owned = \<lparr>od_version = ds_version d, od_objects = objects, od_layers = ds_layers d\<rparr>"
    by (auto simp: descriptor_duplicate_with_def map_err_Inr split: sum.splits prod.splits)
  then have "descriptor_ok d"
    by (simp add: descriptor_validate_Ok_iff_ok)
  with duplicate_objects_Ok [OF dup] owned show ?thesis
    by (auto simp: owned_fds_def)
qed

lemma descriptor_duplicate_Err:
  assumes "descriptor_duplicate_with duplicate close d s = (Err e, s')"
  shows "open_fds s' = open_fds s"
  using assms
  by (auto simp: descriptor_duplicate_with_def dest: duplicate_objects_Err
      split: sum.splits prod.splits)

text \<open>Dropping the owned descriptor undoes the duplication.\<close>

lemma duplicate_then_drop:
  assumes "descriptor_duplicate_with duplicate close d s = (Ok owned, s')"
  shows "open_fds (close_all close (owned_fds owned) s') = open_fds s"
  using descriptor_duplicate_Ok [OF assms] by (auto simp: close_all_open)

end

section \<open>The bounded term decoder\<close>

record ('t, 'a) term_env = "('t, 'a) nif_env" +
  decode_u32 :: "'t \<Rightarrow> nif_error + u32"
  map_get :: "'t \<Rightarrow> 'a \<Rightarrow> nif_error + 't"
  list_items :: "'t \<Rightarrow> nif_error + 't list"
  atom_from_str :: "string \<Rightarrow> nif_error + 'a"

text \<open>
  The loop stops with \<open>BadArg\<close> at the first element past the fourth, before decoding it.
  \<open>list_items\<close> is the sequence Rustler's \<open>ListIterator\<close> yields.
\<close>

fun decode_items ::
  "('t \<Rightarrow> nif_error + 'x) \<Rightarrow> 'x list \<Rightarrow> 't list \<Rightarrow> nif_error + 'x list" where
  "decode_items decode values [] = Ok values"
| "decode_items decode values (item # rest) =
     (if length values = av_drm_max_entries then Err BadArg
      else result_bind (decode item) (\<lambda>v. decode_items decode (values @ [v]) rest))"

definition decode_bounded_list ::
  "('t, 'a, 'z) term_env_scheme \<Rightarrow> ('t \<Rightarrow> nif_error + 'x) \<Rightarrow> 't \<Rightarrow> nif_error + 'x list" where
  "decode_bounded_list env decode t =
     result_bind (list_items env t) (\<lambda>items. decode_items decode [] items)"

definition ensure_struct ::
  "('t, 'a, 'z) term_env_scheme \<Rightarrow> 't \<Rightarrow> string \<Rightarrow> nif_error + unit" where
  "ensure_struct env t module =
     result_bind (map_get env t (atom_named env ''__struct__''))
       (\<lambda>field. result_bind (decode_atom env field)
       (\<lambda>actual. result_bind (atom_from_str env module)
       (\<lambda>expected. if actual = expected then Ok () else Err BadArg)))"

definition layer_decode ::
  "('t, 'a, 'z) term_env_scheme \<Rightarrow> ('t \<Rightarrow> nif_error + dmabuf_plane) \<Rightarrow> 't \<Rightarrow>
   nif_error + dmabuf_layer" where
  "layer_decode env decode_plane t =
     result_bind (ensure_struct env t ''Elixir.VideoInterop.DMABuf.Layer'')
       (\<lambda>_. result_bind (map_get env t (atom_named env ''fourcc''))
       (\<lambda>field. result_bind (decode_u32 env field)
       (\<lambda>fourcc. result_bind (map_get env t (atom_named env ''planes''))
       (\<lambda>field. result_bind (decode_bounded_list env decode_plane field)
       (\<lambda>planes. Ok \<lparr>ly_fourcc = fourcc, ly_planes = planes\<rparr>)))))"

definition descriptor_decode ::
  "('t, 'a, 'z) term_env_scheme \<Rightarrow> ('t \<Rightarrow> nif_error + dmabuf_object) \<Rightarrow>
   ('t \<Rightarrow> nif_error + dmabuf_plane) \<Rightarrow> 't \<Rightarrow> nif_error + descriptor" where
  "descriptor_decode env decode_object decode_plane t =
     result_bind (ensure_struct env t ''Elixir.VideoInterop.DMABuf.Descriptor'')
       (\<lambda>_. result_bind (map_get env t (atom_named env ''version''))
       (\<lambda>field. result_bind (decode_u32 env field)
       (\<lambda>version. result_bind (map_get env t (atom_named env ''objects''))
       (\<lambda>field. result_bind (decode_bounded_list env decode_object field)
       (\<lambda>objects. result_bind (map_get env t (atom_named env ''layers''))
       (\<lambda>field. result_bind (decode_bounded_list env (layer_decode env decode_plane) field)
       (\<lambda>layers. Ok \<lparr>ds_version = version, ds_objects = objects, ds_layers = layers\<rparr>)))))))"

lemma decode_items_Ok_iff:
  assumes "length acc \<le> 4"
  shows "decode_items decode acc items = Ok vals \<longleftrightarrow>
     length acc + length items \<le> 4 \<and>
     (\<exists>new. vals = acc @ new \<and> list_all2 (\<lambda>item v. decode item = Ok v) items new)"
  using assms
proof (induction items arbitrary: acc)
  case (Cons item rest)
  show ?case
  proof (cases "length acc = 4")
    case False
    with Cons.prems have "length acc < 4" by simp
    then have IH: "decode_items decode (acc @ [v]) rest = Ok vals \<longleftrightarrow>
        Suc (length acc) + length rest \<le> 4 \<and>
        (\<exists>new. vals = acc @ v # new \<and> list_all2 (\<lambda>item v. decode item = Ok v) rest new)" for v
      using Cons.IH [of "acc @ [v]"] by simp
    show ?thesis
      using False by (auto simp: av_drm_max_entries_def rust_result IH list_all2_Cons1)
  qed (simp add: av_drm_max_entries_def)
qed auto

text \<open>Only the first four items are ever decoded: a fifth fails whatever the decoder does.\<close>

lemma decode_items_bounded:
  assumes "\<forall>item \<in> set (take (4 - length acc) items). decode item = decode' item"
    and "length acc \<le> 4"
  shows "decode_items decode acc items = decode_items decode' acc items"
  using assms
proof (induction items arbitrary: acc)
  case (Cons item rest)
  show ?case
  proof (cases "length acc = 4")
    case False
    with Cons.prems(2) obtain k where k: "4 - length acc = Suc k" "k = 4 - Suc (length acc)"
      by (cases "4 - length acc") auto
    have "decode_items decode (acc @ [v]) rest = decode_items decode' (acc @ [v]) rest" for v
      using False Cons.prems k by (intro Cons.IH) simp_all
    moreover have "decode item = decode' item"
      using Cons.prems(1) k by simp
    ultimately show ?thesis by simp
  qed (simp add: av_drm_max_entries_def)
qed simp

lemma decode_bounded_list_length:
  "decode_bounded_list env decode t = Ok vals \<Longrightarrow> length vals \<le> 4"
  by (auto simp: decode_bounded_list_def rust_result decode_items_Ok_iff list_all2_lengthD)

lemma descriptor_decode_bounded:
  assumes "descriptor_decode env decode_object decode_plane t = Ok d"
  shows "length (ds_objects d) \<le> 4 \<and> length (ds_layers d) \<le> 4 \<and>
     (\<forall>layer \<in> set (ds_layers d). length (ly_planes layer) \<le> 4)"
proof -
  have layer: "length (ly_planes layer) \<le> 4" if "layer_decode env decode_plane u = Ok layer"
    for u layer
    using that by (auto simp: layer_decode_def rust_result dest: decode_bounded_list_length)
  have layers: "length layers \<le> 4 \<and> (\<forall>layer \<in> set layers. length (ly_planes layer) \<le> 4)"
    if "decode_bounded_list env (layer_decode env decode_plane) u = Ok layers" for u layers
  proof -
    have "\<exists>items. list_all2 (\<lambda>item l. layer_decode env decode_plane item = Ok l) items layers"
      using that by (auto simp: decode_bounded_list_def rust_result decode_items_Ok_iff)
    then have "\<forall>l \<in> set layers. \<exists>item. layer_decode env decode_plane item = Ok l"
      by (blast dest: list_all2_preimage)
    then show ?thesis
      using decode_bounded_list_length [OF that] layer by blast
  qed
  show ?thesis
    using assms layers
    by (auto simp: descriptor_decode_def rust_result dest: decode_bounded_list_length)
qed

section \<open>The allocation-size probe\<close>

datatype whence = SEEK_SET | SEEK_CUR | SEEK_END

record stat_buf =
  st_dev :: u64
  st_ino :: u64
  st_size :: i64

record dmabuf_probe =
  probe_device :: u64
  probe_inode :: u64
  probe_allocation_size :: u64

text \<open>
  The result of a probe whose two seeks succeeded. A non-negative \<open>off64_t\<close> and the
  \<open>u64\<close> it converts to are the same word.
\<close>

definition probe_result :: "stat_buf \<Rightarrow> i64 \<Rightarrow> 'io allocation_size_error + dmabuf_probe" where
  "probe_result st allocation_size =
     (let probe = \<lparr>probe_device = st_dev st, probe_inode = st_ino st,
                   probe_allocation_size = allocation_size\<rparr> in
      if allocation_size = 0 then Err Zero_size
      else if is_negative (st_size st) then Err (NegativeStat (st_size st))
      else if st_size st \<noteq> 0 \<and> st_size st \<noteq> allocation_size
      then Err (ProbeMismatch (st_size st) allocation_size)
      else Ok probe)"

definition probe_dmabuf ::
  "(i32 \<Rightarrow> 's \<Rightarrow> i32 \<times> stat_buf \<times> 's) \<Rightarrow> (i32 \<Rightarrow> i64 \<Rightarrow> whence \<Rightarrow> 's \<Rightarrow> i64 \<times> 's) \<Rightarrow>
   ('s \<Rightarrow> 'io) \<Rightarrow> i32 \<Rightarrow> 's \<Rightarrow> ('io allocation_size_error + dmabuf_probe) \<times> 's" where
  "probe_dmabuf fstat lseek last_os_error fd s =
     (case fstat fd s of (rc, st, s1) \<Rightarrow>
        if rc \<noteq> 0 then (Err (Stat_failed (last_os_error s1)), s1)
        else case lseek fd 0 SEEK_CUR s1 of (original_position, s2) \<Rightarrow>
             case lseek fd 0 SEEK_END s2 of (allocation_end, s3) \<Rightarrow>
             (let seek_error =
                 (if is_negative allocation_end then Some (last_os_error s3) else None) in
              case (if is_negative original_position then (0, s3)
                    else lseek fd original_position SEEK_SET s3) of (restored, s4) \<Rightarrow>
                if is_negative restored then (Err (Restore_failed (last_os_error s4)), s4)
                else case seek_error of
                    Some e \<Rightarrow> (Err (Seek_failed e), s4)
                  | None \<Rightarrow> (probe_result st allocation_end, s4)))"

definition dmabuf_allocation_size ::
  "(i32 \<Rightarrow> 's \<Rightarrow> i32 \<times> stat_buf \<times> 's) \<Rightarrow> (i32 \<Rightarrow> i64 \<Rightarrow> whence \<Rightarrow> 's \<Rightarrow> i64 \<times> 's) \<Rightarrow>
   ('s \<Rightarrow> 'io) \<Rightarrow> i32 \<Rightarrow> 's \<Rightarrow> ('io allocation_size_error + u64) \<times> 's" where
  "dmabuf_allocation_size fstat lseek last_os_error fd s =
     (case probe_dmabuf fstat lseek last_os_error fd s of
        (r, s') \<Rightarrow> (map_ok probe_allocation_size r, s'))"

text \<open>
  \<open>vulkan/identity.rs\<close>: the identity of an allocation is its device, inode and size,
  and the size the descriptor declares must be the one the descriptor exposes.
\<close>

record dmabuf_identity =
  id_device :: u64
  id_inode :: u64
  id_allocation_size :: u64

datatype 'io identity_message =
    Identity_requires_valid_fd
  | Identity_probe_failed "'io allocation_size_error"

definition verified_dmabuf_identity ::
  "(i32 \<Rightarrow> 's \<Rightarrow> ('io allocation_size_error + dmabuf_probe) \<times> 's) \<Rightarrow> i32 \<Rightarrow> u64 \<Rightarrow> 's \<Rightarrow>
   ('io identity_message vulkan_import_error + dmabuf_identity) \<times> 's" where
  "verified_dmabuf_identity probe source_fd declared_size s =
     (if is_negative source_fd then (Err (AllocationSizeProbe Identity_requires_valid_fd), s)
      else case probe source_fd s of
          (Inl e, s') \<Rightarrow> (Err (AllocationSizeProbe (Identity_probe_failed e)), s')
        | (Inr observed, s') \<Rightarrow>
            if declared_size \<noteq> probe_allocation_size observed
            then (Err (AllocationSizeMismatch declared_size (probe_allocation_size observed)), s')
            else (Ok \<lparr>id_device = probe_device observed, id_inode = probe_inode observed,
                      id_allocation_size = probe_allocation_size observed\<rparr>, s'))"

text \<open>
  What \<open>lseek\<close> documents of the file offset that duplicated descriptors share: a failed
  call leaves it, \<open>SEEK_CUR\<close> by 0 reports it, \<open>SEEK_SET\<close> sets it.
\<close>

definition seek_laws :: "(i32 \<Rightarrow> i64 \<Rightarrow> whence \<Rightarrow> 's \<Rightarrow> i64 \<times> 's) \<Rightarrow> (i32 \<Rightarrow> 's \<Rightarrow> i64) \<Rightarrow> i32 \<Rightarrow> bool" where
  "seek_laws lseek offset fd \<longleftrightarrow>
     (\<forall>s p w. is_negative (fst (lseek fd p w s)) \<longrightarrow> offset fd (snd (lseek fd p w s)) = offset fd s) \<and>
     (\<forall>s. \<not> is_negative (fst (lseek fd 0 SEEK_CUR s)) \<longrightarrow>
        fst (lseek fd 0 SEEK_CUR s) = offset fd s \<and>
        offset fd (snd (lseek fd 0 SEEK_CUR s)) = offset fd s) \<and>
     (\<forall>s p. \<not> is_negative (fst (lseek fd p SEEK_SET s)) \<longrightarrow>
        offset fd (snd (lseek fd p SEEK_SET s)) = p)"

lemma probe_restores_offset:
  assumes laws: "seek_laws lseek offset fd"
    and stat: "\<And>s. offset fd (snd (snd (fstat fd s))) = offset fd s"
    and seekable: "\<And>s. \<not> is_negative (fst (lseek fd 0 SEEK_CUR s))"
    and run: "probe_dmabuf fstat lseek last_os_error fd s = (r, s')"
    and restored: "\<And>e. r \<noteq> Err (Restore_failed e)"
  shows "offset fd s' = offset fd s"
proof -
  obtain rc st s1 where fstat: "fstat fd s = (rc, st, s1)" by (cases "fstat fd s")
  obtain p s2 where cur: "lseek fd 0 SEEK_CUR s1 = (p, s2)" by (cases "lseek fd 0 SEEK_CUR s1")
  obtain allocation_end s3 where "end": "lseek fd 0 SEEK_END s2 = (allocation_end, s3)" by (cases "lseek fd 0 SEEK_END s2")
  obtain q s4 where set: "lseek fd p SEEK_SET s3 = (q, s4)" by (cases "lseek fd p SEEK_SET s3")
  have s1: "offset fd s1 = offset fd s" using stat [of s] fstat by simp
  have p: "\<not> is_negative p" "p = offset fd s1"
    using seekable [of s1] laws cur by (auto simp: seek_laws_def)
  show ?thesis
  proof (cases "rc \<noteq> 0")
    case True
    then show ?thesis using run fstat s1 by (simp add: probe_dmabuf_def)
  next
    case False
    then have "s' = s4" "\<not> is_negative q"
      using run fstat cur "end" set p restored
      by (auto simp: probe_dmabuf_def split: if_splits option.splits)
    moreover from this have "offset fd (snd (lseek fd p SEEK_SET s3)) = p"
      using laws set unfolding seek_laws_def by (metis fst_conv)
    ultimately show ?thesis
      using set p s1 by simp
  qed
qed

lemma probe_result_Ok_iff:
  "probe_result st n = Ok probe \<longleftrightarrow>
     n \<noteq> 0 \<and> (st_size st = 0 \<or> 0 < sint (st_size st) \<and> st_size st = n) \<and>
     probe = \<lparr>probe_device = st_dev st, probe_inode = st_ino st, probe_allocation_size = n\<rparr>"
proof -
  have "st_size st = 0 \<or> 0 < sint (st_size st) \<longleftrightarrow> \<not> is_negative (st_size st)"
    by (auto simp: is_negative_def) (metis linorder_neqE_linordered_idom sint_0 signed_word_eqI)
  then show ?thesis
    by (auto simp: probe_result_def Let_def split: if_splits)
qed

lemma verified_identity_Ok_iff:
  "verified_dmabuf_identity probe fd declared s = (Ok i, s') \<longleftrightarrow>
     \<not> is_negative fd \<and> (\<exists>observed. probe fd s = (Ok observed, s') \<and>
        probe_allocation_size observed = declared \<and>
        i = \<lparr>id_device = probe_device observed, id_inode = probe_inode observed,
             id_allocation_size = declared\<rparr>)"
  by (auto simp: verified_dmabuf_identity_def split: sum.splits prod.splits if_splits)

lemma verified_identity_error:
  "verified_dmabuf_identity probe fd declared s = (Err e, s') \<Longrightarrow> is_allocation_size e"
  by (auto simp: verified_dmabuf_identity_def split: sum.splits prod.splits if_splits)

section \<open>Properties\<close>

text \<open>C37: \<open>Descriptor::validate\<close> accepts exactly the descriptors of the schema: version 1, one
  to four objects with a valid descriptor number and a size, layers with a fourcc and planes, at
  most four planes in all, each plane inside an existing object, and every object used.\<close>

theorem descriptor_validate_iff_ok: "descriptor_validate d = Ok () \<longleftrightarrow> descriptor_ok d"
  by (rule descriptor_validate_Ok_iff_ok)

text \<open>Decoding a descriptor term looks at no more than the first four entries of each list: an
  accepted descriptor has at most four objects, four layers and four planes per layer, whatever
  the size of the term.\<close>

lemma descriptor_decode_is_bounded:
  "case descriptor_decode env decode_object decode_plane t of
     Inl e \<Rightarrow> True
   | Inr d \<Rightarrow> length (ds_objects d) \<le> 4 \<and> length (ds_layers d) \<le> 4 \<and>
       list_all (\<lambda>layer. length (ly_planes layer) \<le> 4) (ds_layers d)"
  using descriptor_decode_bounded [of env decode_object decode_plane t]
  by (simp add: list_all_iff split: sum.split)

text \<open>The allocation-size probe leaves the shared file offset where it was whenever the
  descriptor can report and restore it, and this also when seeking to the end failed.\<close>

lemma probe_keeps_file_offset:
  assumes "seek_laws lseek offset fd"
    and "\<forall>s. offset fd (snd (snd (fstat fd s))) = offset fd s"
    and "\<forall>s. \<not> is_negative (fst (lseek fd 0 SEEK_CUR s))"
    and "probe_dmabuf fstat lseek last_os_error fd s = (r, s')"
    and "\<forall>e. r \<noteq> Err (Restore_failed e)"
  shows "offset fd s' = offset fd s"
  using assms by (intro probe_restores_offset [of lseek offset fd fstat last_os_error s r]) auto

text \<open>A file of 4096 bytes whose state is its offset, at most 4 GiB.\<close>

definition file_offset :: "i32 \<Rightarrow> u32 \<Rightarrow> i64" where
  "file_offset fd position = u64_of_u32 position"

definition file_lseek :: "i32 \<Rightarrow> i64 \<Rightarrow> whence \<Rightarrow> u32 \<Rightarrow> i64 \<times> u32" where
  "file_lseek fd p w position =
     (let target = (case w of SEEK_SET \<Rightarrow> p | SEEK_CUR \<Rightarrow> u64_of_u32 position + p
                    | SEEK_END \<Rightarrow> 4096 + p) in
      case u32_try_from target of None \<Rightarrow> (- 1, position) | Some position' \<Rightarrow> (target, position'))"

definition file_fstat :: "i32 \<Rightarrow> u32 \<Rightarrow> i32 \<times> stat_buf \<times> u32" where
  "file_fstat fd position = (0, \<lparr>st_dev = 7, st_ino = 11, st_size = 4096\<rparr>, position)"

lemma is_negative_minus_1_64: "is_negative (- 1 :: i64)"
  by (simp add: is_negative_def)

lemma file_lseek_success:
  assumes "file_lseek fd p w s = (r, s')" and "\<not> is_negative r"
  shows "r = (case w of SEEK_SET \<Rightarrow> p | SEEK_CUR \<Rightarrow> u64_of_u32 s + p | SEEK_END \<Rightarrow> 4096 + p) \<and>
    unat s' = unat r"
  using assms is_negative_minus_1_64
  by (auto simp: file_lseek_def Let_def u32_try_from_Some split: option.splits)

lemma file_lseek_failure:
  assumes "file_lseek fd p w s = (r, s')" and "is_negative r"
  shows "s' = s"
  using assms small_not_negative [of r]
  by (auto simp: file_lseek_def Let_def u32_try_from_Some split: option.splits)

lemma file_seek_laws: "seek_laws file_lseek file_offset fd"
proof -
  have "s' = s" if "file_lseek fd p w s = (r, s')" "is_negative r" for p w s r s'
    using that by (rule file_lseek_failure)
  moreover have "r = file_offset fd s \<and> s' = s"
    if "file_lseek fd 0 SEEK_CUR s = (r, s')" "\<not> is_negative r" for s r s'
    using file_lseek_success [OF that] by (simp add: file_offset_def word_unat_eq_iff)
  moreover have "file_offset fd s' = p"
    if "file_lseek fd p SEEK_SET s = (r, s')" "\<not> is_negative r" for p s r s'
    using file_lseek_success [OF that] by (simp add: file_offset_def word_unat_eq_iff)
  ultimately show ?thesis
    unfolding seek_laws_def by (metis prod.collapse)
qed

lemma file_current_not_negative: "\<not> is_negative (fst (file_lseek fd 0 SEEK_CUR s))"
  using unat_u32_less [of s] by (simp add: file_lseek_def u32_try_from_def Let_def small_not_negative)

lemma probe_keeps_file_offset_witness:
  "probe_dmabuf file_fstat file_lseek (\<lambda>s. 5 :: nat) 9 100 =
     (Ok \<lparr>probe_device = 7, probe_inode = 11, probe_allocation_size = 4096\<rparr>, 100) \<and>
   file_offset 9 100 = (100 :: i64)"
proof -
  have run: "probe_dmabuf file_fstat file_lseek (\<lambda>s. 5 :: nat) 9 100 =
     (Ok \<lparr>probe_device = 7, probe_inode = 11, probe_allocation_size = 4096\<rparr>, 100)"
    by (simp add: probe_dmabuf_def file_fstat_def file_lseek_def u32_try_from_def is_negative_def
        u64_of_u32_def probe_result_def)
  moreover have "file_offset 9 100 = (file_offset 9 100 :: i64)"
    by (rule probe_keeps_file_offset [OF file_seek_laws _ _ run])
      (simp_all add: file_fstat_def file_offset_def file_current_not_negative)
  ultimately show ?thesis
    by (simp add: file_offset_def u64_of_u32_def)
qed

end
