(* ===== verification/Frame.thy ===== *)
theory Frame
  imports DmaBuf
begin

text \<open>
  \<open>frame.rs\<close> and \<open>sync_file.rs\<close>: binary storage, the frame descriptor with its
  validation, the acquire synchronisation, and the duplication of a whole frame into owned
  descriptors. \<open>frame_ok\<close> is the specification of the validation.
\<close>

section \<open>Data\<close>

record binary_plane =
  bp_offset :: u64
  bp_stride :: u32

record binary_storage =
  bs_data :: "u8 list"
  bs_planes :: "binary_plane list"

datatype storage = Storage_Binary binary_storage | Storage_DmaBuf descriptor

datatype owned_storage = Owned_Binary binary_storage | Owned_DmaBuf owned_descriptor

record sync_file =
  acquire_fence_fd :: i32

datatype acquire_sync = Sync_Implicit | Sync_SyncFile sync_file

datatype owned_acquire_sync = Owned_Implicit | Owned_SyncFile i32

record frame_descriptor =
  fr_coded_width :: u32
  fr_coded_height :: u32
  fr_visible_rect :: rect
  fr_storage :: storage
  fr_acquire_sync :: acquire_sync

record owned_frame =
  of_coded_width :: u32
  of_coded_height :: u32
  of_visible_rect :: rect
  of_storage :: owned_storage
  of_acquire_sync :: owned_acquire_sync

section \<open>Validation\<close>

text \<open>\<open>self.data.len() as u64\<close>.\<close>

definition data_len :: "binary_storage \<Rightarrow> u64" where
  "data_len b = word_of_nat (length (bs_data b))"

definition binary_storage_validate :: "binary_storage \<Rightarrow> validation_error + unit" where
  "binary_storage_validate b =
     (if bs_planes b = [] then Err EmptyBinaryPlanes
      else if length (bs_planes b) \<noteq> 1
      then Err (UnsupportedBinaryPlaneCount (length (bs_planes b)))
      else let plane = bs_planes b ! 0 in
        if bp_stride plane = 0 then Err ZeroBinaryStride
        else if data_len b \<le> bp_offset plane
        then Err (BinaryOffsetOutOfBounds (bp_offset plane) (data_len b))
        else Ok ())"

definition storage_validate :: "storage \<Rightarrow> validation_error + unit" where
  "storage_validate st =
     (case st of Storage_Binary b \<Rightarrow> binary_storage_validate b
      | Storage_DmaBuf d \<Rightarrow> descriptor_validate d)"

text \<open>The product widens two \<open>u32\<close> to \<open>u64\<close>, and \<open>u64::MAX\<close> is \<open>- 1\<close>.\<close>

definition binary_storage_validate_height :: "binary_storage \<Rightarrow> u32 \<Rightarrow> validation_error + unit" where
  "binary_storage_validate_height b coded_height =
     (let plane = bs_planes b ! 0 in
      result_bind
        (ok_or (BinaryLastRowOutOfBounds (- 1) (data_len b))
          (checked_add (bp_offset plane)
            (u64_of_u32 (bp_stride plane) * u64_of_u32 (saturating_sub coded_height 1))))
        (\<lambda>last_row. if data_len b \<le> last_row
           then Err (BinaryLastRowOutOfBounds last_row (data_len b)) else Ok ()))"

definition frame_validate :: "frame_descriptor \<Rightarrow> validation_error + unit" where
  "frame_validate f =
     result_bind (rect_validate (fr_visible_rect f) (fr_coded_width f) (fr_coded_height f))
       (\<lambda>_. result_bind (storage_validate (fr_storage f))
       (\<lambda>_. result_bind
         (case fr_storage f of
            Storage_Binary b \<Rightarrow> binary_storage_validate_height b (fr_coded_height f)
          | Storage_DmaBuf _ \<Rightarrow> Ok ())
       (\<lambda>_. if (case fr_storage f of Storage_Binary _ \<Rightarrow> True | _ \<Rightarrow> False) \<and>
               (case fr_acquire_sync f of Sync_Implicit \<Rightarrow> False | _ \<Rightarrow> True)
            then Err BinaryStorageRequiresImplicitSync
            else case fr_acquire_sync f of
                Sync_SyncFile sync_file \<Rightarrow>
                  if is_negative (acquire_fence_fd sync_file)
                  then Err (NegativeAcquireFence (acquire_fence_fd sync_file)) else Ok ()
              | Sync_Implicit \<Rightarrow> Ok ())))"

text \<open>
  The specification over natural numbers: one plane whose every row starts inside the data, so
  that the computation of the last row never wraps for a valid frame.
\<close>

definition binary_storage_ok :: "binary_storage \<Rightarrow> u32 \<Rightarrow> bool" where
  "binary_storage_ok b coded_height \<longleftrightarrow>
     (\<exists>plane. bs_planes b = [plane] \<and> bp_stride plane \<noteq> 0 \<and>
        (\<forall>row < unat coded_height.
           unat (bp_offset plane) + unat (bp_stride plane) * row < length (bs_data b)))"

definition frame_ok :: "frame_descriptor \<Rightarrow> bool" where
  "frame_ok f \<longleftrightarrow>
     rect_within (fr_visible_rect f) (fr_coded_width f) (fr_coded_height f) \<and>
     (case fr_storage f of
        Storage_Binary b \<Rightarrow>
          binary_storage_ok b (fr_coded_height f) \<and> fr_acquire_sync f = Sync_Implicit
      | Storage_DmaBuf d \<Rightarrow> descriptor_ok d \<and>
          (case fr_acquire_sync f of Sync_Implicit \<Rightarrow> True
           | Sync_SyncFile sync_file \<Rightarrow> 0 \<le> sint (acquire_fence_fd sync_file)))"

text \<open>A Rust vector holds at most \<open>isize::MAX\<close> bytes, so its length fits a \<open>u64\<close>.\<close>

definition fits_memory :: "storage \<Rightarrow> bool" where
  "fits_memory st \<longleftrightarrow>
     (case st of Storage_Binary b \<Rightarrow> length (bs_data b) < 2 ^ 63 | Storage_DmaBuf _ \<Rightarrow> True)"

lemma unat_data_len: "length (bs_data b) < 2 ^ 63 \<Longrightarrow> unat (data_len b) = length (bs_data b)"
  by (simp add: data_len_def unsigned_of_nat take_bit_nat_eq_self_iff)

lemma last_row_bounds_all_rows:
  assumes "0 < (n :: nat)"
  shows "(\<forall>row < n. a + k * row < len) \<longleftrightarrow> a + k * (n - 1) < len"
proof
  assume last: "a + k * (n - 1) < len"
  show "\<forall>row < n. a + k * row < len"
  proof (intro allI impI)
    fix row assume "row < n"
    then have "k * row \<le> k * (n - 1)" by (intro mult_le_mono2) linarith
    with last show "a + k * row < len" by linarith
  qed
qed (use assms in auto)

lemma binary_storage_Ok_iff:
  assumes "length (bs_data b) < 2 ^ 63" and "coded_height \<noteq> 0"
  shows "binary_storage_validate b = Ok u \<and> binary_storage_validate_height b coded_height = Ok v
     \<longleftrightarrow> binary_storage_ok b coded_height"
proof (cases "\<exists>plane. bs_planes b = [plane]")
  case True
  then obtain plane where plane: "bs_planes b = [plane]" by blast
  have height: "0 < unat coded_height" using assms(2) by (simp add: word_pos_unat)
  let ?last = "unat (bp_offset plane) + unat (bp_stride plane) * (unat coded_height - 1)"
  have validate: "binary_storage_validate b = Ok u \<longleftrightarrow>
      bp_stride plane \<noteq> 0 \<and> unat (bp_offset plane) < length (bs_data b)"
    using plane unat_data_len [OF assms(1)]
    by (auto simp: binary_storage_validate_def word_le_unat)
  have "binary_storage_validate_height b coded_height = Ok v \<longleftrightarrow> ?last < length (bs_data b)"
    using plane unat_data_len [OF assms(1)] assms(1)
    by (auto simp: binary_storage_validate_height_def rust_result word_le_unat checked_add_def
        unat_word_ariths(1) split: if_splits)
  with validate show ?thesis
    unfolding binary_storage_ok_def last_row_bounds_all_rows [OF height] using plane by auto
qed (auto simp: binary_storage_validate_def binary_storage_ok_def length_Suc_conv
    split: if_splits)

lemma frame_validate_Ok_iff_ok:
  assumes "fits_memory (fr_storage f)"
  shows "frame_validate f = Ok u \<longleftrightarrow> frame_ok f"
proof (cases "fr_storage f")
  case (Storage_Binary b)
  show ?thesis
  proof (cases "rect_within (fr_visible_rect f) (fr_coded_width f) (fr_coded_height f)")
    case True
    then have "fr_coded_height f \<noteq> 0" by (auto simp: rect_within_def)
    then have storage: "binary_storage_validate b = Ok () \<and>
        binary_storage_validate_height b (fr_coded_height f) = Ok ()
        \<longleftrightarrow> binary_storage_ok b (fr_coded_height f)"
      using assms Storage_Binary by (intro binary_storage_Ok_iff) (simp add: fits_memory_def)
    show ?thesis
      using Storage_Binary True storage
      by (auto simp: frame_validate_def frame_ok_def storage_validate_def rust_result
          rect_validate_Ok_iff split: acquire_sync.splits)
  qed (auto simp: frame_validate_def frame_ok_def rust_result rect_validate_Ok_iff)
next
  case (Storage_DmaBuf d)
  then show ?thesis
    by (auto simp: frame_validate_def frame_ok_def storage_validate_def rust_result
        rect_validate_Ok_iff descriptor_validate_Ok_iff_ok is_negative_def split: acquire_sync.splits)
qed

section \<open>Duplication\<close>

definition sync_file_duplicate ::
  "(i32 \<Rightarrow> 'os \<Rightarrow> ('io + i32) \<times> 'os) \<Rightarrow> sync_file \<Rightarrow> 'os \<Rightarrow> ('io duplicate_error + i32) \<times> 'os" where
  "sync_file_duplicate duplicate f s =
     (if is_negative (acquire_fence_fd f)
      then (Err (Duplicate_NegativeAcquireFence (acquire_fence_fd f)), s)
      else case duplicate (acquire_fence_fd f) s of
          (r, s') \<Rightarrow> (map_err (DuplicateAcquireFence (acquire_fence_fd f)) r, s'))"

definition acquire_sync_duplicate ::
  "(i32 \<Rightarrow> 'os \<Rightarrow> ('io + i32) \<times> 'os) \<Rightarrow> acquire_sync \<Rightarrow> 'os \<Rightarrow>
   ('io duplicate_error + owned_acquire_sync) \<times> 'os" where
  "acquire_sync_duplicate duplicate sync s =
     (case sync of
        Sync_Implicit \<Rightarrow> (Ok Owned_Implicit, s)
      | Sync_SyncFile f \<Rightarrow> (case sync_file_duplicate duplicate f s of
            (r, s') \<Rightarrow> (map_ok Owned_SyncFile r, s')))"

definition storage_duplicate ::
  "(i32 \<Rightarrow> 'os \<Rightarrow> ('io + i32) \<times> 'os) \<Rightarrow> (i32 \<Rightarrow> 'os \<Rightarrow> 'os) \<Rightarrow> storage \<Rightarrow> 'os \<Rightarrow>
   ('io duplicate_error + owned_storage) \<times> 'os" where
  "storage_duplicate duplicate close st s =
     (case st of
        Storage_Binary b \<Rightarrow> (Ok (Owned_Binary b), s)
      | Storage_DmaBuf d \<Rightarrow> (case descriptor_duplicate_with duplicate close d s of
            (r, s') \<Rightarrow> (map_ok Owned_DmaBuf r, s')))"

fun owned_storage_fds :: "owned_storage \<Rightarrow> i32 list" where
  "owned_storage_fds (Owned_Binary b) = []"
| "owned_storage_fds (Owned_DmaBuf d) = owned_fds d"

fun owned_sync_fds :: "owned_acquire_sync \<Rightarrow> i32 list" where
  "owned_sync_fds Owned_Implicit = []"
| "owned_sync_fds (Owned_SyncFile fd) = [fd]"

text \<open>
  When the acquire fence cannot be duplicated, the early return drops the storage that was
  duplicated already, which closes its descriptors.
\<close>

definition frame_duplicate_with ::
  "(i32 \<Rightarrow> 'os \<Rightarrow> ('io + i32) \<times> 'os) \<Rightarrow> (i32 \<Rightarrow> 'os \<Rightarrow> 'os) \<Rightarrow> frame_descriptor \<Rightarrow> 'os \<Rightarrow>
   ('io duplicate_error + owned_frame) \<times> 'os" where
  "frame_duplicate_with duplicate close f s =
     (case map_err InvalidFrame (frame_validate f) of
        Inl e \<Rightarrow> (Err e, s)
      | Inr _ \<Rightarrow>
     (case storage_duplicate duplicate close (fr_storage f) s of
        (Inl e, s1) \<Rightarrow> (Err e, s1)
      | (Inr storage, s1) \<Rightarrow>
     (case acquire_sync_duplicate duplicate (fr_acquire_sync f) s1 of
        (Inl e, s2) \<Rightarrow> (Err e, close_all close (owned_storage_fds storage) s2)
      | (Inr sync, s2) \<Rightarrow>
          (Ok \<lparr>of_coded_width = fr_coded_width f, of_coded_height = fr_coded_height f,
               of_visible_rect = fr_visible_rect f, of_storage = storage,
               of_acquire_sync = sync\<rparr>, s2))))"

definition frame_duplicate_cloexec ::
  "(i32 \<Rightarrow> 'os \<Rightarrow> i32 \<times> 'os) \<Rightarrow> ('os \<Rightarrow> 'io) \<Rightarrow> (i32 \<Rightarrow> 'os \<Rightarrow> 'os) \<Rightarrow> frame_descriptor \<Rightarrow> 'os \<Rightarrow>
   ('io duplicate_error + owned_frame) \<times> 'os" where
  "frame_duplicate_cloexec fcntl last_os_error close =
     frame_duplicate_with (duplicate_fd_cloexec fcntl last_os_error) close"

definition frame_fds :: "owned_frame \<Rightarrow> i32 list" where
  "frame_fds f = owned_storage_fds (of_storage f) @ owned_sync_fds (of_acquire_sync f)"

context fd_duplicator begin

lemma storage_duplicate_Ok:
  assumes "storage_duplicate duplicate close st s = (Ok owned, s')"
  shows "distinct (owned_storage_fds owned) \<and> set (owned_storage_fds owned) \<inter> open_fds s = {} \<and>
     open_fds s' = open_fds s \<union> set (owned_storage_fds owned)"
proof (cases st)
  case (Storage_DmaBuf d)
  with assms obtain od where dup: "descriptor_duplicate_with duplicate close d s = (Ok od, s')"
    and owned: "owned = Owned_DmaBuf od"
    by (auto simp: storage_duplicate_def rust_result split: prod.splits)
  show ?thesis using descriptor_duplicate_Ok [OF dup] owned by simp
qed (use assms in \<open>auto simp: storage_duplicate_def\<close>)

lemma storage_duplicate_Err:
  assumes "storage_duplicate duplicate close st s = (Err e, s')"
  shows "open_fds s' = open_fds s"
  using assms
  by (auto simp: storage_duplicate_def rust_result dest: descriptor_duplicate_Err
      split: storage.splits prod.splits)

lemma acquire_sync_duplicate_Ok:
  assumes "acquire_sync_duplicate duplicate sync s = (Ok owned, s')"
  shows "distinct (owned_sync_fds owned) \<and> set (owned_sync_fds owned) \<inter> open_fds s = {} \<and>
     open_fds s' = open_fds s \<union> set (owned_sync_fds owned)"
proof (cases sync)
  case (Sync_SyncFile f)
  with assms obtain fd where dup: "duplicate (acquire_fence_fd f) s = (Ok fd, s')"
    and owned: "owned = Owned_SyncFile fd"
    by (auto simp: acquire_sync_duplicate_def sync_file_duplicate_def rust_result
        split: prod.splits if_splits)
  show ?thesis using duplicate_fresh [OF dup] duplicate_opens [OF dup] owned by simp
qed (use assms in \<open>auto simp: acquire_sync_duplicate_def\<close>)

lemma acquire_sync_duplicate_Err:
  assumes "acquire_sync_duplicate duplicate sync s = (Err e, s')"
  shows "open_fds s' = open_fds s"
  using assms
  by (auto simp: acquire_sync_duplicate_def sync_file_duplicate_def rust_result
      dest: duplicate_fails split: acquire_sync.splits prod.splits if_splits)

lemma frame_duplicate_Ok:
  assumes "frame_duplicate_with duplicate close f s = (Ok owned, s')"
  shows "frame_validate f = Ok () \<and> distinct (frame_fds owned) \<and>
     set (frame_fds owned) \<inter> open_fds s = {} \<and>
     open_fds s' = open_fds s \<union> set (frame_fds owned)"
proof -
  from assms obtain st sync s1 where valid: "frame_validate f = Ok ()"
    and st: "storage_duplicate duplicate close (fr_storage f) s = (Ok st, s1)"
    and sync: "acquire_sync_duplicate duplicate (fr_acquire_sync f) s1 = (Ok sync, s')"
    and owned: "of_storage owned = st" "of_acquire_sync owned = sync"
    by (auto simp: frame_duplicate_with_def map_err_Inr split: sum.splits prod.splits)
  show ?thesis
    using storage_duplicate_Ok [OF st] acquire_sync_duplicate_Ok [OF sync] valid owned
    by (auto simp: frame_fds_def)
qed

lemma frame_duplicate_Err:
  assumes "frame_duplicate_with duplicate close f s = (Err e, s')"
  shows "open_fds s' = open_fds s"
proof -
  consider "s' = s" | "storage_duplicate duplicate close (fr_storage f) s = (Err e, s')"
    | st s1 e2 s2 where "storage_duplicate duplicate close (fr_storage f) s = (Ok st, s1)"
      and "acquire_sync_duplicate duplicate (fr_acquire_sync f) s1 = (Err e2, s2)"
      and "s' = close_all close (owned_storage_fds st) s2"
    using assms by (auto simp: frame_duplicate_with_def split: sum.splits prod.splits)
  then show ?thesis
  proof cases
    case 3
    then have "open_fds s' = open_fds s1 - set (owned_storage_fds st)"
      by (simp only: close_all_open acquire_sync_duplicate_Err)
    then show ?thesis using storage_duplicate_Ok [OF 3(1)] by blast
  qed (simp_all add: storage_duplicate_Err)
qed

end

section \<open>Term codecs\<close>

text \<open>
  \<open>Storage\<close> tries the descriptor first and the binary next; \<open>AcquireSync\<close> is an atom or
  a struct. The derived struct codecs are Rustler's and stay parameters.
\<close>

definition storage_decode ::
  "('t \<Rightarrow> nif_error + descriptor) \<Rightarrow> ('t \<Rightarrow> nif_error + binary_storage) \<Rightarrow> 't \<Rightarrow>
   nif_error + storage" where
  "storage_decode decode_descriptor decode_binary t =
     (case decode_descriptor t of
        Inr d \<Rightarrow> Ok (Storage_DmaBuf d)
      | Inl _ \<Rightarrow> map_ok Storage_Binary (decode_binary t))"

fun storage_encode :: "(descriptor \<Rightarrow> 't) \<Rightarrow> (binary_storage \<Rightarrow> 't) \<Rightarrow> storage \<Rightarrow> 't" where
  "storage_encode encode_descriptor encode_binary (Storage_Binary b) = encode_binary b"
| "storage_encode encode_descriptor encode_binary (Storage_DmaBuf d) = encode_descriptor d"

definition acquire_sync_decode ::
  "('t, 'a, 'z) nif_env_scheme \<Rightarrow> ('t \<Rightarrow> nif_error + sync_file) \<Rightarrow> 't \<Rightarrow>
   nif_error + acquire_sync" where
  "acquire_sync_decode env decode_struct t =
     (case decode_atom env t of
        Inr atom \<Rightarrow> if atom = atom_named env ''implicit'' then Ok Sync_Implicit else Err BadArg
      | Inl _ \<Rightarrow> map_ok Sync_SyncFile (decode_struct t))"

fun acquire_sync_encode ::
  "('t, 'a, 'z) nif_env_scheme \<Rightarrow> (sync_file \<Rightarrow> 't) \<Rightarrow> acquire_sync \<Rightarrow> 't" where
  "acquire_sync_encode env encode_struct Sync_Implicit =
     encode_atom env (atom_named env ''implicit'')"
| "acquire_sync_encode env encode_struct (Sync_SyncFile f) = encode_struct f"

lemma acquire_sync_decode_encode:
  assumes "nif_laws env" and "\<And>f. decode_struct (encode_struct f) = Ok f"
    and "\<And>f. \<not> is_ok (decode_atom env (encode_struct f))"
  shows "acquire_sync_decode env decode_struct (acquire_sync_encode env encode_struct sync) = Ok sync"
proof (cases sync)
  case (Sync_SyncFile f)
  then show ?thesis
    using assms(2,3) [of f] by (auto simp: acquire_sync_decode_def split: sum.splits)
qed (use assms(1) in \<open>simp add: acquire_sync_decode_def\<close>)

section \<open>Properties\<close>

text \<open>C38: \<open>FrameDescriptor::validate\<close> accepts exactly the well-formed frames: the visible
  rectangle lies inside the coded size without wrapping; binary storage has one plane whose every
  row starts inside the data and is implicitly synchronised; DMA-BUF storage is a valid
  descriptor, with a non-negative acquire fence if there is one.\<close>

theorem frame_validate_iff_ok:
  assumes "fits_memory (fr_storage f)"
  shows "frame_validate f = Ok () \<longleftrightarrow> frame_ok f"
  using assms by (rule frame_validate_Ok_iff_ok)

lemma frame_validate_iff_ok_witness:
  "let f = \<lparr>fr_coded_width = 1, fr_coded_height = 2,
      fr_visible_rect = \<lparr>rect_x = 0, rect_y = 0, rect_width = 1, rect_height = 2\<rparr>,
      fr_storage = Storage_Binary \<lparr>bs_data = replicate 10 0,
        bs_planes = [\<lparr>bp_offset = 0, bp_stride = 9\<rparr>]\<rparr>,
      fr_acquire_sync = Sync_Implicit\<rparr> in frame_validate f = Ok () \<and> frame_ok f"
proof -
  define b where "b = \<lparr>bs_data = replicate 10 (0 :: u8),
     bs_planes = [\<lparr>bp_offset = 0, bp_stride = 9\<rparr>]\<rparr>"
  define f where "f = \<lparr>fr_coded_width = 1, fr_coded_height = 2,
      fr_visible_rect = \<lparr>rect_x = 0, rect_y = 0, rect_width = 1, rect_height = 2\<rparr>,
      fr_storage = Storage_Binary b, fr_acquire_sync = Sync_Implicit\<rparr>"
  have "frame_validate f = Ok ()"
    by (simp add: f_def b_def frame_validate_def rect_validate_def storage_validate_def
        binary_storage_validate_def binary_storage_validate_height_def data_len_def
        checked_add_def saturating_sub_def u64_of_u32_def)
  then show ?thesis
    using frame_validate_iff_ok [of f] by (simp add: f_def b_def fits_memory_def)
qed

text \<open>C36: duplicating a frame is all or nothing over the descriptor table: when it fails, at
  whichever descriptor and for whichever reason, the table holds what it held; when it succeeds,
  the frame was valid, it owns fresh distinct descriptors, the table gained exactly these, and
  dropping the owned frame gives the table back.\<close>

theorem frame_duplicate_owns_exactly:
  "case frame_duplicate_cloexec posix_fcntl ft_errno posix_close f t of
     (Inl e, t') \<Rightarrow> posix_open t' = posix_open t
   | (Inr owned, t') \<Rightarrow>
       frame_validate f = Ok () \<and> distinct (frame_fds owned) \<and>
       set (frame_fds owned) \<inter> posix_open t = {} \<and>
       posix_open t' = posix_open t \<union> set (frame_fds owned) \<and>
       posix_open (close_all posix_close (frame_fds owned) t') = posix_open t"
proof -
  obtain r t' where run: "frame_duplicate_with (duplicate_fd_cloexec posix_fcntl ft_errno)
      posix_close f t = (r, t')"
    by (cases "frame_duplicate_with (duplicate_fd_cloexec posix_fcntl ft_errno) posix_close f t")
  show ?thesis
  proof (cases r)
    case (Inl e)
    then show ?thesis
      using run posix.dup.frame_duplicate_Err [of f t e t'] by (simp add: frame_duplicate_cloexec_def)
  next
    case (Inr owned)
    note facts = posix.dup.frame_duplicate_Ok [OF run [unfolded Inr]]
    have "posix_open (close_all posix_close (frame_fds owned) t') = posix_open t"
      using facts by (auto simp: posix.dup.close_all_open)
    with facts run Inr show ?thesis by (simp add: frame_duplicate_cloexec_def)
  qed
qed

end
