(* ===== verification/Dispatcher.thy ===== *)
theory Dispatcher
  imports Prelude
begin

text \<open>
  The release dispatcher of \<open>beam.rs\<close>: a worker thread that drains a FIFO of release
  commands, clients counted by an atomic counter, and the shutdown protocol of
  \<open>close_and_join\<close>. The model is a step relation over the shared state: every atomic
  access of the code (a load, a fetch-and-add, a compare-exchange, a channel send, the
  acquisition of the state lock) is one step of one thread, so all interleavings of any number
  of clients, guards and closers are covered. A retry loop with a deadline may at every turn
  either retry or time out. \<open>process::abort\<close> is the value \<open>Some reason\<close> of the field
  \<open>dp_aborted\<close>, after which there is no step.
\<close>

section \<open>State\<close>

definition HEALTHY :: u8 where "HEALTHY = 0"
definition STOPPING :: u8 where "STOPPING = 1"
definition STOPPED :: u8 where "STOPPED = 2"
definition FAILED :: u8 where "FAILED = 3"

datatype dispatcher_health = Healthy | Stopping | Stopped | Failed

definition decode_health :: "u8 \<Rightarrow> dispatcher_health" where
  "decode_health v =
     (if v = HEALTHY then Healthy else if v = STOPPING then Stopping
      else if v = STOPPED then Stopped else Failed)"

datatype message_kind = Release | Abandoned

text \<open>A process identifier and a saved term are opaque; numbers stand for them.\<close>

record command =
  cmd_kind :: message_kind
  cmd_owner :: "nat option"
  cmd_token :: "nat option"
  cmd_holder :: "nat option"

definition command_new :: "message_kind \<Rightarrow> nat \<Rightarrow> nat \<Rightarrow> nat \<Rightarrow> command" where
  "command_new kind owner token holder =
     \<lparr>cmd_kind = kind, cmd_owner = Some owner, cmd_token = Some token, cmd_holder = Some holder\<rparr>"

datatype worker_command = Dispatch command | Stop

text \<open>Why a thread runs \<open>acquire_client\<close>: a lease transfer, the construction of a guard, or
  the drop of a guard with the command it still holds.\<close>

datatype purpose = For_lease | For_guard | For_abandonment command

datatype close_result = Close_ok | Close_failed | Close_timed_out | Close_no_worker

text \<open>The program counter of a thread: the next atomic access it performs.\<close>

datatype pc =
    Idle
  | Acquire_load purpose
  | Acquire_add purpose
  | Acquire_recheck purpose
  | Acquire_retract purpose
  | Acquire_rejected purpose
  | Client
  | Client_send command
  | Client_drop
  | Begin_load
  | Begin_exchange
  | Wait_clients
  | Stop_lock
  | Stop_locked
  | Stop_sent
  | Join_check_stopped
  | Join_check_failed
  | Join_lock
  | Join_locked
  | Join_reap
  | Join_publish
  | Join_sleep
  | Returned close_result

datatype fatal =
    Worker_stopped_unexpectedly
  | Worker_stopped_before_join
  | Client_count_underflow
  | Guard_not_admitted
  | Owner_dropped_without_close
  | Worker_stopped_outside_shutdown
  | Worker_panicked
  | Claimed_lease_lost_client
  | Guard_lock_poisoned

text \<open>
  \<open>dp_worker\<close> says whether the join handle is still in the state, \<open>dp_exited\<close> whether
  the worker thread has returned (its receiver is dropped then). \<open>dp_accepted\<close> and
  \<open>dp_processed\<close> record the commands in the order in which they were sent and handled.
\<close>

record dispatcher =
  dp_health :: u8
  dp_active_clients :: nat
  dp_worker :: bool
  dp_stop_enqueued :: bool
  dp_joining :: bool
  dp_lock :: "nat option"
  dp_queue :: "worker_command list"
  dp_exited :: bool
  dp_undelivered :: nat
  dp_accepted :: "command list"
  dp_processed :: "command list"
  dp_dropped :: bool
  dp_aborted :: "fatal option"
  dp_pc :: "nat \<Rightarrow> pc"

definition dispatcher_start :: dispatcher where
  "dispatcher_start =
     \<lparr>dp_health = HEALTHY, dp_active_clients = 0, dp_worker = True, dp_stop_enqueued = False,
      dp_joining = False, dp_lock = None, dp_queue = [], dp_exited = False, dp_undelivered = 0,
      dp_accepted = [], dp_processed = [], dp_dropped = False, dp_aborted = None,
      dp_pc = (\<lambda>t. Idle)\<rparr>"

definition goto :: "nat \<Rightarrow> pc \<Rightarrow> dispatcher \<Rightarrow> dispatcher" where
  "goto t p s = s\<lparr>dp_pc := (dp_pc s)(t := p)\<rparr>"

definition fatal_dispatcher_corruption :: "fatal \<Rightarrow> dispatcher \<Rightarrow> dispatcher" where
  "fatal_dispatcher_corruption reason s = s\<lparr>dp_aborted := Some reason\<rparr>"

definition health :: "dispatcher \<Rightarrow> dispatcher_health" where
  "health s = decode_health (dp_health s)"

section \<open>Clients\<close>

text \<open>\<open>acquire_client\<close>: load, count, load again, and retract the count when the second load
  no longer finds the dispatcher healthy.\<close>

fun acquire_step :: "nat \<Rightarrow> pc \<Rightarrow> dispatcher \<Rightarrow> dispatcher" where
  "acquire_step t (Acquire_load p) s =
     (if health s \<noteq> Healthy then goto t (Acquire_rejected p) s else goto t (Acquire_add p) s)"
| "acquire_step t (Acquire_add p) s =
     goto t (Acquire_recheck p) (s\<lparr>dp_active_clients := dp_active_clients s + 1\<rparr>)"
| "acquire_step t (Acquire_recheck p) s =
     (if health s = Healthy
      then goto t (case p of For_abandonment c \<Rightarrow> Client_send c | For_guard \<Rightarrow> Client_drop
                   | For_lease \<Rightarrow> Client) s
      else goto t (Acquire_retract p) s)"
| "acquire_step t p s = s"

text \<open>\<open>release_client\<close>: the counter wraps when it was zero, which is fatal.\<close>

definition release_client :: "dispatcher \<Rightarrow> dispatcher" where
  "release_client s =
     (let previous = dp_active_clients s; s' = s\<lparr>dp_active_clients := previous - 1\<rparr> in
      if previous = 0 then fatal_dispatcher_corruption Client_count_underflow s' else s')"

text \<open>\<open>DispatcherClient::dispatch\<close>: a send fails when the receiver is gone.\<close>

definition dispatch :: "command \<Rightarrow> dispatcher \<Rightarrow> dispatcher" where
  "dispatch c s =
     (if dp_exited s then fatal_dispatcher_corruption Worker_stopped_unexpectedly s
      else s\<lparr>dp_queue := dp_queue s @ [Dispatch c], dp_accepted := dp_accepted s @ [c]\<rparr>)"

text \<open>\<open>dispatch_abandoned\<close> after a rejection: a late guard is inert once shutdown began.\<close>

definition abandonment_rejected :: "dispatcher \<Rightarrow> dispatcher" where
  "abandonment_rejected s =
     (case health s of
        Stopping \<Rightarrow> s
      | Stopped \<Rightarrow> s
      | _ \<Rightarrow> fatal_dispatcher_corruption Guard_not_admitted s)"

fun client_step :: "nat \<Rightarrow> pc \<Rightarrow> dispatcher \<Rightarrow> dispatcher" where
  "client_step t (Acquire_retract p) s = goto t (Acquire_rejected p) (release_client s)"
| "client_step t (Acquire_rejected (For_abandonment c)) s = goto t Idle (abandonment_rejected s)"
| "client_step t (Acquire_rejected p) s = goto t Idle s"
| "client_step t (Client_send c) s = goto t Client_drop (dispatch c s)"
| "client_step t Client_drop s = goto t Idle (release_client s)"
| "client_step t p s = s"

section \<open>Shutdown\<close>

fun begin_close_step :: "nat \<Rightarrow> pc \<Rightarrow> dispatcher \<Rightarrow> dispatcher" where
  "begin_close_step t Begin_load s =
     (case health s of
        Healthy \<Rightarrow> goto t Begin_exchange s
      | Failed \<Rightarrow> goto t (Returned Close_failed) s
      | _ \<Rightarrow> goto t Wait_clients s)"
| "begin_close_step t Begin_exchange s =
     (if dp_health s = HEALTHY then goto t Wait_clients (s\<lparr>dp_health := STOPPING\<rparr>)
      else goto t Begin_load s)"
| "begin_close_step t p s = s"

definition wait_for_clients_step :: "bool \<Rightarrow> nat \<Rightarrow> dispatcher \<Rightarrow> dispatcher" where
  "wait_for_clients_step timed_out t s =
     (if dp_active_clients s = 0 then goto t Stop_lock s
      else if timed_out then goto t (Returned Close_timed_out) s else s)"

text \<open>\<open>lock_state_until\<close>: \<open>try_lock\<close>, retried until the deadline.\<close>

definition lock_state_step :: "bool \<Rightarrow> nat \<Rightarrow> pc \<Rightarrow> dispatcher \<Rightarrow> dispatcher" where
  "lock_state_step timed_out t acquired s =
     (if dp_lock s = None then goto t acquired (s\<lparr>dp_lock := Some t\<rparr>)
      else if timed_out then goto t (Returned Close_timed_out) s else s)"

definition unlock :: "dispatcher \<Rightarrow> dispatcher" where
  "unlock s = s\<lparr>dp_lock := None\<rparr>"

fun enqueue_stop_step :: "nat \<Rightarrow> pc \<Rightarrow> dispatcher \<Rightarrow> dispatcher" where
  "enqueue_stop_step t Stop_locked s =
     (if health s = Stopped \<or> dp_stop_enqueued s then goto t Join_check_stopped (unlock s)
      else if \<not> dp_worker s then goto t (Returned Close_no_worker) (unlock s)
      else if dp_exited s then fatal_dispatcher_corruption Worker_stopped_before_join s
      else goto t Stop_sent (s\<lparr>dp_queue := dp_queue s @ [Stop]\<rparr>))"
| "enqueue_stop_step t Stop_sent s =
     goto t Join_check_stopped (unlock (s\<lparr>dp_stop_enqueued := True\<rparr>))"
| "enqueue_stop_step t p s = s"

text \<open>
  \<open>wait_for_worker_exit_and_join\<close>. The handle is taken under the lock, by one thread, when
  the worker has finished; \<open>STOPPED\<close> is published after the join. A closer never runs on
  the worker thread, and the worker's panic is caught and fatal, so \<open>join\<close> succeeds.
\<close>

fun join_step :: "bool \<Rightarrow> nat \<Rightarrow> pc \<Rightarrow> dispatcher \<Rightarrow> dispatcher" where
  "join_step timed_out t Join_check_stopped s =
     (if health s = Stopped then goto t (Returned Close_ok) s else goto t Join_check_failed s)"
| "join_step timed_out t Join_check_failed s =
     (if health s = Failed then goto t (Returned Close_failed) s else goto t Join_lock s)"
| "join_step timed_out t Join_locked s =
     (if dp_worker s \<and> \<not> dp_joining s \<and> dp_exited s
      then goto t Join_reap (unlock (s\<lparr>dp_joining := True, dp_worker := False\<rparr>))
      else if dp_joining s then goto t Join_sleep (unlock s)
      else if dp_worker s then goto t Join_sleep (unlock s)
      else goto t (Returned Close_no_worker) (unlock s))"
| "join_step timed_out t Join_reap s = goto t Join_publish s"
| "join_step timed_out t Join_publish s = goto t (Returned Close_ok) (s\<lparr>dp_health := STOPPED\<rparr>)"
| "join_step timed_out t Join_sleep s =
     (if timed_out then goto t (Returned Close_timed_out) s else goto t Join_check_stopped s)"
| "join_step timed_out t p s = s"

text \<open>One atomic access of thread \<open>t\<close>, composed as \<open>close_and_join\<close> composes its phases.\<close>

definition thread_step :: "bool \<Rightarrow> nat \<Rightarrow> dispatcher \<Rightarrow> dispatcher" where
  "thread_step timed_out t s =
     (case dp_pc s t of
        Acquire_load p \<Rightarrow> acquire_step t (Acquire_load p) s
      | Acquire_add p \<Rightarrow> acquire_step t (Acquire_add p) s
      | Acquire_recheck p \<Rightarrow> acquire_step t (Acquire_recheck p) s
      | Begin_load \<Rightarrow> begin_close_step t Begin_load s
      | Begin_exchange \<Rightarrow> begin_close_step t Begin_exchange s
      | Wait_clients \<Rightarrow> wait_for_clients_step timed_out t s
      | Stop_lock \<Rightarrow> lock_state_step timed_out t Stop_locked s
      | Stop_locked \<Rightarrow> enqueue_stop_step t Stop_locked s
      | Stop_sent \<Rightarrow> enqueue_stop_step t Stop_sent s
      | Join_lock \<Rightarrow> lock_state_step timed_out t Join_locked s
      | Join_check_stopped \<Rightarrow> join_step timed_out t Join_check_stopped s
      | Join_check_failed \<Rightarrow> join_step timed_out t Join_check_failed s
      | Join_locked \<Rightarrow> join_step timed_out t Join_locked s
      | Join_reap \<Rightarrow> join_step timed_out t Join_reap s
      | Join_publish \<Rightarrow> join_step timed_out t Join_publish s
      | Join_sleep \<Rightarrow> join_step timed_out t Join_sleep s
      | p \<Rightarrow> client_step t p s)"

section \<open>The worker\<close>

datatype send_outcome = Send_ok | Send_recipient_gone | Send_panicked

text \<open>\<open>DispatchCommand::send\<close>: a missing owner, token or holder panics.\<close>

definition command_send :: "bool \<Rightarrow> command \<Rightarrow> send_outcome" where
  "command_send recipient_alive c =
     (if cmd_owner c = None \<or> cmd_token c = None \<or> cmd_holder c = None then Send_panicked
      else if recipient_alive then Send_ok else Send_recipient_gone)"

text \<open>
  One turn of \<open>dispatch_worker\<close>. \<open>recv\<close> blocks on an empty queue and reports an error
  when the queue is empty and the last sender, the dispatcher's own, is dropped.
\<close>

definition dispatch_worker_step :: "bool \<Rightarrow> dispatcher \<Rightarrow> dispatcher" where
  "dispatch_worker_step recipient_alive s =
     (if dp_exited s then s
      else case dp_queue s of
          Dispatch c # rest \<Rightarrow>
            (let s' = s\<lparr>dp_queue := rest\<rparr> in
             case command_send recipient_alive c of
               Send_ok \<Rightarrow> s'\<lparr>dp_processed := dp_processed s @ [c]\<rparr>
             | Send_recipient_gone \<Rightarrow> s'\<lparr>dp_processed := dp_processed s @ [c],
                 dp_undelivered := dp_undelivered s + 1\<rparr>
             | Send_panicked \<Rightarrow>
                 fatal_dispatcher_corruption Worker_panicked (s'\<lparr>dp_health := FAILED\<rparr>))
        | Stop # rest \<Rightarrow> s\<lparr>dp_queue := rest, dp_exited := True\<rparr>
        | [] \<Rightarrow>
            if \<not> dp_dropped s then s
            else if dp_health s \<noteq> STOPPING
            then fatal_dispatcher_corruption Worker_stopped_outside_shutdown s
            else s\<lparr>dp_exited := True\<rparr>)"

text \<open>The drop of the last reference.\<close>

definition dispatcher_drop :: "dispatcher \<Rightarrow> dispatcher" where
  "dispatcher_drop s =
     (if dp_health s \<noteq> STOPPED
      then fatal_dispatcher_corruption Owner_dropped_without_close s
      else s\<lparr>dp_dropped := True\<rparr>)"

section \<open>The step relation\<close>

definition at_rest :: "pc \<Rightarrow> bool" where
  "at_rest p \<longleftrightarrow> p = Idle \<or> (\<exists>r. p = Returned r)"

text \<open>A command as \<open>DispatchCommand::new\<close> builds it.\<close>

definition command_ok :: "command \<Rightarrow> bool" where
  "command_ok c \<longleftrightarrow> cmd_owner c \<noteq> None \<and> cmd_token c \<noteq> None \<and> cmd_holder c \<noteq> None"

fun entry_pc :: "pc \<Rightarrow> bool" where
  "entry_pc (Acquire_load (For_abandonment c)) = command_ok c"
| "entry_pc (Acquire_load p) = True"
| "entry_pc Begin_load = True"
| "entry_pc p = False"

text \<open>
  A thread at rest starts an operation; the holder of a client sends a command with it (a lease
  retired or dropped after the claim) or drops it (a prepared lease dropped before the claim).
  The dispatcher is dropped when no thread uses it any more.
\<close>

inductive dispatcher_step :: "dispatcher \<Rightarrow> dispatcher \<Rightarrow> bool" where
  start: "dp_aborted s = None \<Longrightarrow> \<not> dp_dropped s \<Longrightarrow> at_rest (dp_pc s t) \<Longrightarrow> entry_pc p \<Longrightarrow>
    dispatcher_step s (goto t p s)"
| retire: "dp_aborted s = None \<Longrightarrow> dp_pc s t = Client \<Longrightarrow> command_ok c \<Longrightarrow>
    dispatcher_step s (goto t (Client_send c) s)"
| discard: "dp_aborted s = None \<Longrightarrow> dp_pc s t = Client \<Longrightarrow>
    dispatcher_step s (goto t Client_drop s)"
| thread: "dp_aborted s = None \<Longrightarrow> dispatcher_step s (thread_step timed_out t s)"
| worker: "dp_aborted s = None \<Longrightarrow> dispatcher_step s (dispatch_worker_step recipient_alive s)"
| drop: "dp_aborted s = None \<Longrightarrow> \<forall>t. at_rest (dp_pc s t) \<Longrightarrow> \<not> dp_dropped s \<Longrightarrow>
    dispatcher_step s (dispatcher_drop s)"

definition dispatcher_reachable :: "dispatcher \<Rightarrow> bool" where
  "dispatcher_reachable s \<longleftrightarrow> dispatcher_step\<^sup>*\<^sup>* dispatcher_start s"

section \<open>The invariant\<close>

text \<open>Threads the counter counts, threads that may still send, closers that entered the shutdown,
  closers that saw no client, owners of the lock, and the thread that joins.\<close>

fun counted :: "pc \<Rightarrow> bool" where
  "counted (Acquire_recheck p) = True"
| "counted (Acquire_retract p) = True"
| "counted Client = True"
| "counted (Client_send c) = True"
| "counted Client_drop = True"
| "counted p = False"

fun admitted :: "pc \<Rightarrow> bool" where
  "admitted Client = True"
| "admitted (Client_send c) = True"
| "admitted Client_drop = True"
| "admitted p = False"

fun past_wait :: "pc \<Rightarrow> bool" where
  "past_wait Stop_lock = True"
| "past_wait Stop_locked = True"
| "past_wait Stop_sent = True"
| "past_wait Join_check_stopped = True"
| "past_wait Join_check_failed = True"
| "past_wait Join_lock = True"
| "past_wait Join_locked = True"
| "past_wait Join_reap = True"
| "past_wait Join_publish = True"
| "past_wait Join_sleep = True"
| "past_wait p = False"

fun not_healthy_pc :: "pc \<Rightarrow> bool" where
  "not_healthy_pc (Acquire_retract p) = True"
| "not_healthy_pc (Acquire_rejected p) = True"
| "not_healthy_pc Wait_clients = True"
| "not_healthy_pc p = past_wait p"

fun holds_lock :: "pc \<Rightarrow> bool" where
  "holds_lock Stop_locked = True"
| "holds_lock Stop_sent = True"
| "holds_lock Join_locked = True"
| "holds_lock p = False"

fun reaping :: "pc \<Rightarrow> bool" where
  "reaping Join_reap = True"
| "reaping Join_publish = True"
| "reaping p = False"

fun pc_command_ok :: "pc \<Rightarrow> bool" where
  "pc_command_ok (Acquire_load (For_abandonment c)) = command_ok c"
| "pc_command_ok (Acquire_add (For_abandonment c)) = command_ok c"
| "pc_command_ok (Acquire_recheck (For_abandonment c)) = command_ok c"
| "pc_command_ok (Client_send c) = command_ok c"
| "pc_command_ok p = True"

definition stop_sent :: "dispatcher \<Rightarrow> bool" where
  "stop_sent s \<longleftrightarrow> Stop \<in> set (dp_queue s) \<or> dp_exited s"

definition pending :: "worker_command list \<Rightarrow> command list" where
  "pending q = concat (map (\<lambda>w. case w of Dispatch c \<Rightarrow> [c] | Stop \<Rightarrow> []) q)"

text \<open>The stop command is the last of the queue, and after it there is nothing.\<close>

definition queue_inv :: "dispatcher \<Rightarrow> bool" where
  "queue_inv s \<longleftrightarrow>
     (\<exists>ds. dp_queue s = map Dispatch ds \<or> dp_queue s = map Dispatch ds @ [Stop]) \<and>
     (dp_exited s \<longrightarrow> dp_queue s = []) \<and>
     dp_accepted s = dp_processed s @ pending (dp_queue s) \<and>
     list_all command_ok (dp_accepted s)"

definition client_inv :: "dispatcher \<Rightarrow> bool" where
  "client_inv s \<longleftrightarrow>
     finite {t. counted (dp_pc s t)} \<and>
     dp_active_clients s = card {t. counted (dp_pc s t)} \<and>
     (\<forall>t. pc_command_ok (dp_pc s t)) \<and>
     (\<forall>t u. past_wait (dp_pc s t) \<longrightarrow> \<not> admitted (dp_pc s u)) \<and>
     (stop_sent s \<longrightarrow> (\<forall>u. \<not> admitted (dp_pc s u)))"

definition health_inv :: "dispatcher \<Rightarrow> bool" where
  "health_inv s \<longleftrightarrow>
     dp_health s \<in> {HEALTHY, STOPPING, STOPPED} \<and>
     (\<forall>t. not_healthy_pc (dp_pc s t) \<longrightarrow> dp_health s \<noteq> HEALTHY) \<and>
     (stop_sent s \<longrightarrow> dp_health s \<noteq> HEALTHY) \<and>
     (dp_health s = STOPPED \<longrightarrow> dp_joining s) \<and>
     (dp_dropped s \<longrightarrow> dp_health s = STOPPED \<and> (\<forall>t. at_rest (dp_pc s t)))"

definition close_inv :: "dispatcher \<Rightarrow> bool" where
  "close_inv s \<longleftrightarrow>
     (\<forall>t. holds_lock (dp_pc s t) \<longleftrightarrow> dp_lock s = Some t) \<and>
     (stop_sent s \<longleftrightarrow> dp_stop_enqueued s \<or> (\<exists>t. dp_pc s t = Stop_sent)) \<and>
     (dp_stop_enqueued s \<longrightarrow> (\<forall>t. dp_pc s t \<noteq> Stop_sent)) \<and>
     (dp_joining s \<longleftrightarrow> \<not> dp_worker s) \<and> (dp_joining s \<longrightarrow> dp_exited s \<and> dp_stop_enqueued s) \<and>
     (\<forall>t. reaping (dp_pc s t) \<longrightarrow> dp_joining s) \<and>
     (\<forall>t u. reaping (dp_pc s t) \<and> reaping (dp_pc s u) \<longrightarrow> t = u)"

definition dispatcher_inv :: "dispatcher \<Rightarrow> bool" where
  "dispatcher_inv s \<longleftrightarrow>
     queue_inv s \<and> client_inv s \<and> health_inv s \<and> close_inv s \<and>
     (dp_aborted s = None \<or> dp_aborted s = Some Owner_dropped_without_close)"

lemma health_codes [simp]:
  "HEALTHY \<noteq> STOPPING" "STOPPING \<noteq> HEALTHY" "HEALTHY \<noteq> STOPPED" "STOPPED \<noteq> HEALTHY"
  "STOPPING \<noteq> STOPPED" "STOPPED \<noteq> STOPPING" "HEALTHY \<noteq> FAILED" "STOPPING \<noteq> FAILED"
  "STOPPED \<noteq> FAILED"
  by (simp_all add: HEALTHY_def STOPPING_def STOPPED_def FAILED_def)

lemma health_iff [simp]:
  "health s = Healthy \<longleftrightarrow> dp_health s = HEALTHY"
  "health s = Stopped \<longleftrightarrow> dp_health s = STOPPED"
  by (auto simp: health_def decode_health_def)

lemma pending_simps [simp]:
  "pending [] = []" "pending (Dispatch c # q) = c # pending q" "pending (Stop # q) = pending q"
  "pending (p @ q) = pending p @ pending q" "pending (map Dispatch cs) = cs"
  by (simp_all add: pending_def) (induction cs; simp)

lemma goto_fields [simp]:
  "dp_health (goto t p s) = dp_health s" "dp_active_clients (goto t p s) = dp_active_clients s"
  "dp_worker (goto t p s) = dp_worker s" "dp_stop_enqueued (goto t p s) = dp_stop_enqueued s"
  "dp_joining (goto t p s) = dp_joining s" "dp_lock (goto t p s) = dp_lock s"
  "dp_queue (goto t p s) = dp_queue s" "dp_exited (goto t p s) = dp_exited s"
  "dp_accepted (goto t p s) = dp_accepted s" "dp_processed (goto t p s) = dp_processed s"
  "dp_dropped (goto t p s) = dp_dropped s" "dp_aborted (goto t p s) = dp_aborted s"
  "dp_undelivered (goto t p s) = dp_undelivered s"
  "dp_pc (goto t p s) u = (if u = t then p else dp_pc s u)" "health (goto t p s) = health s"
  "stop_sent (goto t p s) = stop_sent s"
  by (simp_all add: goto_def health_def stop_sent_def)

lemma counted_goto:
  "{u. counted (if u = t then p else f u)} =
     (if counted p then insert t {u. counted (f u)} else {u. counted (f u)} - {t})"
  by auto

lemma at_rest_simps [simp]: "at_rest Idle" "at_rest (Returned r)"
  by (simp_all add: at_rest_def)

lemma at_rest_kinds:
  "at_rest p \<Longrightarrow> \<not> counted p"
  "at_rest p \<Longrightarrow> \<not> admitted p" "at_rest p \<Longrightarrow> \<not> past_wait p" "at_rest p \<Longrightarrow> \<not> holds_lock p"
  "at_rest p \<Longrightarrow> \<not> reaping p" "at_rest p \<Longrightarrow> p \<noteq> Stop_sent" "at_rest p \<Longrightarrow> \<not> not_healthy_pc p"
  by (auto simp: at_rest_def)

text \<open>Each part of the invariant depends only on some fields and on the kinds of the counters.\<close>

lemma queue_inv_frame:
  assumes "queue_inv s" and "dp_queue s' = dp_queue s" and "dp_exited s' = dp_exited s"
    and "dp_accepted s' = dp_accepted s" and "dp_processed s' = dp_processed s"
  shows "queue_inv s'"
  using assms(1) unfolding queue_inv_def assms(2-5) .

lemma client_inv_frame:
  assumes "client_inv s" and "dp_active_clients s' = dp_active_clients s"
    and "\<forall>u. counted (dp_pc s' u) = counted (dp_pc s u)" and "\<forall>u. pc_command_ok (dp_pc s' u)"
    and "\<forall>u. past_wait (dp_pc s' u) \<longrightarrow> past_wait (dp_pc s u)"
    and "\<forall>u. admitted (dp_pc s' u) \<longrightarrow> admitted (dp_pc s u)" and "stop_sent s' = stop_sent s"
  shows "client_inv s'"
  using assms(1,4,5,6) unfolding client_inv_def assms(2,3,7) by (simp add: assms(3)) blast

lemma health_inv_frame:
  assumes "health_inv s" and "dp_health s' = dp_health s" and "dp_joining s' = dp_joining s"
    and "stop_sent s' = stop_sent s" and "dp_dropped s' = dp_dropped s"
    and "\<forall>u. not_healthy_pc (dp_pc s' u) \<longrightarrow> not_healthy_pc (dp_pc s u) \<or> dp_health s \<noteq> HEALTHY"
    and "dp_dropped s \<longrightarrow> (\<forall>u. at_rest (dp_pc s u) \<longrightarrow> at_rest (dp_pc s' u))"
  shows "health_inv s'"
  using assms(1,6,7) unfolding health_inv_def assms(2-5) by blast

lemma close_inv_lock_frame:
  assumes "close_inv s" and "\<forall>u. holds_lock (dp_pc s' u) \<longleftrightarrow> dp_lock s' = Some u"
    and "stop_sent s' = stop_sent s"
    and "dp_stop_enqueued s' = dp_stop_enqueued s" and "dp_joining s' = dp_joining s"
    and "dp_worker s' = dp_worker s" and "dp_exited s' = dp_exited s"
    and "\<forall>u. (dp_pc s' u = Stop_sent) = (dp_pc s u = Stop_sent)"
    and "\<forall>u. reaping (dp_pc s' u) \<longrightarrow> reaping (dp_pc s u)"
  shows "close_inv s'"
  using assms(1,2,9) unfolding close_inv_def assms(3-7) by (simp add: assms(8)) blast

lemma close_inv_frame:
  assumes "close_inv s" and "dp_lock s' = dp_lock s" and "stop_sent s' = stop_sent s"
    and "dp_stop_enqueued s' = dp_stop_enqueued s" and "dp_joining s' = dp_joining s"
    and "dp_worker s' = dp_worker s" and "dp_exited s' = dp_exited s"
    and "\<forall>u. holds_lock (dp_pc s' u) = holds_lock (dp_pc s u)"
    and "\<forall>u. (dp_pc s' u = Stop_sent) = (dp_pc s u = Stop_sent)"
    and "\<forall>u. reaping (dp_pc s' u) \<longrightarrow> reaping (dp_pc s u)"
  shows "close_inv s'"
  using assms by (intro close_inv_lock_frame [OF assms(1)]) (simp_all add: close_inv_def)

lemma dispatcher_invI:
  assumes "queue_inv s" and "client_inv s" and "health_inv s" and "close_inv s"
    and "dp_aborted s = None \<or> dp_aborted s = Some Owner_dropped_without_close"
  shows "dispatcher_inv s"
  using assms by (simp add: dispatcher_inv_def)

lemma dispatcher_invD:
  assumes "dispatcher_inv s"
  shows "queue_inv s" and "client_inv s" and "health_inv s" and "close_inv s"
    and "dp_aborted s = None \<or> dp_aborted s = Some Owner_dropped_without_close"
  using assms by (simp_all add: dispatcher_inv_def)

lemma client_inv_commands: "client_inv s \<Longrightarrow> pc_command_ok (dp_pc s t)"
  by (simp add: client_inv_def)

text \<open>A step that only moves a thread, between program counters of the same kind.\<close>

lemma inv_goto:
  assumes inv: "dispatcher_inv s" and kinds: "counted p = counted (dp_pc s t)"
    "holds_lock p = holds_lock (dp_pc s t)" "(p = Stop_sent) = (dp_pc s t = Stop_sent)"
    "reaping p \<longrightarrow> reaping (dp_pc s t)" "pc_command_ok p"
    "not_healthy_pc p \<longrightarrow> dp_health s \<noteq> HEALTHY"
    "past_wait p \<longrightarrow> past_wait (dp_pc s t)" "admitted p \<longrightarrow> admitted (dp_pc s t)"
    "at_rest p \<or> \<not> dp_dropped s"
  shows "dispatcher_inv (goto t p s)"
proof (rule dispatcher_invI)
  note inv = dispatcher_invD [OF inv]
  show "queue_inv (goto t p s)" by (rule queue_inv_frame [OF inv(1)]) simp_all
  show "client_inv (goto t p s)"
    by (rule client_inv_frame [OF inv(2)]) (use kinds client_inv_commands [OF inv(2)] in auto)
  show "health_inv (goto t p s)" by (rule health_inv_frame [OF inv(3)]) (use kinds in auto)
  show "close_inv (goto t p s)" by (rule close_inv_frame [OF inv(4)]) (use kinds in auto)
qed (use dispatcher_invD [OF inv] in simp)

lemma past_wait_not_healthy: "past_wait p \<Longrightarrow> not_healthy_pc p"
  by (cases p) auto

lemma admitted_counted: "admitted p \<Longrightarrow> counted p"
  by (cases p) auto

lemma inv_no_admission:
  assumes "health_inv s" and "dp_health s = HEALTHY"
  shows "\<not> past_wait (dp_pc s t)" and "\<not> stop_sent s"
  using assms past_wait_not_healthy [of "dp_pc s t"] by (auto simp: health_inv_def)

lemma inv_counted_pos:
  assumes "client_inv s" and "counted (dp_pc s t)"
  shows "0 < dp_active_clients s"
  using assms by (auto simp: client_inv_def card_gt_0_iff)

lemma inv_not_healthy:
  assumes "health_inv s" and "not_healthy_pc (dp_pc s t)"
  shows "dp_health s \<noteq> HEALTHY"
  using assms unfolding health_inv_def by blast

lemma inv_not_dropped:
  assumes "health_inv s" and "\<not> at_rest (dp_pc s t)"
  shows "\<not> dp_dropped s"
  using assms by (auto simp: health_inv_def)

lemma at_rest_pc [simp]:
  "\<not> at_rest (Acquire_load q)" "\<not> at_rest (Acquire_add q)" "\<not> at_rest (Acquire_recheck q)"
  "\<not> at_rest (Acquire_retract q)" "\<not> at_rest (Acquire_rejected q)" "\<not> at_rest Client"
  "\<not> at_rest (Client_send c)" "\<not> at_rest Client_drop" "\<not> at_rest Begin_load"
  "\<not> at_rest Begin_exchange" "\<not> at_rest Wait_clients" "\<not> at_rest Stop_lock"
  "\<not> at_rest Stop_locked" "\<not> at_rest Stop_sent" "\<not> at_rest Join_check_stopped"
  "\<not> at_rest Join_check_failed" "\<not> at_rest Join_lock" "\<not> at_rest Join_locked"
  "\<not> at_rest Join_reap" "\<not> at_rest Join_publish" "\<not> at_rest Join_sleep"
  by (simp_all add: at_rest_def)

lemma pc_command_ok_recheck: "pc_command_ok (Acquire_recheck p) = pc_command_ok (Acquire_add p)"
  by (cases p) simp_all

text \<open>The counter moves with the set of counted threads.\<close>

lemma inv_count_up:
  assumes inv: "dispatcher_inv s" and pc: "dp_pc s t = Acquire_add p"
  shows "dispatcher_inv (goto t (Acquire_recheck p) (s\<lparr>dp_active_clients := dp_active_clients s + 1\<rparr>))"
    (is "dispatcher_inv ?s")
proof (rule dispatcher_invI)
  note parts = dispatcher_invD [OF inv]
  have open_: "\<not> dp_dropped s" using parts(3) by (rule inv_not_dropped [of _ t]) (simp add: pc)
  show "queue_inv ?s" by (rule queue_inv_frame [OF parts(1)]) simp_all
  show "health_inv ?s"
    by (rule health_inv_frame [OF parts(3)]) (use open_ pc in \<open>auto simp: stop_sent_def\<close>)
  show "close_inv ?s"
    by (rule close_inv_frame [OF parts(4)]) (use pc in \<open>auto simp: stop_sent_def\<close>)
  have "{u. counted (dp_pc ?s u)} = insert t {u. counted (dp_pc s u)}"
    by (auto simp: counted_goto)
  moreover have "t \<notin> {u. counted (dp_pc s u)}" using pc by simp
  moreover have "pc_command_ok (Acquire_recheck p)"
    using client_inv_commands [OF parts(2), of t] pc by (simp add: pc_command_ok_recheck)
  moreover have "stop_sent ?s = stop_sent s" by (simp add: stop_sent_def)
  ultimately show "client_inv ?s"
    using parts(2) unfolding client_inv_def by simp blast
qed (use dispatcher_invD [OF inv] in simp)

lemma inv_count_down:
  assumes inv: "dispatcher_inv s" and counted: "counted (dp_pc s t)"
    and p: "\<not> counted p" "\<not> holds_lock p" "p \<noteq> Stop_sent" "\<not> reaping p" "pc_command_ok p"
      "\<not> past_wait p" "not_healthy_pc p \<longrightarrow> not_healthy_pc (dp_pc s t)"
    and pc: "\<not> holds_lock (dp_pc s t)" "dp_pc s t \<noteq> Stop_sent" "\<not> at_rest (dp_pc s t)"
  shows "dispatcher_inv (goto t p (release_client s))" (is "dispatcher_inv ?s")
proof (rule dispatcher_invI)
  note parts = dispatcher_invD [OF inv]
  have rel: "release_client s = s\<lparr>dp_active_clients := dp_active_clients s - 1\<rparr>"
    using inv_counted_pos [OF parts(2) counted] by (simp add: release_client_def Let_def)
  have adm: "\<not> admitted p" using p(1) admitted_counted by blast
  have open_: "\<not> dp_dropped s" using parts(3) pc(3) by (rule inv_not_dropped)
  have stop: "stop_sent ?s = stop_sent s" by (simp add: rel stop_sent_def)
  show "queue_inv ?s" by (rule queue_inv_frame [OF parts(1)]) (simp_all add: rel)
  show "health_inv ?s"
    by (rule health_inv_frame [OF parts(3)]) (use open_ p(7) stop in \<open>auto simp: rel\<close>)
  show "close_inv ?s"
    by (rule close_inv_frame [OF parts(4)]) (use p pc stop in \<open>auto simp: rel\<close>)
  have "{u. counted (dp_pc ?s u)} = {u. counted (dp_pc s u)} - {t}"
    using p(1) by (auto simp: rel)
  moreover have "t \<in> {u. counted (dp_pc s u)}" using counted by simp
  ultimately show "client_inv ?s"
    using parts(2) p(5,6) adm stop unfolding client_inv_def by (simp add: rel) blast
qed (use dispatcher_invD [OF inv] inv_counted_pos [of s t] counted in
      \<open>simp add: release_client_def Let_def\<close>)

definition admitted_pc :: "purpose \<Rightarrow> pc" where
  "admitted_pc p = (case p of For_abandonment c \<Rightarrow> Client_send c | For_guard \<Rightarrow> Client_drop
     | For_lease \<Rightarrow> Client)"

lemma admitted_pc_simps [simp]:
  "counted (admitted_pc p)" "\<not> holds_lock (admitted_pc p)" "admitted_pc p \<noteq> Stop_sent"
  "Stop_sent \<noteq> admitted_pc p" "\<not> reaping (admitted_pc p)" "\<not> not_healthy_pc (admitted_pc p)"
  "\<not> past_wait (admitted_pc p)"
  "pc_command_ok (admitted_pc p) = pc_command_ok (Acquire_recheck p)"
  by (cases p; simp add: admitted_pc_def)+

lemma inv_admit:
  assumes inv: "dispatcher_inv s" and pc: "dp_pc s t = Acquire_recheck p"
    and healthy: "dp_health s = HEALTHY"
  shows "dispatcher_inv (goto t (admitted_pc p) s)" (is "dispatcher_inv ?s")
proof (rule dispatcher_invI)
  note parts = dispatcher_invD [OF inv]
  note none = inv_no_admission [OF parts(3) healthy]
  have open_: "\<not> dp_dropped s" using parts(3) by (rule inv_not_dropped [of _ t]) (simp add: pc)
  show "queue_inv ?s" by (rule queue_inv_frame [OF parts(1)]) simp_all
  show "health_inv ?s" by (rule health_inv_frame [OF parts(3)]) (use open_ in auto)
  show "close_inv ?s" by (rule close_inv_frame [OF parts(4)]) (use pc in auto)
  have "{u. counted (dp_pc ?s u)} = {u. counted (dp_pc s u)}" using pc by auto
  moreover have "pc_command_ok (Acquire_recheck p)"
    using client_inv_commands [OF parts(2), of t] pc by simp
  ultimately show "client_inv ?s"
    using parts(2) none unfolding client_inv_def by simp
qed (use dispatcher_invD [OF inv] in simp)

lemma inv_dispatch:
  assumes inv: "dispatcher_inv s" and pc: "dp_pc s t = Client_send c"
  shows "dispatcher_inv (goto t Client_drop (dispatch c s))"
proof -
  note parts = dispatcher_invD [OF inv]
  have ok: "command_ok c" using client_inv_commands [OF parts(2), of t] pc by simp
  have open_queue: "\<not> stop_sent s"
    using parts(2) pc by (auto simp: client_inv_def dest: spec [of _ t])
  have dispatch: "dispatch c s = s\<lparr>dp_queue := dp_queue s @ [Dispatch c],
      dp_accepted := dp_accepted s @ [c]\<rparr>"
    using open_queue by (simp add: dispatch_def stop_sent_def)
  have sent: "stop_sent (dispatch c s) = stop_sent s"
    by (auto simp: dispatch stop_sent_def)
  obtain ds where ds: "dp_queue s = map Dispatch ds"
    using parts(1) open_queue by (auto simp: queue_inv_def stop_sent_def)
  have "\<exists>cs. dp_queue s @ [Dispatch c] = map Dispatch cs"
    by (rule exI [of _ "ds @ [c]"]) (simp add: ds)
  then have "queue_inv (dispatch c s)"
    using parts(1) ok open_queue by (auto simp: queue_inv_def dispatch stop_sent_def)
  then have "dispatcher_inv (dispatch c s)"
    using parts sent
    by (intro dispatcher_invI client_inv_frame [OF parts(2)] health_inv_frame [OF parts(3)]
        close_inv_frame [OF parts(4)])
      (auto simp: dispatch intro: client_inv_commands)
  moreover have "\<not> dp_dropped s" using parts(3) by (rule inv_not_dropped [of _ t]) (simp add: pc)
  ultimately show ?thesis
    using pc by (intro inv_goto) (simp_all add: dispatch)
qed

text \<open>The close begins; a closer sees no client and passes the wait.\<close>

lemma inv_begin_close:
  assumes inv: "dispatcher_inv s" and pc: "dp_pc s t = Begin_exchange"
    and healthy: "dp_health s = HEALTHY"
  shows "dispatcher_inv (goto t Wait_clients (s\<lparr>dp_health := STOPPING\<rparr>))" (is "dispatcher_inv ?s")
proof (rule dispatcher_invI)
  note parts = dispatcher_invD [OF inv]
  have stop: "stop_sent ?s = stop_sent s" by (simp add: stop_sent_def)
  have open_: "\<not> dp_dropped s" using parts(3) by (rule inv_not_dropped [of _ t]) (simp add: pc)
  show "queue_inv ?s" by (rule queue_inv_frame [OF parts(1)]) simp_all
  show "client_inv ?s"
    by (rule client_inv_frame [OF parts(2)])
      (use pc stop client_inv_commands [OF parts(2)] in auto)
  show "health_inv ?s" using open_ by (simp add: health_inv_def)
  show "close_inv ?s" by (rule close_inv_frame [OF parts(4)]) (use pc stop in auto)
qed (use dispatcher_invD [OF inv] in simp)

lemma inv_wait_done:
  assumes inv: "dispatcher_inv s" and pc: "dp_pc s t = Wait_clients"
    and none: "dp_active_clients s = 0"
  shows "dispatcher_inv (goto t Stop_lock s)" (is "dispatcher_inv ?s")
proof (rule dispatcher_invI)
  note parts = dispatcher_invD [OF inv]
  have open_: "\<not> dp_dropped s" using parts(3) by (rule inv_not_dropped [of _ t]) (simp add: pc)
  have "dp_health s \<noteq> HEALTHY" using parts(3) by (rule inv_not_healthy [of _ t]) (simp add: pc)
  then show "health_inv ?s" by (intro health_inv_frame [OF parts(3)]) (use open_ in auto)
  show "queue_inv ?s" by (rule queue_inv_frame [OF parts(1)]) simp_all
  show "close_inv ?s" by (rule close_inv_frame [OF parts(4)]) (use pc in auto)
  have "\<not> admitted (dp_pc s u)" for u
    using inv_counted_pos [OF parts(2), of u] admitted_counted none by auto
  moreover have "{u. counted (dp_pc ?s u)} = {u. counted (dp_pc s u)}" using pc by auto
  ultimately show "client_inv ?s"
    using parts(2) unfolding client_inv_def by simp
qed (use dispatcher_invD [OF inv] in simp)

text \<open>Taking and leaving the lock.\<close>

lemma inv_lock:
  assumes inv: "dispatcher_inv s" and free: "dp_lock s = None"
    and pc: "\<not> counted (dp_pc s t)" "past_wait (dp_pc s t)" "dp_pc s t \<noteq> Stop_sent"
    and p: "holds_lock p" "p \<noteq> Stop_sent"
  shows "dispatcher_inv (goto t p (s\<lparr>dp_lock := Some t\<rparr>))" (is "dispatcher_inv ?s")
proof (rule dispatcher_invI)
  note parts = dispatcher_invD [OF inv]
  have stop: "stop_sent ?s = stop_sent s" by (simp add: stop_sent_def)
  have kinds: "\<not> counted p" "\<not> admitted p" "\<not> reaping p" "pc_command_ok p" "past_wait p"
    "not_healthy_pc p"
    using p by (cases p; simp)+
  have "\<not> at_rest (dp_pc s t)" using pc(2) at_rest_kinds by blast
  then have open_: "\<not> dp_dropped s" using parts(3) inv_not_dropped by blast
  show "queue_inv ?s" by (rule queue_inv_frame [OF parts(1)]) simp_all
  show "client_inv ?s"
    by (rule client_inv_frame [OF parts(2)])
      (use pc stop kinds client_inv_commands [OF parts(2)] in auto)
  show "health_inv ?s"
    by (rule health_inv_frame [OF parts(3)])
      (use open_ stop past_wait_not_healthy [OF pc(2)] in auto)
  have "\<not> holds_lock (dp_pc s u)" for u using parts(4) free by (auto simp: close_inv_def)
  then show "close_inv ?s"
    by (intro close_inv_lock_frame [OF parts(4)]) (use p kinds stop pc(3) in auto)
qed (use dispatcher_invD [OF inv] in simp)

lemma inv_unlock:
  assumes inv: "dispatcher_inv s" and pc: "holds_lock (dp_pc s t)" "dp_pc s t \<noteq> Stop_sent"
    and p: "\<not> counted p" "\<not> holds_lock p" "\<not> reaping p" "pc_command_ok p"
      "not_healthy_pc p \<longrightarrow> past_wait p" "p \<noteq> Stop_sent"
  shows "dispatcher_inv (goto t p (unlock s))" (is "dispatcher_inv ?s")
proof (rule dispatcher_invI)
  note parts = dispatcher_invD [OF inv]
  have stop: "stop_sent ?s = stop_sent s" by (simp add: stop_sent_def unlock_def)
  have kinds: "\<not> counted (dp_pc s t)" "past_wait (dp_pc s t)" "\<not> reaping (dp_pc s t)"
    "\<not> at_rest (dp_pc s t)"
    using pc by (cases "dp_pc s t"; simp)+
  have adm: "\<not> admitted p" using p(1) admitted_counted by blast
  have open_: "\<not> dp_dropped s" using parts(3) kinds(4) inv_not_dropped by blast
  show "queue_inv ?s" by (rule queue_inv_frame [OF parts(1)]) (simp_all add: unlock_def)
  show "client_inv ?s"
    by (rule client_inv_frame [OF parts(2)])
      (use p adm stop kinds client_inv_commands [OF parts(2)] in \<open>auto simp: unlock_def\<close>)
  show "health_inv ?s"
    by (rule health_inv_frame [OF parts(3)])
      (use open_ stop p past_wait_not_healthy [OF kinds(2)] in \<open>auto simp: unlock_def\<close>)
  have "dp_lock s = Some t" using parts(4) pc(1) by (auto simp: close_inv_def)
  then have "\<forall>u. holds_lock (dp_pc s u) \<longleftrightarrow> u = t" using parts(4) by (auto simp: close_inv_def)
  then show "close_inv ?s"
    by (intro close_inv_lock_frame [OF parts(4)])
      (use p stop pc(2) kinds(3) in \<open>auto simp: unlock_def\<close>)
qed (use dispatcher_invD [OF inv] in \<open>simp add: unlock_def\<close>)

text \<open>Sending the stop command, and recording it, under the lock.\<close>

lemma inv_stop_send:
  assumes inv: "dispatcher_inv s" and pc: "dp_pc s t = Stop_locked"
    and fresh: "\<not> dp_stop_enqueued s" "\<not> dp_exited s"
  shows "dispatcher_inv (goto t Stop_sent (s\<lparr>dp_queue := dp_queue s @ [Stop]\<rparr>))"
    (is "dispatcher_inv ?s")
proof (rule dispatcher_invI)
  note parts = dispatcher_invD [OF inv]
  have open_: "\<not> dp_dropped s" using parts(3) by (rule inv_not_dropped [of _ t]) (simp add: pc)
  have lock: "holds_lock (dp_pc s u) \<longleftrightarrow> u = t" for u
    using parts(4) pc unfolding close_inv_def by (metis holds_lock.simps(1) option.inject)
  have "dp_pc s u \<noteq> Stop_sent" for u
    using lock [of u] pc by auto
  then have unsent: "\<not> stop_sent s" using parts(4) fresh by (auto simp: close_inv_def)
  have sent: "stop_sent ?s" by (simp add: stop_sent_def)
  have none: "\<not> admitted (dp_pc s u)" for u
    using parts(2) pc unfolding client_inv_def by (metis past_wait.simps(2))
  obtain ds where "dp_queue s = map Dispatch ds"
    using parts(1) unsent by (auto simp: queue_inv_def stop_sent_def)
  then show "queue_inv ?s" using parts(1) fresh by (auto simp: queue_inv_def)
  have "{u. counted (dp_pc ?s u)} = {u. counted (dp_pc s u)}" using pc by auto
  then show "client_inv ?s"
    using parts(2) none unfolding client_inv_def by simp
  have "dp_health s \<noteq> HEALTHY" using parts(3) by (rule inv_not_healthy [of _ t]) (simp add: pc)
  then show "health_inv ?s"
    using parts(3) open_ unfolding health_inv_def by simp
  have "\<not> dp_joining s" using parts(4) fresh by (auto simp: close_inv_def)
  then show "close_inv ?s"
    using parts(4) fresh sent lock pc unfolding close_inv_def by auto
qed (use dispatcher_invD [OF inv] in simp)

lemma inv_stop_record:
  assumes inv: "dispatcher_inv s" and pc: "dp_pc s t = Stop_sent"
  shows "dispatcher_inv (goto t Join_check_stopped (unlock (s\<lparr>dp_stop_enqueued := True\<rparr>)))"
    (is "dispatcher_inv ?s")
proof (rule dispatcher_invI)
  note parts = dispatcher_invD [OF inv]
  have open_: "\<not> dp_dropped s" using parts(3) by (rule inv_not_dropped [of _ t]) (simp add: pc)
  have stop: "stop_sent ?s = stop_sent s" by (simp add: stop_sent_def unlock_def)
  have lock: "holds_lock (dp_pc s u) \<longleftrightarrow> u = t" for u
    using parts(4) pc unfolding close_inv_def by (metis holds_lock.simps(2) option.inject)
  have healthy: "dp_health s \<noteq> HEALTHY"
    using parts(3) by (rule inv_not_healthy [of _ t]) (simp add: pc)
  show "queue_inv ?s" by (rule queue_inv_frame [OF parts(1)]) (simp_all add: unlock_def)
  show "client_inv ?s"
    by (rule client_inv_frame [OF parts(2)])
      (use pc stop client_inv_commands [OF parts(2)] in \<open>auto simp: unlock_def\<close>)
  show "health_inv ?s"
    by (rule health_inv_frame [OF parts(3)]) (use open_ stop healthy in \<open>auto simp: unlock_def\<close>)
  have sent: "stop_sent s" using parts(4) pc by (auto simp: close_inv_def)
  have others: "dp_pc s u \<noteq> Stop_sent" if "u \<noteq> t" for u using lock [of u] that by auto
  have reap: "\<not> reaping (dp_pc s t)" using pc by simp
  show "close_inv ?s"
    using parts(4) sent lock others stop reap unfolding close_inv_def by (auto simp: unlock_def)
qed (use dispatcher_invD [OF inv] in \<open>simp add: unlock_def\<close>)

text \<open>Taking the join handle, and publishing the end.\<close>

lemma inv_take_handle:
  assumes inv: "dispatcher_inv s" and pc: "dp_pc s t = Join_locked"
    and ready: "dp_worker s" "dp_exited s"
  shows "dispatcher_inv (goto t Join_reap (unlock (s\<lparr>dp_joining := True, dp_worker := False\<rparr>)))"
    (is "dispatcher_inv ?s")
proof (rule dispatcher_invI)
  note parts = dispatcher_invD [OF inv]
  have open_: "\<not> dp_dropped s" using parts(3) by (rule inv_not_dropped [of _ t]) (simp add: pc)
  have stop: "stop_sent ?s = stop_sent s" by (simp add: stop_sent_def unlock_def)
  have lock: "holds_lock (dp_pc s u) \<longleftrightarrow> u = t" for u
    using parts(4) pc unfolding close_inv_def by (metis holds_lock.simps(3) option.inject)
  have healthy: "dp_health s \<noteq> HEALTHY"
    using parts(3) by (rule inv_not_healthy [of _ t]) (simp add: pc)
  show "queue_inv ?s" by (rule queue_inv_frame [OF parts(1)]) (simp_all add: unlock_def)
  show "client_inv ?s"
    by (rule client_inv_frame [OF parts(2)])
      (use pc stop client_inv_commands [OF parts(2)] in \<open>auto simp: unlock_def\<close>)
  show "health_inv ?s"
    using parts(3) open_ healthy stop unfolding health_inv_def by (simp add: unlock_def)
  have others: "dp_pc s u \<noteq> Stop_sent" for u using lock [of u] pc by auto
  have "stop_sent s" using ready by (simp add: stop_sent_def)
  then have enq: "dp_stop_enqueued s" using parts(4) others by (auto simp: close_inv_def)
  have "\<not> reaping (dp_pc s u)" for u using parts(4) ready by (auto simp: close_inv_def)
  then show "close_inv ?s"
    using parts(4) lock others stop enq ready unfolding close_inv_def by (auto simp: unlock_def)
qed (use dispatcher_invD [OF inv] in \<open>simp add: unlock_def\<close>)

lemma inv_publish:
  assumes inv: "dispatcher_inv s" and pc: "dp_pc s t = Join_publish"
  shows "dispatcher_inv (goto t (Returned Close_ok) (s\<lparr>dp_health := STOPPED\<rparr>))"
    (is "dispatcher_inv ?s")
proof (rule dispatcher_invI)
  note parts = dispatcher_invD [OF inv]
  have open_: "\<not> dp_dropped s" using parts(3) by (rule inv_not_dropped [of _ t]) (simp add: pc)
  have stop: "stop_sent ?s = stop_sent s" by (simp add: stop_sent_def)
  have "dp_joining s" using parts(4) pc unfolding close_inv_def by (metis reaping.simps(2))
  then show "health_inv ?s" using open_ by (simp add: health_inv_def)
  show "queue_inv ?s" by (rule queue_inv_frame [OF parts(1)]) simp_all
  show "client_inv ?s"
    by (rule client_inv_frame [OF parts(2)])
      (use pc stop client_inv_commands [OF parts(2)] in auto)
  show "close_inv ?s" by (rule close_inv_frame [OF parts(4)]) (use pc stop in auto)
qed (use dispatcher_invD [OF inv] in simp)

text \<open>The worker.\<close>

lemma inv_worker_frame:
  assumes inv: "dispatcher_inv s" and queue: "queue_inv s'" and stop: "stop_sent s' = stop_sent s"
    and exited: "dp_exited s \<longrightarrow> dp_exited s'"
    and same: "dp_active_clients s' = dp_active_clients s" "dp_pc s' = dp_pc s"
      "dp_health s' = dp_health s" "dp_joining s' = dp_joining s" "dp_dropped s' = dp_dropped s"
      "dp_lock s' = dp_lock s" "dp_stop_enqueued s' = dp_stop_enqueued s"
      "dp_worker s' = dp_worker s" "dp_aborted s' = dp_aborted s"
  shows "dispatcher_inv s'"
  using inv queue exited
  unfolding dispatcher_inv_def client_inv_def health_inv_def close_inv_def stop same by blast

lemma queue_split:
  assumes "queue_inv s" and "dp_queue s = w # rest"
  shows "w = Stop \<Longrightarrow> rest = []" and "\<exists>ds. rest = map Dispatch ds \<or> rest = map Dispatch ds @ [Stop]"
proof -
  from assms(1) obtain ds where ds: "dp_queue s = map Dispatch ds \<or> dp_queue s = map Dispatch ds @ [Stop]"
    by (auto simp: queue_inv_def)
  show "w = Stop \<Longrightarrow> rest = []" using ds assms(2) by (cases ds) auto
  show "\<exists>ds. rest = map Dispatch ds \<or> rest = map Dispatch ds @ [Stop]"
  proof (cases ds)
    case Nil
    then show ?thesis using ds assms(2) by (intro exI [of _ "[]"]) auto
  next
    case (Cons d ds')
    then show ?thesis using ds assms(2) by (intro exI [of _ ds']) auto
  qed
qed

lemma inv_worker_dispatch:
  assumes inv: "dispatcher_inv s" and queue: "dp_queue s = Dispatch c # rest"
  shows "command_ok c"
    and "dispatcher_inv (s\<lparr>dp_queue := rest, dp_processed := dp_processed s @ [c],
           dp_undelivered := n\<rparr>)"
proof -
  have q: "queue_inv s" using inv by (simp add: dispatcher_inv_def)
  show "command_ok c" using q queue by (auto simp: queue_inv_def)
  have "queue_inv (s\<lparr>dp_queue := rest, dp_processed := dp_processed s @ [c],
           dp_undelivered := n\<rparr>)"
    using q queue queue_split(2) [OF q queue] by (auto simp: queue_inv_def)
  then show "dispatcher_inv (s\<lparr>dp_queue := rest, dp_processed := dp_processed s @ [c],
           dp_undelivered := n\<rparr>)"
    by (rule inv_worker_frame [OF inv]) (use queue in \<open>auto simp: stop_sent_def\<close>)
qed

lemma inv_worker:
  assumes inv: "dispatcher_inv s"
  shows "dispatcher_inv (dispatch_worker_step alive s)"
proof (cases "dp_exited s")
  case False
  note parts = dispatcher_invD [OF inv]
  show ?thesis
  proof (cases "dp_queue s")
    case Nil
    have "\<not> dp_dropped s"
      using parts(3,4) False by (auto simp: health_inv_def close_inv_def)
    then show ?thesis using Nil False inv by (simp add: dispatch_worker_step_def)
  next
    case (Cons w rest)
    show ?thesis
    proof (cases w)
      case Stop
      then have "rest = []" using queue_split(1) [OF parts(1) Cons] by simp
      moreover have "queue_inv (s\<lparr>dp_queue := [], dp_exited := True\<rparr>)"
        using parts(1) Cons Stop \<open>rest = []\<close> by (auto simp: queue_inv_def)
      then have "dispatcher_inv (s\<lparr>dp_queue := [], dp_exited := True\<rparr>)"
        by (rule inv_worker_frame [OF inv]) (use Cons Stop in \<open>auto simp: stop_sent_def\<close>)
      ultimately show ?thesis using False Cons Stop by (simp add: dispatch_worker_step_def)
    next
      case (Dispatch c)
      note queue = Cons [unfolded Dispatch]
      note step = inv_worker_dispatch [OF inv queue]
      have "s\<lparr>dp_queue := rest, dp_processed := dp_processed s @ [c]\<rparr> =
        s\<lparr>dp_queue := rest, dp_processed := dp_processed s @ [c],
          dp_undelivered := dp_undelivered s\<rparr>"
        by simp
      then have "dispatcher_inv (s\<lparr>dp_queue := rest, dp_processed := dp_processed s @ [c]\<rparr>)"
        by (rule ssubst) (rule step(2))
      then show ?thesis
        using False queue step
        by (auto simp: dispatch_worker_step_def command_send_def command_ok_def Let_def)
    qed
  qed
qed (simp add: dispatch_worker_step_def inv)

lemma inv_drop:
  assumes inv: "dispatcher_inv s" and rest: "\<forall>t. at_rest (dp_pc s t)"
  shows "dispatcher_inv (dispatcher_drop s)" (is "dispatcher_inv ?s")
proof (rule dispatcher_invI)
  note parts = dispatcher_invD [OF inv]
  have same: "dp_pc ?s = dp_pc s" "dp_queue ?s = dp_queue s" "dp_exited ?s = dp_exited s"
    "dp_accepted ?s = dp_accepted s" "dp_processed ?s = dp_processed s"
    "dp_active_clients ?s = dp_active_clients s" "dp_health ?s = dp_health s"
    "dp_joining ?s = dp_joining s" "dp_lock ?s = dp_lock s" "dp_worker ?s = dp_worker s"
    "dp_stop_enqueued ?s = dp_stop_enqueued s"
    "dp_dropped ?s \<longrightarrow> dp_health s = STOPPED \<or> dp_dropped s"
    "dp_aborted ?s = dp_aborted s \<or> dp_aborted ?s = Some Owner_dropped_without_close"
    by (simp_all add: dispatcher_drop_def fatal_dispatcher_corruption_def)
  have stop: "stop_sent ?s = stop_sent s" by (simp add: stop_sent_def same)
  show "queue_inv ?s" by (rule queue_inv_frame [OF parts(1)]) (simp_all add: same)
  show "client_inv ?s"
    by (rule client_inv_frame [OF parts(2)])
      (simp_all add: same stop client_inv_commands [OF parts(2)])
  show "health_inv ?s"
    using parts(3) rest same(12) unfolding health_inv_def stop same(1,7,8) by blast
  show "close_inv ?s" by (rule close_inv_frame [OF parts(4)]) (simp_all add: same stop)
  show "dp_aborted ?s = None \<or> dp_aborted ?s = Some Owner_dropped_without_close"
    using parts(5) same(13) by auto
qed

section \<open>Preservation\<close>

text \<open>The steps of \<open>close_and_join\<close> in the order of the code.\<close>

lemma inv_begin_close_step:
  assumes "dispatcher_inv s" and "dp_pc s t = p" and "p = Begin_load \<or> p = Begin_exchange"
  shows "dispatcher_inv (begin_close_step t p s)"
  using assms(3)
proof
  assume p: "p = Begin_load"
  note parts = dispatcher_invD [OF assms(1)]
  have open_: "\<not> dp_dropped s"
    using parts(3) by (rule inv_not_dropped [of _ t]) (simp add: assms p)
  have go: "dispatcher_inv (goto t q s)"
    if "q = Begin_exchange \<or> q = Wait_clients \<and> dp_health s \<noteq> HEALTHY" for q
    using assms(1,2) p that open_ by (intro inv_goto) auto
  from parts(3) consider "dp_health s = HEALTHY" | "dp_health s = STOPPING" | "dp_health s = STOPPED"
    by (auto simp: health_inv_def)
  then show ?thesis
    by cases (simp_all add: p health_def decode_health_def go)
next
  assume p: "p = Begin_exchange"
  have "\<not> dp_dropped s"
    using dispatcher_invD(3) [OF assms(1)] by (rule inv_not_dropped [of _ t]) (simp add: assms p)
  then show ?thesis
    using assms(1,2) p inv_begin_close [of s t] by (auto intro!: inv_goto)
qed

lemma inv_lock_step:
  assumes inv: "dispatcher_inv s"
    and pc: "dp_pc s t = Stop_lock \<and> p = Stop_locked \<or> dp_pc s t = Join_lock \<and> p = Join_locked"
  shows "dispatcher_inv (lock_state_step timed_out t p s)"
proof (cases "dp_lock s = None")
  case True
  then show ?thesis
    using inv_lock [OF inv True, of t p] pc by (auto simp: lock_state_step_def)
next
  case False
  then show ?thesis
    using inv pc by (auto simp: lock_state_step_def intro!: inv_goto)
qed

lemma inv_enqueue_stop_step:
  assumes inv: "dispatcher_inv s" and pc: "dp_pc s t = p" and "p = Stop_locked \<or> p = Stop_sent"
  shows "dispatcher_inv (enqueue_stop_step t p s)"
  using assms(3)
proof
  assume p: "p = Stop_locked"
  note parts = dispatcher_invD [OF inv]
  have lock: "holds_lock (dp_pc s u) \<longleftrightarrow> u = t" for u
    using parts(4) pc p unfolding close_inv_def by (metis holds_lock.simps(1) option.inject)
  have "dp_pc s u \<noteq> Stop_sent" for u using lock [of u] pc p by auto
  then have "dp_exited s \<Longrightarrow> dp_stop_enqueued s"
    using parts(4) by (auto simp: close_inv_def stop_sent_def)
  moreover have "dispatcher_inv (goto t q (unlock s))"
    if "q = Join_check_stopped \<or> (\<exists>r. q = Returned r)" for q
    using that pc p by (intro inv_unlock [OF inv]) auto
  ultimately show ?thesis
    using p pc inv_stop_send [OF inv] by auto
next
  assume "p = Stop_sent"
  then show ?thesis using inv_stop_record [OF inv] pc by simp
qed

lemma inv_join_step:
  assumes inv: "dispatcher_inv s" and pc: "dp_pc s t = p"
    and p: "p \<in> {Join_check_stopped, Join_check_failed, Join_locked, Join_reap, Join_publish,
      Join_sleep}"
  shows "dispatcher_inv (join_step timed_out t p s)"
proof -
  note parts = dispatcher_invD [OF inv]
  have nh: "dp_health s \<noteq> HEALTHY"
    using parts(3) by (rule inv_not_healthy [of _ t]) (use pc p in auto)
  have open_: "\<not> dp_dropped s" using parts(3) by (rule inv_not_dropped [of _ t]) (use pc p in auto)
  have unlock: "dispatcher_inv (goto t q (unlock s))"
    if "p = Join_locked" "q = Join_sleep \<or> (\<exists>r. q = Returned r)" for q
    using that pc by (intro inv_unlock [OF inv]) auto
  from p consider "p = Join_check_stopped" | "p = Join_check_failed" | "p = Join_locked"
    | "p = Join_reap" | "p = Join_publish" | "p = Join_sleep" by auto
  then show ?thesis
  proof cases
    case 3
    then show ?thesis using unlock inv_take_handle [OF inv] pc by auto
  next
    case 5
    then show ?thesis using inv_publish [OF inv] pc by simp
  qed (use inv pc nh open_ in \<open>auto intro!: inv_goto\<close>)
qed

lemma inv_client_step:
  assumes inv: "dispatcher_inv s" and pc: "dp_pc s t = p" and running: "dp_aborted s = None"
  shows "dispatcher_inv (client_step t p s)"
proof -
  note parts = dispatcher_invD [OF inv]
  have nh: "dp_health s \<noteq> HEALTHY" if "p = Acquire_rejected q" for q
    using parts(3) by (rule inv_not_healthy [of _ t]) (simp add: pc that)
  have rejected: "abandonment_rejected s = s" if "p = Acquire_rejected q" for q
    using parts(3) nh [OF that]
    by (auto simp: abandonment_rejected_def health_inv_def health_def decode_health_def)
  show ?thesis
  proof (cases p)
    case (Acquire_retract q)
    then show ?thesis
      using pc by (cases q) (auto intro!: inv_count_down [OF inv])
  next
    case (Acquire_rejected q)
    then show ?thesis
      using pc rejected by (cases q) (auto intro!: inv_goto [OF inv])
  next
    case (Client_send c)
    then show ?thesis using inv_dispatch [OF inv] pc by simp
  next
    case Client_drop
    then show ?thesis using pc by (auto intro!: inv_count_down [OF inv])
  qed (use inv in simp_all)
qed

lemma inv_acquire_step:
  assumes inv: "dispatcher_inv s" and pc: "dp_pc s t = p"
    and p: "p = Acquire_load q \<or> p = Acquire_add q \<or> p = Acquire_recheck q"
  shows "dispatcher_inv (acquire_step t p s)"
proof -
  note parts = dispatcher_invD [OF inv]
  have open_: "\<not> dp_dropped s" using parts(3) by (rule inv_not_dropped [of _ t]) (use pc p in auto)
  have cmd: "pc_command_ok p" using client_inv_commands [OF parts(2), of t] pc by simp
  from p consider "p = Acquire_load q" | "p = Acquire_add q" | "p = Acquire_recheck q" by blast
  then show ?thesis
  proof cases
    case 1
    then have "pc_command_ok (Acquire_add q)" using cmd by (cases q) simp_all
    then show ?thesis using 1 pc open_ by (auto intro!: inv_goto [OF inv])
  next
    case 2
    then show ?thesis using inv_count_up [OF inv, of t q] pc by simp
  next
    case 3
    then show ?thesis
      using pc open_ inv_admit [OF inv, of t q]
      by (auto intro!: inv_goto [OF inv] simp: admitted_pc_def)
  qed
qed

lemma inv_thread_step:
  assumes inv: "dispatcher_inv s" and running: "dp_aborted s = None"
  shows "dispatcher_inv (thread_step timed_out t s)"
proof -
  have wait: "dispatcher_inv (wait_for_clients_step timed_out t s)" if "dp_pc s t = Wait_clients"
    using inv inv_wait_done [OF inv that] that
    by (auto simp: wait_for_clients_step_def intro!: inv_goto)
  show ?thesis
    unfolding thread_step_def
    by (cases "dp_pc s t")
      (simp_all only: pc.case inv_acquire_step [OF inv] inv_begin_close_step [OF inv] wait
        inv_lock_step [OF inv] inv_enqueue_stop_step [OF inv] inv_join_step [OF inv]
        inv_client_step [OF inv _ running] simp_thms insert_iff pc.inject pc.distinct)
qed

lemma inv_step:
  assumes "dispatcher_step s s'" and "dispatcher_inv s"
  shows "dispatcher_inv s'"
  using assms
proof (induction rule: dispatcher_step.induct)
  case (start s t p)
  then show ?case
  proof (cases p)
    case (Acquire_load q)
    with start show ?thesis
      by (cases q) (auto intro!: inv_goto simp: at_rest_kinds dest: at_rest_kinds(1-7))
  qed (auto intro!: inv_goto simp: at_rest_kinds)
next
  case (retire s t c)
  then have "\<not> dp_dropped s"
    using inv_not_dropped [OF dispatcher_invD(3), of s t] by simp
  with retire show ?case by (intro inv_goto) simp_all
next
  case (discard s t)
  then have "\<not> dp_dropped s"
    using inv_not_dropped [OF dispatcher_invD(3), of s t] by simp
  with discard show ?case by (intro inv_goto) simp_all
qed (simp_all add: inv_thread_step inv_worker inv_drop)

lemma inv_start: "dispatcher_inv dispatcher_start"
  by (simp add: dispatcher_start_def dispatcher_inv_def queue_inv_def client_inv_def
      health_inv_def close_inv_def stop_sent_def)

lemma inv_reachable:
  assumes "dispatcher_reachable s"
  shows "dispatcher_inv s"
  using assms unfolding dispatcher_reachable_def
  by (induction rule: rtranclp_induct) (simp_all add: inv_start inv_step)

section \<open>What a step changes\<close>

lemmas step_defs = acquire_step.simps client_step.simps begin_close_step.simps
  wait_for_clients_step_def lock_state_step_def enqueue_stop_step.simps join_step.simps

text \<open>Only the publishing of a join stops a dispatcher, only a compare-exchange closes it.\<close>

lemma abandonment_rejected_fields [simp]:
  "dp_health (abandonment_rejected s) = dp_health s" "dp_pc (abandonment_rejected s) = dp_pc s"
  "dp_accepted (abandonment_rejected s) = dp_accepted s"
  "dp_processed (abandonment_rejected s) = dp_processed s"
  by (simp_all add: abandonment_rejected_def fatal_dispatcher_corruption_def
      split: dispatcher_health.split)

lemma release_client_fields [simp]:
  "dp_health (release_client s) = dp_health s" "dp_pc (release_client s) = dp_pc s"
  "dp_accepted (release_client s) = dp_accepted s"
  "dp_processed (release_client s) = dp_processed s"
  by (simp_all add: release_client_def fatal_dispatcher_corruption_def Let_def)

lemma dispatch_fields [simp]:
  "dp_health (dispatch c s) = dp_health s" "dp_pc (dispatch c s) = dp_pc s"
  "dp_processed (dispatch c s) = dp_processed s"
  by (simp_all add: dispatch_def fatal_dispatcher_corruption_def)

lemma unlock_fields [simp]:
  "dp_health (unlock s) = dp_health s" "dp_pc (unlock s) = dp_pc s"
  "dp_accepted (unlock s) = dp_accepted s" "dp_processed (unlock s) = dp_processed s"
  by (simp_all add: unlock_def)

lemma fatal_fields [simp]:
  "dp_health (fatal_dispatcher_corruption r s) = dp_health s"
  "dp_pc (fatal_dispatcher_corruption r s) = dp_pc s"
  "dp_accepted (fatal_dispatcher_corruption r s) = dp_accepted s"
  "dp_processed (fatal_dispatcher_corruption r s) = dp_processed s"
  by (simp_all add: fatal_dispatcher_corruption_def)

lemma thread_step_health:
  assumes "dp_health s \<noteq> HEALTHY"
  shows "dp_health (thread_step timed_out t s) = dp_health s \<or>
     dp_health (thread_step timed_out t s) = STOPPED"
proof (cases "dp_pc s t")
  case (Acquire_rejected q)
  then show ?thesis by (cases q) (simp_all add: thread_step_def)
qed (use assms in \<open>simp_all add: thread_step_def step_defs split: dispatcher_health.split\<close>)

lemma thread_step_accepted:
  assumes "\<forall>c. dp_pc s t \<noteq> Client_send c"
  shows "dp_accepted (thread_step timed_out t s) = dp_accepted s"
proof (cases "dp_pc s t")
  case (Acquire_rejected q)
  then show ?thesis by (cases q) (simp_all add: thread_step_def)
qed (use assms in \<open>simp_all add: thread_step_def step_defs split: dispatcher_health.split\<close>)

lemma thread_step_processed: "dp_processed (thread_step timed_out t s) = dp_processed s"
proof (cases "dp_pc s t")
  case (Acquire_rejected q)
  then show ?thesis by (cases q) (simp_all add: thread_step_def)
qed (simp_all add: thread_step_def step_defs split: dispatcher_health.split)

lemma worker_step_exited: "dp_exited s \<Longrightarrow> dispatch_worker_step alive s = s"
  by (simp add: dispatch_worker_step_def)

lemma stopped_is_final:
  assumes step: "dispatcher_step s s'" and inv: "dispatcher_inv s" and stopped: "dp_health s = STOPPED"
  shows "dp_health s' = STOPPED \<and> dp_accepted s' = dp_accepted s \<and> dp_processed s' = dp_processed s"
proof -
  note parts = dispatcher_invD [OF inv]
  have exited: "dp_exited s" using parts(3,4) stopped by (simp add: health_inv_def close_inv_def)
  then have "\<not> admitted (dp_pc s u)" for u using parts(2) by (simp add: client_inv_def stop_sent_def)
  then have "dp_pc s u \<noteq> Client_send c" for u c by (metis admitted.simps(2))
  with step stopped exited thread_step_health [of s] show ?thesis
    by cases
      (auto simp: thread_step_accepted thread_step_processed worker_step_exited dispatcher_drop_def)
qed

lemma stopped_complete:
  assumes "dispatcher_inv s" and "dp_health s = STOPPED"
  shows "dp_processed s = dp_accepted s \<and> dp_queue s = [] \<and> (\<forall>t. \<not> admitted (dp_pc s t))"
  using dispatcher_invD [OF assms(1)] assms(2)
  by (auto simp: health_inv_def close_inv_def queue_inv_def client_inv_def stop_sent_def)

lemma stopped_forever:
  assumes "dispatcher_step\<^sup>*\<^sup>* s s'" and "dispatcher_inv s" and "dp_health s = STOPPED"
  shows "dispatcher_inv s' \<and> dp_health s' = STOPPED \<and> dp_accepted s' = dp_accepted s \<and>
     dp_processed s' = dp_processed s"
  using assms
  by (induction rule: rtranclp_induct) (auto dest: stopped_is_final inv_step)

text \<open>No thread becomes a client once the dispatcher is not healthy.\<close>

lemma thread_step_admits:
  assumes "dp_health s \<noteq> HEALTHY" and "\<not> admitted (dp_pc s u)"
  shows "\<not> admitted (dp_pc (thread_step timed_out t s) u)"
proof (cases "dp_pc s t")
  case (Acquire_rejected q)
  then show ?thesis using assms by (cases q) (simp_all add: thread_step_def)
next
  case (Client_send c)
  then show ?thesis using assms by (auto simp: thread_step_def)
qed (use assms in \<open>auto simp add: thread_step_def step_defs split: dispatcher_health.split\<close>)

lemma worker_step_pc: "dp_pc (dispatch_worker_step alive s) = dp_pc s"
  by (simp add: dispatch_worker_step_def Let_def
      split: list.split worker_command.split send_outcome.split)

lemma closed_admits_nobody:
  assumes step: "dispatcher_step s s'" and closed: "dp_health s \<noteq> HEALTHY"
    and out: "\<not> admitted (dp_pc s u)"
  shows "\<not> admitted (dp_pc s' u)"
  using step
proof (cases rule: dispatcher_step.cases)
  case (start t p)
  then show ?thesis using out by (cases p) auto
next
  case drop
  then show ?thesis using out by (simp add: dispatcher_drop_def)
qed (use out thread_step_admits [OF closed out] worker_step_pc in auto)

section \<open>Shutdown completes\<close>

text \<open>
  A join that was started is either in progress or has been published, so at rest the handle is
  available unless the dispatcher is stopped.
\<close>

definition join_inv :: "dispatcher \<Rightarrow> bool" where
  "join_inv s \<longleftrightarrow> (dp_joining s \<longrightarrow> dp_health s = STOPPED \<or> (\<exists>t. reaping (dp_pc s t)))"

lemma join_inv_thread:
  assumes inv: "dispatcher_inv s" and join: "join_inv s"
  shows "join_inv (thread_step timed_out t s)"
proof (cases "reaping (dp_pc s t)")
  case True
  then show ?thesis
    using join by (cases "dp_pc s t") (auto simp: thread_step_def join_inv_def)
next
  case False
  have others: "dp_pc (thread_step timed_out t s) u = dp_pc s u" if "u \<noteq> t" for u
  proof (cases "dp_pc s t")
    case (Acquire_rejected q)
    then show ?thesis using that by (cases q) (simp_all add: thread_step_def)
  qed (use that in \<open>simp_all add: thread_step_def step_defs split: dispatcher_health.split\<close>)
  show ?thesis
  proof (cases "dp_joining s")
    case True
    then have "dp_health s \<noteq> HEALTHY"
      using dispatcher_invD [OF inv] by (auto simp: close_inv_def health_inv_def stop_sent_def)
    then have "dp_health s = STOPPED \<longrightarrow> dp_health (thread_step timed_out t s) = STOPPED"
      using thread_step_health [of s timed_out t] by auto
    moreover have "reaping (dp_pc s u) \<longrightarrow> reaping (dp_pc (thread_step timed_out t s) u)" for u
      using False others [of u] by (cases "u = t") auto
    ultimately show ?thesis using join True unfolding join_inv_def by metis
  next
    case no: False
    show ?thesis
    proof (cases "dp_pc s t")
      case (Acquire_rejected q)
      then show ?thesis using no
        by (cases q) (auto simp: thread_step_def join_inv_def abandonment_rejected_def
            fatal_dispatcher_corruption_def split: dispatcher_health.split)
    qed (use no in \<open>auto simp: thread_step_def step_defs join_inv_def unlock_def release_client_def
          dispatch_def fatal_dispatcher_corruption_def Let_def split: dispatcher_health.split\<close>)
  qed
qed

lemma worker_step_fields [simp]:
  "dp_joining (dispatch_worker_step alive s) = dp_joining s"
  "dp_worker (dispatch_worker_step alive s) = dp_worker s"
  "dp_lock (dispatch_worker_step alive s) = dp_lock s"
  "dp_stop_enqueued (dispatch_worker_step alive s) = dp_stop_enqueued s"
  "dp_dropped (dispatch_worker_step alive s) = dp_dropped s"
  "dp_active_clients (dispatch_worker_step alive s) = dp_active_clients s"
  by (simp_all add: dispatch_worker_step_def fatal_dispatcher_corruption_def Let_def
      split: list.split worker_command.split send_outcome.split)

lemma inv_worker_health:
  assumes inv: "dispatcher_inv s"
  shows "dp_health (dispatch_worker_step alive s) = dp_health s \<and>
    dp_aborted (dispatch_worker_step alive s) = dp_aborted s"
proof (cases "dp_exited s")
  case False
  note parts = dispatcher_invD [OF inv]
  have "\<not> dp_dropped s" using parts(3,4) False by (auto simp: health_inv_def close_inv_def)
  moreover have "command_send alive c \<noteq> Send_panicked" if "dp_queue s = Dispatch c # rest" for c rest
    using inv_worker_dispatch(1) [OF inv that]
    by (simp add: command_send_def command_ok_def)
  ultimately show ?thesis
    by (auto simp: dispatch_worker_step_def Let_def
        split: list.split worker_command.split send_outcome.split)
qed (simp add: worker_step_exited)

lemma join_inv_step:
  assumes "dispatcher_step s s'" and "dispatcher_inv s" and "join_inv s"
  shows "join_inv s'"
  using assms
proof cases
  case (start t p)
  have "reaping (dp_pc s u) \<longrightarrow> u \<noteq> t" for u using start(4) at_rest_kinds(5) by blast
  then show ?thesis using start assms(3) by (auto simp: join_inv_def)
next
  case (retire t c)
  have "reaping (dp_pc s u) \<longrightarrow> u \<noteq> t" for u using retire(3) by auto
  then show ?thesis using retire assms(3) by (auto simp: join_inv_def)
next
  case (discard t)
  have "reaping (dp_pc s u) \<longrightarrow> u \<noteq> t" for u using discard(3) by auto
  then show ?thesis using discard assms(3) by (auto simp: join_inv_def)
next
  case (worker alive)
  then show ?thesis
    using assms(2,3) inv_worker_health by (simp add: join_inv_def worker_step_pc)
next
  case drop
  then show ?thesis
    using assms(3) by (auto simp: join_inv_def dispatcher_drop_def fatal_dispatcher_corruption_def)
qed (simp add: join_inv_thread assms)

definition alone :: "nat \<Rightarrow> pc \<Rightarrow> dispatcher \<Rightarrow> bool" where
  "alone t p s \<longleftrightarrow> dispatcher_inv s \<and> join_inv s \<and> dp_aborted s = None \<and> \<not> dp_dropped s \<and>
     dp_pc s t = p \<and> (\<forall>u. u \<noteq> t \<longrightarrow> at_rest (dp_pc s u))"

definition can_finish :: "nat \<Rightarrow> dispatcher \<Rightarrow> bool" where
  "can_finish t s \<longleftrightarrow> (\<exists>s'. dispatcher_step\<^sup>*\<^sup>* s s' \<and> dp_pc s' t = Returned Close_ok \<and>
     dp_health s' = STOPPED \<and> dp_aborted s' = None)"

lemma thread_step_other:
  assumes "u \<noteq> t"
  shows "dp_pc (thread_step timed_out t s) u = dp_pc s u"
proof (cases "dp_pc s t")
  case (Acquire_rejected q)
  then show ?thesis using assms by (cases q) (simp_all add: thread_step_def)
qed (use assms in \<open>simp_all add: thread_step_def step_defs split: dispatcher_health.split\<close>)

lemma can_finish_step: "dispatcher_step s s' \<Longrightarrow> can_finish t s' \<Longrightarrow> can_finish t s"
  unfolding can_finish_def by (meson converse_rtranclp_into_rtranclp)

lemma alone_advance:
  assumes alone: "alone t p s" and pc: "dp_pc (thread_step False t s) t = q"
    and ok: "dp_aborted (thread_step False t s) = None" "\<not> at_rest q"
  shows "alone t q (thread_step False t s)"
proof -
  have inv: "dispatcher_inv (thread_step False t s)"
    using alone by (simp add: alone_def inv_thread_step)
  moreover have "\<not> dp_dropped (thread_step False t s)"
    using inv_not_dropped [OF dispatcher_invD(3) [OF inv], of t] pc ok(2) by simp
  ultimately show ?thesis
    using alone pc ok by (simp add: alone_def join_inv_thread thread_step_other)
qed

lemma can_finish_advance:
  assumes "alone t p s" and "can_finish t (thread_step False t s)"
  shows "can_finish t s"
  by (rule can_finish_step [OF dispatcher_step.thread]) (use assms in \<open>simp_all add: alone_def\<close>)

lemma alone_facts:
  assumes "alone t p s" and "\<not> counted p"
  shows "dp_active_clients s = 0" and "\<not> holds_lock p \<Longrightarrow> dp_lock s = None"
proof -
  have others: "at_rest (dp_pc s u)" if "u \<noteq> t" for u using that assms(1) by (simp add: alone_def)
  have rest: "\<not> counted (dp_pc s u)" for u
    using others [of u] assms at_rest_kinds(1) by (cases "u = t") (simp_all add: alone_def)
  then show "dp_active_clients s = 0"
    using assms(1) by (simp add: alone_def dispatcher_inv_def client_inv_def)
  assume p: "\<not> holds_lock p"
  then have "\<not> holds_lock (dp_pc s u)" for u
    using others [of u] at_rest_kinds(4) assms(1) by (cases "u = t") (simp_all add: alone_def)
  then show "dp_lock s = None"
    using assms(1) by (simp add: alone_def dispatcher_inv_def close_inv_def)
qed

text \<open>The worker reaches its stop command, whatever recipients are gone.\<close>

lemma worker_drains:
  assumes "dispatcher_inv s" and "join_inv s" and "dp_aborted s = None" and "stop_sent s"
  shows "\<exists>s'. dispatcher_step\<^sup>*\<^sup>* s s' \<and> dispatcher_inv s' \<and> join_inv s' \<and> dp_aborted s' = None \<and>
     dp_exited s' \<and> dp_pc s' = dp_pc s \<and> dp_dropped s' = dp_dropped s \<and> dp_health s' = dp_health s"
  using assms
proof (induction "length (dp_queue s)" arbitrary: s rule: less_induct)
  case less
  show ?case
  proof (cases "dp_exited s")
    case False
    let ?s = "dispatch_worker_step True s"
    have step: "dispatcher_step s ?s" using less.prems(3) by (rule dispatcher_step.worker)
    have inv: "dispatcher_inv ?s" "join_inv ?s"
      using less.prems step inv_worker join_inv_step by blast+
    have same: "dp_health ?s = dp_health s" "dp_aborted ?s = None"
      using inv_worker_health [OF less.prems(1), of True] less.prems(3) by simp_all
    obtain w rest where queue: "dp_queue s = w # rest"
      using less.prems(4) False by (cases "dp_queue s") (auto simp: stop_sent_def)
    have shorter: "dp_queue ?s = rest \<and> (dp_exited ?s \<longleftrightarrow> w = Stop)"
      using False queue by (auto simp: dispatch_worker_step_def Let_def
          fatal_dispatcher_corruption_def split: worker_command.split send_outcome.split)
    then have "stop_sent ?s"
      using less.prems(4) False queue by (auto simp: stop_sent_def)
    then obtain s' where "dispatcher_step\<^sup>*\<^sup>* ?s s'" "dispatcher_inv s'" "join_inv s'"
      "dp_aborted s' = None" "dp_exited s'" "dp_pc s' = dp_pc ?s" "dp_dropped s' = dp_dropped ?s"
      "dp_health s' = dp_health ?s"
      using less.hyps [of ?s] shorter queue inv same by auto
    then show ?thesis
      using step same by (intro exI [of _ s']) (auto simp: worker_step_pc)
  qed (use less.prems in blast)
qed

lemma finish_publish: "alone t Join_publish s \<Longrightarrow> can_finish t s"
  by (rule can_finish_advance, assumption)
    (auto simp: alone_def thread_step_def can_finish_def)

lemma finish_reap: "alone t Join_reap s \<Longrightarrow> can_finish t s"
  by (rule can_finish_advance, assumption, rule finish_publish, rule alone_advance, assumption)
    (simp_all add: alone_def thread_step_def)

lemma finish_joinable:
  assumes "alone t p s" and "\<not> reaping p" and "dp_health s \<noteq> STOPPED"
  shows "dp_worker s \<and> \<not> dp_joining s"
proof -
  have "\<not> reaping (dp_pc s u)" for u
    using assms(1,2) at_rest_kinds(5) by (cases "u = t") (auto simp: alone_def)
  then have "\<not> dp_joining s" using assms by (simp add: alone_def join_inv_def)
  then show ?thesis using assms(1) by (simp add: alone_def dispatcher_inv_def close_inv_def)
qed

lemma finish_join:
  assumes alone: "alone t Join_lock s" and exited: "dp_exited s" and live: "dp_health s \<noteq> STOPPED"
  shows "can_finish t s"
proof -
  let ?s = "thread_step False t s"
  have lock: "?s = goto t Join_locked (s\<lparr>dp_lock := Some t\<rparr>)"
    using alone alone_facts(2) [OF alone] by (simp add: alone_def thread_step_def lock_state_step_def)
  have s: "alone t Join_locked ?s"
    by (rule alone_advance [OF alone]) (use alone in \<open>simp_all add: lock alone_def\<close>)
  have ready: "dp_worker ?s \<and> \<not> dp_joining ?s"
    using finish_joinable [OF alone] live by (simp add: lock)
  have "alone t Join_reap (thread_step False t ?s)"
    by (rule alone_advance [OF s])
      (use s ready exited alone in \<open>simp_all add: alone_def thread_step_def [of False t ?s]
          unlock_def, simp_all add: lock\<close>)
  then show ?thesis
    using can_finish_advance [OF alone] can_finish_advance [OF s] finish_reap by blast
qed

lemma finish_check:
  assumes alone: "alone t Join_check_stopped s" and stop: "stop_sent s"
  shows "can_finish t s"
proof (cases "dp_health s = STOPPED")
  case True
  then show ?thesis
    using alone by (intro can_finish_advance [OF alone])
      (auto simp: alone_def thread_step_def can_finish_def)
next
  case False
  obtain s1 where drained: "dispatcher_step\<^sup>*\<^sup>* s s1" "dp_exited s1" "alone t Join_check_stopped s1"
    "dp_health s1 = dp_health s"
    using worker_drains [of s] alone stop by (auto simp: alone_def)
  let ?s2 = "thread_step False t s1"
  have s2: "?s2 = goto t Join_check_failed s1"
    using drained(3,4) False by (simp add: alone_def thread_step_def)
  have a2: "alone t Join_check_failed ?s2"
    by (rule alone_advance [OF drained(3)]) (use drained(3) in \<open>simp_all add: s2 alone_def\<close>)
  have not_failed: "health s1 \<noteq> Failed"
    using drained(3) by (auto simp: alone_def dispatcher_inv_def health_inv_def health_def
        decode_health_def)
  have "health ?s2 \<noteq> Failed" using not_failed by (simp add: s2)
  then have s3: "thread_step False t ?s2 = goto t Join_lock ?s2"
    using a2 by (simp add: alone_def thread_step_def [of False t ?s2])
  have a3: "alone t Join_lock (thread_step False t ?s2)"
    by (rule alone_advance [OF a2]) (use a2 in \<open>simp_all add: s3 alone_def\<close>)
  have "can_finish t (thread_step False t ?s2)"
    by (rule finish_join [OF a3]) (use drained False in \<open>simp_all add: s3, simp_all add: s2\<close>)
  then have "can_finish t s1"
    using can_finish_advance [OF a2] can_finish_advance [OF drained(3)] by blast
  then show ?thesis
    using drained(1) unfolding can_finish_def by (meson rtranclp_trans)
qed

lemma finish_stop_locked:
  assumes alone: "alone t Stop_locked s"
  shows "can_finish t s"
proof (cases "dp_health s = STOPPED \<or> dp_stop_enqueued s")
  case True
  have step: "thread_step False t s = goto t Join_check_stopped (unlock s)"
    using True alone by (auto simp: alone_def thread_step_def)
  have "stop_sent s"
    using True alone by (auto simp: alone_def dispatcher_inv_def close_inv_def health_inv_def)
  then have "stop_sent (thread_step False t s)" by (simp add: step stop_sent_def unlock_def)
  moreover have "alone t Join_check_stopped (thread_step False t s)"
    by (rule alone_advance [OF alone]) (use alone in \<open>simp_all add: step alone_def unlock_def\<close>)
  ultimately show ?thesis using can_finish_advance [OF alone] finish_check by blast
next
  case False
  have ready: "dp_worker s" using finish_joinable [OF alone] False by simp
  have "dp_pc s u \<noteq> Stop_sent" for u
    using alone at_rest_kinds(6) by (cases "u = t") (auto simp: alone_def)
  then have "\<not> stop_sent s"
    using alone False by (simp add: alone_def dispatcher_inv_def close_inv_def)
  then have s1: "thread_step False t s = goto t Stop_sent (s\<lparr>dp_queue := dp_queue s @ [Stop]\<rparr>)"
    using alone False ready by (simp add: alone_def thread_step_def stop_sent_def)
  let ?s1 = "thread_step False t s"
  have a1: "alone t Stop_sent ?s1"
    by (rule alone_advance [OF alone]) (use alone in \<open>simp_all add: s1 alone_def\<close>)
  have s2: "thread_step False t ?s1 =
      goto t Join_check_stopped (unlock (?s1\<lparr>dp_stop_enqueued := True\<rparr>))"
    using a1 by (simp add: alone_def thread_step_def [of False t ?s1])
  have a2: "alone t Join_check_stopped (thread_step False t ?s1)"
    by (rule alone_advance [OF a1]) (use a1 in \<open>simp_all add: s2 alone_def unlock_def\<close>)
  have "stop_sent (thread_step False t ?s1)"
    by (simp add: s2 unlock_def stop_sent_def, simp add: s1)
  then show ?thesis
    using can_finish_advance [OF alone] can_finish_advance [OF a1] finish_check [OF a2] by blast
qed

lemma finish_wait:
  assumes alone: "alone t Wait_clients s"
  shows "can_finish t s"
proof -
  let ?s1 = "thread_step False t s"
  have s1: "?s1 = goto t Stop_lock s"
    using alone alone_facts(1) [OF alone] by (simp add: alone_def thread_step_def
        wait_for_clients_step_def)
  have a1: "alone t Stop_lock ?s1"
    by (rule alone_advance [OF alone]) (use alone in \<open>simp_all add: s1 alone_def\<close>)
  have s2: "thread_step False t ?s1 = goto t Stop_locked (?s1\<lparr>dp_lock := Some t\<rparr>)"
    using a1 alone_facts(2) [OF a1]
    by (simp add: alone_def thread_step_def [of False t ?s1] lock_state_step_def)
  have "alone t Stop_locked (thread_step False t ?s1)"
    by (rule alone_advance [OF a1]) (use a1 in \<open>simp_all add: s2 alone_def\<close>)
  then show ?thesis
    using can_finish_advance [OF alone] can_finish_advance [OF a1] finish_stop_locked by blast
qed

lemma finish_begin:
  assumes alone: "alone t Begin_load s"
  shows "can_finish t s"
proof (cases "dp_health s = HEALTHY")
  case True
  let ?s1 = "thread_step False t s"
  have s1: "?s1 = goto t Begin_exchange s"
    using alone True by (simp add: alone_def thread_step_def health_def decode_health_def)
  have a1: "alone t Begin_exchange ?s1"
    by (rule alone_advance [OF alone]) (use alone in \<open>simp_all add: s1 alone_def\<close>)
  have s2: "thread_step False t ?s1 = goto t Wait_clients (?s1\<lparr>dp_health := STOPPING\<rparr>)"
    using a1 True by (simp add: alone_def thread_step_def [of False t ?s1], simp add: s1)
  have "alone t Wait_clients (thread_step False t ?s1)"
    by (rule alone_advance [OF a1]) (use a1 in \<open>simp_all add: s2 alone_def\<close>)
  then show ?thesis
    using can_finish_advance [OF alone] can_finish_advance [OF a1] finish_wait by blast
next
  case False
  then have "dp_health s = STOPPING \<or> dp_health s = STOPPED"
    using alone by (auto simp: alone_def dispatcher_inv_def health_inv_def)
  then have s1: "thread_step False t s = goto t Wait_clients s"
    using alone by (auto simp: alone_def thread_step_def health_def decode_health_def)
  have "alone t Wait_clients (thread_step False t s)"
    by (rule alone_advance [OF alone]) (use alone in \<open>simp_all add: s1 alone_def\<close>)
  then show ?thesis using can_finish_advance [OF alone] finish_wait by blast
qed

lemma join_inv_reachable:
  assumes "dispatcher_reachable s"
  shows "join_inv s"
  using assms unfolding dispatcher_reachable_def
proof (induction rule: rtranclp_induct)
  case base
  show ?case by (simp add: join_inv_def dispatcher_start_def)
next
  case (step s s')
  then have "dispatcher_inv s" by (intro inv_reachable) (simp add: dispatcher_reachable_def)
  with step show ?case by (blast intro: join_inv_step)
qed

section \<open>Properties\<close>

text \<open>C2: no interleaving of clients, guards, closers and the worker ever runs into one of the
  fatal checks of the dispatcher: the send of a command or of the stop never finds the worker
  gone, the client counter never underflows, a guard is never refused while the dispatcher is
  healthy, the worker never panics. The one abort that remains is dropping the dispatcher before
  it was closed.\<close>

theorem dispatcher_never_aborts:
  assumes "dispatcher_reachable s"
  shows "dp_aborted s = None \<or> dp_aborted s = Some Owner_dropped_without_close"
  using inv_reachable [OF assms] by (simp add: dispatcher_inv_def)

lemma dispatcher_never_aborts_witness:
  "let s = goto 0 (Acquire_load For_lease) dispatcher_start in
     dp_aborted s = None \<or> dp_aborted s = Some Owner_dropped_without_close"
proof -
  have "dispatcher_step dispatcher_start (goto 0 (Acquire_load For_lease) dispatcher_start)"
    by (rule dispatcher_step.start) (simp_all add: dispatcher_start_def)
  then have "dispatcher_reachable (goto 0 (Acquire_load For_lease) dispatcher_start)"
    by (simp add: dispatcher_reachable_def)
  from dispatcher_never_aborts [OF this] show ?thesis by (simp only: Let_def)
qed

text \<open>C1: when a dispatcher is stopped, every command that was ever accepted has been handed to
  its recipient's process, in the order of acceptance; the queue is empty, no client is left, and
  nothing is accepted or sent afterwards.\<close>

theorem dispatcher_stopped_delivered_everything:
  assumes "dispatcher_reachable s" and "health s = Stopped" and "dispatcher_step\<^sup>*\<^sup>* s s'"
  shows "dp_processed s = dp_accepted s \<and> dp_queue s = [] \<and> (\<forall>t. \<not> admitted (dp_pc s t)) \<and>
     health s' = Stopped \<and> dp_accepted s' = dp_accepted s \<and> dp_processed s' = dp_processed s"
  using stopped_complete [OF inv_reachable [OF assms(1)]]
    stopped_forever [OF assms(3) inv_reachable [OF assms(1)]] assms(2) by simp

text \<open>C4: the worker is first in, first out: at every moment the commands it has sent are a prefix
  of the commands accepted, and the rest is the queue, in which a stop can only come last.\<close>

theorem dispatcher_fifo:
  assumes "dispatcher_reachable s"
  shows "dp_accepted s = dp_processed s @ pending (dp_queue s) \<and>
     (\<exists>ds. dp_queue s = map Dispatch ds \<or> dp_queue s = map Dispatch ds @ [Stop])"
  using inv_reachable [OF assms] by (simp add: dispatcher_inv_def queue_inv_def)

text \<open>C5: once the dispatcher is not healthy, no thread ever becomes a client again: a client
  admitted while healthy is the only kind there is, and the counter equals the number of threads
  that counted themselves.\<close>

theorem dispatcher_admission_closes:
  assumes "dispatcher_reachable s" and "health s \<noteq> Healthy" and "dispatcher_step s s'"
    and "\<not> admitted (dp_pc s t)"
  shows "\<not> admitted (dp_pc s' t) \<and>
     dp_active_clients s = card {t. counted (dp_pc s t)} \<and> finite {t. counted (dp_pc s t)}"
  using inv_reachable [OF assms(1)] closed_admits_nobody [OF assms(3) _ assms(4)] assms(2)
  by (simp add: dispatcher_inv_def client_inv_def)

text \<open>C3: shutdown can always complete: from every reachable state in which no thread is inside an
  operation, whatever is queued and whichever recipients are gone, a call of
  \<open>close_and_join\<close> has a run without time-outs that returns success on a stopped
  dispatcher.\<close>

theorem dispatcher_close_completes:
  assumes "dispatcher_reachable s" and "dp_aborted s = None" and "\<not> dp_dropped s"
    and "\<forall>u. at_rest (dp_pc s u)"
  shows "\<exists>s'. dispatcher_step\<^sup>*\<^sup>* s s' \<and> dp_pc s' t = Returned Close_ok \<and> health s' = Stopped \<and>
     dp_aborted s' = None"
proof -
  have step: "dispatcher_step s (goto t Begin_load s)"
    using assms(2-4) by (intro dispatcher_step.start) simp_all
  have "alone t Begin_load (goto t Begin_load s)"
    using inv_step [OF step inv_reachable [OF assms(1)]] assms(2-4)
      join_inv_step [OF step inv_reachable [OF assms(1)] join_inv_reachable [OF assms(1)]]
    by (simp add: alone_def)
  from can_finish_step [OF step finish_begin [OF this]] show ?thesis
    by (simp add: can_finish_def)
qed

lemma dispatcher_start_reachable: "dispatcher_reachable dispatcher_start"
  by (simp add: dispatcher_reachable_def)

lemma dispatcher_close_completes_witness:
  "\<exists>s'. dispatcher_step\<^sup>*\<^sup>* dispatcher_start s' \<and> dp_pc s' 3 = Returned Close_ok \<and>
     health s' = Stopped \<and> dp_aborted s' = None"
  by (rule dispatcher_close_completes [OF dispatcher_start_reachable])
    (simp_all add: dispatcher_start_def)

lemma dispatcher_stopped_delivered_everything_witness:
  "\<exists>s. health s = Stopped \<and> dp_processed s = dp_accepted s \<and> dp_queue s = []"
proof -
  have "can_finish 3 dispatcher_start"
  proof (rule can_finish_step)
    show "dispatcher_step dispatcher_start (goto 3 Begin_load dispatcher_start)"
      by (rule dispatcher_step.start) (simp_all add: dispatcher_start_def)
    show "can_finish 3 (goto 3 Begin_load dispatcher_start)"
      by (rule finish_begin)
        (simp add: alone_def join_inv_def dispatcher_start_def dispatcher_inv_def queue_inv_def
          client_inv_def health_inv_def close_inv_def stop_sent_def)
  qed
  then obtain s where "dispatcher_reachable s" and "health s = Stopped"
    by (auto simp: can_finish_def dispatcher_reachable_def)
  from this dispatcher_stopped_delivered_everything [OF this rtranclp.rtrancl_refl]
  show ?thesis by blast
qed

lemma dispatcher_fifo_witness:
  "dp_accepted dispatcher_start = dp_processed dispatcher_start @ pending (dp_queue dispatcher_start)"
  using dispatcher_fifo [OF dispatcher_start_reachable] by blast

lemma dispatcher_admission_closes_witness:
  "let s = dispatcher_start\<lparr>dp_health := STOPPING, dp_pc := (\<lambda>t. if t = 5 then Wait_clients else Idle)\<rparr> in
   dispatcher_reachable s \<and> \<not> admitted (dp_pc (thread_step False 5 s) 5)"
proof -
  define s1 where "s1 = goto 5 Begin_load dispatcher_start"
  define s2 where "s2 = goto 5 Begin_exchange s1"
  define s3 where "s3 = goto 5 Wait_clients (s2\<lparr>dp_health := STOPPING\<rparr>)"
  have run: "dp_aborted s1 = None" "dp_aborted s2 = None" "dp_aborted s3 = None"
    by (simp_all add: s3_def s2_def s1_def dispatcher_start_def)
  have "dispatcher_step dispatcher_start s1"
    unfolding s1_def by (rule dispatcher_step.start) (simp_all add: dispatcher_start_def)
  moreover have "thread_step False 5 s1 = s2"
    by (simp add: s2_def thread_step_def s1_def health_def decode_health_def dispatcher_start_def)
  then have "dispatcher_step s1 s2" using run dispatcher_step.thread by metis
  moreover have "thread_step False 5 s2 = s3"
    by (simp add: s3_def thread_step_def s2_def, simp add: s1_def dispatcher_start_def)
  then have "dispatcher_step s2 s3" using run dispatcher_step.thread by metis
  ultimately have reach: "dispatcher_reachable s3"
    unfolding dispatcher_reachable_def
    by (meson converse_rtranclp_into_rtranclp rtranclp.rtrancl_refl)
  have s3: "s3 = dispatcher_start\<lparr>dp_health := STOPPING,
      dp_pc := (\<lambda>t. if t = 5 then Wait_clients else Idle)\<rparr>"
    by (auto simp: s3_def s2_def s1_def goto_def dispatcher_start_def)
  have "health s3 \<noteq> Healthy" "\<not> admitted (dp_pc s3 5)"
    by (simp_all add: s3)
  from dispatcher_admission_closes [OF reach this(1) dispatcher_step.thread [OF run(3)] this(2)]
  show ?thesis using reach by (simp add: s3)
qed

end
