(* ===== verification/Lease_Transfer.thy ===== *)
theory Lease_Transfer
  imports Frame Dispatcher
begin

text \<open>
  The life of a lease in \<open>beam.rs\<close>: \<open>Frame::prepare_cloexec\<close>, the claim, the
  retirement or drop of a claimed lease, and the abandonment guard. A native caller runs these
  one after the other, so the model passes the dispatcher and the descriptor table along. What
  they need of the dispatcher is the locale \<open>client_admission\<close>; the dispatcher of the
  previous theory is its instance.
\<close>

section \<open>Clients, sequentially\<close>

text \<open>\<open>acquire_client\<close> and \<open>DispatcherClient::dispatch\<close> as one caller runs them.\<close>

definition acquire_client :: "dispatcher \<Rightarrow> bool \<times> dispatcher" where
  "acquire_client s =
     (if health s \<noteq> Healthy then (False, s)
      else let s' = s\<lparr>dp_active_clients := dp_active_clients s + 1\<rparr> in
        if health s' = Healthy then (True, s') else (False, release_client s'))"

definition client_dispatch :: "command \<Rightarrow> dispatcher \<Rightarrow> dispatcher" where
  "client_dispatch c s = release_client (dispatch c s)"

locale client_admission =
  fixes acquire :: "'d \<Rightarrow> bool \<times> 'd"
    and release :: "'d \<Rightarrow> 'd"
    and send_release :: "command \<Rightarrow> 'd \<Rightarrow> 'd"
    and fatal :: "fatal \<Rightarrow> 'd \<Rightarrow> 'd"
    and clients :: "'d \<Rightarrow> nat"
    and accepted :: "'d \<Rightarrow> command list"
    and running :: "'d \<Rightarrow> bool"
  assumes acquire_ok: "running d \<Longrightarrow> acquire d = (True, d') \<Longrightarrow>
      running d' \<and> clients d' = clients d + 1 \<and> accepted d' = accepted d"
    and acquire_refused: "running d \<Longrightarrow> acquire d = (False, d') \<Longrightarrow>
      running d' \<and> clients d' = clients d \<and> accepted d' = accepted d"
    and release_client: "running d \<Longrightarrow> 0 < clients d \<Longrightarrow>
      running (release d) \<and> clients (release d) = clients d - 1 \<and> accepted (release d) = accepted d"
    and send_client: "running d \<Longrightarrow> 0 < clients d \<Longrightarrow>
      running (send_release c d) \<and> clients (send_release c d) = clients d - 1 \<and>
      accepted (send_release c d) = accepted d @ [c]"

text \<open>A dispatcher whose worker returned has no client and admits none.\<close>

definition dispatcher_running :: "dispatcher \<Rightarrow> bool" where
  "dispatcher_running s \<longleftrightarrow>
     dp_aborted s = None \<and> (dp_exited s \<longrightarrow> dp_active_clients s = 0 \<and> dp_health s \<noteq> HEALTHY)"

interpretation native: client_admission acquire_client release_client client_dispatch
    fatal_dispatcher_corruption dp_active_clients dp_accepted dispatcher_running
proof unfold_locales
  fix d d' assume "dispatcher_running d" and "acquire_client d = (True, d')"
  then show "dispatcher_running d' \<and> dp_active_clients d' = dp_active_clients d + 1 \<and>
      dp_accepted d' = dp_accepted d"
    by (auto simp: acquire_client_def dispatcher_running_def Let_def split: if_splits)
next
  fix d d' assume "dispatcher_running d" and "acquire_client d = (False, d')"
  then show "dispatcher_running d' \<and> dp_active_clients d' = dp_active_clients d \<and>
      dp_accepted d' = dp_accepted d"
    by (auto simp: acquire_client_def Let_def split: if_splits)
next
  fix d assume "dispatcher_running d" and "0 < dp_active_clients d"
  then show "dispatcher_running (release_client d) \<and>
      dp_active_clients (release_client d) = dp_active_clients d - 1 \<and>
      dp_accepted (release_client d) = dp_accepted d"
    by (auto simp: release_client_def dispatcher_running_def Let_def)
next
  fix d c assume "dispatcher_running d" and "0 < dp_active_clients d"
  then show "dispatcher_running (client_dispatch c d) \<and>
      dp_active_clients (client_dispatch c d) = dp_active_clients d - 1 \<and>
      dp_accepted (client_dispatch c d) = dp_accepted d @ [c]"
    by (auto simp: client_dispatch_def dispatch_def release_client_def dispatcher_running_def
        Let_def)
qed

section \<open>Leases\<close>

record lease =
  lease_owner :: nat
  lease_token :: nat
  lease_holder :: nat
  lease_guard :: nat

record beam_frame =
  bm_coded_width :: u32
  bm_coded_height :: u32
  bm_visible_rect :: rect
  bm_format :: "stream_format option"
  bm_storage :: storage
  bm_acquire_sync :: acquire_sync
  bm_lease :: "lease option"

datatype 'io prepare_error =
    MissingLease
  | UnexpectedLease
  | Prepare_Duplicate "'io duplicate_error"
  | Prepare_Dispatcher

text \<open>A prepared lease owns a counted client; a claimed lease gives its three parts up at most
  once, so each is optional.\<close>

record prepared_lease =
  pr_command :: command
  pr_guard :: nat

record claimed_lease =
  cl_command :: "command option"
  cl_guard :: "nat option"
  cl_client :: bool

record prepared_frame =
  pf_frame :: owned_frame
  pf_lease :: "prepared_lease option"

record claimed_frame =
  cf_frame :: owned_frame
  cf_lease :: "claimed_lease option"

definition lease_prepare :: "lease \<Rightarrow> prepared_lease" where
  "lease_prepare l =
     \<lparr>pr_command = command_new Release (lease_owner l) (lease_token l) (lease_holder l),
      pr_guard = lease_guard l\<rparr>"

definition frame_of_beam :: "beam_frame \<Rightarrow> frame_descriptor" where
  "frame_of_beam f =
     \<lparr>fr_coded_width = bm_coded_width f, fr_coded_height = bm_coded_height f,
      fr_visible_rect = bm_visible_rect f, fr_storage = bm_storage f,
      fr_acquire_sync = bm_acquire_sync f\<rparr>"

text \<open>
  \<open>prepare_cloexec\<close>: the lease is matched with the storage first, then a client is
  acquired, then the descriptors are duplicated; when that fails the prepared lease is dropped,
  which drops its client.
\<close>

definition prepare_lease ::
  "('d \<Rightarrow> bool \<times> 'd) \<Rightarrow> beam_frame \<Rightarrow> 'd \<Rightarrow> ('io prepare_error + prepared_lease option) \<times> 'd" where
  "prepare_lease acquire f d =
     (case (bm_storage f, bm_lease f) of
        (Storage_Binary _, None) \<Rightarrow> (Ok None, d)
      | (Storage_Binary _, Some _) \<Rightarrow> (Err UnexpectedLease, d)
      | (Storage_DmaBuf _, None) \<Rightarrow> (Err MissingLease, d)
      | (Storage_DmaBuf _, Some l) \<Rightarrow> (case acquire d of
            (True, d') \<Rightarrow> (Ok (Some (lease_prepare l)), d')
          | (False, d') \<Rightarrow> (Err Prepare_Dispatcher, d')))"

definition prepared_lease_drop :: "('d \<Rightarrow> 'd) \<Rightarrow> prepared_lease option \<Rightarrow> 'd \<Rightarrow> 'd" where
  "prepared_lease_drop release l d = (case l of None \<Rightarrow> d | Some _ \<Rightarrow> release d)"

definition prepare_cloexec ::
  "('d \<Rightarrow> bool \<times> 'd) \<Rightarrow> ('d \<Rightarrow> 'd) \<Rightarrow>
   (frame_descriptor \<Rightarrow> 'os \<Rightarrow> ('io duplicate_error + owned_frame) \<times> 'os) \<Rightarrow>
   beam_frame \<Rightarrow> 'd \<times> 'os \<Rightarrow> ('io prepare_error + prepared_frame) \<times> 'd \<times> 'os" where
  "prepare_cloexec acquire release duplicate f w =
     (case w of (d, s) \<Rightarrow>
      case prepare_lease acquire f d of
        (Inl e, d') \<Rightarrow> (Err e, d', s)
      | (Inr l, d') \<Rightarrow> (case duplicate (frame_of_beam f) s of
            (Inl e, s') \<Rightarrow> (Err (Prepare_Duplicate e), prepared_lease_drop release l d', s')
          | (Inr frame, s') \<Rightarrow> (Ok \<lparr>pf_frame = frame, pf_lease = l\<rparr>, d', s')))"

definition claim :: "prepared_frame \<Rightarrow> claimed_frame" where
  "claim p =
     \<lparr>cf_frame = pf_frame p,
      cf_lease = map_option (\<lambda>l. \<lparr>cl_command = Some (pr_command l), cl_guard = Some (pr_guard l),
        cl_client = True\<rparr>) (pf_lease p)\<rparr>"

definition into_parts :: "claimed_frame \<Rightarrow> owned_frame \<times> claimed_lease option" where
  "into_parts c = (cf_frame c, cf_lease c)"

text \<open>\<open>dispatch_release\<close> takes the command, the client and the guard.\<close>

definition dispatch_release ::
  "(command \<Rightarrow> 'd \<Rightarrow> 'd) \<Rightarrow> (fatal \<Rightarrow> 'd \<Rightarrow> 'd) \<Rightarrow> claimed_lease \<Rightarrow> 'd \<Rightarrow> claimed_lease \<times> 'd" where
  "dispatch_release send_release fatal l d =
     (case cl_command l of
        None \<Rightarrow> (l, d)
      | Some c \<Rightarrow>
          if \<not> cl_client l then (l\<lparr>cl_command := None\<rparr>, fatal Claimed_lease_lost_client d)
          else (l\<lparr>cl_command := None, cl_client := False, cl_guard := None\<rparr>, send_release c d))"

definition claimed_lease_drop ::
  "(command \<Rightarrow> 'd \<Rightarrow> 'd) \<Rightarrow> (fatal \<Rightarrow> 'd \<Rightarrow> 'd) \<Rightarrow> claimed_lease \<Rightarrow> 'd \<Rightarrow> 'd" where
  "claimed_lease_drop send_release fatal l d = snd (dispatch_release send_release fatal l d)"

text \<open>\<open>retire\<close> consumes the lease: its drop runs at the end of the call.\<close>

definition retire ::
  "(command \<Rightarrow> 'd \<Rightarrow> 'd) \<Rightarrow> (fatal \<Rightarrow> 'd \<Rightarrow> 'd) \<Rightarrow> claimed_lease \<Rightarrow> 'd \<Rightarrow> 'd" where
  "retire send_release fatal l d =
     (case dispatch_release send_release fatal l d of
        (l', d') \<Rightarrow> claimed_lease_drop send_release fatal l' d')"

section \<open>The abandonment guard\<close>

text \<open>\<open>new_abandonment_guard\<close>: the guard is built under a permit, which is dropped.\<close>

definition with_guard_admission :: "('d \<Rightarrow> bool \<times> 'd) \<Rightarrow> ('d \<Rightarrow> 'd) \<Rightarrow> 'a \<Rightarrow> 'd \<Rightarrow> 'a option \<times> 'd" where
  "with_guard_admission acquire release result d =
     (case acquire d of (True, d') \<Rightarrow> (Some result, release d') | (False, d') \<Rightarrow> (None, d'))"

definition new_abandonment_guard ::
  "('d \<Rightarrow> bool \<times> 'd) \<Rightarrow> ('d \<Rightarrow> 'd) \<Rightarrow> nat \<Rightarrow> nat \<Rightarrow> nat \<Rightarrow> 'd \<Rightarrow> command option option \<times> 'd" where
  "new_abandonment_guard acquire release owner token holder d =
     with_guard_admission acquire release (Some (command_new Abandoned owner token holder)) d"

definition dispatch_abandoned :: "command \<Rightarrow> dispatcher \<Rightarrow> dispatcher" where
  "dispatch_abandoned c s =
     (case acquire_client s of
        (True, s') \<Rightarrow> client_dispatch c s'
      | (False, s') \<Rightarrow> abandonment_rejected s')"

definition guard_drop :: "command option \<Rightarrow> dispatcher \<Rightarrow> dispatcher" where
  "guard_drop c s = (case c of None \<Rightarrow> s | Some c \<Rightarrow> dispatch_abandoned c s)"

section \<open>Lemmas over the interface\<close>

context client_admission begin

lemma prepare_lease_Ok:
  assumes "prepare_lease acquire f d = (Ok l, d')" and "running d"
  shows "running d' \<and> accepted d' = accepted d \<and>
     clients d' = clients d + (case l of None \<Rightarrow> 0 | Some _ \<Rightarrow> 1) \<and>
     (l = None \<longleftrightarrow> bm_lease f = None) \<and>
     (\<forall>p. l = Some p \<longrightarrow> (\<exists>x. bm_lease f = Some x \<and> p = lease_prepare x))"
  using assms
  by (auto simp: prepare_lease_def dest: acquire_ok
      split: storage.splits option.splits prod.splits bool.splits)

lemma prepare_lease_Err:
  assumes "prepare_lease acquire f d = (Err e, d')" and "running d"
  shows "running d' \<and> accepted d' = accepted d \<and> clients d' = clients d"
  using assms
  by (auto simp: prepare_lease_def dest: acquire_refused
      split: storage.splits option.splits prod.splits bool.splits)

lemma retire_once:
  assumes "running d" and "0 < clients d" and "cl_client l" and "cl_command l = Some c"
  shows "running (retire send_release fatal l d) \<and>
     clients (retire send_release fatal l d) = clients d - 1 \<and>
     accepted (retire send_release fatal l d) = accepted d @ [c] \<and>
     claimed_lease_drop send_release fatal l d = retire send_release fatal l d"
  using assms send_client [OF assms(1,2), of c]
  by (simp add: retire_def claimed_lease_drop_def dispatch_release_def)

lemma prepared_drop:
  assumes "running d" and "l \<noteq> None \<Longrightarrow> 0 < clients d"
  shows "running (prepared_lease_drop release l d) \<and>
     clients (prepared_lease_drop release l d) = clients d - (case l of None \<Rightarrow> 0 | Some _ \<Rightarrow> 1) \<and>
     accepted (prepared_lease_drop release l d) = accepted d"
  using assms release_client by (auto simp: prepared_lease_drop_def split: option.split)

lemma guard_admission_balanced:
  assumes "running d"
  shows "clients (snd (with_guard_admission acquire release r d)) = clients d \<and>
     accepted (snd (with_guard_admission acquire release r d)) = accepted d"
  using assms acquire_ok [OF assms] acquire_refused [OF assms]
    release_client [of "snd (acquire d)"]
  by (auto simp: with_guard_admission_def split: prod.splits bool.splits)

end

text \<open>Between operations every reachable dispatcher satisfies the interface's invariant.\<close>

lemma reachable_running:
  assumes "dispatcher_reachable s" and "dp_aborted s = None" and "\<forall>t. at_rest (dp_pc s t)"
  shows "dispatcher_running s"
proof -
  have "dispatcher_inv s" using assms(1) by (rule inv_reachable)
  moreover have "{t. counted (dp_pc s t)} = {}" using assms(3) at_rest_kinds(1) by auto
  ultimately show ?thesis
    using assms(2)
    by (auto simp: dispatcher_running_def dispatcher_inv_def client_inv_def health_inv_def
        stop_sent_def)
qed

section \<open>Properties\<close>

text \<open>C6: a lease is transferred all or nothing and released exactly once. When preparing a frame
  fails, for whatever reason, neither a client nor a descriptor is left behind and nothing is
  sent. When it succeeds with a lease, exactly one client is held; claiming the frame and then
  retiring the lease sends exactly one release command, with the lease's owner, token and holder,
  and gives the client back; dropping the claimed lease instead does exactly the same; dropping
  the prepared lease unclaimed gives the client back and sends nothing.\<close>

theorem lease_transferred_exactly_once:
  assumes "dispatcher_running d"
  shows "case prepare_cloexec acquire_client release_client
           (frame_duplicate_cloexec posix_fcntl ft_errno posix_close) f (d, t) of
     (Inl e, d', t') \<Rightarrow>
       dp_active_clients d' = dp_active_clients d \<and> dp_accepted d' = dp_accepted d \<and>
       posix_open t' = posix_open t
   | (Inr p, d', t') \<Rightarrow>
       posix_open t' = posix_open t \<union> set (frame_fds (pf_frame p)) \<and>
       (case bm_lease f of
          None \<Rightarrow> pf_lease p = None \<and> cf_lease (claim p) = None \<and>
            dp_active_clients d' = dp_active_clients d \<and> dp_accepted d' = dp_accepted d
        | Some l \<Rightarrow>
            dp_active_clients d' = dp_active_clients d + 1 \<and> dp_accepted d' = dp_accepted d \<and>
            (case cf_lease (claim p) of
               None \<Rightarrow> False
             | Some claimed \<Rightarrow>
                 (let retired = retire client_dispatch fatal_dispatcher_corruption claimed d' in
                  dp_active_clients retired = dp_active_clients d \<and>
                  dp_accepted retired = dp_accepted d @
                    [command_new Release (lease_owner l) (lease_token l) (lease_holder l)] \<and>
                  dp_aborted retired = None \<and>
                  claimed_lease_drop client_dispatch fatal_dispatcher_corruption claimed d'
                    = retired)) \<and>
            (let dropped = prepared_lease_drop release_client (pf_lease p) d' in
             dp_active_clients dropped = dp_active_clients d \<and>
             dp_accepted dropped = dp_accepted d))"
proof -
  obtain r :: "fd_errno prepare_error + prepared_lease option" and d1
    where prep: "prepare_lease acquire_client f d = (r, d1)"
    by (cases "prepare_lease acquire_client f d :: (fd_errno prepare_error + _) \<times> _")
  obtain q t1 where dup: "frame_duplicate_cloexec posix_fcntl ft_errno posix_close (frame_of_beam f) t = (q, t1)"
    by fastforce
  note fds = dup [unfolded frame_duplicate_cloexec_def]
  show ?thesis
  proof (cases r)
    case (Inl e)
    then show ?thesis
      using prep native.prepare_lease_Err [of f d e d1] assms by (simp add: prepare_cloexec_def)
  next
    case (Inr l)
    note prep = prep [unfolded Inr]
    note lease = native.prepare_lease_Ok [OF prep assms]
    have drop: "dispatcher_running (prepared_lease_drop release_client l d1) \<and>
        dp_active_clients (prepared_lease_drop release_client l d1) = dp_active_clients d \<and>
        dp_accepted (prepared_lease_drop release_client l d1) = dp_accepted d"
      using native.prepared_drop [of d1 l] lease by (auto split: option.splits)
    show ?thesis
    proof (cases q)
      case (Inl e)
      then show ?thesis
        using prep dup posix.dup.frame_duplicate_Err [OF fds [unfolded Inl]] drop
        by (simp add: prepare_cloexec_def)
    next
      case (Inr frame)
      note opened = posix.dup.frame_duplicate_Ok [OF fds [unfolded Inr]]
      show ?thesis
      proof (cases "bm_lease f")
        case None
        then show ?thesis
          using prep dup Inr lease opened by (simp add: prepare_cloexec_def claim_def)
      next
        case (Some x)
        then have l: "l = Some (lease_prepare x)" using lease by auto
        have "dispatcher_running d1" "0 < dp_active_clients d1" using lease l by simp_all
        note once = native.retire_once [OF this, of "\<lparr>cl_command = Some (pr_command (lease_prepare x)),
          cl_guard = Some (pr_guard (lease_prepare x)), cl_client = True\<rparr>" "pr_command (lease_prepare x)"]
        show ?thesis
          using prep dup Inr lease opened drop l once Some
          by (simp add: prepare_cloexec_def claim_def lease_prepare_def Let_def dispatcher_running_def)
      qed
    qed
  qed
qed

lemma lease_transferred_exactly_once_witness:
  "let t = \<lparr>ft_open = [3, 4], ft_limit = 16, ft_errno = No_errno\<rparr>;
       f = \<lparr>bm_coded_width = 1, bm_coded_height = 1,
            bm_visible_rect = \<lparr>rect_x = 0, rect_y = 0, rect_width = 1, rect_height = 1\<rparr>,
            bm_format = None, bm_storage = Storage_DmaBuf \<lparr>ds_version = 1, ds_objects = [],
              ds_layers = []\<rparr>, bm_acquire_sync = Sync_Implicit,
            bm_lease = Some \<lparr>lease_owner = 1, lease_token = 2, lease_holder = 3, lease_guard = 4\<rparr>\<rparr> in
   case prepare_cloexec acquire_client release_client
     (frame_duplicate_cloexec posix_fcntl ft_errno posix_close) f (dispatcher_start, t) of
     (Inl e, d', t') \<Rightarrow> dp_active_clients d' = 0 \<and> dp_accepted d' = [] \<and> posix_open t' = {3, 4}
   | (Inr p, d', t') \<Rightarrow> False"
proof -
  define t where "t = \<lparr>ft_open = [3, 4 :: i32], ft_limit = 16, ft_errno = No_errno\<rparr>"
  define f where "f = \<lparr>bm_coded_width = 1, bm_coded_height = 1,
      bm_visible_rect = \<lparr>rect_x = 0, rect_y = 0, rect_width = 1, rect_height = 1\<rparr>,
      bm_format = None, bm_storage = Storage_DmaBuf \<lparr>ds_version = 1, ds_objects = [],
        ds_layers = []\<rparr>, bm_acquire_sync = Sync_Implicit,
      bm_lease = Some \<lparr>lease_owner = 1, lease_token = 2, lease_holder = 3, lease_guard = 4\<rparr>\<rparr>"
  have running: "dispatcher_running dispatcher_start"
    by (simp add: dispatcher_running_def dispatcher_start_def)
  have "frame_validate (frame_of_beam f) = Err EmptyObjects"
    by (simp add: f_def frame_of_beam_def frame_validate_def rect_validate_def checked_add_def
        storage_validate_def descriptor_validate_def)
  then have "\<exists>e d' t'. prepare_cloexec acquire_client release_client
      (frame_duplicate_cloexec posix_fcntl ft_errno posix_close) f (dispatcher_start, t)
      = (Err e, d', t')"
    unfolding frame_duplicate_cloexec_def
    by (simp add: prepare_cloexec_def prepare_lease_def f_def acquire_client_def
        dispatcher_start_def health_def decode_health_def frame_duplicate_cloexec_def
        frame_duplicate_with_def)
  then show ?thesis
    using lease_transferred_exactly_once [OF running, where f = f and t = t]
    unfolding t_def [symmetric] f_def [symmetric] Let_def
    by (auto simp: t_def posix_open_def dispatcher_start_def)
qed

text \<open>An abandonment guard whose command is still there sends it when the dispatcher is
  healthy, exactly once and with a balanced client count; after the shutdown began it is inert;
  a guard without a command does nothing.\<close>

lemma guard_drop_sends_or_is_inert:
  assumes "dispatcher_reachable s" and "dp_aborted s = None" and "\<forall>t. at_rest (dp_pc s t)"
  shows "guard_drop None s = s \<and>
     dp_accepted (guard_drop (Some c) s) =
       (if health s = Healthy then dp_accepted s @ [c] else dp_accepted s) \<and>
     dp_active_clients (guard_drop (Some c) s) = dp_active_clients s \<and>
     dp_aborted (guard_drop (Some c) s) = None"
proof -
  have run: "dispatcher_running s" using assms by (rule reachable_running)
  have health: "dp_health s = HEALTHY \<or> dp_health s = STOPPING \<or> dp_health s = STOPPED"
    using inv_reachable [OF assms(1)] by (auto simp: dispatcher_inv_def health_inv_def)
  show ?thesis
  proof (cases "dp_health s = HEALTHY")
    case True
    define s' where "s' = s\<lparr>dp_active_clients := dp_active_clients s + 1\<rparr>"
    have s': "acquire_client s = (True, s')"
      using True by (simp add: acquire_client_def health_def decode_health_def Let_def s'_def)
    have "dispatcher_running s'" "0 < dp_active_clients s'"
      using native.acquire_ok [OF run s'] by simp_all
    from native.send_client [OF this, of c] show ?thesis
      using True s'
      by (simp add: guard_drop_def dispatch_abandoned_def dispatcher_running_def,
          simp add: s'_def)
  next
    case False
    then show ?thesis
      using health assms(2)
      by (auto simp: guard_drop_def dispatch_abandoned_def acquire_client_def
          abandonment_rejected_def health_def decode_health_def)
  qed
qed

lemma guard_drop_sends_or_is_inert_witness:
  "dp_accepted (guard_drop (Some (command_new Abandoned 1 2 3)) dispatcher_start) =
     [command_new Abandoned 1 2 3]"
  using guard_drop_sends_or_is_inert [OF dispatcher_start_reachable,
      of "command_new Abandoned 1 2 3"]
  by (simp add: dispatcher_start_def)

end
