(* ===== verification/Exclusive_Lease.thy ===== *)
theory Exclusive_Lease
  imports Prelude
begin

text \<open>
  The lease discipline shared by the source caches and the output pools of \<open>vulkan/mod.rs\<close>: a
  cached source or an output slot has an \<open>AtomicBool\<close> \<open>claimed\<close>, set with \<open>compare_exchange\<close>; the
  lease that claimed it has an \<open>AtomicBool\<close> \<open>released\<close>, so that releasing twice, or releasing and
  then dropping, clears \<open>claimed\<close> once. Leases are released without the lock of their container,
  so a release is two steps here. The locale \<open>exclusive_claims\<close> is what the containers rely on.
\<close>

section \<open>Flags and leases\<close>

text \<open>
  \<open>Held\<close>: \<open>released\<close> is false; \<open>Releasing\<close>: a thread swapped it to true and has not cleared
  \<open>claimed\<close> yet; \<open>Released\<close>: it has. Resources and leases are numbered; a lease that was dropped
  is no longer in the table. The reference a lease holds (its \<open>Arc\<close>) lives until the drop.
\<close>

datatype lease_phase = Held | Releasing | Released

record lease_table =
  lt_claimed :: "nat set"
  lt_leases :: "nat \<Rightarrow> (nat \<times> lease_phase) option"
  lt_next :: nat

definition empty_table :: lease_table where
  "empty_table = \<lparr>lt_claimed = {}, lt_leases = (\<lambda>_. None), lt_next = 0\<rparr>"

text \<open>\<open>compare_exchange(false, true)\<close> on the flag, then the new lease object.\<close>

definition claim_lease :: "nat \<Rightarrow> lease_table \<Rightarrow> (nat \<times> lease_table) option" where
  "claim_lease r t =
     (if r \<in> lt_claimed t then None
      else Some (lt_next t, t\<lparr>lt_claimed := insert r (lt_claimed t),
        lt_leases := (lt_leases t)(lt_next t \<mapsto> (r, Held)), lt_next := lt_next t + 1\<rparr>))"

text \<open>
  \<open>release\<close>: \<open>released.swap(true)\<close>, whose old value decides, then \<open>claimed.swap(false)\<close>, whose
  old value is asserted to be true. The first component of a step tells that its assertion held.
\<close>

definition release_swap :: "nat \<Rightarrow> lease_table \<Rightarrow> bool \<times> lease_table" where
  "release_swap l t =
     (case lt_leases t l of
        Some (r, Held) \<Rightarrow> (True, t\<lparr>lt_leases := (lt_leases t)(l \<mapsto> (r, Releasing))\<rparr>)
      | _ \<Rightarrow> (False, t))"

definition release_clear :: "nat \<Rightarrow> lease_table \<Rightarrow> bool \<times> lease_table" where
  "release_clear l t =
     (case lt_leases t l of
        Some (r, Releasing) \<Rightarrow>
          (r \<in> lt_claimed t, t\<lparr>lt_claimed := lt_claimed t - {r},
             lt_leases := (lt_leases t)(l \<mapsto> (r, Released))\<rparr>)
      | _ \<Rightarrow> (True, t))"

definition release_lease :: "nat \<Rightarrow> lease_table \<Rightarrow> bool \<times> lease_table" where
  "release_lease l t =
     (case release_swap l t of
        (False, t') \<Rightarrow> (False, t')
      | (True, t') \<Rightarrow> (True, snd (release_clear l t')))"

definition is_released :: "nat \<Rightarrow> lease_table \<Rightarrow> bool" where
  "is_released l t \<longleftrightarrow> (case lt_leases t l of Some (r, p) \<Rightarrow> p \<noteq> Held | None \<Rightarrow> True)"

text \<open>The drop: \<open>release\<close>, then the lease and its reference are gone.\<close>

definition drop_lease :: "nat \<Rightarrow> lease_table \<Rightarrow> lease_table" where
  "drop_lease l t =
     (let t' = snd (release_lease l t) in t'\<lparr>lt_leases := (lt_leases t')(l := None)\<rparr>)"

text \<open>\<open>Arc::strong_count\<close> of a resource that its container holds once.\<close>

definition strong_count :: "nat \<Rightarrow> lease_table \<Rightarrow> nat" where
  "strong_count r t = 1 + length (filter (\<lambda>l. map_option fst (lt_leases t l) = Some r) [0..<lt_next t])"

text \<open>
  What the holders of leases do, in the order it takes effect. A lease is dropped by its only
  owner, so no other thread is inside \<open>release\<close> on it then.
\<close>

datatype lease_op = Release_swap nat | Release_clear nat | Drop_lease nat

fun lease_step :: "lease_op \<Rightarrow> lease_table \<Rightarrow> bool \<times> lease_table" where
  "lease_step (Release_swap l) t = (True, snd (release_swap l t))"
| "lease_step (Release_clear l) t = release_clear l t"
| "lease_step (Drop_lease l) t =
     (if map_option snd (lt_leases t l) = Some Releasing then (True, t) else (True, drop_lease l t))"

section \<open>Exclusive claims\<close>

text \<open>
  What a container needs of its resources: a claim succeeds exactly if nobody holds the resource,
  makes the caller its only holder and changes nothing else.
\<close>

locale exclusive_claims =
  fixes claim :: "nat \<Rightarrow> 's \<Rightarrow> (nat \<times> 's) option"
    and holders :: "'s \<Rightarrow> nat \<Rightarrow> nat set"
    and inv :: "'s \<Rightarrow> bool"
  assumes claim_None: "inv s \<Longrightarrow> claim r s = None \<longleftrightarrow> holders s r \<noteq> {}"
    and claim_Some: "inv s \<Longrightarrow> claim r s = Some (l, s') \<Longrightarrow>
      inv s' \<and> holders s' = (holders s)(r := {l})"

text \<open>
  \<open>iter().find(|x| matches(x) && compare_exchange(x).is_ok())\<close>: the search claims while it looks,
  and stops at the first claim that succeeds.
\<close>

fun claim_first ::
  "(nat \<Rightarrow> 's \<Rightarrow> (nat \<times> 's) option) \<Rightarrow> ('x \<Rightarrow> bool) \<Rightarrow> ('x \<Rightarrow> nat) \<Rightarrow> 'x list \<Rightarrow> 's \<Rightarrow>
   ('x \<times> nat \<times> 's) option" where
  "claim_first claim P res [] s = None"
| "claim_first claim P res (x # xs) s =
     (if P x then
        (case claim (res x) s of
           Some (l, s') \<Rightarrow> Some (x, l, s')
         | None \<Rightarrow> claim_first claim P res xs s)
      else claim_first claim P res xs s)"

context exclusive_claims
begin

definition free :: "'s \<Rightarrow> nat \<Rightarrow> bool" where
  "free s r \<longleftrightarrow> holders s r = {}"

lemma claim_succeeds: "inv s \<Longrightarrow> free s r \<Longrightarrow> \<exists>l s'. claim r s = Some (l, s')"
  using claim_None [of s r] by (cases "claim r s") (auto simp: free_def)

lemma claim_frame:
  assumes "inv s" and "claim r s = Some (l, s')"
  shows "inv s'" and "free s r" and "holders s' r = {l}"
    and "r' \<noteq> r \<Longrightarrow> holders s' r' = holders s r'"
  using claim_Some [OF assms] claim_None [OF assms(1), of r] assms(2) by (auto simp: free_def)

lemma claim_twice_fails:
  assumes "inv s" and "claim r s = Some (l, s')"
  shows "claim r s' = None"
  using claim_frame(1,3) [OF assms] claim_None by simp

lemma claim_first_finds:
  assumes "inv s"
  shows "(case claim_first claim P res xs s of
      None \<Rightarrow> \<forall>x \<in> set xs. P x \<longrightarrow> \<not> free s (res x)
    | Some (x, l, s') \<Rightarrow> find (\<lambda>x. P x \<and> free s (res x)) xs = Some x \<and> claim (res x) s = Some (l, s'))"
proof (induction xs)
  case Nil
  then show ?case by simp
next
  case (Cons x xs)
  show ?case
  proof (cases "P x \<and> free s (res x)")
    case True
    then obtain l s' where "claim (res x) s = Some (l, s')"
      using claim_succeeds [OF assms] by blast
    then show ?thesis using True by simp
  next
    case False
    then have "claim_first claim P res (x # xs) s = claim_first claim P res xs s"
      using claim_None [OF assms, of "res x"] by (auto simp: free_def)
    moreover have "find (\<lambda>x. P x \<and> free s (res x)) (x # xs) = find (\<lambda>x. P x \<and> free s (res x)) xs"
      using False by auto
    moreover have "(\<forall>y \<in> set (x # xs). P y \<longrightarrow> \<not> free s (res y)) \<longleftrightarrow>
        (\<forall>y \<in> set xs. P y \<longrightarrow> \<not> free s (res y))"
      using False by simp
    ultimately show ?thesis using Cons.IH by presburger
  qed
qed

lemma claim_first_None_iff:
  assumes "inv s"
  shows "claim_first claim P res xs s = None \<longleftrightarrow> (\<forall>x \<in> set xs. P x \<longrightarrow> \<not> free s (res x))"
proof (cases "claim_first claim P res xs s")
  case None
  then show ?thesis using claim_first_finds [OF assms, where P = P and res = res and xs = xs] by simp
next
  case (Some found)
  then obtain x where "find (\<lambda>x. P x \<and> free s (res x)) xs = Some x"
    using claim_first_finds [OF assms, where P = P and res = res and xs = xs]
    by (cases found) auto
  then show ?thesis using Some by (auto simp: find_Some_iff)
qed

end

section \<open>The invariant of the table\<close>

definition active :: "lease_table \<Rightarrow> nat \<Rightarrow> nat set" where
  "active t r = {l. \<exists>p. lt_leases t l = Some (r, p) \<and> p \<noteq> Released}"

definition table_inv :: "lease_table \<Rightarrow> bool" where
  "table_inv t \<longleftrightarrow>
     (\<forall>r. r \<in> lt_claimed t \<longleftrightarrow> active t r \<noteq> {}) \<and>
     (\<forall>r l l'. l \<in> active t r \<longrightarrow> l' \<in> active t r \<longrightarrow> l = l') \<and>
     (\<forall>l. lt_leases t l \<noteq> None \<longrightarrow> l < lt_next t)"

lemma table_inv_empty: "table_inv empty_table"
  by (simp add: table_inv_def empty_table_def active_def)

lemma claim_lease_active:
  assumes "table_inv t" and "claim_lease r t = Some (l, t')"
  shows "active t' = (active t)(r := {l})" and "table_inv t'" and "r \<notin> lt_claimed t"
    and "lt_claimed t' = insert r (lt_claimed t)"
    and "lt_leases t' = (lt_leases t)(l \<mapsto> (r, Held))" and "l = lt_next t"
    and "lt_next t' = lt_next t + 1"
proof -
  have free: "r \<notin> lt_claimed t" and t': "t' = t\<lparr>lt_claimed := insert r (lt_claimed t),
      lt_leases := (lt_leases t)(lt_next t \<mapsto> (r, Held)), lt_next := lt_next t + 1\<rparr>"
    and l: "l = lt_next t"
    using assms(2) by (auto simp: claim_lease_def split: if_splits)
  have none: "active t r = {}" using assms(1) free by (auto simp: table_inv_def)
  have fresh: "lt_leases t (lt_next t) = None"
    using assms(1) unfolding table_inv_def by blast
  have "active t' r' = ((active t)(r := {l})) r'" for r'
    using none fresh by (cases "r' = r") (auto simp: active_def t' l)
  then show active: "active t' = (active t)(r := {l})" by (rule ext)
  show "r \<notin> lt_claimed t" by (fact free)
  show "lt_claimed t' = insert r (lt_claimed t)" and "l = lt_next t"
    and "lt_leases t' = (lt_leases t)(l \<mapsto> (r, Held))" and "lt_next t' = lt_next t + 1"
    by (simp_all add: t' l)
  show "table_inv t'"
    unfolding table_inv_def active
  proof (intro conjI allI impI)
    show "(r' \<in> lt_claimed t') = (((active t)(r := {l})) r' \<noteq> {})" for r'
      using assms(1) by (simp add: t' table_inv_def)
    show "l1 = l2" if "l1 \<in> ((active t)(r := {l})) r'" "l2 \<in> ((active t)(r := {l})) r'" for r' l1 l2
      using that assms(1) by (cases "r' = r") (auto simp: table_inv_def)
    show "l1 < lt_next t'" if "lt_leases t' l1 \<noteq> None" for l1
      using that assms(1) by (cases "l1 = lt_next t") (auto simp: t' table_inv_def less_SucI)
  qed
qed

interpretation leases: exclusive_claims claim_lease active table_inv
proof unfold_locales
  fix t r
  assume "table_inv t"
  then show "claim_lease r t = None \<longleftrightarrow> active t r \<noteq> {}"
    by (simp add: claim_lease_def table_inv_def)
next
  fix t r l t'
  assume "table_inv t" "claim_lease r t = Some (l, t')"
  then show "table_inv t' \<and> active t' = (active t)(r := {l})"
    using claim_lease_active by blast
qed

text \<open>A table whose leases are the same up to phases, or fewer.\<close>

lemma lease_step_shrinks:
  assumes "lease_step op t = (ok, t')"
  shows "lt_next t' = lt_next t \<and> lt_claimed t' \<subseteq> lt_claimed t \<and>
    (\<forall>l. map_option fst (lt_leases t' l) \<in> {None, map_option fst (lt_leases t l)})"
  using assms
  by (cases op)
    (auto simp: release_swap_def release_clear_def release_lease_def drop_lease_def Let_def
      split: option.splits prod.splits lease_phase.splits if_splits)

text \<open>A released lease stays released.\<close>

lemma lease_step_released:
  assumes "q = Released" and "lt_leases t l = Some (r, q)"
    and "lt_leases (snd (lease_step op t)) l = Some (r, q')"
  shows "q' = Released"
  using assms
  by (cases op)
    (auto simp: release_swap_def release_clear_def release_lease_def drop_lease_def Let_def
      split: option.splits prod.splits lease_phase.splits if_splits)

lemma release_swap_active: "active (snd (release_swap l t)) = active t"
  by (rule ext)
    (auto simp: release_swap_def active_def split: option.splits prod.splits lease_phase.splits
      if_splits)

lemma table_inv_release_swap: "table_inv t \<Longrightarrow> table_inv (snd (release_swap l t))"
  unfolding table_inv_def release_swap_active
  by (auto simp: release_swap_def split: option.splits prod.splits lease_phase.splits if_splits)

lemma release_clear_inv:
  assumes "table_inv t"
  shows "fst (release_clear l t)" and "table_inv (snd (release_clear l t))"
proof -
  have "fst (release_clear l t) \<and> table_inv (snd (release_clear l t))"
  proof (cases "\<exists>r. lt_leases t l = Some (r, Releasing)")
    case False
    then have "release_clear l t = (True, t)"
      by (auto simp: release_clear_def split: option.split lease_phase.split)
    then show ?thesis using assms by simp
  next
    case True
    then obtain r where l: "lt_leases t l = Some (r, Releasing)" by blast
    let ?t = "snd (release_clear l t)"
    have member: "l \<in> active t r" using l by (simp add: active_def)
    have claimed: "r \<in> lt_claimed t" using assms member by (auto simp: table_inv_def)
    have t': "?t = t\<lparr>lt_claimed := lt_claimed t - {r},
        lt_leases := (lt_leases t)(l \<mapsto> (r, Released))\<rparr>"
      by (simp add: release_clear_def l)
    have unique: "l1 = l" if "l1 \<in> active t r" for l1
      using assms member that unfolding table_inv_def by blast
    have active: "active ?t = (active t)(r := {})"
    proof (rule ext)
      fix r'
      show "active ?t r' = ((active t)(r := {})) r'"
        using unique l by (cases "r' = r") (auto simp: t' active_def)
    qed
    have "table_inv ?t"
      unfolding table_inv_def active
    proof (intro conjI allI impI)
      show "(r' \<in> lt_claimed ?t) = (((active t)(r := {})) r' \<noteq> {})" for r'
        using assms by (simp add: t' table_inv_def)
      show "l1 = l2" if "l1 \<in> ((active t)(r := {})) r'" "l2 \<in> ((active t)(r := {})) r'" for r' l1 l2
        using that assms by (cases "r' = r") (auto simp: table_inv_def)
      show "l1 < lt_next ?t" if "lt_leases ?t l1 \<noteq> None" for l1
        using that assms l by (cases "l1 = l") (auto simp: t' table_inv_def)
    qed
    then show ?thesis using claimed by (simp add: release_clear_def l)
  qed
  then show "fst (release_clear l t)" and "table_inv (snd (release_clear l t))" by simp_all
qed

lemma table_inv_release: "table_inv t \<Longrightarrow> table_inv (snd (release_lease l t))"
  using table_inv_release_swap [of t l] release_clear_inv(2) [of "snd (release_swap l t)" l]
  by (auto simp: release_lease_def split: prod.split bool.split)

lemma release_lease_phase:
  assumes "map_option snd (lt_leases t l) \<noteq> Some Releasing"
  shows "lt_leases (snd (release_lease l t)) l =
    map_option (\<lambda>(r, p). (r, Released)) (lt_leases t l)"
  using assms
  by (auto simp: release_lease_def release_swap_def release_clear_def
      split: option.split lease_phase.split)

lemma table_inv_forget:
  assumes "table_inv t" and "\<forall>r. l \<notin> active t r"
  shows "table_inv (t\<lparr>lt_leases := (lt_leases t)(l := None)\<rparr>)"
proof -
  have "active (t\<lparr>lt_leases := (lt_leases t)(l := None)\<rparr>) = active t"
    using assms(2) by (auto simp: active_def fun_eq_iff)
  then show ?thesis using assms(1) by (auto simp: table_inv_def)
qed

lemma table_inv_drop:
  assumes "table_inv t" and "map_option snd (lt_leases t l) \<noteq> Some Releasing"
  shows "table_inv (drop_lease l t)"
proof -
  have "\<forall>r. l \<notin> active (snd (release_lease l t)) r"
    using release_lease_phase [OF assms(2)] by (auto simp: active_def)
  then show ?thesis
    using table_inv_forget [OF table_inv_release [OF assms(1)]] by (simp add: drop_lease_def Let_def)
qed

lemma table_inv_step:
  assumes "table_inv t"
  shows "fst (lease_step op t)" and "table_inv (snd (lease_step op t))"
  using assms by (cases op; simp add: table_inv_release_swap release_clear_inv table_inv_drop)+

lemma strong_count_one:
  assumes "table_inv t"
  shows "strong_count r t = 1 \<longleftrightarrow> (\<forall>l. map_option fst (lt_leases t l) \<noteq> Some r)"
proof -
  have "l \<in> set [0..<lt_next t]" if "map_option fst (lt_leases t l) = Some r" for l
    using that assms by (auto simp: table_inv_def)
  then show ?thesis
    by (auto simp: strong_count_def filter_empty_conv)
qed

end
