(* ===== verification/Nv12_Layout.thy ===== *)
theory Nv12_Layout
  imports Format_Schema
begin

text \<open>
  The NV12 and packed layouts of \<open>vulkan/mod.rs\<close>: plane extents, the validation of a shared
  NV12 object, the source spans and limits of the compute and transfer paths, the push constants
  and dispatch grids, and the colorimetry mapping. \<open>nv12_layout_ok\<close> is the specification,
  over natural numbers: it has no wrap-around, so the equivalences also say that the checked
  arithmetic of the code never hides one.
\<close>

section \<open>Data\<close>

type_synonym dimensions = "u32 \<times> u32"

definition DRM_FORMAT_MOD_LINEAR :: u64 where
  "DRM_FORMAT_MOD_LINEAR = 0"

datatype packed_image_format = Packed_Rgba8888 | Packed_Bgra8888

datatype packed_import_strategy = Packed_DirectSampledImage | LinearBufferToOptimalBgra

record imported_plane =
  ip_offset :: u64
  ip_pitch :: u32

record packed_image_import =
  pi_stream_incarnation :: u64
  pi_dimensions :: dimensions
  pi_source_fd :: i32
  pi_source_size :: u64
  pi_modifier :: u64
  pi_plane :: imported_plane
  pi_format :: packed_image_format

record nv12_plane =
  np_object_index :: u32
  np_offset :: u64
  np_pitch :: u32

text \<open>The two-element array of planes is a pair: luma first, chroma second.\<close>

record shared_layout =
  sl_modifier :: u64
  sl_object_size :: u64
  sl_planes :: "imported_plane \<times> imported_plane"

record frame_topology =
  ft_dimensions :: dimensions
  ft_object_count :: u32
  ft_object_size :: u64
  ft_plane_count :: u32
  ft_planes :: "nv12_plane \<times> nv12_plane"
  ft_modifier :: u64

definition layout_frame_topology :: "shared_layout \<Rightarrow> dimensions \<Rightarrow> frame_topology" where
  "layout_frame_topology layout dims =
     (let to_plane = (\<lambda>plane. \<lparr>np_object_index = 0, np_offset = ip_offset plane,
                         np_pitch = ip_pitch plane\<rparr>) in
      \<lparr>ft_dimensions = dims, ft_object_count = 1, ft_object_size = sl_object_size layout,
       ft_plane_count = 2, ft_planes = map_prod to_plane to_plane (sl_planes layout),
       ft_modifier = sl_modifier layout\<rparr>)"

datatype nv12_import_strategy =
    DirectSampledImage
  | DirectImageToOptimalYuvPlanes
  | LinearBufferToOptimalNv12
  | LinearBufferToOptimalYuvPlanes
  | LinearBufferToYuvPlanes
  | LinearBufferToRgba

datatype nv12_staging_preference = PreferPlanar | RequirePlanar | RequireRgba

datatype nv12_allocation_recipe =
    Recipe_DirectSharedImage
  | Recipe_DirectImageToOptimalYuvPlanes
  | Recipe_LinearBufferToOptimalNv12
  | Recipe_LinearBufferToOptimalYuvPlanes
  | Recipe_LinearBufferToYuvPlanes
  | Recipe_LinearBufferToRgba

fun allocation_recipe :: "nv12_import_strategy \<Rightarrow> nv12_allocation_recipe" where
  "allocation_recipe DirectSampledImage = Recipe_DirectSharedImage"
| "allocation_recipe DirectImageToOptimalYuvPlanes = Recipe_DirectImageToOptimalYuvPlanes"
| "allocation_recipe LinearBufferToOptimalNv12 = Recipe_LinearBufferToOptimalNv12"
| "allocation_recipe LinearBufferToOptimalYuvPlanes = Recipe_LinearBufferToOptimalYuvPlanes"
| "allocation_recipe LinearBufferToYuvPlanes = Recipe_LinearBufferToYuvPlanes"
| "allocation_recipe LinearBufferToRgba = Recipe_LinearBufferToRgba"

datatype ycbcr_model = Bt601 | Bt709 | Bt2020

datatype ycbcr_range = Narrow | Full

datatype ycbcr_offset = CositedEven | Midpoint

record nv12_conversion =
  cv_model :: ycbcr_model
  cv_range :: ycbcr_range
  cv_x_offset :: ycbcr_offset
  cv_y_offset :: ycbcr_offset

section \<open>Colorimetry\<close>

datatype colorimetry_error =
    Explicit_contract_required
  | Not_bt709_contract primaries transfer matrix
  | Explicit_range_required
  | Explicit_chroma_location_required
  | Bottom_sited_chroma

definition map_nv12_colorimetry :: "colorimetry \<Rightarrow> colorimetry_error + nv12_conversion" where
  "map_nv12_colorimetry color =
     (let p = color_primaries color; t = color_transfer color; m = color_matrix color in
      result_bind
        (if p = Primaries_Bt709 \<and> t = Transfer_Bt709 \<and> m = Matrix_Bt709 then Ok Bt709
         else if p = Primaries_Unspecified \<or> t = Transfer_Unspecified \<or> m = Matrix_Unspecified
         then Err Explicit_contract_required
         else Err (Not_bt709_contract p t m))
      (\<lambda>model. result_bind
        (case color_range color of
           Range_Limited \<Rightarrow> Ok Narrow
         | Range_Full \<Rightarrow> Ok Full
         | Range_Unspecified \<Rightarrow> Err Explicit_range_required)
      (\<lambda>range. result_bind
        (case color_chroma_location color of
           Chroma_Left \<Rightarrow> Ok (CositedEven, Midpoint)
         | Chroma_Center \<Rightarrow> Ok (Midpoint, Midpoint)
         | Chroma_TopLeft \<Rightarrow> Ok (CositedEven, CositedEven)
         | Chroma_Top \<Rightarrow> Ok (Midpoint, CositedEven)
         | Chroma_Unspecified \<Rightarrow> Err Explicit_chroma_location_required
         | Chroma_BottomLeft \<Rightarrow> Err Bottom_sited_chroma
         | Chroma_Bottom \<Rightarrow> Err Bottom_sited_chroma)
      (\<lambda>(x_offset, y_offset). Ok \<lparr>cv_model = model, cv_range = range, cv_x_offset = x_offset,
          cv_y_offset = y_offset\<rparr>))))"

section \<open>NV12 layouts\<close>

datatype layout_error =
    Even_dimensions_required u32 u32
  | One_object_two_planes_required usize usize usize
  | Planes_must_reference_object_zero
  | Explicit_modifier_required
  | Plane_extent_overflow
  | Pitch_below_width u32
  | Chroma_pitch_odd
  | Planes_exceed_object u64 u64 u64
  | Planes_overlap
  | Span_alignment_overflow
  | Span_exceeds_shader_range
  | Span_exceeds_allocation u64 u64
  | Too_many_texels u64 u32
  | Transfer_zero_allocation
  | Transfer_offset_unaligned
  | Transfer_chroma_pitch_odd
  | Packed_size_unaligned
  | Packed_exceeds_shader_range
  | Packed_zero_allocation
  | Packed_row_overflow
  | Packed_pitch_below_row u32 u64
  | Packed_extent_overflow
  | Packed_object_too_small u64 u64
  | Image_zero_dimensions
  | Image_invalid_fd
  | Image_zero_pitch
  | Packed_offset_exceeds_u32
  | Luma_offset_exceeds_u32
  | Chroma_offset_exceeds_u32

definition plane_end :: "u32 \<Rightarrow> imported_plane \<Rightarrow> u32 \<Rightarrow> layout_error + u64" where
  "plane_end width plane rows =
     ok_or Plane_extent_overflow
       (Option.bind
         (checked_add (ip_offset plane)
           (u64_of_u32 (ip_pitch plane) * u64_of_u32 (saturating_sub rows 1)))
         (\<lambda>last_row. checked_add last_row (u64_of_u32 width)))"

definition nv12_plane_ends :: "dimensions \<Rightarrow> shared_layout \<Rightarrow> layout_error + u64 \<times> u64" where
  "nv12_plane_ends dims layout =
     (case dims of (width, height) \<Rightarrow>
        result_bind (plane_end width (fst (sl_planes layout)) height)
          (\<lambda>luma_end. result_bind (plane_end width (snd (sl_planes layout)) (height div 2))
          (\<lambda>chroma_end. Ok (luma_end, chroma_end))))"

definition validate_nv12_shared_layout :: "dimensions \<Rightarrow> shared_layout \<Rightarrow> layout_error + unit" where
  "validate_nv12_shared_layout dims layout =
     (case dims of (width, height) \<Rightarrow>
      case sl_planes layout of (luma, chroma) \<Rightarrow>
      if width = 0 \<or> height = 0 \<or> \<not> is_multiple_of width 2 \<or> \<not> is_multiple_of height 2
      then Err (Even_dimensions_required width height)
      else if ip_pitch luma < width \<or> ip_pitch chroma < width then Err (Pitch_below_width width)
      else if \<not> is_multiple_of (ip_pitch chroma) 2 then Err Chroma_pitch_odd
      else result_bind (nv12_plane_ends dims layout) (\<lambda>(luma_end, chroma_end).
        if sl_object_size layout < luma_end \<or> sl_object_size layout < chroma_end
        then Err (Planes_exceed_object (sl_object_size layout) luma_end chroma_end)
        else if \<not> (luma_end \<le> ip_offset chroma \<or> chroma_end \<le> ip_offset luma)
        then Err Planes_overlap
        else Ok ()))"

definition validate_nv12_shared_object_topology ::
  "dimensions \<Rightarrow> u64 list \<Rightarrow> u64 option list \<Rightarrow> nv12_plane list \<Rightarrow> layout_error + shared_layout" where
  "validate_nv12_shared_object_topology dims object_sizes object_modifiers planes =
     (case dims of (width, height) \<Rightarrow>
      if width = 0 \<or> height = 0 \<or> \<not> is_multiple_of width 2 \<or> \<not> is_multiple_of height 2
      then Err (Even_dimensions_required width height)
      else if length object_sizes \<noteq> 1 \<or> length object_modifiers \<noteq> 1 \<or> length planes \<noteq> 2
      then Err (One_object_two_planes_required (length object_sizes) (length object_modifiers)
             (length planes))
      else if list_ex (\<lambda>plane. np_object_index plane \<noteq> 0) planes
      then Err Planes_must_reference_object_zero
      else result_bind (ok_or Explicit_modifier_required (object_modifiers ! 0)) (\<lambda>modifier.
        let imported = (\<lambda>plane. \<lparr>ip_offset = np_offset plane, ip_pitch = np_pitch plane\<rparr>);
            layout = \<lparr>sl_modifier = modifier, sl_object_size = object_sizes ! 0,
                      sl_planes = (imported (planes ! 0), imported (planes ! 1))\<rparr> in
        result_bind (validate_nv12_shared_layout dims layout) (\<lambda>_. Ok layout)))"

definition validate_transfer_layout :: "dimensions \<Rightarrow> shared_layout \<Rightarrow> layout_error + unit" where
  "validate_transfer_layout dims layout =
     result_bind (validate_nv12_shared_layout dims layout) (\<lambda>_.
       case sl_planes layout of (luma, chroma) \<Rightarrow>
       if sl_object_size layout = 0 then Err Transfer_zero_allocation
       else if \<not> is_multiple_of (ip_offset luma) 4 \<or> \<not> is_multiple_of (ip_offset chroma) 4
       then Err Transfer_offset_unaligned
       else if \<not> is_multiple_of (ip_pitch chroma) 2 then Err Transfer_chroma_pitch_odd
       else Ok ())"

definition nv12_transfer_source_span :: "dimensions \<Rightarrow> shared_layout \<Rightarrow> layout_error + u64" where
  "nv12_transfer_source_span dims layout =
     result_bind (validate_transfer_layout dims layout) (\<lambda>_.
       result_bind (nv12_plane_ends dims layout) (\<lambda>(luma_end, chroma_end).
         Ok (max luma_end chroma_end)))"

text \<open>The compute path reads the source as 32-bit texels, so its span is rounded up to four.\<close>

definition nv12_compute_source_span :: "dimensions \<Rightarrow> shared_layout \<Rightarrow> layout_error + u64" where
  "nv12_compute_source_span dims layout =
     result_bind (validate_nv12_shared_layout dims layout) (\<lambda>_.
       result_bind (nv12_plane_ends dims layout) (\<lambda>(luma_end, chroma_end).
         ok_or Span_alignment_overflow
           (map_option (\<lambda>span. span AND NOT 3) (checked_add (max luma_end chroma_end) 3))))"

definition validate_staged_layout :: "u32 \<Rightarrow> dimensions \<Rightarrow> shared_layout \<Rightarrow> layout_error + unit" where
  "validate_staged_layout max_texel_buffer_elements dims layout =
     result_bind (nv12_compute_source_span dims layout) (\<lambda>source_span.
       if u64_of_u32 (- 1) + 1 < source_span then Err Span_exceeds_shader_range
       else if sl_object_size layout < source_span
       then Err (Span_exceeds_allocation source_span (sl_object_size layout))
       else let source_texel_count = source_span div 4 in
         if u64_of_u32 max_texel_buffer_elements < source_texel_count
         then Err (Too_many_texels source_texel_count max_texel_buffer_elements)
         else Ok ())"

section \<open>Packed layouts\<close>

definition validate_image_inputs :: "dimensions \<Rightarrow> i32 \<Rightarrow> imported_plane \<Rightarrow> layout_error + unit" where
  "validate_image_inputs dims source_fd plane =
     (if fst dims = 0 \<or> snd dims = 0 then Err Image_zero_dimensions
      else if is_negative source_fd then Err Image_invalid_fd
      else if ip_pitch plane = 0 then Err Image_zero_pitch
      else Ok ())"

definition validate_packed_layout ::
  "dimensions \<Rightarrow> u64 \<Rightarrow> imported_plane \<Rightarrow> layout_error vulkan_import_error + unit" where
  "validate_packed_layout dims allocation_size plane =
     (if allocation_size = 0 then Err (AllocationSize Packed_zero_allocation)
      else result_bind (ok_or (Other Packed_row_overflow) (checked_mul (u64_of_u32 (fst dims)) 4))
        (\<lambda>row_bytes.
          if u64_of_u32 (ip_pitch plane) < row_bytes
          then Err (Other (Packed_pitch_below_row (ip_pitch plane) row_bytes))
          else result_bind
            (ok_or (Other Packed_extent_overflow)
              (checked_mul (u64_of_u32 (ip_pitch plane)) (u64_of_u32 (saturating_sub (snd dims) 1))))
            (\<lambda>rows. result_bind
              (ok_or (Other Packed_extent_overflow)
                (Option.bind (checked_add (ip_offset plane) rows)
                  (\<lambda>last_row. checked_add last_row row_bytes)))
              (\<lambda>required.
                if allocation_size < required
                then Err (AllocationSize (Packed_object_too_small allocation_size required))
                else Ok ()))))"

definition validate_staged_packed_layout :: "u32 \<Rightarrow> u64 \<Rightarrow> layout_error + unit" where
  "validate_staged_packed_layout max_texel_buffer_elements allocation_size =
     (if \<not> is_multiple_of allocation_size 4 then Err Packed_size_unaligned
      else if u64_of_u32 (- 1) + 1 < allocation_size then Err Packed_exceeds_shader_range
      else let source_texel_count = allocation_size div 4 in
        if u64_of_u32 max_texel_buffer_elements < source_texel_count
        then Err (Too_many_texels source_texel_count max_texel_buffer_elements)
        else Ok ())"

section \<open>Push constants and dispatch grids\<close>

record packed_push_constants =
  pp_width :: u32
  pp_height :: u32
  pp_offset :: u32
  pp_pitch :: u32
  pp_source_format :: u32

record nv12_push_constants =
  npc_width :: u32
  npc_height :: u32
  npc_y_offset :: u32
  npc_y_pitch :: u32
  npc_uv_offset :: u32
  npc_uv_pitch :: u32
  npc_range :: u32
  npc_x_offset :: u32
  npc_y_chroma_offset :: u32

fun offset_code :: "ycbcr_offset \<Rightarrow> u32" where
  "offset_code CositedEven = 0"
| "offset_code Midpoint = 1"

definition nv12_push_constants_of ::
  "dimensions \<Rightarrow> shared_layout \<Rightarrow> nv12_conversion \<Rightarrow> layout_error + nv12_push_constants" where
  "nv12_push_constants_of dims layout conversion =
     (case sl_planes layout of (luma, chroma) \<Rightarrow>
      result_bind (ok_or Luma_offset_exceeds_u32 (u32_try_from (ip_offset luma))) (\<lambda>y_offset.
      result_bind (ok_or Chroma_offset_exceeds_u32 (u32_try_from (ip_offset chroma))) (\<lambda>uv_offset.
        Ok \<lparr>npc_width = fst dims, npc_height = snd dims, npc_y_offset = y_offset,
            npc_y_pitch = ip_pitch luma, npc_uv_offset = uv_offset, npc_uv_pitch = ip_pitch chroma,
            npc_range = (case cv_range conversion of Narrow \<Rightarrow> 0 | Full \<Rightarrow> 1),
            npc_x_offset = offset_code (cv_x_offset conversion),
            npc_y_chroma_offset = offset_code (cv_y_offset conversion)\<rparr>)))"

definition packed_push_constants_of ::
  "packed_image_import \<Rightarrow> layout_error + packed_push_constants" where
  "packed_push_constants_of request =
     result_bind (ok_or Packed_offset_exceeds_u32 (u32_try_from (ip_offset (pi_plane request))))
       (\<lambda>offset. Ok \<lparr>pp_width = fst (pi_dimensions request), pp_height = snd (pi_dimensions request),
          pp_offset = offset, pp_pitch = ip_pitch (pi_plane request),
          pp_source_format = (case pi_format request of Packed_Rgba8888 \<Rightarrow> 0 | Packed_Bgra8888 \<Rightarrow> 1)\<rparr>)"

text \<open>The \<open>dispatch\<close> fields of the acquire plans: groups of 16 by 16 invocations.\<close>

definition packed_dispatch :: "dimensions \<Rightarrow> u32 \<times> u32" where
  "packed_dispatch dims = (div_ceil (fst dims) 16, div_ceil (snd dims) 16)"

definition nv12_dispatch :: "dimensions \<Rightarrow> u32 \<times> u32" where
  "nv12_dispatch dims = (div_ceil (fst dims div 2) 16, div_ceil (snd dims div 2) 16)"

section \<open>Specifications\<close>

text \<open>The first byte past a plane of \<open>rows\<close> rows.\<close>

definition plane_extent :: "nat \<Rightarrow> imported_plane \<Rightarrow> nat \<Rightarrow> nat" where
  "plane_extent width plane rows =
     unat (ip_offset plane) + unat (ip_pitch plane) * (rows - 1) + width"

definition luma_extent :: "dimensions \<Rightarrow> shared_layout \<Rightarrow> nat" where
  "luma_extent dims layout =
     plane_extent (unat (fst dims)) (fst (sl_planes layout)) (unat (snd dims))"

definition chroma_extent :: "dimensions \<Rightarrow> shared_layout \<Rightarrow> nat" where
  "chroma_extent dims layout =
     plane_extent (unat (fst dims)) (snd (sl_planes layout)) (unat (snd dims) div 2)"

definition nv12_layout_ok :: "dimensions \<Rightarrow> shared_layout \<Rightarrow> bool" where
  "nv12_layout_ok dims layout \<longleftrightarrow>
     0 < unat (fst dims) \<and> even (unat (fst dims)) \<and> 0 < unat (snd dims) \<and> even (unat (snd dims)) \<and>
     unat (fst dims) \<le> unat (ip_pitch (fst (sl_planes layout))) \<and>
     unat (fst dims) \<le> unat (ip_pitch (snd (sl_planes layout))) \<and>
     even (unat (ip_pitch (snd (sl_planes layout)))) \<and>
     luma_extent dims layout \<le> unat (sl_object_size layout) \<and>
     chroma_extent dims layout \<le> unat (sl_object_size layout) \<and>
     (luma_extent dims layout \<le> unat (ip_offset (snd (sl_planes layout))) \<or>
      chroma_extent dims layout \<le> unat (ip_offset (fst (sl_planes layout))))"

text \<open>The byte of a sample row and column, and the bytes a plane owns.\<close>

definition plane_bytes :: "nat \<Rightarrow> imported_plane \<Rightarrow> nat \<Rightarrow> nat set" where
  "plane_bytes width plane rows =
     {unat (ip_offset plane) + unat (ip_pitch plane) * y + x | x y. x < width \<and> y < rows}"

definition packed_layout_ok :: "dimensions \<Rightarrow> u64 \<Rightarrow> imported_plane \<Rightarrow> bool" where
  "packed_layout_ok dims allocation_size plane \<longleftrightarrow>
     0 < unat allocation_size \<and> 4 * unat (fst dims) \<le> unat (ip_pitch plane) \<and>
     plane_extent (4 * unat (fst dims)) plane (unat (snd dims)) \<le> unat allocation_size"

section \<open>Lemmas\<close>

lemma plane_end_Ok_iff:
  "plane_end width plane rows = Ok e \<longleftrightarrow>
     plane_extent (unat width) plane (unat rows) < 2 ^ 64 \<and>
     unat e = plane_extent (unat width) plane (unat rows)"
  by (auto simp: plane_end_def plane_extent_def ok_or_Inr checked_add_chain)

lemma nv12_plane_ends_Ok_iff:
  "nv12_plane_ends dims layout = Ok ends \<longleftrightarrow>
     luma_extent dims layout < 2 ^ 64 \<and> unat (fst ends) = luma_extent dims layout \<and>
     chroma_extent dims layout < 2 ^ 64 \<and> unat (snd ends) = chroma_extent dims layout"
  by (cases ends)
    (auto simp: nv12_plane_ends_def luma_extent_def chroma_extent_def result_bind_Inr
      plane_end_Ok_iff unat_div split: prod.split)

lemma nv12_plane_ends_exists:
  assumes "luma_extent dims layout < 2 ^ 64" and "chroma_extent dims layout < 2 ^ 64"
  shows "nv12_plane_ends dims layout =
    Ok (word_of_nat (luma_extent dims layout), word_of_nat (chroma_extent dims layout))"
  using assms
  by (simp add: nv12_plane_ends_Ok_iff unsigned_of_nat take_bit_nat_eq_self)

lemma even_word: "is_multiple_of (w :: u32) 2 \<longleftrightarrow> even (unat w)"
  by (simp add: is_multiple_of_unat)

lemma validate_nv12_shared_layout_Ok_iff:
  "validate_nv12_shared_layout dims layout = Ok u \<longleftrightarrow> nv12_layout_ok dims layout"
proof -
  obtain width height where dims: "dims = (width, height)" by (cases dims)
  obtain luma chroma where planes: "sl_planes layout = (luma, chroma)" by (cases "sl_planes layout")
  let ?ends = "\<exists>l c. nv12_plane_ends dims layout = Ok (l, c) \<and>
      l \<le> sl_object_size layout \<and> c \<le> sl_object_size layout \<and>
      (l \<le> ip_offset chroma \<or> c \<le> ip_offset luma)"
  have "?ends \<longleftrightarrow>
      luma_extent dims layout \<le> unat (sl_object_size layout) \<and>
      chroma_extent dims layout \<le> unat (sl_object_size layout) \<and>
      (luma_extent dims layout \<le> unat (ip_offset chroma) \<or>
       chroma_extent dims layout \<le> unat (ip_offset luma))" (is "_ \<longleftrightarrow> ?spec")
  proof
    assume ?spec
    moreover from this have "luma_extent dims layout < 2 ^ 64" "chroma_extent dims layout < 2 ^ 64"
      using unat_u64_less [of "sl_object_size layout"] by simp_all
    ultimately show ?ends
      using nv12_plane_ends_exists
      by (auto simp: word_le_nat_alt unsigned_of_nat take_bit_nat_eq_self)
  qed (auto simp: nv12_plane_ends_Ok_iff word_le_nat_alt)
  moreover have "validate_nv12_shared_layout dims layout = Ok u \<longleftrightarrow>
      width \<noteq> 0 \<and> height \<noteq> 0 \<and> is_multiple_of width 2 \<and> is_multiple_of height 2 \<and>
      width \<le> ip_pitch luma \<and> width \<le> ip_pitch chroma \<and> is_multiple_of (ip_pitch chroma) 2 \<and>
      ?ends"
    by (auto simp: validate_nv12_shared_layout_def dims planes result_bind_Inr not_less
        split: if_splits)
  ultimately show ?thesis
    by (auto simp: nv12_layout_ok_def dims planes even_word word_pos_unat word_le_nat_alt)
qed

text \<open>A plane whose extent fits owns only bytes below its extent, from its offset on.\<close>

lemma plane_bytes_bounds:
  assumes "b \<in> plane_bytes width plane rows"
  shows "unat (ip_offset plane) \<le> b" and "b < plane_extent width plane rows"
proof -
  obtain x y where b: "b = unat (ip_offset plane) + unat (ip_pitch plane) * y + x"
    "x < width" "y < rows"
    using assms by (auto simp: plane_bytes_def)
  then have "unat (ip_pitch plane) * y \<le> unat (ip_pitch plane) * (rows - 1)"
    by (intro mult_le_mono2) linarith
  with b show "b < plane_extent width plane rows"
    unfolding plane_extent_def by linarith
  show "unat (ip_offset plane) \<le> b" using b by simp
qed

lemma nv12_planes_disjoint:
  assumes "nv12_layout_ok dims layout"
  shows "plane_bytes (unat (fst dims)) (fst (sl_planes layout)) (unat (snd dims)) \<inter>
     plane_bytes (unat (fst dims)) (snd (sl_planes layout)) (unat (snd dims) div 2) = {}"
  using assms plane_bytes_bounds
  by (fastforce simp: nv12_layout_ok_def luma_extent_def chroma_extent_def)

text \<open>Distinct samples have distinct bytes, as the pitch is at least the width.\<close>

lemma plane_bytes_inj:
  assumes "width \<le> unat (ip_pitch plane)" and "x < width" and "x' < width"
    and "unat (ip_pitch plane) * y + x = unat (ip_pitch plane) * y' + x'"
  shows "y = y' \<and> x = x'"
proof -
  have pitch: "0 < unat (ip_pitch plane)" "x < unat (ip_pitch plane)" "x' < unat (ip_pitch plane)"
    using assms(1-3) by linarith+
  have "y = (unat (ip_pitch plane) * y + x) div unat (ip_pitch plane)"
    using pitch by simp
  also have "\<dots> = y'" using assms(4) pitch by simp
  finally show ?thesis using assms(4) by simp
qed

lemma unat_max: "unat (max a b) = max (unat a) (unat (b :: 'a::len word))"
  by (simp add: max_def word_le_nat_alt)

lemma checked_add_of_nat:
  assumes "m < 2 ^ 64" and "unat a = m"
  shows "checked_add (a :: u64) 3 = (if m + 3 < 2 ^ 64 then Some (word_of_nat (m + 3)) else None)"
  using assms
  by (auto simp: checked_add_def word_unat_eq_iff unsigned_of_nat take_bit_nat_eq_self
      unat_word_ariths(1))

lemma compute_span_Ok_iff:
  "nv12_compute_source_span dims layout = Ok span \<longleftrightarrow>
     nv12_layout_ok dims layout \<and>
     max (luma_extent dims layout) (chroma_extent dims layout) + 3 < 2 ^ 64 \<and>
     unat span = 4 * ((max (luma_extent dims layout) (chroma_extent dims layout) + 3) div 4)"
proof (cases "nv12_layout_ok dims layout")
  case True
  define m where "m = max (luma_extent dims layout) (chroma_extent dims layout)"
  have bounds: "luma_extent dims layout < 2 ^ 64" "chroma_extent dims layout < 2 ^ 64"
    using True unat_u64_less [of "sl_object_size layout"] by (simp_all add: nv12_layout_ok_def)
  obtain l c where ends: "nv12_plane_ends dims layout = Ok (l, c)"
    and lc: "unat l = luma_extent dims layout" "unat c = chroma_extent dims layout"
    using nv12_plane_ends_exists [OF bounds] by (auto simp: nv12_plane_ends_Ok_iff)
  have "unat (max l c) = m" "m < 2 ^ 64"
    using bounds by (simp_all add: m_def unat_max lc)
  note add = checked_add_of_nat [OF this(2,1)]
  have span: "unat (word_of_nat (m + 3) AND - 4 :: u64) = 4 * ((m + 3) div 4)" if "m + 3 < 2 ^ 64"
  proof -
    have "unat (word_of_nat (m + 3) :: u64) = m + 3"
      using that by (simp only: unsigned_of_nat take_bit_nat_eq_self word_size len_of_numeral_defs)
        (simp add: take_bit_nat_eq_self)
    then show ?thesis by (simp only: unat_and_minus_4)
  qed
  have "nv12_compute_source_span dims layout = ok_or Span_alignment_overflow
      (map_option (\<lambda>span. span AND - 4) (checked_add (max l c) 3))"
    using True ends
    by (simp add: nv12_compute_source_span_def
        iffD2 [OF validate_nv12_shared_layout_Ok_iff [of dims layout "()"]])
  then show ?thesis
    using True span by (auto simp: add m_def [symmetric] ok_or_Inr word_unat_eq_iff)
qed (auto simp: nv12_compute_source_span_def result_bind_Inr validate_nv12_shared_layout_Ok_iff)

lemma validate_staged_layout_Ok_iff:
  "validate_staged_layout max_texels dims layout = Ok u \<longleftrightarrow>
     (\<exists>span. nv12_compute_source_span dims layout = Ok span \<and> unat span \<le> 2 ^ 32 \<and>
        unat span \<le> unat (sl_object_size layout) \<and> unat span div 4 \<le> unat max_texels)"
proof -
  have "unat (u64_of_u32 (- 1) + 1) = 2 ^ 32"
    by (simp add: unat_word_ariths(1) unsigned_minus_1_eq_mask mask_eq_exp_minus_1)
  then show ?thesis
    by (auto simp: validate_staged_layout_def result_bind_Inr Let_def word_less_nat_alt not_less
        unat_div split: if_splits)
qed

lemma validate_transfer_layout_Ok_iff:
  "validate_transfer_layout dims layout = Ok u \<longleftrightarrow>
     nv12_layout_ok dims layout \<and> 4 dvd unat (ip_offset (fst (sl_planes layout))) \<and>
     4 dvd unat (ip_offset (snd (sl_planes layout)))"
proof -
  have "nv12_layout_ok dims layout \<Longrightarrow> sl_object_size layout \<noteq> 0"
    by (auto simp: nv12_layout_ok_def luma_extent_def plane_extent_def)
  then show ?thesis
    by (auto simp: validate_transfer_layout_def result_bind_Inr validate_nv12_shared_layout_Ok_iff
        is_multiple_of_unat nv12_layout_ok_def split: prod.split)
qed

lemma transfer_span_Ok_iff:
  "nv12_transfer_source_span dims layout = Ok span \<longleftrightarrow>
     nv12_layout_ok dims layout \<and> 4 dvd unat (ip_offset (fst (sl_planes layout))) \<and>
     4 dvd unat (ip_offset (snd (sl_planes layout))) \<and>
     unat span = max (luma_extent dims layout) (chroma_extent dims layout)"
proof (cases "validate_transfer_layout dims layout = Ok ()")
  case True
  then have "nv12_layout_ok dims layout" by (simp add: validate_transfer_layout_Ok_iff)
  then have bounds: "luma_extent dims layout < 2 ^ 64" "chroma_extent dims layout < 2 ^ 64"
    using unat_u64_less [of "sl_object_size layout"] by (simp_all add: nv12_layout_ok_def)
  obtain l c where ends: "nv12_plane_ends dims layout = Ok (l, c)"
    and lc: "unat l = luma_extent dims layout" "unat c = chroma_extent dims layout"
    using nv12_plane_ends_exists [OF bounds] by (auto simp: nv12_plane_ends_Ok_iff)
  then have "nv12_transfer_source_span dims layout = Ok (max l c)"
    by (simp add: nv12_transfer_source_span_def True)
  then show ?thesis
    using True lc
    by (auto simp: validate_transfer_layout_Ok_iff word_unat_eq_iff unat_max)
next
  case False
  then show ?thesis
    by (auto simp: nv12_transfer_source_span_def result_bind_Inr validate_transfer_layout_Ok_iff)
qed

lemma validate_packed_layout_Ok_iff:
  "validate_packed_layout dims allocation_size plane = Ok u \<longleftrightarrow>
     packed_layout_ok dims allocation_size plane"
proof -
  obtain width height where dims: "dims = (width, height)" by (cases dims)
  define row where "row = u64_of_u32 width * 4"
  have w: "unat width * 4 < 2 ^ 64" using unat_u32_less [of width] by simp
  then have row: "unat row = 4 * unat width" by (simp add: row_def unat_word_ariths)
  have mul: "checked_mul (u64_of_u32 width) 4 = Some row"
    using w by (simp add: checked_mul_def row_def)
  have product: "unat (ip_pitch plane) * (unat height - 1) < 2 ^ 64"
    using u32_product_bound [of "ip_pitch plane" "saturating_sub height 1"] by simp
  then have rows: "checked_mul (u64_of_u32 (ip_pitch plane)) (u64_of_u32 (saturating_sub height 1)) =
      Some (u64_of_u32 (ip_pitch plane) * u64_of_u32 (saturating_sub height 1))"
    by (simp add: checked_mul_def)
  have extent: "(\<exists>required. Option.bind (checked_add (ip_offset plane)
        (u64_of_u32 (ip_pitch plane) * u64_of_u32 (saturating_sub height 1)))
        (\<lambda>last_row. checked_add last_row row) = Some required \<and> required \<le> allocation_size) \<longleftrightarrow>
      plane_extent (4 * unat width) plane (unat height) \<le> unat allocation_size" (is "?l \<longleftrightarrow> ?r")
  proof
    assume ?l
    then show ?r
      by (auto simp: checked_add_chain plane_extent_def row word_le_nat_alt)
  next
    assume ?r
    then have fits: "plane_extent (4 * unat width) plane (unat height) < 2 ^ 64"
      using unat_u64_less [of allocation_size] by simp
    then have "unat (word_of_nat (plane_extent (4 * unat width) plane (unat height)) :: u64) =
        plane_extent (4 * unat width) plane (unat height)"
      by (simp add: unsigned_of_nat take_bit_nat_eq_self)
    then show ?l
      using \<open>?r\<close> fits
      by (intro exI [of _ "word_of_nat (plane_extent (4 * unat width) plane (unat height))"])
        (simp add: checked_add_chain plane_extent_def row word_le_nat_alt)
  qed
  have "validate_packed_layout dims allocation_size plane = Ok u \<longleftrightarrow>
      allocation_size \<noteq> 0 \<and> row \<le> u64_of_u32 (ip_pitch plane) \<and>
      plane_extent (4 * unat width) plane (unat height) \<le> unat allocation_size"
    unfolding extent [symmetric] validate_packed_layout_def dims
    by (auto simp: mul rows result_bind_Inr ok_or_Inr not_less)
  then show ?thesis
    by (auto simp: packed_layout_ok_def dims row word_le_nat_alt word_pos_unat)
qed

lemma validate_packed_layout_errors:
  "validate_packed_layout dims allocation_size plane \<noteq> Err (Other Packed_row_overflow)"
  using unat_u32_less [of "fst dims"]
  by (auto simp: validate_packed_layout_def checked_mul_def result_bind_Inl ok_or_Inl)

lemma validate_staged_packed_Ok_iff:
  "validate_staged_packed_layout max_texels n = Ok u \<longleftrightarrow>
     4 dvd unat n \<and> unat n \<le> 2 ^ 32 \<and> unat n div 4 \<le> unat max_texels"
proof -
  have "unat (u64_of_u32 (- 1) + 1) = 2 ^ 32"
    by (simp add: unat_word_ariths(1) unsigned_minus_1_eq_mask mask_eq_exp_minus_1)
  then show ?thesis
    by (auto simp: validate_staged_packed_layout_def Let_def word_less_nat_alt not_less
        is_multiple_of_unat unat_div split: if_splits)
qed

section \<open>The addresses of the compute shaders\<close>

text \<open>
  The source is a buffer of 32-bit texels, read by \<open>load_byte\<close> and \<open>load_pair\<close> of the
  shaders. A block is one invocation of \<open>nv12_planes.comp\<close> or \<open>nv12.comp\<close>, a pixel one of
  \<open>packed_to_bgra.comp\<close>; GLSL's \<open>uint\<close> and \<open>int\<close> arithmetic wraps like a word's, and \<open>int\<close>
  compares signed.
\<close>

definition load_byte_texel :: "u32 \<Rightarrow> u32" where
  "load_byte_texel offset = drop_bit 2 offset"

definition load_pair_texels :: "u32 \<Rightarrow> u32 list" where
  "load_pair_texels offset =
     (if (offset AND 3) * 8 \<le> 16 then [drop_bit 2 offset]
      else [drop_bit 2 offset, drop_bit 2 offset + 1])"

text \<open>The early return of both NV12 shaders.\<close>

definition outside_frame :: "nv12_push_constants \<Rightarrow> i32 \<times> i32 \<Rightarrow> bool" where
  "outside_frame p pixel \<longleftrightarrow> sint (npc_width p) \<le> sint (fst pixel) \<or> sint (npc_height p) \<le> sint (snd pixel)"

text \<open>The invocations of a dispatch: groups of sixteen by sixteen, the local size of both.\<close>

definition dispatched_block :: "dimensions \<Rightarrow> i32 \<times> i32 \<Rightarrow> bool" where
  "dispatched_block dims block \<longleftrightarrow>
     unat (fst block) < 16 * unat (fst (nv12_dispatch dims)) \<and> unat (snd block) < 16 * unat (snd (nv12_dispatch dims))"

definition planes_block_texels :: "nv12_push_constants \<Rightarrow> i32 \<times> i32 \<Rightarrow> u32 list" where
  "planes_block_texels p block =
     (let pixel = (fst block * 2, snd block * 2) in
      if outside_frame p pixel then []
      else let y0_offset = npc_y_offset p + snd pixel * npc_y_pitch p + fst pixel;
               uv_offset = npc_uv_offset p + snd block * npc_uv_pitch p + fst block * 2 in
        load_pair_texels y0_offset @ load_pair_texels (y0_offset + npc_y_pitch p) @ load_pair_texels uv_offset)"

definition clamp_i32 :: "i32 \<Rightarrow> i32 \<Rightarrow> i32 \<Rightarrow> i32" where
  "clamp_i32 v low high =
     (let raised = (if sint v < sint low then low else v) in if sint high < sint raised then high else raised)"

definition load_chroma_texels :: "nv12_push_constants \<Rightarrow> i32 \<times> i32 \<Rightarrow> u32 list" where
  "load_chroma_texels p location =
     (let extent_x = drop_bit 1 (npc_width p); extent_y = drop_bit 1 (npc_height p);
          x = clamp_i32 (fst location) 0 (extent_x - 1); y = clamp_i32 (snd location) 0 (extent_y - 1) in
      load_pair_texels (npc_uv_offset p + y * npc_uv_pitch p + x * 2))"

text \<open>
  \<open>reconstructed_chroma\<close> reads around the half of a pixel's coordinate, shifted for a midpoint sample,
  and rounded down in the device's floating point: \<open>half_pixel code coordinate\<close> is what it gives.
\<close>

definition reconstructed_chroma_texels :: "(u32 \<Rightarrow> i32 \<Rightarrow> i32) \<Rightarrow> nv12_push_constants \<Rightarrow> i32 \<times> i32 \<Rightarrow> u32 list" where
  "reconstructed_chroma_texels half_pixel p pixel =
     (let x = half_pixel (npc_x_offset p) (fst pixel); y = half_pixel (npc_y_chroma_offset p) (snd pixel) in
      concat (map (load_chroma_texels p) [(x, y), (x + 1, y), (x, y + 1), (x + 1, y + 1)]))"

definition rgba_block_texels :: "(u32 \<Rightarrow> i32 \<Rightarrow> i32) \<Rightarrow> nv12_push_constants \<Rightarrow> i32 \<times> i32 \<Rightarrow> u32 list" where
  "rgba_block_texels half_pixel p block =
     (let pixel = (fst block * 2, snd block * 2) in
      if outside_frame p pixel then []
      else let row0 = npc_y_offset p + snd pixel * npc_y_pitch p + fst pixel in
        load_pair_texels row0 @ load_pair_texels (row0 + npc_y_pitch p) @
        (if npc_x_offset p = 0 \<and> npc_y_chroma_offset p = 1
         then let x = fst block; y = snd block - 1 in
           concat (map (load_chroma_texels p) [(x, y), (x + 1, y), (x, y + 1), (x + 1, y + 1), (x, y + 2), (x + 1, y + 2)])
         else let x = fst pixel; y = snd pixel in
           concat (map (reconstructed_chroma_texels half_pixel p) [(x, y), (x + 1, y), (x, y + 1), (x + 1, y + 1)])))"

definition packed_pixel_texels :: "packed_push_constants \<Rightarrow> u32 \<Rightarrow> u32 \<Rightarrow> u32 list" where
  "packed_pixel_texels p x y =
     (let offset = pp_offset p + y * pp_pitch p + x * 4 in
      map load_byte_texel [offset, offset + 1, offset + 2, offset + 3])"

lemma load_pair_in_bounds:
  assumes "unat offset + 1 < n" and "4 dvd n" and "n \<le> 2 ^ 32"
    and "t \<in> set (load_pair_texels offset)"
  shows "unat t < n div 4"
proof -
  have drop: "unat (drop_bit 2 offset) = unat offset div 4"
    by (simp add: drop_bit_eq_div unat_div)
  have low: "unat (offset AND 3) = unat offset mod 4"
  proof -
    have "offset AND 3 = take_bit 2 offset"
      by (simp add: take_bit_eq_mask mask_eq_exp_minus_1)
    then show ?thesis by (simp add: take_bit_eq_mod unat_mod)
  qed
  obtain k where k: "n = 4 * k" using assms(2) by (auto elim: dvdE)
  have "unat t = unat offset div 4 \<or> unat t = unat offset div 4 + 1 \<and> 2 < unat offset mod 4"
  proof (cases "(offset AND 3) * 8 \<le> 16")
    case True
    then show ?thesis using assms(4) by (simp add: load_pair_texels_def drop)
  next
    case False
    have "unat ((offset AND 3) * 8) = unat offset mod 4 * 8"
      by (simp add: unat_word_ariths low)
    then have "2 < unat offset mod 4" using False by (simp add: word_le_nat_alt)
    moreover have "unat (drop_bit 2 offset + 1) = unat offset div 4 + 1"
      using unat_u32_less [of offset] by (simp add: unat_word_ariths(1) drop)
    ultimately show ?thesis using assms(4) False by (auto simp: load_pair_texels_def drop)
  qed
  moreover have "unat offset = 4 * (unat offset div 4) + unat offset mod 4" by simp
  moreover have "unat offset + 1 < 4 * k" "n div 4 = k" using assms(1) k by simp_all
  ultimately show ?thesis by linarith
qed

lemma staged_push_constants:
  assumes "validate_staged_layout max_texels dims layout = Ok u"
  shows "\<exists>p span. nv12_push_constants_of dims layout conversion = Ok p \<and>
     nv12_compute_source_span dims layout = Ok span \<and>
     4 dvd unat span \<and> unat span \<le> 2 ^ 32 \<and> unat span \<le> unat (sl_object_size layout) \<and>
     luma_extent dims layout \<le> unat span \<and> chroma_extent dims layout \<le> unat span \<and>
     unat (npc_y_offset p) = unat (ip_offset (fst (sl_planes layout))) \<and>
     npc_y_pitch p = ip_pitch (fst (sl_planes layout)) \<and>
     unat (npc_uv_offset p) = unat (ip_offset (snd (sl_planes layout))) \<and>
     npc_uv_pitch p = ip_pitch (snd (sl_planes layout)) \<and> npc_width p = fst dims \<and> npc_height p = snd dims"
proof -
  obtain span where span: "nv12_compute_source_span dims layout = Ok span"
    and limits: "unat span \<le> 2 ^ 32" "unat span \<le> unat (sl_object_size layout)"
    using assms by (auto simp: validate_staged_layout_Ok_iff)
  define m where "m = max (luma_extent dims layout) (chroma_extent dims layout)"
  have ok: "nv12_layout_ok dims layout" and rounded: "unat span = 4 * ((m + 3) div 4)"
    using span by (simp_all add: compute_span_Ok_iff m_def)
  have m: "m \<le> unat span" unfolding rounded by presburger
  then have ends: "luma_extent dims layout \<le> unat span" "chroma_extent dims layout \<le> unat span"
    by (simp_all add: m_def)
  then have "unat (ip_offset (fst (sl_planes layout))) < 2 ^ 32"
    "unat (ip_offset (snd (sl_planes layout))) < 2 ^ 32"
    using limits(1) ok
    by (simp_all add: nv12_layout_ok_def luma_extent_def chroma_extent_def plane_extent_def)
  then obtain y uv where try_: "u32_try_from (ip_offset (fst (sl_planes layout))) = Some y"
    "u32_try_from (ip_offset (snd (sl_planes layout))) = Some uv"
    by (simp add: u32_try_from_def)
  then have offsets: "unat y = unat (ip_offset (fst (sl_planes layout)))"
    "unat uv = unat (ip_offset (snd (sl_planes layout)))"
    by (simp_all add: u32_try_from_Some)
  have "\<exists>p. nv12_push_constants_of dims layout conversion = Ok p \<and> npc_y_offset p = y \<and>
      npc_uv_offset p = uv \<and> npc_y_pitch p = ip_pitch (fst (sl_planes layout)) \<and>
      npc_uv_pitch p = ip_pitch (snd (sl_planes layout)) \<and> npc_width p = fst dims \<and> npc_height p = snd dims"
    using try_ by (cases "sl_planes layout") (simp add: nv12_push_constants_of_def)
  moreover have "4 dvd unat span" by (simp add: rounded)
  ultimately show ?thesis
    using span limits ends offsets by auto
qed

section \<open>Properties\<close>

text \<open>C21: the shared-object validation accepts exactly the layouts of the specification over
  natural numbers: positive even dimensions, pitches that hold a row, an even chroma pitch, both
  plane extents inside the object and one plane before the other. No wrapped sum is ever
  accepted, and the bytes of the two planes are disjoint and inside the object.\<close>

theorem nv12_layout_validation:
  "(validate_nv12_shared_layout dims layout = Ok () \<longleftrightarrow> nv12_layout_ok dims layout) \<and>
   (case validate_nv12_shared_layout dims layout of
      Inl e \<Rightarrow> True
    | Inr _ \<Rightarrow>
        (let luma = plane_bytes (unat (fst dims)) (fst (sl_planes layout)) (unat (snd dims));
             chroma = plane_bytes (unat (fst dims)) (snd (sl_planes layout)) (unat (snd dims) div 2)
         in luma \<inter> chroma = {} \<and> luma \<union> chroma \<subseteq> {..<unat (sl_object_size layout)}))"
proof (cases "nv12_layout_ok dims layout")
  case True
  have "plane_bytes (unat (fst dims)) (fst (sl_planes layout)) (unat (snd dims)) \<subseteq>
      {..<unat (sl_object_size layout)}"
    using True plane_bytes_bounds(2)
    by (fastforce simp: nv12_layout_ok_def luma_extent_def)
  moreover have "plane_bytes (unat (fst dims)) (snd (sl_planes layout)) (unat (snd dims) div 2) \<subseteq>
      {..<unat (sl_object_size layout)}"
    using True plane_bytes_bounds(2)
    by (fastforce simp: nv12_layout_ok_def chroma_extent_def)
  ultimately show ?thesis
    using True nv12_planes_disjoint [OF True]
    by (simp add: validate_nv12_shared_layout_Ok_iff Let_def split: sum.split)
qed (auto simp: validate_nv12_shared_layout_Ok_iff split: sum.split)

text \<open>The address of a texel pair in a row of a plane, computed without wrap-around.\<close>

lemma row_address:
  fixes off pitch x y :: u32
  assumes "unat off + unat pitch * (rows - 1) + width \<le> span" and "span \<le> 2 ^ 32"
    and "unat y < rows" and "unat x + 2 \<le> width"
  shows "unat (off + y * pitch + x) = unat off + unat y * unat pitch + unat x"
    and "unat off + unat y * unat pitch + unat x + 2 \<le> span"
proof -
  have "unat pitch * unat y \<le> unat pitch * (rows - 1)" using assms(3) by (intro mult_le_mono2) linarith
  then have "unat y * unat pitch \<le> unat pitch * (rows - 1)" by (simp add: mult.commute)
  then show last: "unat off + unat y * unat pitch + unat x + 2 \<le> span" using assms(1,4) by linarith
  show "unat (off + y * pitch + x) = unat off + unat y * unat pitch + unat x"
    using last assms(2) by (intro unat_linear) simp
qed

lemma uint_u32_less: "uint (v :: u32) < 2 ^ 32"
  using uint_lt2p [of v] by simp

lemma sint_i32: "sint (v :: i32) = (if uint v < 2 ^ 31 then uint v else uint v - 2 ^ 32)"
proof (cases "uint v < 2 ^ 31")
  case False
  have "uint v < 2 ^ 32" by (rule uint_u32_less)
  then have "(uint v + 2 ^ 31) mod 2 ^ 32 = uint v - 2 ^ 31" using False by (simp add: mod_pos_geq)
  then show ?thesis
    using False by (simp add: sint_uint signed_take_bit_eq_take_bit_shift take_bit_eq_mod)
qed (simp add: sint_uint signed_take_bit_eq_take_bit_shift take_bit_eq_mod)

lemma unat_less_iff_uint: "unat (v :: u32) < n \<longleftrightarrow> uint v < int n"
  by (metis of_nat_less_iff uint_nat)

lemma clamp_below:
  assumes "0 < unat extent" and "unat extent \<le> 2 ^ 31"
  shows "unat (clamp_i32 v 0 (extent - 1)) < unat extent"
proof -
  have e: "0 < uint extent" "uint extent \<le> 2 ^ 31" 
    using assms unat_less_iff_uint [of extent 1] unat_less_iff_uint [of extent "2 ^ 31 + 1"] by simp_all
  then have last: "uint (extent - 1) = uint extent - 1" by (simp add: uint_sub_if')
  have "uint (clamp_i32 v 0 (extent - 1)) < uint extent"
    using e uint_u32_less [of v] by (simp add: clamp_i32_def Let_def sint_i32 last)
  then show ?thesis by (simp add: unat_less_iff_uint)
qed

text \<open>What both shaders need of the push constants: \<open>w\<close> by \<open>h\<close> blocks whose rows end in the span.\<close>

definition blocks_in_span :: "nv12_push_constants \<Rightarrow> nat \<Rightarrow> nat \<Rightarrow> nat \<Rightarrow> bool" where
  "blocks_in_span p w h span \<longleftrightarrow>
     unat (npc_width p) = 2 * w \<and> unat (npc_height p) = 2 * h \<and> 0 < w \<and> 0 < h \<and> 4 dvd span \<and> span \<le> 2 ^ 32 \<and>
     unat (npc_y_offset p) + unat (npc_y_pitch p) * (2 * h - 1) + 2 * w \<le> span \<and>
     unat (npc_uv_offset p) + unat (npc_uv_pitch p) * (h - 1) + 2 * w \<le> span"

lemma pair_in_span:
  fixes off pitch x y :: u32
  assumes "unat off + unat pitch * (rows - 1) + width \<le> span" and "4 dvd span" and "span \<le> 2 ^ 32"
    and "unat y < rows" and "unat x + 2 \<le> width" and "t \<in> set (load_pair_texels (off + y * pitch + x))"
  shows "unat t < span div 4"
  using row_address [OF assms(1,3-5)] by (intro load_pair_in_bounds [OF _ assms(2,3,6)]) simp

lemma load_chroma_in_span:
  assumes "blocks_in_span p w h span" and "t \<in> set (load_chroma_texels p location)"
  shows "unat t < span div 4"
proof -
  let ?x = "clamp_i32 (fst location) 0 (drop_bit 1 (npc_width p) - 1)"
    and ?y = "clamp_i32 (snd location) 0 (drop_bit 1 (npc_height p) - 1)"
  have half: "unat (drop_bit 1 (npc_width p)) = w" "unat (drop_bit 1 (npc_height p)) = h"
    using assms(1) by (simp_all add: blocks_in_span_def drop_bit_eq_div unat_div)
  have small: "w \<le> 2 ^ 31" "h \<le> 2 ^ 31"
    using assms(1) unat_u32_less [of "npc_width p"] unat_u32_less [of "npc_height p"] by (simp_all add: blocks_in_span_def)
  have x: "unat ?x < w" and y: "unat ?y < h"
    using clamp_below [of "drop_bit 1 (npc_width p)"] clamp_below [of "drop_bit 1 (npc_height p)"] assms(1) small
    by (simp_all only: half blocks_in_span_def)
  have "unat (?x * 2) = unat ?x * 2" using x small by (simp add: unat_word_ariths)
  then have "unat (?x * 2) + 2 \<le> 2 * w" using x by simp
  then show ?thesis
    using assms pair_in_span [OF _ _ _ y, of "npc_uv_offset p" "npc_uv_pitch p" "2 * w" span "?x * 2" t]
    by (simp add: blocks_in_span_def load_chroma_texels_def Let_def)
qed

text \<open>A block that is not outside the frame is one of the \<open>w\<close> by \<open>h\<close>.\<close>

lemma inside_frame:
  assumes "blocks_in_span p w h span" and "\<not> outside_frame p (fst block * 2, snd block * 2)"
    and "unat (fst block) < 2 ^ 30" and "unat (snd block) < 2 ^ 30"
  shows "unat (fst block) < w" and "unat (snd block) < h"
    and "unat (fst block * 2) = unat (fst block) * 2" and "unat (snd block * 2) = unat (snd block) * 2"
proof -
  show two: "unat (fst block * 2) = unat (fst block) * 2" "unat (snd block * 2) = unat (snd block) * 2"
    using assms(3,4) by (simp_all add: unat_word_ariths)
  have inside: "unat v < n"
    if shown: "sint (v * 2) < sint extent" and v: "unat v < 2 ^ 30" and extent: "unat extent = 2 * n" for v extent :: i32 and n
  proof -
    have v': "uint v < 2 ^ 30" using v by (simp add: unat_less_iff_uint)
    then have "uint (v * 2) = uint v * 2" by (simp add: uint_word_ariths)
    moreover have "uint extent = 2 * int n" using arg_cong [OF extent, of int] by simp
    ultimately have "uint v < int n"
      using shown v' uint_u32_less [of extent] by (simp add: sint_i32 split: if_splits)
    then show ?thesis by (simp add: unat_less_iff_uint)
  qed
  show "unat (fst block) < w" "unat (snd block) < h"
    using assms inside [of "fst block" "npc_width p" w] inside [of "snd block" "npc_height p" h]
    by (simp_all add: outside_frame_def blocks_in_span_def not_le)
qed

lemma luma_in_span:
  assumes "blocks_in_span p w h span" and "\<not> outside_frame p (fst block * 2, snd block * 2)"
    and "unat (fst block) < 2 ^ 30" and "unat (snd block) < 2 ^ 30"
    and "t \<in> set (load_pair_texels (npc_y_offset p + snd block * 2 * npc_y_pitch p + fst block * 2)) \<union>
      set (load_pair_texels (npc_y_offset p + snd block * 2 * npc_y_pitch p + fst block * 2 + npc_y_pitch p))"
  shows "unat t < span div 4"
proof -
  note inside = inside_frame [OF assms(1-4)]
  have luma: "unat (npc_y_offset p) + unat (npc_y_pitch p) * (2 * h - 1) + 2 * w \<le> span" "4 dvd span" "span \<le> 2 ^ 32"
    using assms(1) by (simp_all add: blocks_in_span_def)
  have last: "unat (snd block * 2 + 1) = unat (snd block) * 2 + 1" using inside(4) assms(4) by (simp add: unat_word_ariths)
  have rows: "unat (snd block * 2) < 2 * h" "unat (snd block * 2 + 1) < 2 * h" "unat (fst block * 2) + 2 \<le> 2 * w"
    using inside last by simp_all
  have next_row: "npc_y_offset p + snd block * 2 * npc_y_pitch p + fst block * 2 + npc_y_pitch p =
      npc_y_offset p + (snd block * 2 + 1) * npc_y_pitch p + fst block * 2"
    by (simp add: algebra_simps)
  show ?thesis
    using assms(5) pair_in_span [OF luma rows(1,3)] pair_in_span [OF luma rows(2,3)] unfolding next_row by blast
qed

lemma planes_in_span:
  assumes "blocks_in_span p w h span" and "unat (fst block) < 2 ^ 30" and "unat (snd block) < 2 ^ 30"
    and "t \<in> set (planes_block_texels p block)"
  shows "unat t < span div 4"
proof -
  have shown: "\<not> outside_frame p (fst block * 2, snd block * 2)"
    using assms(4) by (auto simp: planes_block_texels_def Let_def)
  note inside = inside_frame [OF assms(1) shown assms(2,3)]
  have "unat (fst block * 2) + 2 \<le> 2 * w" using inside by simp
  from pair_in_span [OF _ _ _ inside(2) this, of "npc_uv_offset p" "npc_uv_pitch p" span t]
  show ?thesis
    using assms(1,4) shown luma_in_span [OF assms(1) shown assms(2,3)]
    by (auto simp: planes_block_texels_def Let_def blocks_in_span_def)
qed

lemma rgba_in_span:
  assumes "blocks_in_span p w h span" and "unat (fst block) < 2 ^ 30" and "unat (snd block) < 2 ^ 30"
    and "t \<in> set (rgba_block_texels half_pixel p block)"
  shows "unat t < span div 4"
proof -
  have shown: "\<not> outside_frame p (fst block * 2, snd block * 2)"
    using assms(4) by (auto simp: rgba_block_texels_def Let_def)
  have "(\<exists>location. t \<in> set (load_chroma_texels p location)) \<or>
      t \<in> set (load_pair_texels (npc_y_offset p + snd block * 2 * npc_y_pitch p + fst block * 2)) \<union>
      set (load_pair_texels (npc_y_offset p + snd block * 2 * npc_y_pitch p + fst block * 2 + npc_y_pitch p))"
    using assms(4) by (auto simp: rgba_block_texels_def reconstructed_chroma_texels_def Let_def
        simp del: split_paired_Ex split_paired_All split: if_splits)
  then show ?thesis
    using load_chroma_in_span [OF assms(1)] luma_in_span [OF assms(1) shown assms(2,3)] by blast
qed

text \<open>A layout the staged span holds is too small for a dispatch to reach the negative half of \<open>int\<close>.\<close>

lemma div_ceil_below: "16 * unat (div_ceil (a :: u32) 16) \<le> 2 ^ 30" if "unat a \<le> 2 ^ 30"
proof (cases "unat a mod 16 = 0")
  case True
  then show ?thesis using that by (simp add: div_ceil_def Let_def word_less_nat_alt unat_mod unat_div)
next
  case False
  have d: "unat a div 16 < 2 ^ 26" using that False by (cases "unat a = 2 ^ 30") auto
  then have "unat (a div 16 + 1) = unat a div 16 + 1" by (simp add: unat_word_ariths(1) unat_div)
  then show ?thesis using False d by (simp add: div_ceil_def Let_def word_less_nat_alt unat_mod unat_div)
qed

lemma dispatched_below:
  assumes "nv12_layout_ok dims layout" and "luma_extent dims layout \<le> 2 ^ 32" and "dispatched_block dims block"
  shows "unat (fst block) < 2 ^ 30" and "unat (snd block) < 2 ^ 30"
proof -
  let ?pitch = "unat (ip_pitch (fst (sl_planes layout)))"
  have size: "0 < unat (fst dims)" "even (unat (fst dims))" "0 < unat (snd dims)" "even (unat (snd dims))"
    and pitch: "unat (fst dims) \<le> ?pitch"
    and extent: "?pitch * (unat (snd dims) - 1) + unat (fst dims) \<le> 2 ^ 32"
    using assms(1,2) by (simp_all add: nv12_layout_ok_def luma_extent_def plane_extent_def)
  have two: "2 \<le> unat (fst dims)" "2 \<le> unat (snd dims)"
    using size by (auto elim!: evenE)
  obtain m where m: "?pitch * (unat (snd dims) - 1) = m" by blast
  have "unat (fst dims) * 1 \<le> ?pitch * (unat (snd dims) - 1)" using two pitch by (intro mult_le_mono) simp_all
  then have x: "unat (fst dims) \<le> 2 ^ 31" using extent unfolding m by simp
  have "2 * (unat (snd dims) - 1) \<le> ?pitch * (unat (snd dims) - 1)" using two pitch by (intro mult_le_mono) simp_all
  then have y: "unat (snd dims) \<le> 2 ^ 31" using extent two unfolding m by simp
  have "unat (fst dims div 2) \<le> 2 ^ 30" "unat (snd dims div 2) \<le> 2 ^ 30" using x y by (simp_all add: unat_div)
  from this [THEN div_ceil_below] show "unat (fst block) < 2 ^ 30" "unat (snd block) < 2 ^ 30"
    using assms(3) unfolding dispatched_block_def nv12_dispatch_def by simp_all
qed

text \<open>C22: after the staged validation both NV12 compute shaders are safe on the device: the push constants
  exist, the source span is a multiple of four inside the allocation, and every texel that an invocation
  of \<open>nv12_planes.comp\<close> or of \<open>nv12.comp\<close> reads lies inside the source buffer, without any 32-bit
  wrap-around. The invocation is any of the plan's dispatch, also one past the frame; the chroma samples of
  \<open>nv12.comp\<close> are around the block or wherever the device's floating point puts them.\<close>

theorem compute_shader_reads_in_bounds:
  assumes "validate_staged_layout max_texels dims layout = Ok ()" and "dispatched_block dims block"
  shows "\<exists>p span. nv12_push_constants_of dims layout conversion = Ok p \<and>
     nv12_compute_source_span dims layout = Ok span \<and>
     4 dvd unat span \<and> unat span \<le> unat (sl_object_size layout) \<and>
     list_all (\<lambda>t. unat t < unat span div 4) (planes_block_texels p block) \<and>
     list_all (\<lambda>t. unat t < unat span div 4) (rgba_block_texels half_pixel p block)"
proof -
  obtain p span where p: "nv12_push_constants_of dims layout conversion = Ok p"
    and span: "nv12_compute_source_span dims layout = Ok span"
    and four: "4 dvd unat span" and limit: "unat span \<le> 2 ^ 32" "unat span \<le> unat (sl_object_size layout)"
    and ends: "luma_extent dims layout \<le> unat span" "chroma_extent dims layout \<le> unat span"
    and fields: "unat (npc_y_offset p) = unat (ip_offset (fst (sl_planes layout)))"
      "npc_y_pitch p = ip_pitch (fst (sl_planes layout))"
      "unat (npc_uv_offset p) = unat (ip_offset (snd (sl_planes layout)))"
      "npc_uv_pitch p = ip_pitch (snd (sl_planes layout))" "npc_width p = fst dims" "npc_height p = snd dims"
    using staged_push_constants [OF assms(1), of conversion] by blast
  have ok: "nv12_layout_ok dims layout" using span by (simp add: compute_span_Ok_iff)
  obtain w h where dims: "unat (fst dims) = 2 * w" "unat (snd dims) = 2 * h" "0 < w" "0 < h"
    using ok by (auto simp: nv12_layout_ok_def elim!: evenE)
  have "blocks_in_span p w h (unat span)"
    using ends dims fields four limit(1)
    by (simp add: blocks_in_span_def luma_extent_def chroma_extent_def plane_extent_def)
  moreover note small = dispatched_below [OF ok order.trans [OF ends(1) limit(1)] assms(2)]
  ultimately show ?thesis
    using p span four limit(2) planes_in_span [OF _ small] rgba_in_span [OF _ small] by (auto simp: list_all_iff)
qed

theorem compute_shader_reads_in_bounds_witness:
  "\<exists>p. nv12_push_constants_of (4, 2) \<lparr>sl_modifier = 0, sl_object_size = 16,
       sl_planes = (\<lparr>ip_offset = 0, ip_pitch = 4\<rparr>, \<lparr>ip_offset = 8, ip_pitch = 4\<rparr>)\<rparr>
       \<lparr>cv_model = Bt709, cv_range = Full, cv_x_offset = CositedEven, cv_y_offset = Midpoint\<rparr> = Ok p \<and>
     list_all (\<lambda>t. unat t < 3) (planes_block_texels p (1, 0)) \<and>
     list_all (\<lambda>t. unat t < 3) (rgba_block_texels (\<lambda>_ v. v) p (1, 0)) \<and> planes_block_texels p (1, 0) \<noteq> []"
proof -
  define layout where "layout = \<lparr>sl_modifier = 0 :: u64, sl_object_size = 16,
      sl_planes = (\<lparr>ip_offset = 0, ip_pitch = 4\<rparr>, \<lparr>ip_offset = 8, ip_pitch = 4\<rparr>)\<rparr>"
  let ?conversion = "\<lparr>cv_model = Bt709, cv_range = Full, cv_x_offset = CositedEven, cv_y_offset = Midpoint\<rparr>"
  have ok: "nv12_layout_ok (4, 2) layout"
    by (simp add: nv12_layout_ok_def layout_def luma_extent_def chroma_extent_def plane_extent_def)
  have span: "nv12_compute_source_span (4, 2) layout = Ok 12"
    using ok by (simp add: compute_span_Ok_iff layout_def luma_extent_def chroma_extent_def plane_extent_def)
  then have valid: "validate_staged_layout 65536 (4, 2) layout = Ok ()"
    by (simp add: validate_staged_layout_Ok_iff layout_def)
  obtain p where p: "nv12_push_constants_of (4, 2) layout ?conversion = Ok p"
      "list_all (\<lambda>t. unat t < 3) (planes_block_texels p (1, 0))" "list_all (\<lambda>t. unat t < 3) (rgba_block_texels (\<lambda>_ v. v) p (1, 0))"
    using compute_shader_reads_in_bounds [OF valid, of "(1, 0)" ?conversion "\<lambda>_ v. v"] span
    by (auto simp: dispatched_block_def nv12_dispatch_def div_ceil_def)
  have "npc_width p = 4" "npc_height p = 2"
    using p(1) by (auto simp: nv12_push_constants_of_def result_bind_Inr layout_def split: prod.splits)
  then have "planes_block_texels p (1, 0) \<noteq> []"
    by (simp add: planes_block_texels_def outside_frame_def Let_def load_pair_texels_def)
  then show ?thesis using p unfolding layout_def by blast
qed

lemma packed_pixel_in_bounds:
  assumes valid: "packed_layout_ok (pi_dimensions request) (pi_source_size request) (pi_plane request)"
    and staged: "4 dvd unat (pi_source_size request)" "unat (pi_source_size request) \<le> 2 ^ 32"
    and p: "packed_push_constants_of request = Ok p"
    and pixel: "unat x < unat (fst (pi_dimensions request))" "unat y < unat (snd (pi_dimensions request))"
    and t: "t \<in> set (packed_pixel_texels p x y)"
  shows "unat t < unat (pi_source_size request) div 4"
proof -
  define off where "off = pp_offset p + y * pp_pitch p + x * 4"
  have fields: "unat (pp_offset p) = unat (ip_offset (pi_plane request))"
    "pp_pitch p = ip_pitch (pi_plane request)"
    using p by (auto simp: packed_push_constants_of_def result_bind_Inr ok_or_Inr u32_try_from_Some)
  have "unat (pp_pitch p) * unat y \<le> unat (pp_pitch p) * (unat (snd (pi_dimensions request)) - 1)"
    using pixel(2) by (intro mult_le_mono2) linarith
  moreover have "unat (pp_offset p) + unat (pp_pitch p) * (unat (snd (pi_dimensions request)) - 1)
      + 4 * unat (fst (pi_dimensions request)) \<le> unat (pi_source_size request)"
    using valid by (simp add: packed_layout_ok_def plane_extent_def fields)
  moreover have "unat y * unat (pp_pitch p) = unat (pp_pitch p) * unat y"
    by (rule mult.commute)
  ultimately have last: "unat (pp_offset p) + unat y * unat (pp_pitch p) + unat x * 4 + 4 \<le>
      unat (pi_source_size request)"
    using pixel(1) by linarith
  have x4: "unat (x * 4) = unat x * 4"
    using last staged(2) by (simp add: unat_word_ariths)
  have off: "unat off = unat (pp_offset p) + unat y * unat (pp_pitch p) + unat x * 4"
    unfolding off_def using last staged(2)
    by (subst unat_linear) (simp_all only: x4, simp_all)
  have step: "unat (off + 1) = unat off + 1" "unat (off + 2) = unat off + 2"
    "unat (off + 3) = unat off + 3"
    using last staged(2) off by (simp_all add: unat_word_ariths(1))
  have bound: "b div 4 < unat (pi_source_size request) div 4" if "b \<le> unat off + 3" for b
  proof -
    have "b < unat (pi_source_size request)" using that last off by linarith
    then show ?thesis using staged(1) by (auto elim!: dvdE)
  qed
  have "t \<in> load_byte_texel ` {off, off + 1, off + 2, off + 3}"
    using t by (auto simp: packed_pixel_texels_def Let_def off_def)
  then have "unat t \<in> {unat off div 4, (unat off + 1) div 4, (unat off + 2) div 4,
      (unat off + 3) div 4}"
    using step by (auto simp: load_byte_texel_def drop_bit_eq_div unat_div)
  then show ?thesis using bound by auto
qed

text \<open>C31: the packed validation accepts exactly the images whose rows of four bytes per pixel fit
  the pitch and the allocation, computed without wrap-around; its row-size overflow branch is
  unreachable. After the staged packed validation and with an offset the push constants can
  hold, every texel the packed shader reads for a pixel lies inside the source buffer.\<close>

theorem packed_layout_safe:
  "(validate_packed_layout dims n plane = Ok () \<longleftrightarrow> packed_layout_ok dims n plane) \<and>
   validate_packed_layout dims n plane \<noteq> Err (Other Packed_row_overflow) \<and>
   (case (validate_packed_layout (pi_dimensions request) (pi_source_size request) (pi_plane request),
          validate_staged_packed_layout max_texels (pi_source_size request),
          packed_push_constants_of request) of
      (Inr _, Inr _, Inr p) \<Rightarrow>
        list_all (\<lambda>(x, y). list_all (\<lambda>t. unat t < unat (pi_source_size request) div 4)
            (packed_pixel_texels p x y))
          (filter (\<lambda>(x, y). unat x < unat (fst (pi_dimensions request)) \<and>
             unat y < unat (snd (pi_dimensions request))) pixels)
    | _ \<Rightarrow> True)"
  using packed_pixel_in_bounds [of request]
  by (auto simp: validate_packed_layout_Ok_iff validate_packed_layout_errors validate_staged_packed_Ok_iff list_all_iff
      split: sum.split)

text \<open>The colorimetry mapping accepts exactly the explicit BT.709 contract with an explicit
  range and a chroma location that is not bottom-sited, and it is injective on what it accepts:
  no two accepted contracts are converted alike unless they agree on range and siting.\<close>

lemma colorimetry_mapping_exact:
  "(is_ok (map_nv12_colorimetry color) \<longleftrightarrow>
     color_primaries color = Primaries_Bt709 \<and> color_transfer color = Transfer_Bt709 \<and>
     color_matrix color = Matrix_Bt709 \<and> color_range color \<noteq> Range_Unspecified \<and>
     color_chroma_location color \<in> {Chroma_Left, Chroma_Center, Chroma_TopLeft, Chroma_Top}) \<and>
   (case (map_nv12_colorimetry color, map_nv12_colorimetry color') of
      (Inr c, Inr c') \<Rightarrow> cv_model c = Bt709 \<and> (c = c' \<longleftrightarrow> color = color')
    | _ \<Rightarrow> True)"
  by (cases color; cases color')
    (auto simp: map_nv12_colorimetry_def Let_def
      split: color_range.splits chroma_location.splits if_splits sum.splits)

end
