(* ===== verification/Vulkan_Capability.thy ===== *)
theory Vulkan_Capability
  imports Nv12_Layout
begin

text \<open>
  \<open>vulkan/capability.rs\<close> and the capability part of \<open>vulkan/mod.rs\<close>: which import
  strategies a Vulkan device supports, and which one a stream gets. The driver is the record
  \<open>vk_device\<close> of its query functions, a parameter; flag words are sets of the flags the
  code names. The inventory is related to the validation: whatever it offers is accepted.
\<close>

section \<open>Flags, formats and driver queries\<close>

datatype format_feature =
    F_SAMPLED_IMAGE | F_SAMPLED_IMAGE_FILTER_LINEAR | F_YCBCR_CONVERSION_LINEAR_FILTER
  | F_MIDPOINT_CHROMA_SAMPLES | F_COSITED_CHROMA_SAMPLES | F_TRANSFER_SRC | F_TRANSFER_DST
  | F_STORAGE_IMAGE | F_COLOR_ATTACHMENT | F_UNIFORM_TEXEL_BUFFER | F_unnamed nat

datatype image_usage =
    U_SAMPLED | U_COLOR_ATTACHMENT | U_TRANSFER_SRC | U_TRANSFER_DST | U_STORAGE

datatype buffer_usage = B_UNIFORM_TEXEL_BUFFER | B_TRANSFER_SRC

datatype external_feature = E_IMPORTABLE | E_unnamed nat

datatype handle_type = H_DMA_BUF_EXT | H_unnamed nat

datatype queue_flag = Q_GRAPHICS | Q_COMPUTE | Q_TRANSFER | Q_unnamed nat

datatype create_flag = C_MUTABLE_FORMAT

datatype vk_format =
    R8G8B8A8_UNORM | B8G8R8A8_UNORM | G8_B8R8_2PLANE_420_UNORM | R32_UINT | R8_UNORM | R8G8_UNORM

datatype vk_result =
    ERROR_DEVICE_LOST | ERROR_OUT_OF_HOST_MEMORY | ERROR_OUT_OF_DEVICE_MEMORY | VK_TIMEOUT | VK_NOT_READY
  | VK_ERROR nat

record extent3d =
  ex_width :: u32
  ex_height :: u32
  ex_depth :: u32

record modifier_properties =
  mp_modifier :: u64
  mp_plane_count :: u32
  mp_tiling_features :: "format_feature set"

record external_memory =
  em_features :: "external_feature set"
  em_handle_types :: "handle_type set"

record queue_family =
  qf_count :: u32
  qf_flags :: "queue_flag set"

text \<open>
  The queries of one physical device and the selected queue family. The optimal-tiling and the
  modifier queries fail with a result code; the others do not fail. The modifier list is read
  with a count first, so the driver's count and list are separate answers.
\<close>

record vk_device =
  vd_buffer_features :: "vk_format \<Rightarrow> format_feature set"
  vd_optimal_features :: "vk_format \<Rightarrow> format_feature set"
  vd_modifier_count :: "vk_format \<Rightarrow> u32"
  vd_modifiers :: "vk_format \<Rightarrow> modifier_properties list"
  vd_optimal_image ::
    "vk_format \<Rightarrow> image_usage set \<Rightarrow> create_flag set \<Rightarrow> vk_result + extent3d"
  vd_modifier_image ::
    "vk_format \<Rightarrow> u64 \<Rightarrow> image_usage set \<Rightarrow> vk_result + extent3d \<times> external_memory"
  vd_external_buffer :: "buffer_usage set \<Rightarrow> external_memory"
  vd_queue_families :: "queue_family list"
  vd_queue_family_index :: u32
  vd_max_texel_buffer_elements :: u32

definition IMPORTED_RGBA_FORMAT :: vk_format where "IMPORTED_RGBA_FORMAT = R8G8B8A8_UNORM"
definition IMPORTED_SCANOUT_BGRA_FORMAT :: vk_format where
  "IMPORTED_SCANOUT_BGRA_FORMAT = B8G8R8A8_UNORM"
definition IMPORTED_NV12_FORMAT :: vk_format where
  "IMPORTED_NV12_FORMAT = G8_B8R8_2PLANE_420_UNORM"

fun packed_vk_format :: "packed_image_format \<Rightarrow> vk_format" where
  "packed_vk_format Packed_Rgba8888 = IMPORTED_RGBA_FORMAT"
| "packed_vk_format Packed_Bgra8888 = IMPORTED_SCANOUT_BGRA_FORMAT"

definition DIRECT_PACKED_USAGE :: "image_usage set" where
  "DIRECT_PACKED_USAGE = {U_SAMPLED, U_COLOR_ATTACHMENT, U_TRANSFER_SRC, U_TRANSFER_DST}"

definition DIRECT_NV12_USAGE :: "image_usage set" where "DIRECT_NV12_USAGE = {U_SAMPLED}"

definition DIRECT_NV12_PLANE_TRANSFER_USAGE :: "image_usage set" where
  "DIRECT_NV12_PLANE_TRANSFER_USAGE = {U_TRANSFER_SRC}"

definition STAGED_NV12_OUTPUT_USAGE :: "image_usage set" where
  "STAGED_NV12_OUTPUT_USAGE = {U_SAMPLED, U_STORAGE, U_TRANSFER_SRC, U_TRANSFER_DST}"

definition TRANSFER_NV12_OUTPUT_USAGE :: "image_usage set" where
  "TRANSFER_NV12_OUTPUT_USAGE = {U_SAMPLED, U_TRANSFER_SRC, U_TRANSFER_DST}"

definition STAGED_NV12_SOURCE_USAGE :: "buffer_usage set" where
  "STAGED_NV12_SOURCE_USAGE = {B_UNIFORM_TEXEL_BUFFER}"

definition TRANSFER_NV12_SOURCE_USAGE :: "buffer_usage set" where
  "TRANSFER_NV12_SOURCE_USAGE = {B_TRANSFER_SRC}"

definition STAGED_PACKED_SOURCE_USAGE :: "buffer_usage set" where
  "STAGED_PACKED_SOURCE_USAGE = {B_UNIFORM_TEXEL_BUFFER}"

definition STAGED_PACKED_OUTPUT_USAGE :: "image_usage set" where
  "STAGED_PACKED_OUTPUT_USAGE = STAGED_NV12_OUTPUT_USAGE"

section \<open>Capabilities\<close>

record resolve_request =
  rq_modifier :: u64
  rq_dimensions :: dimensions
  rq_conversion :: nv12_conversion

record nv12_capability =
  cap_modifier :: u64
  cap_strategy :: nv12_import_strategy
  cap_plane_count :: u32
  cap_source_features :: "format_feature set"
  cap_sampled_features :: "format_feature set"
  cap_external_features :: "external_feature set"
  cap_handle_types :: "handle_type set"
  cap_max_extent :: extent3d

definition capability_allocation_recipe :: "nv12_capability \<Rightarrow> nv12_allocation_recipe" where
  "capability_allocation_recipe c = allocation_recipe (cap_strategy c)"

definition required_direct_features :: "nv12_conversion \<Rightarrow> format_feature set" where
  "required_direct_features conversion =
     {F_SAMPLED_IMAGE, F_SAMPLED_IMAGE_FILTER_LINEAR, F_YCBCR_CONVERSION_LINEAR_FILTER} \<union>
     (case (cv_x_offset conversion, cv_y_offset conversion) of
        (Midpoint, Midpoint) \<Rightarrow> {F_MIDPOINT_CHROMA_SAMPLES}
      | (CositedEven, CositedEven) \<Rightarrow> {F_COSITED_CHROMA_SAMPLES}
      | _ \<Rightarrow> {F_MIDPOINT_CHROMA_SAMPLES, F_COSITED_CHROMA_SAMPLES})"

datatype capability_error =
    Zero_dimensions
  | Exceeds_import_limit dimensions extent3d
  | Not_dmabuf_importable u64
  | Direct_plane_count u64 u32
  | Direct_features u64 "format_feature set" "format_feature set"
  | Image_transfer_needs_nonlinear
  | Image_transfer_plane_count u64 u32
  | Image_transfer_needs_bt709
  | Image_transfer_source_features
  | Planes_output_features "format_feature set" "format_feature set"
  | Optimal_nv12_needs_linear u64
  | Optimal_nv12_features "format_feature set" "format_feature set"
  | Planes_transfer_needs_linear u64
  | Planes_transfer_needs_bt709
  | Planes_transfer_features "format_feature set" "format_feature set"
  | Staging_needs_linear u64
  | Staging_needs_bt709
  | Staging_features "format_feature set" "format_feature set"

definition validate_nv12_modifier_capability ::
  "nv12_capability \<Rightarrow> dimensions \<Rightarrow> nv12_conversion \<Rightarrow> capability_error + unit" where
  "validate_nv12_modifier_capability c dims conversion =
     (if fst dims = 0 \<or> snd dims = 0 then Err Zero_dimensions
      else if ex_width (cap_max_extent c) < fst dims \<or> ex_height (cap_max_extent c) < snd dims
      then Err (Exceeds_import_limit dims (cap_max_extent c))
      else if E_IMPORTABLE \<notin> cap_external_features c \<or> H_DMA_BUF_EXT \<notin> cap_handle_types c
      then Err (Not_dmabuf_importable (cap_modifier c))
      else case cap_strategy c of
        DirectSampledImage \<Rightarrow>
          (let required = required_direct_features conversion in
           if cap_plane_count c \<noteq> 2 then Err (Direct_plane_count (cap_modifier c) (cap_plane_count c))
           else if \<not> required \<subseteq> cap_sampled_features c
           then Err (Direct_features (cap_modifier c) required (cap_sampled_features c))
           else Ok ())
      | DirectImageToOptimalYuvPlanes \<Rightarrow>
          (let required = {F_SAMPLED_IMAGE, F_SAMPLED_IMAGE_FILTER_LINEAR, F_TRANSFER_SRC,
                           F_TRANSFER_DST} in
           if cap_modifier c = DRM_FORMAT_MOD_LINEAR then Err Image_transfer_needs_nonlinear
           else if cap_plane_count c \<noteq> 2
           then Err (Image_transfer_plane_count (cap_modifier c) (cap_plane_count c))
           else if cv_model conversion \<noteq> Bt709 then Err Image_transfer_needs_bt709
           else if F_TRANSFER_SRC \<notin> cap_source_features c then Err Image_transfer_source_features
           else if \<not> required \<subseteq> cap_sampled_features c
           then Err (Planes_output_features required (cap_sampled_features c))
           else Ok ())
      | LinearBufferToOptimalNv12 \<Rightarrow>
          (let required = required_direct_features conversion \<union> {F_TRANSFER_SRC, F_TRANSFER_DST} in
           if cap_modifier c \<noteq> DRM_FORMAT_MOD_LINEAR then Err (Optimal_nv12_needs_linear (cap_modifier c))
           else if \<not> required \<subseteq> cap_sampled_features c
           then Err (Optimal_nv12_features required (cap_sampled_features c))
           else Ok ())
      | LinearBufferToOptimalYuvPlanes \<Rightarrow>
          (let required = {F_SAMPLED_IMAGE, F_SAMPLED_IMAGE_FILTER_LINEAR, F_TRANSFER_SRC,
                           F_TRANSFER_DST} in
           if cap_modifier c \<noteq> DRM_FORMAT_MOD_LINEAR
           then Err (Planes_transfer_needs_linear (cap_modifier c))
           else if cv_model conversion \<noteq> Bt709 then Err Planes_transfer_needs_bt709
           else if \<not> required \<subseteq> cap_sampled_features c
           then Err (Planes_transfer_features required (cap_sampled_features c))
           else Ok ())
      | _ \<Rightarrow>
          (let required = {F_SAMPLED_IMAGE, F_SAMPLED_IMAGE_FILTER_LINEAR, F_STORAGE_IMAGE} in
           if cap_modifier c \<noteq> DRM_FORMAT_MOD_LINEAR then Err (Staging_needs_linear (cap_modifier c))
           else if cv_model conversion \<noteq> Bt709 then Err Staging_needs_bt709
           else if \<not> required \<subseteq> cap_sampled_features c
           then Err (Staging_features required (cap_sampled_features c))
           else Ok ()))"

datatype resolve_error =
    No_candidate u64
  | No_satisfying_candidate u64 "(nv12_import_strategy \<times> capability_error) list"
  | Violates_staging_policy nv12_import_strategy nv12_staging_preference

text \<open>The loop over the candidates of the modifier, in order, collecting the rejections.\<close>

fun resolve_loop ::
  "resolve_request \<Rightarrow> (nv12_import_strategy \<times> capability_error) list \<Rightarrow> nv12_capability list \<Rightarrow>
   resolve_error + nv12_capability" where
  "resolve_loop request rejections [] =
     (if rejections = [] then Err (No_candidate (rq_modifier request))
      else Err (No_satisfying_candidate (rq_modifier request) rejections))"
| "resolve_loop request rejections (c # rest) =
     (if cap_modifier c \<noteq> rq_modifier request then resolve_loop request rejections rest
      else case validate_nv12_modifier_capability c (rq_dimensions request) (rq_conversion request) of
          Inr _ \<Rightarrow> Ok c
        | Inl e \<Rightarrow> resolve_loop request (rejections @ [(cap_strategy c, e)]) rest)"

definition resolve_nv12_modifier_capability ::
  "nv12_capability list \<Rightarrow> resolve_request \<Rightarrow> resolve_error + nv12_capability" where
  "resolve_nv12_modifier_capability capabilities request = resolve_loop request [] capabilities"

definition resolve_nv12 ::
  "nv12_staging_preference \<Rightarrow> nv12_capability list \<Rightarrow> resolve_request \<Rightarrow>
   resolve_error + nv12_capability" where
  "resolve_nv12 preference capabilities request =
     result_bind (resolve_nv12_modifier_capability capabilities request) (\<lambda>c.
       case preference of
         PreferPlanar \<Rightarrow> Ok c
       | RequirePlanar \<Rightarrow>
           if cap_strategy c = LinearBufferToYuvPlanes then Ok c
           else Err (Violates_staging_policy (cap_strategy c) RequirePlanar)
       | RequireRgba \<Rightarrow>
           if cap_strategy c = LinearBufferToRgba then Ok c
           else Err (Violates_staging_policy (cap_strategy c) RequireRgba))"

definition same_nv12_capability :: "nv12_capability \<Rightarrow> nv12_capability \<Rightarrow> bool" where
  "same_nv12_capability a b \<longleftrightarrow>
     cap_modifier a = cap_modifier b \<and> cap_strategy a = cap_strategy b \<and>
     cap_plane_count a = cap_plane_count b \<and> cap_source_features a = cap_source_features b \<and>
     cap_sampled_features a = cap_sampled_features b \<and>
     cap_external_features a = cap_external_features b \<and>
     cap_handle_types a = cap_handle_types b \<and>
     ex_width (cap_max_extent a) = ex_width (cap_max_extent b) \<and>
     ex_height (cap_max_extent a) = ex_height (cap_max_extent b) \<and>
     ex_depth (cap_max_extent a) = ex_depth (cap_max_extent b)"

section \<open>Device queries\<close>

datatype import_label =
    Label_R8G8B8A8 | Label_B8G8R8A8 | Label_linear_source_buffer packed_image_format
  | Label_nv12_transfer_source | Label_nv12_texel_source

fun packed_label :: "packed_image_format \<Rightarrow> import_label" where
  "packed_label Packed_Rgba8888 = Label_R8G8B8A8"
| "packed_label Packed_Bgra8888 = Label_B8G8R8A8"

datatype query_error =
    Not_importable import_label
  | Optimal_lacks_features vk_format "format_feature set" "format_feature set"
  | Optimal_unsupported vk_format vk_result
  | Modifier_not_importable u64 vk_format vk_result
  | One_plane_modifier_unsupported import_label u64
  | Queue_cannot_transfer
  | Queue_cannot_compute
  | Source_lacks_texel_buffer
  | Planes_transfer_unavailable query_error
  | Neither_planar_nor_rgba query_error query_error
  | Required_planar_unavailable query_error
  | Required_rgba_unavailable query_error
  | Packed_staging_needs_linear u64
  | Packed_queue_cannot_compute
  | Packed_source_lacks_texel_buffer
  | Packed_view_lacks_storage
  | Neither_direct_nor_staged query_error query_error
  | Packed_pipeline_unavailable "query_error option"
  | Pool_limits_zero

definition validate_external_import ::
  "external_feature set \<Rightarrow> handle_type set \<Rightarrow> import_label \<Rightarrow> query_error + unit" where
  "validate_external_import features handles label =
     (if E_IMPORTABLE \<notin> features \<or> H_DMA_BUF_EXT \<notin> handles then Err (Not_importable label)
      else Ok ())"

text \<open>
  \<open>format_modifiers\<close>: the list has as many entries as the first query counted; the second
  query fills them, and an entry it does not fill keeps its default.
\<close>

definition modifier_default :: modifier_properties where
  "modifier_default = \<lparr>mp_modifier = 0, mp_plane_count = 0, mp_tiling_features = {}\<rparr>"

definition format_modifiers :: "vk_device \<Rightarrow> vk_format \<Rightarrow> modifier_properties list" where
  "format_modifiers device fmt =
     map (\<lambda>i. if i < length (vd_modifiers device fmt) then vd_modifiers device fmt ! i
              else modifier_default)
       [0..<unat (vd_modifier_count device fmt)]"

definition selected_queue_flags :: "vk_device \<Rightarrow> queue_flag set" where
  "selected_queue_flags device =
     (let index = unat (vd_queue_family_index device) in
      if index < length (vd_queue_families device) \<and>
         qf_count (vd_queue_families device ! index) \<noteq> 0
      then qf_flags (vd_queue_families device ! index) else {})"

definition selected_queue_supports_compute :: "vk_device \<Rightarrow> bool" where
  "selected_queue_supports_compute device \<longleftrightarrow> Q_COMPUTE \<in> selected_queue_flags device"

definition query_external_buffer_properties ::
  "vk_device \<Rightarrow> buffer_usage set \<Rightarrow> import_label \<Rightarrow> query_error + external_memory" where
  "query_external_buffer_properties device usage label =
     (let properties = vd_external_buffer device usage in
      result_bind (validate_external_import (em_features properties) (em_handle_types properties) label)
        (\<lambda>_. Ok properties))"

definition query_optimal_staging_format_with_usage ::
  "vk_device \<Rightarrow> vk_format \<Rightarrow> format_feature set \<Rightarrow> image_usage set \<Rightarrow> create_flag set \<Rightarrow>
   query_error + format_feature set \<times> extent3d" where
  "query_optimal_staging_format_with_usage device fmt required usage flags =
     (let features = vd_optimal_features device fmt in
      if \<not> required \<subseteq> features then Err (Optimal_lacks_features fmt required features)
      else result_bind (map_err (Optimal_unsupported fmt) (vd_optimal_image device fmt usage flags))
        (\<lambda>max_extent. Ok (features, max_extent)))"

definition query_optimal_staging_format ::
  "vk_device \<Rightarrow> vk_format \<Rightarrow> format_feature set \<Rightarrow> query_error + format_feature set \<times> extent3d" where
  "query_optimal_staging_format device fmt required =
     query_optimal_staging_format_with_usage device fmt required STAGED_NV12_OUTPUT_USAGE {}"

text \<open>A pair of planes: common features, and the chroma extent counted in luma samples.\<close>

definition planar_extent :: "extent3d \<Rightarrow> extent3d \<Rightarrow> extent3d" where
  "planar_extent luma chroma =
     \<lparr>ex_width = min (ex_width luma) (saturating_mul (ex_width chroma) 2),
      ex_height = min (ex_height luma) (saturating_mul (ex_height chroma) 2), ex_depth = 1\<rparr>"

definition query_planar_staging_format ::
  "vk_device \<Rightarrow> format_feature set \<Rightarrow> query_error + format_feature set \<times> extent3d" where
  "query_planar_staging_format device required =
     result_bind (query_optimal_staging_format device R8_UNORM required)
       (\<lambda>(luma_features, luma_extent).
        map_ok (\<lambda>(chroma_features, chroma_extent).
            (luma_features \<inter> chroma_features, planar_extent luma_extent chroma_extent))
          (query_optimal_staging_format device R8G8_UNORM required))"

definition query_transfer_planar_staging_format ::
  "vk_device \<Rightarrow> format_feature set \<Rightarrow> query_error + format_feature set \<times> extent3d" where
  "query_transfer_planar_staging_format device required =
     result_bind (query_optimal_staging_format_with_usage device R8_UNORM required
         TRANSFER_NV12_OUTPUT_USAGE {})
       (\<lambda>(luma_features, luma_extent).
        map_ok (\<lambda>(chroma_features, chroma_extent).
            (luma_features \<inter> chroma_features, planar_extent luma_extent chroma_extent))
          (query_optimal_staging_format_with_usage device R8G8_UNORM required
            TRANSFER_NV12_OUTPUT_USAGE {}))"

definition query_external_modifier_capability ::
  "vk_device \<Rightarrow> vk_format \<Rightarrow> u64 \<Rightarrow> image_usage set \<Rightarrow> query_error + extent3d \<times> external_memory" where
  "query_external_modifier_capability device fmt modifier usage =
     map_err (Modifier_not_importable modifier fmt) (vd_modifier_image device fmt modifier usage)"

section \<open>Packed images\<close>

definition validate_direct_modifier ::
  "vk_device \<Rightarrow> vk_format \<Rightarrow> u64 \<Rightarrow> image_usage set \<Rightarrow> format_feature set \<Rightarrow> import_label \<Rightarrow>
   query_error + unit" where
  "validate_direct_modifier device fmt modifier usage required label =
     (if \<not> list_ex (\<lambda>candidate. mp_modifier candidate = modifier \<and> mp_plane_count candidate = 1 \<and>
           required \<subseteq> mp_tiling_features candidate) (format_modifiers device fmt)
      then Err (One_plane_modifier_unsupported label modifier)
      else result_bind (query_external_modifier_capability device fmt modifier usage)
        (\<lambda>(max_extent, external).
          validate_external_import (em_features external) (em_handle_types external) label))"

definition validate_bgra_scanout_import_support ::
  "vk_device \<Rightarrow> u64 \<Rightarrow> image_usage set \<Rightarrow> query_error + unit" where
  "validate_bgra_scanout_import_support device modifier usage =
     validate_direct_modifier device IMPORTED_SCANOUT_BGRA_FORMAT modifier usage
       {F_COLOR_ATTACHMENT, F_TRANSFER_SRC, F_TRANSFER_DST} Label_B8G8R8A8"

definition validate_packed_import_support ::
  "vk_device \<Rightarrow> packed_image_format \<Rightarrow> u64 \<Rightarrow> query_error + unit" where
  "validate_packed_import_support device fmt modifier =
     validate_direct_modifier device (packed_vk_format fmt) modifier DIRECT_PACKED_USAGE
       {F_SAMPLED_IMAGE, F_TRANSFER_SRC, F_TRANSFER_DST, F_COLOR_ATTACHMENT} (packed_label fmt)"

definition validate_rgba_import_support :: "vk_device \<Rightarrow> u64 \<Rightarrow> query_error + unit" where
  "validate_rgba_import_support device modifier =
     validate_packed_import_support device Packed_Rgba8888 modifier"

definition validate_packed_staging_support ::
  "vk_device \<Rightarrow> packed_image_format \<Rightarrow> u64 \<Rightarrow> query_error + unit" where
  "validate_packed_staging_support device fmt modifier =
     (if modifier \<noteq> DRM_FORMAT_MOD_LINEAR then Err (Packed_staging_needs_linear modifier)
      else if \<not> selected_queue_supports_compute device then Err Packed_queue_cannot_compute
      else let external = vd_external_buffer device STAGED_PACKED_SOURCE_USAGE in
      result_bind (validate_external_import (em_features external) (em_handle_types external)
          (Label_linear_source_buffer fmt)) (\<lambda>_.
        if F_UNIFORM_TEXEL_BUFFER \<notin> vd_buffer_features device R32_UINT
        then Err Packed_source_lacks_texel_buffer
        else result_bind
          (query_optimal_staging_format_with_usage device IMPORTED_SCANOUT_BGRA_FORMAT
            {F_SAMPLED_IMAGE, F_STORAGE_IMAGE, F_TRANSFER_SRC, F_TRANSFER_DST}
            STAGED_PACKED_OUTPUT_USAGE {C_MUTABLE_FORMAT}) (\<lambda>_.
          if F_STORAGE_IMAGE \<notin> vd_optimal_features device R32_UINT
          then Err Packed_view_lacks_storage
          else Ok ())))"

text \<open>\<open>packed_import_strategy\<close>: direct sampling if the device has it, else staging.\<close>

definition choose_packed_strategy ::
  "vk_device \<Rightarrow> bool \<Rightarrow> query_error option \<Rightarrow> packed_image_format \<Rightarrow> u64 \<Rightarrow>
   query_error + packed_import_strategy" where
  "choose_packed_strategy device has_pipeline staging_error fmt modifier =
     (case validate_packed_import_support device fmt modifier of
        Inr _ \<Rightarrow> Ok Packed_DirectSampledImage
      | Inl direct_error \<Rightarrow>
          result_bind (map_err (Neither_direct_nor_staged direct_error)
              (validate_packed_staging_support device fmt modifier)) (\<lambda>_.
            if \<not> has_pipeline then Err (Packed_pipeline_unavailable staging_error)
            else Ok LinearBufferToOptimalBgra))"

section \<open>The NV12 inventory\<close>

definition linear_capability ::
  "modifier_properties \<Rightarrow> external_memory \<Rightarrow> nv12_import_strategy \<Rightarrow> format_feature set \<Rightarrow> extent3d \<Rightarrow>
   nv12_capability" where
  "linear_capability linear external strategy sampled_features max_extent =
     \<lparr>cap_modifier = DRM_FORMAT_MOD_LINEAR, cap_strategy = strategy,
      cap_plane_count = mp_plane_count linear, cap_source_features = mp_tiling_features linear,
      cap_sampled_features = sampled_features, cap_external_features = em_features external,
      cap_handle_types = em_handle_types external, cap_max_extent = max_extent\<rparr>"

definition query_linear_nv12_transfer_capability ::
  "vk_device \<Rightarrow> modifier_properties \<Rightarrow> query_error + nv12_capability" where
  "query_linear_nv12_transfer_capability device linear =
     (if selected_queue_flags device \<inter> {Q_GRAPHICS, Q_COMPUTE, Q_TRANSFER} = {}
      then Err Queue_cannot_transfer
      else result_bind (query_external_buffer_properties device TRANSFER_NV12_SOURCE_USAGE
          Label_nv12_transfer_source) (\<lambda>external.
        result_bind (map_err Planes_transfer_unavailable
          (query_transfer_planar_staging_format device
            {F_SAMPLED_IMAGE, F_SAMPLED_IMAGE_FILTER_LINEAR, F_TRANSFER_SRC, F_TRANSFER_DST}))
        (\<lambda>(sampled_features, max_extent).
          Ok (linear_capability linear external LinearBufferToOptimalYuvPlanes sampled_features
            max_extent))))"

definition compute_required :: "format_feature set" where
  "compute_required = {F_SAMPLED_IMAGE, F_SAMPLED_IMAGE_FILTER_LINEAR, F_STORAGE_IMAGE,
     F_TRANSFER_SRC, F_TRANSFER_DST}"

definition query_linear_nv12_compute_capability ::
  "vk_device \<Rightarrow> modifier_properties \<Rightarrow> nv12_staging_preference \<Rightarrow> query_error + nv12_capability" where
  "query_linear_nv12_compute_capability device linear preference =
     (if Q_COMPUTE \<notin> selected_queue_flags device then Err Queue_cannot_compute
      else result_bind (query_external_buffer_properties device STAGED_NV12_SOURCE_USAGE
          Label_nv12_texel_source) (\<lambda>external.
        if F_UNIFORM_TEXEL_BUFFER \<notin> vd_buffer_features device R32_UINT
        then Err Source_lacks_texel_buffer
        else result_bind
          (case preference of
             PreferPlanar \<Rightarrow>
               (case query_planar_staging_format device compute_required of
                  Inr (features, extent) \<Rightarrow> Ok (LinearBufferToYuvPlanes, features, extent)
                | Inl planar_error \<Rightarrow>
                    map_ok (\<lambda>(features, extent). (LinearBufferToRgba, features, extent))
                      (map_err (Neither_planar_nor_rgba planar_error)
                        (query_optimal_staging_format device IMPORTED_RGBA_FORMAT compute_required)))
           | RequirePlanar \<Rightarrow>
               map_ok (\<lambda>(features, extent). (LinearBufferToYuvPlanes, features, extent))
                 (map_err Required_planar_unavailable
                   (query_planar_staging_format device compute_required))
           | RequireRgba \<Rightarrow>
               map_ok (\<lambda>(features, extent). (LinearBufferToRgba, features, extent))
                 (map_err Required_rgba_unavailable
                   (query_optimal_staging_format device IMPORTED_RGBA_FORMAT compute_required)))
          (\<lambda>(strategy, sampled_features, max_extent).
            Ok (linear_capability linear external strategy sampled_features max_extent))))"

definition query_linear_nv12_staging_candidates ::
  "vk_device \<Rightarrow> modifier_properties \<Rightarrow> nv12_staging_preference \<Rightarrow> nv12_capability list" where
  "query_linear_nv12_staging_candidates device linear preference =
     (let collect = (\<lambda>r. case r of Inr c \<Rightarrow> [c] | Inl _ \<Rightarrow> []) in
      case preference of
        PreferPlanar \<Rightarrow>
          (case query_linear_nv12_transfer_capability device linear of
             Inr transfer \<Rightarrow> [transfer]
           | Inl _ \<Rightarrow> collect (query_linear_nv12_compute_capability device linear PreferPlanar))
      | _ \<Rightarrow> collect (query_linear_nv12_compute_capability device linear preference))"

text \<open>The direct-image candidate of one non-linear modifier.\<close>

definition direct_image_candidate ::
  "vk_device \<Rightarrow> (format_feature set \<times> extent3d) option \<Rightarrow> modifier_properties \<Rightarrow>
   nv12_capability option" where
  "direct_image_candidate device planar_output m =
     (case planar_output of
        None \<Rightarrow> None
      | Some (sampled_features, output_extent) \<Rightarrow>
          if mp_plane_count m \<noteq> 2 \<or> F_TRANSFER_SRC \<notin> mp_tiling_features m then None
          else case query_external_modifier_capability device IMPORTED_NV12_FORMAT (mp_modifier m)
                 DIRECT_NV12_PLANE_TRANSFER_USAGE of
              Inl _ \<Rightarrow> None
            | Inr (extent, external) \<Rightarrow>
                if E_IMPORTABLE \<in> em_features external \<and> H_DMA_BUF_EXT \<in> em_handle_types external
                then Some \<lparr>cap_modifier = mp_modifier m,
                    cap_strategy = DirectImageToOptimalYuvPlanes,
                    cap_plane_count = mp_plane_count m, cap_source_features = mp_tiling_features m,
                    cap_sampled_features = sampled_features,
                    cap_external_features = em_features external,
                    cap_handle_types = em_handle_types external,
                    cap_max_extent = \<lparr>ex_width = min (ex_width extent) (ex_width output_extent),
                      ex_height = min (ex_height extent) (ex_height output_extent),
                      ex_depth = min (ex_depth extent) (ex_depth output_extent)\<rparr>\<rparr>
                else None)"

definition inventory_nv12 :: "vk_device \<Rightarrow> nv12_staging_preference \<Rightarrow> nv12_capability list" where
  "inventory_nv12 device preference =
     (let modifiers = format_modifiers device IMPORTED_NV12_FORMAT;
          direct = (if preference = PreferPlanar
            then let planar_output = result_ok (query_transfer_planar_staging_format device
                   {F_SAMPLED_IMAGE, F_SAMPLED_IMAGE_FILTER_LINEAR, F_TRANSFER_SRC, F_TRANSFER_DST}) in
              List.map_filter (direct_image_candidate device planar_output)
                (filter (\<lambda>m. mp_modifier m \<noteq> DRM_FORMAT_MOD_LINEAR) modifiers)
            else []) in
      case find (\<lambda>m. mp_modifier m = DRM_FORMAT_MOD_LINEAR) modifiers of
        Some linear \<Rightarrow> direct @ query_linear_nv12_staging_candidates device linear preference
      | None \<Rightarrow> direct)"

definition inventory_nv12_modifier_capabilities :: "vk_device \<Rightarrow> nv12_capability list" where
  "inventory_nv12_modifier_capabilities device = inventory_nv12 device PreferPlanar"

section \<open>Lemmas\<close>

lemma validate_external_import_Ok_iff [rust_result]:
  "validate_external_import features handles label = Ok u \<longleftrightarrow>
     E_IMPORTABLE \<in> features \<and> H_DMA_BUF_EXT \<in> handles"
  by (simp add: validate_external_import_def)

lemma external_buffer_Ok:
  assumes "query_external_buffer_properties device usage label = Ok external"
  shows "E_IMPORTABLE \<in> em_features external \<and> H_DMA_BUF_EXT \<in> em_handle_types external"
  using assms by (auto simp: query_external_buffer_properties_def Let_def rust_result)

lemma optimal_staging_Ok:
  assumes "query_optimal_staging_format_with_usage device fmt required usage flags = Ok (features, e)"
  shows "required \<subseteq> features"
  using assms
  by (auto simp: query_optimal_staging_format_with_usage_def Let_def rust_result split: if_splits)

lemma planar_staging_Ok:
  assumes "query_planar_staging_format device required = Ok (features, e)"
  shows "required \<subseteq> features"
  using assms
  by (fastforce simp: query_planar_staging_format_def query_optimal_staging_format_def rust_result
      dest: optimal_staging_Ok)

lemma transfer_planar_staging_Ok:
  assumes "query_transfer_planar_staging_format device required = Ok (features, e)"
  shows "required \<subseteq> features"
  using assms
  by (fastforce simp: query_transfer_planar_staging_format_def rust_result dest: optimal_staging_Ok)

text \<open>What every inventoried capability satisfies, per strategy.\<close>

definition usable :: "nv12_capability \<Rightarrow> bool" where
  "usable c \<longleftrightarrow>
     E_IMPORTABLE \<in> cap_external_features c \<and> H_DMA_BUF_EXT \<in> cap_handle_types c \<and>
     (case cap_strategy c of
        DirectImageToOptimalYuvPlanes \<Rightarrow>
          cap_modifier c \<noteq> DRM_FORMAT_MOD_LINEAR \<and> cap_plane_count c = 2 \<and>
          F_TRANSFER_SRC \<in> cap_source_features c \<and>
          {F_SAMPLED_IMAGE, F_SAMPLED_IMAGE_FILTER_LINEAR, F_TRANSFER_SRC, F_TRANSFER_DST}
            \<subseteq> cap_sampled_features c
      | LinearBufferToOptimalYuvPlanes \<Rightarrow>
          cap_modifier c = DRM_FORMAT_MOD_LINEAR \<and>
          {F_SAMPLED_IMAGE, F_SAMPLED_IMAGE_FILTER_LINEAR, F_TRANSFER_SRC, F_TRANSFER_DST}
            \<subseteq> cap_sampled_features c
      | LinearBufferToYuvPlanes \<Rightarrow>
          cap_modifier c = DRM_FORMAT_MOD_LINEAR \<and> compute_required \<subseteq> cap_sampled_features c
      | LinearBufferToRgba \<Rightarrow>
          cap_modifier c = DRM_FORMAT_MOD_LINEAR \<and> compute_required \<subseteq> cap_sampled_features c
      | _ \<Rightarrow> False)"

text \<open>The strategies a staging preference admits.\<close>

fun admits :: "nv12_staging_preference \<Rightarrow> nv12_import_strategy \<Rightarrow> bool" where
  "admits PreferPlanar strategy = True"
| "admits RequirePlanar strategy = (strategy = LinearBufferToYuvPlanes)"
| "admits RequireRgba strategy = (strategy = LinearBufferToRgba)"

lemma usable_validates:
  assumes "usable c" and "fst dims \<noteq> 0" and "snd dims \<noteq> 0"
    and "fst dims \<le> ex_width (cap_max_extent c)" and "snd dims \<le> ex_height (cap_max_extent c)"
    and "cv_model conversion = Bt709"
  shows "validate_nv12_modifier_capability c dims conversion = Ok ()"
proof -
  have "\<not> ex_width (cap_max_extent c) < fst dims" "\<not> ex_height (cap_max_extent c) < snd dims"
    using assms(4,5) by simp_all
  with assms show ?thesis
    by (cases "cap_strategy c")
      (simp_all add: validate_nv12_modifier_capability_def usable_def compute_required_def Let_def)
qed

lemma transfer_capability_usable:
  assumes "query_linear_nv12_transfer_capability device linear = Ok c"
  shows "usable c \<and> cap_strategy c = LinearBufferToOptimalYuvPlanes"
  using assms
  by (auto simp: query_linear_nv12_transfer_capability_def rust_result usable_def
      linear_capability_def dest: external_buffer_Ok transfer_planar_staging_Ok split: if_splits)

lemma compute_capability_usable:
  assumes "query_linear_nv12_compute_capability device linear preference = Ok c"
  shows "usable c \<and> admits preference (cap_strategy c) \<and>
    cap_strategy c \<in> {LinearBufferToYuvPlanes, LinearBufferToRgba}"
proof -
  from assms obtain external strategy features extent where
    external: "query_external_buffer_properties device STAGED_NV12_SOURCE_USAGE
      Label_nv12_texel_source = Ok external"
    and choice: "admits preference strategy \<and>
      (strategy = LinearBufferToYuvPlanes \<and>
         query_planar_staging_format device compute_required = Ok (features, extent) \<or>
       strategy = LinearBufferToRgba \<and>
         query_optimal_staging_format device IMPORTED_RGBA_FORMAT compute_required
           = Ok (features, extent))"
    and c: "c = linear_capability linear external strategy features extent"
    by (auto simp: query_linear_nv12_compute_capability_def rust_result
        split: if_splits nv12_staging_preference.splits sum.splits)
  have "compute_required \<subseteq> features"
    using choice planar_staging_Ok optimal_staging_Ok
    unfolding query_optimal_staging_format_def by blast
  then show ?thesis
    using choice external_buffer_Ok [OF external] c
    by (auto simp: usable_def linear_capability_def)
qed

lemma staging_candidates_usable:
  assumes "c \<in> set (query_linear_nv12_staging_candidates device linear preference)"
  shows "usable c \<and> admits preference (cap_strategy c) \<and> cap_modifier c = DRM_FORMAT_MOD_LINEAR"
proof -
  have "query_linear_nv12_compute_capability device linear preference = Ok c \<or>
      preference = PreferPlanar \<and> query_linear_nv12_transfer_capability device linear = Ok c"
    using assms
    by (simp add: query_linear_nv12_staging_candidates_def Let_def
        split: nv12_staging_preference.splits sum.splits)
  then have "usable c \<and> admits preference (cap_strategy c) \<and>
      cap_strategy c \<noteq> DirectImageToOptimalYuvPlanes"
    using compute_capability_usable transfer_capability_usable by fastforce
  then show ?thesis
    by (auto simp: usable_def split: nv12_import_strategy.splits)
qed

lemma staging_candidates_length:
  "length (query_linear_nv12_staging_candidates device linear preference) \<le> 1"
  by (auto simp: query_linear_nv12_staging_candidates_def Let_def
      split: nv12_staging_preference.split sum.split)

lemma direct_candidate_usable:
  assumes "direct_image_candidate device planar m = Some c"
    and "\<forall>features e. planar = Some (features, e) \<longrightarrow>
      {F_SAMPLED_IMAGE, F_SAMPLED_IMAGE_FILTER_LINEAR, F_TRANSFER_SRC, F_TRANSFER_DST} \<subseteq> features"
    and "mp_modifier m \<noteq> DRM_FORMAT_MOD_LINEAR"
  shows "usable c \<and> cap_modifier c = mp_modifier m"
  using assms
  by (auto simp: direct_image_candidate_def usable_def split: option.splits if_splits sum.splits
      prod.splits)

lemma inventory_usable:
  assumes "c \<in> set (inventory_nv12 device preference)"
  shows "usable c \<and> admits preference (cap_strategy c)"
proof -
  let ?required = "{F_SAMPLED_IMAGE, F_SAMPLED_IMAGE_FILTER_LINEAR, F_TRANSFER_SRC, F_TRANSFER_DST}"
  let ?planar = "result_ok (query_transfer_planar_staging_format device ?required)"
  have planar: "\<forall>features e. ?planar = Some (features, e) \<longrightarrow> ?required \<subseteq> features"
  proof (intro allI impI)
    fix features e
    assume "?planar = Some (features, e)"
    then have "query_transfer_planar_staging_format device ?required = Ok (features, e)"
      by (cases "query_transfer_planar_staging_format device ?required") simp_all
    then show "?required \<subseteq> features" by (rule transfer_planar_staging_Ok)
  qed
  from assms consider
      (direct) m where "preference = PreferPlanar" "mp_modifier m \<noteq> DRM_FORMAT_MOD_LINEAR"
        "direct_image_candidate device ?planar m = Some c"
    | (linear) m where "c \<in> set (query_linear_nv12_staging_candidates device m preference)"
    by (auto simp: inventory_nv12_def Let_def map_filter_def split: option.splits if_splits)
  then show ?thesis
  proof cases
    case direct
    then show ?thesis using direct_candidate_usable [OF direct(3) planar direct(2)] by simp
  next
    case linear
    then show ?thesis using staging_candidates_usable by blast
  qed
qed

text \<open>
  The candidates a request is about, whether one satisfies it, and the rejection of one that does
  not.
\<close>

definition candidates_for :: "resolve_request \<Rightarrow> nv12_capability list \<Rightarrow> nv12_capability list" where
  "candidates_for request cs = filter (\<lambda>c. cap_modifier c = rq_modifier request) cs"

definition satisfies :: "resolve_request \<Rightarrow> nv12_capability \<Rightarrow> bool" where
  "satisfies request c \<longleftrightarrow>
     is_ok (validate_nv12_modifier_capability c (rq_dimensions request) (rq_conversion request))"

definition rejection ::
  "resolve_request \<Rightarrow> nv12_capability \<Rightarrow> nv12_import_strategy \<times> capability_error" where
  "rejection request c = (cap_strategy c,
     projl (validate_nv12_modifier_capability c (rq_dimensions request) (rq_conversion request)))"

lemma resolve_loop_eq:
  "resolve_loop request rejections cs =
     (case find (satisfies request) (candidates_for request cs) of
        Some c \<Rightarrow> Ok c
      | None \<Rightarrow>
          (case rejections @ map (rejection request) (candidates_for request cs) of
             [] \<Rightarrow> Err (No_candidate (rq_modifier request))
           | r # rs \<Rightarrow> Err (No_satisfying_candidate (rq_modifier request) (r # rs))))"
  by (induction cs arbitrary: rejections)
    (auto simp: candidates_for_def satisfies_def rejection_def split: sum.split list.split)

text \<open>C30: resolution is first-fit. \<open>resolve_nv12_modifier_capability\<close> returns the first capability, in
  the order of the inventory, that has the requested modifier and validates for the request; if no
  capability has the modifier it reports exactly that; otherwise it reports every capability of the
  modifier, in order, with the reason each one was rejected.\<close>

theorem nv12_resolution_is_first_fit:
  "resolve_nv12_modifier_capability cs request =
     (case find (satisfies request) (candidates_for request cs) of
        Some c \<Rightarrow> Ok c
      | None \<Rightarrow>
          (if candidates_for request cs = [] then Err (No_candidate (rq_modifier request))
           else Err (No_satisfying_candidate (rq_modifier request)
             (map (rejection request) (candidates_for request cs)))))"
  by (simp add: resolve_nv12_modifier_capability_def resolve_loop_eq split: option.split list.split)

lemma inventory_strategies:
  assumes "c \<in> set (inventory_nv12 device preference)"
  shows "cap_strategy c \<in> {DirectImageToOptimalYuvPlanes, LinearBufferToOptimalYuvPlanes,
    LinearBufferToYuvPlanes, LinearBufferToRgba}"
  using inventory_usable [OF assms] by (cases "cap_strategy c") (simp_all add: usable_def)

text \<open>C27: the inventory and the validation agree. Whatever the driver answers, every capability that
  \<open>inventory_nv12_modifier_capabilities_with_staging_preference\<close> offers is admitted by the staging
  preference and is accepted by \<open>validate_nv12_modifier_capability\<close> for every non-empty frame within
  its extent with BT.709 colours: it is importable as a DMA-BUF, a linear capability has a linear
  source, a direct image has two planes and can be copied from, and the sampled features suffice.\<close>

theorem nv12_inventory_is_usable:
  assumes "c \<in> set (inventory_nv12 device preference)"
    and "fst dims \<noteq> 0" and "snd dims \<noteq> 0"
    and "fst dims \<le> ex_width (cap_max_extent c)" and "snd dims \<le> ex_height (cap_max_extent c)"
    and "cv_model conversion = Bt709"
  shows "validate_nv12_modifier_capability c dims conversion = Ok () \<and>
    admits preference (cap_strategy c) \<and>
    (cap_modifier c = DRM_FORMAT_MOD_LINEAR \<longleftrightarrow> cap_strategy c \<noteq> DirectImageToOptimalYuvPlanes)"
proof -
  have "usable c \<and> admits preference (cap_strategy c)"
    using assms(1) by (rule inventory_usable)
  moreover have "cap_modifier c = DRM_FORMAT_MOD_LINEAR \<longleftrightarrow>
      cap_strategy c \<noteq> DirectImageToOptimalYuvPlanes" if "usable c"
    using that inventory_strategies [OF assms(1)] by (auto simp: usable_def)
  ultimately show ?thesis
    using usable_validates [OF _ assms(2-6)] by simp
qed

text \<open>A device with a linear and a tiled NV12 modifier, and a conversion.\<close>

definition example_device :: vk_device where
  "example_device =
     (let features = {F_SAMPLED_IMAGE, F_SAMPLED_IMAGE_FILTER_LINEAR, F_TRANSFER_SRC, F_TRANSFER_DST};
          external = \<lparr>em_features = {E_IMPORTABLE}, em_handle_types = {H_DMA_BUF_EXT}\<rparr>;
          extent = \<lparr>ex_width = 4096, ex_height = 4096, ex_depth = 1\<rparr> in
      \<lparr>vd_buffer_features = (\<lambda>_. {}), vd_optimal_features = (\<lambda>_. features),
       vd_modifier_count = (\<lambda>_. 2),
       vd_modifiers = (\<lambda>_.
         [\<lparr>mp_modifier = 7, mp_plane_count = 2, mp_tiling_features = {F_TRANSFER_SRC}\<rparr>,
          \<lparr>mp_modifier = 0, mp_plane_count = 2, mp_tiling_features = {}\<rparr>]),
       vd_optimal_image = (\<lambda>_ _ _. Inr extent),
       vd_modifier_image = (\<lambda>_ _ _. Inr (extent, external)),
       vd_external_buffer = (\<lambda>_. external),
       vd_queue_families = [\<lparr>qf_count = 1, qf_flags = {Q_GRAPHICS, Q_TRANSFER}\<rparr>],
       vd_queue_family_index = 0, vd_max_texel_buffer_elements = 0\<rparr>)"

definition example_conversion :: nv12_conversion where
  "example_conversion = \<lparr>cv_model = Bt709, cv_range = Narrow, cv_x_offset = CositedEven,
     cv_y_offset = Midpoint\<rparr>"

lemma example_saturating: "saturating_mul (4096 :: u32) 2 = 8192"
  by (simp add: saturating_mul_def checked_mul_def)

lemma example_planar:
  "query_transfer_planar_staging_format example_device
     {F_SAMPLED_IMAGE, F_SAMPLED_IMAGE_FILTER_LINEAR, F_TRANSFER_SRC, F_TRANSFER_DST} =
   Ok ({F_SAMPLED_IMAGE, F_SAMPLED_IMAGE_FILTER_LINEAR, F_TRANSFER_SRC, F_TRANSFER_DST},
     \<lparr>ex_width = 4096, ex_height = 4096, ex_depth = 1\<rparr>)"
  by (simp add: query_transfer_planar_staging_format_def planar_extent_def
      query_optimal_staging_format_with_usage_def example_device_def Let_def map_err_def
      result_bind_def map_ok_def example_saturating)

lemma example_count: "unat (vd_modifier_count example_device fmt) = 2"
  by (simp add: example_device_def Let_def)

lemma example_list:
  "vd_modifiers example_device fmt =
     [\<lparr>mp_modifier = 7, mp_plane_count = 2, mp_tiling_features = {F_TRANSFER_SRC}\<rparr>,
      \<lparr>mp_modifier = 0, mp_plane_count = 2, mp_tiling_features = {}\<rparr>]"
  by (simp add: example_device_def Let_def)

lemma example_modifiers:
  "format_modifiers example_device IMPORTED_NV12_FORMAT =
     [\<lparr>mp_modifier = 7, mp_plane_count = 2, mp_tiling_features = {F_TRANSFER_SRC}\<rparr>,
      \<lparr>mp_modifier = 0, mp_plane_count = 2, mp_tiling_features = {}\<rparr>]"
proof -
  have two: "[0..<2] = [0, 1::nat]" by (simp add: upt_rec)
  show ?thesis
    unfolding format_modifiers_def example_count
    by (simp add: two example_list)
qed

lemma example_direct:
  "direct_image_candidate example_device
     (Some (features, \<lparr>ex_width = 4096, ex_height = 4096, ex_depth = 1\<rparr>))
     \<lparr>mp_modifier = 7, mp_plane_count = 2, mp_tiling_features = {F_TRANSFER_SRC}\<rparr> =
   Some \<lparr>cap_modifier = 7, cap_strategy = DirectImageToOptimalYuvPlanes, cap_plane_count = 2,
     cap_source_features = {F_TRANSFER_SRC}, cap_sampled_features = features,
     cap_external_features = {E_IMPORTABLE}, cap_handle_types = {H_DMA_BUF_EXT},
     cap_max_extent = \<lparr>ex_width = 4096, ex_height = 4096, ex_depth = 1\<rparr>\<rparr>"
  by (simp add: direct_image_candidate_def query_external_modifier_capability_def map_err_def
      example_device_def Let_def)

lemma example_linear:
  "map cap_strategy (query_linear_nv12_staging_candidates example_device
     \<lparr>mp_modifier = 0, mp_plane_count = 2, mp_tiling_features = {}\<rparr> PreferPlanar) =
   [LinearBufferToOptimalYuvPlanes]"
proof -
  have "selected_queue_flags example_device = {Q_GRAPHICS, Q_TRANSFER}"
    by (simp add: selected_queue_flags_def example_device_def Let_def)
  then have "Q_TRANSFER \<in> selected_queue_flags example_device" by simp
  moreover have "query_external_buffer_properties example_device TRANSFER_NV12_SOURCE_USAGE
      Label_nv12_transfer_source =
    Ok \<lparr>em_features = {E_IMPORTABLE}, em_handle_types = {H_DMA_BUF_EXT}\<rparr>"
    by (simp add: query_external_buffer_properties_def validate_external_import_def
        result_bind_def example_device_def Let_def)
  ultimately have "\<exists>c. query_linear_nv12_transfer_capability example_device
      \<lparr>mp_modifier = 0, mp_plane_count = 2, mp_tiling_features = {}\<rparr> = Ok c \<and>
      cap_strategy c = LinearBufferToOptimalYuvPlanes"
    by (auto simp: query_linear_nv12_transfer_capability_def example_planar map_err_def
        result_bind_def linear_capability_def)
  then show ?thesis
    by (auto simp: query_linear_nv12_staging_candidates_def)
qed

lemma example_inventory:
  "map cap_strategy (inventory_nv12 example_device PreferPlanar) =
     [DirectImageToOptimalYuvPlanes, LinearBufferToOptimalYuvPlanes]"
  "cap_max_extent (inventory_nv12 example_device PreferPlanar ! 0) =
     \<lparr>ex_width = 4096, ex_height = 4096, ex_depth = 1\<rparr>"
  using example_linear
  by (simp_all add: inventory_nv12_def Let_def example_modifiers example_planar example_direct
      DRM_FORMAT_MOD_LINEAR_def map_filter_def)

lemma nv12_inventory_is_usable_witness:
  "validate_nv12_modifier_capability (inventory_nv12 example_device PreferPlanar ! 0) (1920, 1080)
     example_conversion = Ok ()"
proof -
  let ?inventory = "inventory_nv12 example_device PreferPlanar"
  have "length (map cap_strategy ?inventory) = 2" unfolding example_inventory by simp
  then have length: "length ?inventory = 2" by simp
  have "?inventory ! 0 \<in> set ?inventory" using length by simp
  then show ?thesis
    using nv12_inventory_is_usable [of "?inventory ! 0" example_device PreferPlanar "(1920, 1080)"
        example_conversion]
    by (simp add: example_inventory(2) example_conversion_def)
qed

text \<open>The staging policy cannot be violated on the importer's own inventory. The importer resolves
  against the inventory it took with its own preference, so the policy check of
  \<open>VulkanDmaBufImporter::resolve_nv12\<close> never rejects what the resolution found: the error
  \<open>violates required NV12 staging policy\<close> is unreachable, and a required policy yields only its own
  strategy.\<close>

lemma nv12_staging_policy_holds:
  "resolve_nv12 preference (inventory_nv12 device preference) request =
     resolve_nv12_modifier_capability (inventory_nv12 device preference) request \<and>
   (case resolve_nv12 preference (inventory_nv12 device preference) request of
      Inl e \<Rightarrow> \<forall>strategy. e \<noteq> Violates_staging_policy strategy preference
    | Inr c \<Rightarrow> admits preference (cap_strategy c))"
proof -
  let ?cs = "inventory_nv12 device preference"
  have found: "admits preference (cap_strategy c)"
    if "find (satisfies request) (candidates_for request ?cs) = Some c" for c
  proof -
    have "c \<in> set (candidates_for request ?cs)"
      using that by (auto simp: find_Some_iff)
    then show ?thesis using inventory_usable by (auto simp: candidates_for_def)
  qed
  show ?thesis
    unfolding resolve_nv12_def resolve_nv12_modifier_capability_def resolve_loop_eq
    using found
    by (cases preference) (auto split: option.split list.split)
qed

text \<open>
  A linear stream has at most one staging route, and direct images are offered only when planes are
  preferred, so a request for linear frames is decided by the device and the preference.
\<close>

lemma nv12_linear_route_is_unique:
  "length (filter (\<lambda>c. cap_modifier c = DRM_FORMAT_MOD_LINEAR) (inventory_nv12 device preference)) \<le> 1 \<and>
   (preference = PreferPlanar \<or> length (inventory_nv12 device preference) \<le> 1)"
proof -
  let ?required = "{F_SAMPLED_IMAGE, F_SAMPLED_IMAGE_FILTER_LINEAR, F_TRANSFER_SRC, F_TRANSFER_DST}"
  let ?planar = "result_ok (query_transfer_planar_staging_format device ?required)"
  let ?direct = "List.map_filter (direct_image_candidate device ?planar)
    (filter (\<lambda>m. mp_modifier m \<noteq> DRM_FORMAT_MOD_LINEAR)
      (format_modifiers device IMPORTED_NV12_FORMAT))"
  have none: "filter (\<lambda>c. cap_modifier c = DRM_FORMAT_MOD_LINEAR) ?direct = []"
    by (auto simp: filter_empty_conv map_filter_def direct_image_candidate_def
        split: option.splits if_splits sum.splits prod.splits)
  have "length (filter P (query_linear_nv12_staging_candidates device m preference)) \<le> 1" for P m
    using staging_candidates_length [of device m preference]
      length_filter_le [of P "query_linear_nv12_staging_candidates device m preference"] by linarith
  then show ?thesis
    using none staging_candidates_length
    by (auto simp: inventory_nv12_def Let_def split: option.split)
qed

lemma same_nv12_capability_iff: "same_nv12_capability a b \<longleftrightarrow> a = b"
  by (cases a; cases b; cases "cap_max_extent a"; cases "cap_max_extent b")
    (auto simp: same_nv12_capability_def)

end
