(* ===== verification/Source_Cache.thy ===== *)
theory Source_Cache
  imports Exclusive_Lease DmaBuf Vulkan_Capability
begin

text \<open>
  The source caches of \<open>vulkan/mod.rs\<close>: imported DMA-BUFs kept per stream, keyed by the inode of
  the buffer and its layout, leased to one frame at a time. \<open>Nv12SourceCache\<close> and
  \<open>PackedSourceCache\<close> are the same code over two key types, so the sections of code that run under
  the cache's lock are modelled once, for a key with a layout \<open>'t\<close> and an allocation \<open>'a\<close>;
  \<open>claim_cached_source\<close> and \<open>claim_cached_packed_source\<close> are modelled each over them. The sections
  are atomic; between them, other threads may run any of their own.
\<close>

section \<open>Keys and state\<close>

record 't cache_key =
  ck_stream :: u64
  ck_device :: u64
  ck_inode :: u64
  ck_layout :: 't

text \<open>\<open>Nv12SourceCacheKey\<close> has the topology and the read strategy, \<open>PackedSourceCacheKey\<close> a topology.\<close>

type_synonym nv12_source_key = "(frame_topology \<times> nv12_import_strategy) cache_key"

record packed_source_topology =
  pt_dimensions :: dimensions
  pt_object_size :: u64
  pt_modifier :: u64
  pt_plane :: imported_plane
  pt_format :: packed_image_format
  pt_strategy :: packed_import_strategy

type_synonym packed_source_key = "packed_source_topology cache_key"

text \<open>
  The entries are the hash map in some iteration order; a source is the number of its \<open>Arc\<close>,
  with its flags in the lease table, its \<open>last_used\<close> and its allocation. The clock and the
  counters are the importer's atomics for this cache.
\<close>

record ('t, 'a) source_cache =
  sc_entries :: "('t cache_key \<times> nat) list"
  sc_max_entries :: nat
  sc_table :: lease_table
  sc_last_used :: "nat \<Rightarrow> u64"
  sc_allocation :: "nat \<Rightarrow> 'a option"
  sc_next :: nat
  sc_clock :: u64
  sc_hits :: u64
  sc_misses :: u64
  sc_evictions :: u64
  sc_active_reuse_rejections :: u64
  sc_topology_collisions :: u64

text \<open>The packed cache also counts the allocation sizes it rejects.\<close>

record 'a packed_source_cache = "(packed_source_topology, 'a) source_cache" +
  pc_allocation_size_rejections :: u64

datatype 'e cache_error =
    Reappeared_before_release
  | Different_topology
  | Create_failed 'e
  | Source_cache_saturated nat

definition source_cache_new :: "nat \<Rightarrow> ('t, 'a) source_cache" where
  "source_cache_new max_entries =
     \<lparr>sc_entries = [], sc_max_entries = max_entries, sc_table = empty_table,
      sc_last_used = (\<lambda>_. 0), sc_allocation = (\<lambda>_. None), sc_next = 0, sc_clock = 1, sc_hits = 0,
      sc_misses = 0, sc_evictions = 0, sc_active_reuse_rejections = 0, sc_topology_collisions = 0\<rparr>"

section \<open>Claims and evictions\<close>

definition tick :: "('t, 'a, 'm) source_cache_scheme \<Rightarrow> u64 \<times> ('t, 'a, 'm) source_cache_scheme" where
  "tick s = (sc_clock s, s\<lparr>sc_clock := sc_clock s + 1\<rparr>)"

definition claim_source ::
  "u64 \<Rightarrow> nat \<Rightarrow> ('t, 'a, 'm) source_cache_scheme \<Rightarrow> (nat \<times> ('t, 'a, 'm) source_cache_scheme) option"
where
  "claim_source generation r s =
     (case claim_lease r (sc_table s) of
        None \<Rightarrow> None
      | Some (l, t) \<Rightarrow>
          Some (l, s\<lparr>sc_table := t, sc_last_used := (sc_last_used s)(r := generation)\<rparr>))"

definition claim_cached_entry ::
  "u64 \<Rightarrow> nat \<Rightarrow> ('t, 'a, 'm) source_cache_scheme \<Rightarrow>
   ('e cache_error + nat) \<times> ('t, 'a, 'm) source_cache_scheme" where
  "claim_cached_entry generation r s =
     (case claim_source generation r s of
        Some (l, s') \<Rightarrow> (Ok l, s'\<lparr>sc_hits := sc_hits s' + 1\<rparr>)
      | None \<Rightarrow> (Err Reappeared_before_release,
          s\<lparr>sc_active_reuse_rejections := sc_active_reuse_rejections s + 1\<rparr>))"

text \<open>The same buffer of the same stream, and the same with another layout.\<close>

definition same_buffer :: "'t cache_key \<Rightarrow> 't cache_key \<Rightarrow> bool" where
  "same_buffer a b \<longleftrightarrow>
     ck_stream a = ck_stream b \<and> ck_device a = ck_device b \<and> ck_inode a = ck_inode b"

definition collides :: "'t cache_key \<Rightarrow> ('t, 'a, 'm) source_cache_scheme \<Rightarrow> bool" where
  "collides key s \<longleftrightarrow>
     list_ex (\<lambda>(existing, r). same_buffer existing key \<and> ck_layout existing \<noteq> ck_layout key)
       (sc_entries s)"

text \<open>The first locked section. \<open>None\<close> is a miss.\<close>

definition lookup_section ::
  "'t cache_key \<Rightarrow> u64 \<Rightarrow> ('t, 'a, 'm) source_cache_scheme \<Rightarrow>
   ('e cache_error + nat) option \<times> ('t, 'a, 'm) source_cache_scheme" where
  "lookup_section key generation s =
     (case map_of (sc_entries s) key of
        Some r \<Rightarrow> apfst Some (claim_cached_entry generation r s)
      | None \<Rightarrow>
          if collides key s
          then (Some (Err Different_topology),
            s\<lparr>sc_topology_collisions := sc_topology_collisions s + 1\<rparr>)
          else (None, s))"

definition count_miss :: "('t, 'a, 'm) source_cache_scheme \<Rightarrow> ('t, 'a, 'm) source_cache_scheme" where
  "count_miss s = s\<lparr>sc_misses := sc_misses s + 1\<rparr>"

text \<open>\<open>min_by_key\<close>: the first of the least elements.\<close>

fun min_by_key :: "('x \<Rightarrow> u64) \<Rightarrow> 'x list \<Rightarrow> 'x option" where
  "min_by_key f [] = None"
| "min_by_key f (x # xs) =
     (case min_by_key f xs of
        None \<Rightarrow> Some x
      | Some y \<Rightarrow> if f y < f x then Some y else Some x)"

definition idle :: "('t, 'a, 'm) source_cache_scheme \<Rightarrow> nat \<Rightarrow> bool" where
  "idle s r \<longleftrightarrow> r \<notin> lt_claimed (sc_table s) \<and> strong_count r (sc_table s) = 1"

definition evict_one_idle ::
  "('t, 'a, 'm) source_cache_scheme \<Rightarrow> bool \<times> ('t, 'a, 'm) source_cache_scheme" where
  "evict_one_idle s =
     (case min_by_key (\<lambda>(k, r). sc_last_used s r) (filter (\<lambda>(k, r). idle s r) (sc_entries s)) of
        None \<Rightarrow> (False, s)
      | Some (key, r) \<Rightarrow>
          (True, s\<lparr>sc_entries := filter (\<lambda>(k, r'). k \<noteq> key) (sc_entries s)\<rparr>))"

definition make_room :: "('t, 'a, 'm) source_cache_scheme \<Rightarrow> ('t, 'a, 'm) source_cache_scheme" where
  "make_room s =
     (if sc_max_entries s \<le> length (sc_entries s)
      then case evict_one_idle s of
          (True, s') \<Rightarrow> s'\<lparr>sc_evictions := sc_evictions s' + 1\<rparr>
        | (False, s') \<Rightarrow> s'
      else s)"

text \<open>The second locked section: look again, make room, claim the new source and insert it.\<close>

definition insert_section ::
  "'t cache_key \<Rightarrow> u64 \<Rightarrow> 'a \<Rightarrow> ('t, 'a, 'm) source_cache_scheme \<Rightarrow>
   ('e cache_error + nat) \<times> ('t, 'a, 'm) source_cache_scheme" where
  "insert_section key generation allocation s =
     (case lookup_section key generation s of
        (Some result, s') \<Rightarrow> (result, s')
      | (None, s') \<Rightarrow>
          let room = make_room s' in
          if sc_max_entries room \<le> length (sc_entries room)
          then (Err (Source_cache_saturated (sc_max_entries room)), room)
          else let r = sc_next room;
              created = room\<lparr>sc_next := r + 1, sc_allocation := (sc_allocation room)(r \<mapsto> allocation)\<rparr> in
            case claim_source generation r created of
              None \<Rightarrow> (Err Reappeared_before_release, created)
            | Some (l, claimed) \<Rightarrow> (Ok l, claimed\<lparr>sc_entries := sc_entries claimed @ [(key, r)]\<rparr>))"

definition evict_stream ::
  "u64 \<Rightarrow> ('t, 'a, 'm) source_cache_scheme \<Rightarrow> (nat \<times> nat) \<times> ('t, 'a, 'm) source_cache_scheme" where
  "evict_stream stream s =
     (let kept = filter (\<lambda>(k, r). ck_stream k \<noteq> stream \<or> r \<in> lt_claimed (sc_table s) \<or>
                           1 < strong_count r (sc_table s)) (sc_entries s);
          evicted = length (sc_entries s) - length kept;
          retained = length (filter (\<lambda>(k, r). ck_stream k = stream) kept) in
      ((evicted, retained), s\<lparr>sc_entries := kept\<rparr>))"

text \<open>\<open>evict_nv12_stream\<close> and \<open>evict_packed_stream\<close>; the error carries the retained sources.\<close>

definition evict_nv12_stream ::
  "u64 \<Rightarrow> ('t, 'a, 'm) source_cache_scheme \<Rightarrow> (nat + unit) \<times> ('t, 'a, 'm) source_cache_scheme" where
  "evict_nv12_stream stream s =
     (case evict_stream stream s of
        ((evicted, retained), s') \<Rightarrow>
          (if retained = 0 then Ok () else Err retained,
           s'\<lparr>sc_evictions := sc_evictions s' + word_of_nat evicted\<rparr>))"

definition evict_packed_stream ::
  "u64 \<Rightarrow> 'a packed_source_cache \<Rightarrow> (nat + unit) \<times> 'a packed_source_cache" where
  "evict_packed_stream stream s = evict_nv12_stream stream s"

section \<open>Interleavings\<close>

text \<open>
  What the threads of the program do to one cache, each operation atomic: reading the clock, the
  two locked sections of a claim, the steps of the leases, evicting a stream.
\<close>

datatype ('t, 'a) cache_op =
    Op_tick
  | Op_lookup "'t cache_key" u64
  | Op_miss
  | Op_insert "'t cache_key" u64 'a
  | Op_lease lease_op
  | Op_evict_stream u64

text \<open>The first component: no assertion of the operation failed.\<close>

fun cache_step ::
  "('t, 'a) cache_op \<Rightarrow> ('t, 'a, 'm) source_cache_scheme \<Rightarrow> bool \<times> ('t, 'a, 'm) source_cache_scheme" where
  "cache_step Op_tick s = (True, snd (tick s))"
| "cache_step (Op_lookup key generation) s =
     (True, snd (lookup_section key generation s
        :: (unit cache_error + nat) option \<times> ('t, 'a, 'm) source_cache_scheme))"
| "cache_step Op_miss s = (True, count_miss s)"
| "cache_step (Op_insert key generation allocation) s =
     (True, snd (insert_section key generation allocation s
        :: (unit cache_error + nat) \<times> ('t, 'a, 'm) source_cache_scheme))"
| "cache_step (Op_lease op) s =
     (case lease_step op (sc_table s) of (ok, t) \<Rightarrow> (ok, s\<lparr>sc_table := t\<rparr>))"
| "cache_step (Op_evict_stream stream) s = (True, snd (evict_nv12_stream stream s))"

fun cache_run ::
  "('t, 'a) cache_op list \<Rightarrow> ('t, 'a, 'm) source_cache_scheme \<Rightarrow> bool \<times> ('t, 'a, 'm) source_cache_scheme"
where
  "cache_run [] s = (True, s)"
| "cache_run (op # ops) s =
     (case cache_step op s of (ok, s') \<Rightarrow> (case cache_run ops s' of (ok', s'') \<Rightarrow> (ok \<and> ok', s'')))"

section \<open>Claiming a source\<close>

text \<open>
  The allocations whose last reference goes in the second section: those of the entries that were
  evicted, and the created one if it was not inserted. They drop in this order.
\<close>

definition removed_allocations ::
  "('t, 'a, 'm) source_cache_scheme \<Rightarrow> ('t, 'a, 'm) source_cache_scheme \<Rightarrow> 'a list" where
  "removed_allocations before after =
     List.map_filter (\<lambda>(k, r). if (k, r) \<in> set (sc_entries after) then None else sc_allocation before r)
       (sc_entries before)"

definition dropped_sources ::
  "('t, 'a, 'm) source_cache_scheme \<Rightarrow> ('t, 'a, 'm) source_cache_scheme \<Rightarrow> 'a \<Rightarrow> 'a list" where
  "dropped_sources before after created =
     removed_allocations before after @
     (if sc_next before \<in> snd ` set (sc_entries after) then [] else [created])"

text \<open>
  A claim from the identity of the buffer on: the clock, the first section, the creation outside
  the lock, the second section. \<open>others1\<close> and \<open>others2\<close> are what other threads do before the first
  section and between the two; \<open>create\<close> and \<open>dispose\<close>, the drop of an allocation, work on the
  state \<open>'w\<close> of the device.
\<close>

definition claim_cached ::
  "'t cache_key \<Rightarrow> ('w \<Rightarrow> ('e + 'a) \<times> 'w) \<Rightarrow> ('a \<Rightarrow> 'w \<Rightarrow> 'w) \<Rightarrow> ('t, 'a) cache_op list \<Rightarrow> ('t, 'a) cache_op list \<Rightarrow>
   ('t, 'a, 'm) source_cache_scheme \<times> 'w \<Rightarrow>
   ('e cache_error + nat) \<times> ('t, 'a, 'm) source_cache_scheme \<times> 'w" where
  "claim_cached key create dispose others1 others2 sw =
     (case sw of (s, w) \<Rightarrow>
      case tick s of (generation, s0) \<Rightarrow>
      case lookup_section key generation (snd (cache_run others1 s0)) of
        (Some result, s1) \<Rightarrow> (result, s1, w)
      | (None, s1) \<Rightarrow>
          (case create w of
             (Inl e, w') \<Rightarrow> (Err (Create_failed e), count_miss s1, w')
           | (Inr allocation, w') \<Rightarrow>
               let before = snd (cache_run others2 (count_miss s1)) in
               (case insert_section key generation allocation before of
                  (result, s2) \<Rightarrow>
                    (result, s2, fold dispose (dropped_sources before s2 allocation) w'))))"

datatype ('i, 'e) nv12_claim_error = Nv12_identity 'i | Nv12_cache "'e cache_error"

definition claim_cached_source ::
  "(i32 \<Rightarrow> 'w \<Rightarrow> ('io allocation_size_error + dmabuf_probe) \<times> 'w) \<Rightarrow>
   u64 \<Rightarrow> i32 \<Rightarrow> frame_topology \<Rightarrow> nv12_import_strategy \<Rightarrow> ('w \<Rightarrow> ('e + 'a) \<times> 'w) \<Rightarrow>
   ('a \<Rightarrow> 'w \<Rightarrow> 'w) \<Rightarrow>
   (frame_topology \<times> nv12_import_strategy, 'a) cache_op list \<Rightarrow>
   (frame_topology \<times> nv12_import_strategy, 'a) cache_op list \<Rightarrow>
   (frame_topology \<times> nv12_import_strategy, 'a) source_cache \<times> 'w \<Rightarrow>
   (('io identity_message vulkan_import_error, 'e) nv12_claim_error + nat) \<times>
     (frame_topology \<times> nv12_import_strategy, 'a) source_cache \<times> 'w" where
  "claim_cached_source probe stream source_fd topology strategy create dispose others1 others2 sw =
     (case sw of (s, w) \<Rightarrow>
      case verified_dmabuf_identity probe source_fd (ft_object_size topology) w of
        (Inl e, w') \<Rightarrow> (Err (Nv12_identity e), s, w')
      | (Inr identity, w') \<Rightarrow>
          apfst (map_err Nv12_cache)
            (claim_cached \<lparr>ck_stream = stream, ck_device = id_device identity,
                ck_inode = id_inode identity, ck_layout = (topology, strategy)\<rparr>
              create dispose others1 others2 (s, w')))"

text \<open>The checks of the packed claim report errors of their own; its creation an import error.\<close>

datatype ('i, 'e) packed_claim_error =
    Packed_inputs layout_error
  | Packed_layout "layout_error vulkan_import_error"
  | Packed_support query_error
  | Packed_staged_layout layout_error
  | Packed_identity 'i
  | Packed_cache "'e vulkan_import_error cache_error"

definition reject_allocation_size :: "'a packed_source_cache \<Rightarrow> 'a packed_source_cache" where
  "reject_allocation_size s =
     s\<lparr>pc_allocation_size_rejections := pc_allocation_size_rejections s + 1\<rparr>"

definition count_creation_failure ::
  "('e vulkan_import_error cache_error + nat) \<times> 'a packed_source_cache \<times> 'w \<Rightarrow>
   (('i, 'e) packed_claim_error + nat) \<times> 'a packed_source_cache \<times> 'w" where
  "count_creation_failure outcome =
     (case outcome of
        (Inl (Create_failed e), s, w) \<Rightarrow>
          (Err (Packed_cache (Create_failed e)),
           if is_allocation_size e then reject_allocation_size s else s, w)
      | (result, s, w) \<Rightarrow> (map_err Packed_cache result, s, w))"

definition claim_cached_packed_source ::
  "vk_device \<Rightarrow> (i32 \<Rightarrow> 'w \<Rightarrow> ('io allocation_size_error + dmabuf_probe) \<times> 'w) \<Rightarrow>
   packed_image_import \<Rightarrow> packed_import_strategy \<Rightarrow> ('w \<Rightarrow> ('e vulkan_import_error + 'a) \<times> 'w) \<Rightarrow>
   ('a \<Rightarrow> 'w \<Rightarrow> 'w) \<Rightarrow>
   (packed_source_topology, 'a) cache_op list \<Rightarrow> (packed_source_topology, 'a) cache_op list \<Rightarrow>
   'a packed_source_cache \<times> 'w \<Rightarrow>
   (('io identity_message vulkan_import_error, 'e) packed_claim_error + nat) \<times>
     'a packed_source_cache \<times> 'w" where
  "claim_cached_packed_source device probe request strategy create dispose others1 others2 sw =
     (case sw of (s, w) \<Rightarrow>
      case validate_image_inputs (pi_dimensions request) (pi_source_fd request) (pi_plane request) of
        Inl e \<Rightarrow> (Err (Packed_inputs e), s, w)
      | Inr _ \<Rightarrow>
      case validate_packed_layout (pi_dimensions request) (pi_source_size request) (pi_plane request) of
        Inl e \<Rightarrow> (Err (Packed_layout e),
          if is_allocation_size e then reject_allocation_size s else s, w)
      | Inr _ \<Rightarrow>
      case (case strategy of
          Packed_DirectSampledImage \<Rightarrow>
            map_err Packed_support
              (validate_packed_import_support device (pi_format request) (pi_modifier request))
        | LinearBufferToOptimalBgra \<Rightarrow>
            result_bind (map_err Packed_support
              (validate_packed_staging_support device (pi_format request) (pi_modifier request)))
            (\<lambda>_. map_err Packed_staged_layout
              (validate_staged_packed_layout (vd_max_texel_buffer_elements device)
                (pi_source_size request)))) of
        Inl (Packed_staged_layout e) \<Rightarrow> (Err (Packed_staged_layout e), reject_allocation_size s, w)
      | Inl e \<Rightarrow> (Err e, s, w)
      | Inr _ \<Rightarrow>
      case verified_dmabuf_identity probe (pi_source_fd request) (pi_source_size request) w of
        (Inl e, w') \<Rightarrow> (Err (Packed_identity e), reject_allocation_size s, w')
      | (Inr identity, w') \<Rightarrow>
          count_creation_failure (claim_cached \<lparr>ck_stream = pi_stream_incarnation request,
              ck_device = id_device identity, ck_inode = id_inode identity,
              ck_layout = \<lparr>pt_dimensions = pi_dimensions request,
                pt_object_size = pi_source_size request, pt_modifier = pi_modifier request,
                pt_plane = pi_plane request, pt_format = pi_format request,
                pt_strategy = strategy\<rparr>\<rparr> create dispose others1 others2 (s, w')))"

section \<open>The invariant of a cache\<close>

definition cache_inv :: "('t, 'a, 'm) source_cache_scheme \<Rightarrow> bool" where
  "cache_inv s \<longleftrightarrow>
     table_inv (sc_table s) \<and>
     distinct (map fst (sc_entries s)) \<and> distinct (map snd (sc_entries s)) \<and>
     length (sc_entries s) \<le> sc_max_entries s \<and>
     (\<forall>(k, r) \<in> set (sc_entries s). r < sc_next s) \<and>
     (\<forall>l r p. lt_leases (sc_table s) l = Some (r, p) \<longrightarrow> r \<in> snd ` set (sc_entries s)) \<and>
     (\<forall>(k, r) \<in> set (sc_entries s). \<forall>(k', r') \<in> set (sc_entries s). same_buffer k k' \<longrightarrow> k = k')"

lemma cache_inv_counters [simp]:
  "cache_inv (s\<lparr>sc_clock := c\<rparr>) = cache_inv s"
  "cache_inv (s\<lparr>sc_hits := c\<rparr>) = cache_inv s"
  "cache_inv (s\<lparr>sc_misses := c\<rparr>) = cache_inv s"
  "cache_inv (s\<lparr>sc_evictions := c\<rparr>) = cache_inv s"
  "cache_inv (s\<lparr>sc_active_reuse_rejections := c\<rparr>) = cache_inv s"
  "cache_inv (s\<lparr>sc_topology_collisions := c\<rparr>) = cache_inv s"
  "cache_inv (s\<lparr>sc_last_used := f\<rparr>) = cache_inv s"
  by (simp_all add: cache_inv_def)

lemma cache_inv_new: "cache_inv (source_cache_new max_entries)"
  by (simp add: cache_inv_def source_cache_new_def table_inv_empty)
    (simp add: empty_table_def)

lemma cache_inv_table:
  assumes "cache_inv s" and "table_inv t"
    and "\<And>l r p. lt_leases t l = Some (r, p) \<Longrightarrow> r \<in> snd ` set (sc_entries s)"
  shows "cache_inv (s\<lparr>sc_table := t\<rparr>)"
  using assms unfolding cache_inv_def by simp

lemma cache_inv_leases:
  "cache_inv s \<Longrightarrow> lt_leases (sc_table s) l = Some (r, p) \<Longrightarrow> r \<in> snd ` set (sc_entries s)"
  unfolding cache_inv_def by blast

lemma cache_inv_table_inv: "cache_inv s \<Longrightarrow> table_inv (sc_table s)"
  by (simp add: cache_inv_def)

lemma cache_inv_lease_step:
  assumes "cache_inv s"
  shows "cache_inv (s\<lparr>sc_table := snd (lease_step op (sc_table s))\<rparr>)"
proof (rule cache_inv_table [OF assms])
  let ?t = "snd (lease_step op (sc_table s))"
  have table: "table_inv (sc_table s)" using assms by (simp add: cache_inv_def)
  then show "table_inv ?t" by (rule table_inv_step)
  fix l r p
  assume "lt_leases ?t l = Some (r, p)"
  then have "map_option fst (lt_leases (sc_table s) l) = Some r"
    using lease_step_shrinks [of op "sc_table s" "fst (lease_step op (sc_table s))" ?t]
    by (metis empty_iff insertE option.distinct(1) option.map(2) prod.collapse prod.sel(1))
  then show "r \<in> snd ` set (sc_entries s)"
    using assms unfolding cache_inv_def by fastforce
qed

lemma claim_source_table:
  assumes "claim_source generation r s = Some (l, s')"
  obtains t where "claim_lease r (sc_table s) = Some (l, t)"
    and "s' = s\<lparr>sc_table := t, sc_last_used := (sc_last_used s)(r := generation)\<rparr>"
  using assms by (auto simp: claim_source_def split: option.splits)

lemma cache_inv_claim_source:
  assumes "cache_inv s" and "r \<in> snd ` set (sc_entries s)"
    and "claim_source generation r s = Some (l, s')"
  shows "cache_inv s'"
proof -
  obtain t where t: "claim_lease r (sc_table s) = Some (l, t)"
    and s': "s' = s\<lparr>sc_table := t, sc_last_used := (sc_last_used s)(r := generation)\<rparr>"
    using assms(3) by (rule claim_source_table)
  have table: "table_inv (sc_table s)" using assms(1) by (simp add: cache_inv_def)
  have "cache_inv (s\<lparr>sc_table := t\<rparr>)"
  proof (rule cache_inv_table [OF assms(1)])
    show "table_inv t" using claim_lease_active [OF table t] by simp
    fix l' r' p
    assume "lt_leases t l' = Some (r', p)"
    then show "r' \<in> snd ` set (sc_entries s)"
      using assms(2) cache_inv_leases [OF assms(1), of l' r' p] claim_lease_active(5) [OF table t]
      by (cases "l' = l") simp_all
  qed
  then show ?thesis by (simp add: s')
qed

lemma cache_inv_filter:
  assumes "cache_inv s"
    and "\<And>k r l. (k, r) \<in> set (sc_entries s) \<Longrightarrow> \<not> P (k, r) \<Longrightarrow>
      map_option fst (lt_leases (sc_table s) l) \<noteq> Some r"
  shows "cache_inv (s\<lparr>sc_entries := filter P (sc_entries s)\<rparr>)"
proof -
  have "r \<in> snd ` set (filter P (sc_entries s))" if "lt_leases (sc_table s) l = Some (r, p)" for l r p
  proof -
    have "r \<in> snd ` set (sc_entries s)" using that assms(1) unfolding cache_inv_def by blast
    then obtain k where k: "(k, r) \<in> set (sc_entries s)" by force
    then have "P (k, r)" using assms(2) [OF k, of l] that by auto
    then show ?thesis using k by force
  qed
  then show ?thesis
    using assms(1) le_trans [OF length_filter_le [of P "sc_entries s"]]
    unfolding cache_inv_def by (auto simp: distinct_map_filter)
qed

lemma claim_cached_entry_inv:
  assumes "cache_inv s" and "map_of (sc_entries s) key = Some r"
  shows "cache_inv (snd (claim_cached_entry generation r s))"
proof -
  have "r \<in> snd ` set (sc_entries s)" using map_of_SomeD [OF assms(2)] by force
  then show ?thesis
    using assms(1) cache_inv_claim_source [OF assms(1)]
    by (auto simp: claim_cached_entry_def split: option.split)
qed

lemma lookup_section_inv: "cache_inv s \<Longrightarrow> cache_inv (snd (lookup_section key generation s))"
  by (auto simp: lookup_section_def claim_cached_entry_inv apfst_def map_prod_def split_beta
      split: option.split)

lemma lookup_section_miss:
  assumes "lookup_section key generation s = (None, s')"
  shows "s' = s" and "map_of (sc_entries s) key = None" and "\<not> collides key s"
  using assms by (auto simp: lookup_section_def apfst_def map_prod_def split_beta
      split: option.splits if_splits)

text \<open>\<open>min_by_key\<close> finds an element of least key.\<close>

lemma min_by_key_None [simp]: "min_by_key f xs = None \<longleftrightarrow> xs = []"
  by (cases xs) (auto split: option.split)

lemma min_by_key_Some:
  "min_by_key f xs = Some x \<Longrightarrow> x \<in> set xs \<and> (\<forall>y \<in> set xs. f x \<le> f y)"
proof (induction xs arbitrary: x)
  case Nil
  then show ?case by simp
next
  case (Cons a xs)
  show ?case
  proof (cases "min_by_key f xs")
    case None
    then show ?thesis using Cons.prems by simp
  next
    case (Some y)
    then have "y \<in> set xs \<and> (\<forall>z \<in> set xs. f y \<le> f z)" by (rule Cons.IH)
    then show ?thesis using Cons.prems Some by (auto split: if_splits)
  qed
qed

lemma idle_iff:
  assumes "cache_inv s"
  shows "idle s r \<longleftrightarrow> (\<forall>l. map_option fst (lt_leases (sc_table s) l) \<noteq> Some r)"
proof -
  have table: "table_inv (sc_table s)" using assms by (rule cache_inv_table_inv)
  have "r \<notin> lt_claimed (sc_table s)"
    if "\<forall>l. map_option fst (lt_leases (sc_table s) l) \<noteq> Some r"
    using that table by (auto simp: table_inv_def active_def)
  then show ?thesis using strong_count_one [OF table, of r] by (auto simp: idle_def)
qed

lemma kept_iff:
  assumes "cache_inv s"
  shows "r \<in> lt_claimed (sc_table s) \<or> 1 < strong_count r (sc_table s) \<longleftrightarrow> \<not> idle s r"
  by (auto simp: idle_def strong_count_def)

text \<open>What an eviction removes: the idle entry that was used longest ago, and nothing else.\<close>

lemma evict_one_idle_removes:
  assumes "cache_inv s"
  shows "(case evict_one_idle s of
      (False, s') \<Rightarrow> s' = s \<and> (\<forall>(k, r) \<in> set (sc_entries s). \<not> idle s r)
    | (True, s') \<Rightarrow> (\<exists>(key, r) \<in> set (sc_entries s). idle s r \<and>
        (\<forall>(k', r') \<in> set (sc_entries s). idle s r' \<longrightarrow> sc_last_used s r \<le> sc_last_used s r') \<and>
        s' = s\<lparr>sc_entries := filter (\<lambda>e. e \<noteq> (key, r)) (sc_entries s)\<rparr>))"
proof (cases "min_by_key (\<lambda>(k, r). sc_last_used s r) (filter (\<lambda>(k, r). idle s r) (sc_entries s))")
  case None
  then show ?thesis by (auto simp: evict_one_idle_def filter_empty_conv)
next
  case (Some e)
  obtain key r where e: "e = (key, r)" by (cases e)
  have least: "(key, r) \<in> set (sc_entries s)" "idle s r"
    "\<forall>(k', r') \<in> set (sc_entries s). idle s r' \<longrightarrow> sc_last_used s r \<le> sc_last_used s r'"
    using min_by_key_Some [OF Some] by (auto simp: e)
  have "distinct (map fst (sc_entries s))" using assms by (simp add: cache_inv_def)
  then have "r' = r" if "(key, r') \<in> set (sc_entries s)" for r'
    using that least(1) by (auto dest: eq_key_imp_eq_value)
  then have "filter (\<lambda>(k, r'). k \<noteq> key) (sc_entries s) = filter (\<lambda>e. e \<noteq> (key, r)) (sc_entries s)"
    by (intro filter_cong) auto
  then show ?thesis using least Some by (auto simp: evict_one_idle_def e)
qed

lemma evict_one_idle_inv:
  assumes "cache_inv s"
  shows "cache_inv (snd (evict_one_idle s))"
proof (cases "evict_one_idle s")
  case (Pair evicted s')
  show ?thesis
  proof (cases evicted)
    case False
    then show ?thesis using evict_one_idle_removes [OF assms] assms by (simp add: Pair)
  next
    case True
    then obtain key r where "(key, r) \<in> set (sc_entries s)" "idle s r"
      and s': "s' = s\<lparr>sc_entries := filter (\<lambda>e. e \<noteq> (key, r)) (sc_entries s)\<rparr>"
      using evict_one_idle_removes [OF assms] by (auto simp: Pair)
    moreover have "cache_inv (s\<lparr>sc_entries := filter (\<lambda>e. e \<noteq> (key, r)) (sc_entries s)\<rparr>)"
      using assms by (rule cache_inv_filter) (use \<open>idle s r\<close> idle_iff [OF assms] in auto)
    ultimately show ?thesis by (simp add: Pair)
  qed
qed

lemma make_room_inv: "cache_inv s \<Longrightarrow> cache_inv (make_room s)"
  using evict_one_idle_inv [of s] by (auto simp: make_room_def split: prod.split bool.split)

lemma make_room_frame:
  "sc_table (make_room s) = sc_table s \<and> sc_next (make_room s) = sc_next s \<and>
   sc_max_entries (make_room s) = sc_max_entries s \<and>
   sc_last_used (make_room s) = sc_last_used s \<and>
   sc_allocation (make_room s) = sc_allocation s \<and>
   set (sc_entries (make_room s)) \<subseteq> set (sc_entries s)"
  by (auto simp: make_room_def evict_one_idle_def split: option.split)

text \<open>A new source is nobody's, so the claim before its insertion cannot fail.\<close>

lemma claim_new_source:
  assumes "cache_inv s"
  shows "\<exists>t. claim_lease (sc_next s) (sc_table s) = Some (lt_next (sc_table s), t)"
proof -
  have "active (sc_table s) (sc_next s) = {}"
    using assms unfolding cache_inv_def active_def by fastforce
  then have "sc_next s \<notin> lt_claimed (sc_table s)"
    using assms by (auto simp: cache_inv_def table_inv_def)
  then show ?thesis by (simp add: claim_lease_def)
qed

definition misses :: "'t cache_key \<Rightarrow> ('t, 'a, 'm) source_cache_scheme \<Rightarrow> bool" where
  "misses key s \<longleftrightarrow> map_of (sc_entries s) key = None \<and> \<not> collides key s"

lemma lookup_section_misses: "misses key s \<Longrightarrow> lookup_section key generation s = (None, s)"
  by (simp add: lookup_section_def misses_def)

lemma misses_subset:
  "misses key s \<Longrightarrow> set (sc_entries s') \<subseteq> set (sc_entries s) \<Longrightarrow> misses key s'"
  by (auto simp: misses_def map_of_eq_None_iff collides_def list_ex_iff)

lemma insert_section_miss:
  assumes "cache_inv s" and "misses key s"
  defines "room \<equiv> make_room s"
  shows "insert_section key generation allocation s =
    (if sc_max_entries s \<le> length (sc_entries room)
     then (Err (Source_cache_saturated (sc_max_entries s)), room)
     else (Ok (lt_next (sc_table s)),
       room\<lparr>sc_next := sc_next s + 1,
         sc_allocation := (sc_allocation s)(sc_next s \<mapsto> allocation),
         sc_table := snd (the (claim_lease (sc_next s) (sc_table s))),
         sc_last_used := (sc_last_used s)(sc_next s := generation),
         sc_entries := sc_entries room @ [(key, sc_next s)]\<rparr>))"
proof -
  obtain t where "claim_lease (sc_next s) (sc_table s) = Some (lt_next (sc_table s), t)"
    using claim_new_source [OF assms(1)] by blast
  then show ?thesis
    using make_room_frame [of s]
    by (simp add: insert_section_def lookup_section_misses [OF assms(2)] Let_def claim_source_def
        room_def)
qed

lemma cache_inv_insert:
  assumes inv: "cache_inv s" and "length (sc_entries s) < sc_max_entries s"
    and miss: "misses key s"
    and t: "claim_lease (sc_next s) (sc_table s) = Some (l, t)"
  shows "cache_inv (s\<lparr>sc_next := sc_next s + 1, sc_allocation := a, sc_table := t,
    sc_last_used := f, sc_entries := sc_entries s @ [(key, sc_next s)]\<rparr>)"
proof -
  have table: "table_inv (sc_table s)" using inv by (rule cache_inv_table_inv)
  have new: "sc_next s \<notin> snd ` set (sc_entries s)"
    using inv unfolding cache_inv_def by fastforce
  have key: "key \<notin> fst ` set (sc_entries s)"
    using miss by (simp add: misses_def map_of_eq_None_iff)
  have distinct: "k \<noteq> key \<and> \<not> same_buffer k key" if "(k, r) \<in> set (sc_entries s)" for k r
  proof -
    have "k \<noteq> key" using that key by force
    moreover have "ck_layout k = ck_layout key" if "same_buffer k key"
      using that \<open>(k, r) \<in> set (sc_entries s)\<close> miss
      by (force simp: misses_def collides_def list_ex_iff)
    ultimately show ?thesis
      by (cases k; cases key) (auto simp: same_buffer_def)
  qed
  have leases: "r \<in> snd ` set (sc_entries s @ [(key, sc_next s)])"
    if "lt_leases t l' = Some (r, p)" for l' r p
    using that cache_inv_leases [OF inv, of l' r p] claim_lease_active(5) [OF table t]
    by (cases "l' = l") auto
  have pairwise: "k = k'" if "(k, r) \<in> set (sc_entries s @ [(key, sc_next s)])"
    "(k', r') \<in> set (sc_entries s @ [(key, sc_next s)])" "same_buffer k k'" for k r k' r'
  proof -
    have sym: "same_buffer k' k" using that(3) by (simp add: same_buffer_def)
    have k: "k = key \<or> (k, r) \<in> set (sc_entries s)" and k': "k' = key \<or> (k', r') \<in> set (sc_entries s)"
      using that(1,2) by auto
    show ?thesis
    proof (cases "k = key \<or> k' = key")
      case True
      then show ?thesis using distinct k k' sym that(3) by blast
    next
      case False
      then have "(k, r) \<in> set (sc_entries s)" "(k', r') \<in> set (sc_entries s)" using k k' by simp_all
      then show ?thesis using that(3) inv unfolding cache_inv_def by blast
    qed
  qed
  have bound: "r < sc_next s + 1" if "(k, r) \<in> set (sc_entries s @ [(key, sc_next s)])" for k r
    using that inv unfolding cache_inv_def by fastforce
  show ?thesis
    unfolding cache_inv_def
    using inv assms(2) key new leases pairwise bound claim_lease_active(2) [OF table t]
    by (simp add: cache_inv_def) blast
qed

lemma insert_section_hit:
  assumes "\<not> misses key s"
  shows "insert_section key generation allocation s =
    apfst the (lookup_section key generation s)"
  using assms
  by (auto simp: insert_section_def lookup_section_def misses_def apfst_def map_prod_def split_beta
      split: option.split)

lemma insert_section_inv:
  assumes "cache_inv s"
  shows "cache_inv (snd (insert_section key generation allocation s))"
proof (cases "misses key s")
  case False
  then show ?thesis
    using lookup_section_inv [OF assms, of key generation] by (simp add: insert_section_hit)
next
  case True
  obtain t where t: "claim_lease (sc_next s) (sc_table s) = Some (lt_next (sc_table s), t)"
    using claim_new_source [OF assms] by blast
  have room: "cache_inv (make_room s)" using assms by (rule make_room_inv)
  have miss: "misses key (make_room s)" using True make_room_frame misses_subset by blast
  show ?thesis
    using room cache_inv_insert [OF room _ miss] make_room_frame [of s] t
    by (simp add: insert_section_miss [OF assms True])
qed

lemma evict_stream_inv:
  assumes "cache_inv s"
  shows "cache_inv (snd (evict_stream stream s))"
proof -
  have "cache_inv (s\<lparr>sc_entries := filter (\<lambda>(k, r). ck_stream k \<noteq> stream \<or> \<not> idle s r) (sc_entries s)\<rparr>)"
    using assms by (rule cache_inv_filter) (use idle_iff [OF assms] in auto)
  then show ?thesis
    using kept_iff [OF assms] by (simp add: evict_stream_def Let_def)
qed

lemma evict_nv12_stream_inv: "cache_inv s \<Longrightarrow> cache_inv (snd (evict_nv12_stream stream s))"
  using evict_stream_inv [of s stream] by (auto simp: evict_nv12_stream_def split: prod.split)

lemma cache_step_inv:
  assumes "cache_inv s"
  shows "fst (cache_step op s)" and "cache_inv (snd (cache_step op s))"
proof -
  have "fst (cache_step op s) \<and> cache_inv (snd (cache_step op s))"
  proof (cases op)
    case (Op_lease lease_op)
    have "fst (lease_step lease_op (sc_table s))"
      using cache_inv_table_inv [OF assms] by (rule table_inv_step(1))
    then show ?thesis
      using cache_inv_lease_step [OF assms, of lease_op] Op_lease by (simp add: split_beta)
  qed (use assms in \<open>simp_all add: tick_def count_miss_def lookup_section_inv insert_section_inv
      evict_nv12_stream_inv\<close>)
  then show "fst (cache_step op s)" and "cache_inv (snd (cache_step op s))" by simp_all
qed

lemma cache_run_inv:
  "cache_inv s \<Longrightarrow> fst (cache_run ops s) \<and> cache_inv (snd (cache_run ops s))"
proof (induction ops arbitrary: s)
  case Nil
  then show ?case by simp
next
  case (Cons op ops)
  have "cache_inv (snd (cache_step op s))" and "fst (cache_step op s)"
    using Cons.prems cache_step_inv by blast+
  then show ?case using Cons.IH [of "snd (cache_step op s)"] by (simp add: split_beta)
qed

section \<open>What a claim decides\<close>

lemma held_iff:
  assumes "cache_inv s"
  shows "r \<in> lt_claimed (sc_table s) \<longleftrightarrow> claim_lease r (sc_table s) = None"
  by (simp add: claim_lease_def)

lemma claim_cached_entry_result:
  "fst (claim_cached_entry generation r s) =
     (if r \<in> lt_claimed (sc_table s) then Err Reappeared_before_release
      else Ok (lt_next (sc_table s)))"
  by (simp add: claim_cached_entry_def claim_source_def claim_lease_def)

lemma lookup_section_result:
  "fst (lookup_section key generation s) =
     (case map_of (sc_entries s) key of
        Some r \<Rightarrow> Some (if r \<in> lt_claimed (sc_table s) then Err Reappeared_before_release
                      else Ok (lt_next (sc_table s)))
      | None \<Rightarrow> if collides key s then Some (Err Different_topology) else None)"
  by (simp add: lookup_section_def claim_cached_entry_result split: option.split)

text \<open>Room for a new source: a free entry, or one nobody holds a lease of.\<close>

definition has_room :: "('t, 'a, 'm) source_cache_scheme \<Rightarrow> bool" where
  "has_room s \<longleftrightarrow> length (sc_entries s) < sc_max_entries s \<or>
     list_ex (\<lambda>(k, r). idle s r) (sc_entries s)"

lemma make_room_has_room:
  assumes "cache_inv s"
  shows "length (sc_entries (make_room s)) < sc_max_entries s \<longleftrightarrow> has_room s"
proof (cases "length (sc_entries s) < sc_max_entries s")
  case True
  then show ?thesis by (simp add: make_room_def has_room_def)
next
  case False
  then have full: "length (sc_entries s) = sc_max_entries s"
    using assms by (simp add: cache_inv_def)
  show ?thesis
  proof (cases "evict_one_idle s")
    case (Pair evicted s')
    show ?thesis
    proof (cases evicted)
      case False
      then have "s' = s \<and> (\<forall>(k, r) \<in> set (sc_entries s). \<not> idle s r)"
        using evict_one_idle_removes [OF assms] by (simp add: Pair)
      then show ?thesis using False full Pair by (auto simp: make_room_def has_room_def list_ex_iff)
    next
      case True
      then obtain key r where e: "(key, r) \<in> set (sc_entries s)" "idle s r"
        and s': "s' = s\<lparr>sc_entries := filter (\<lambda>e. e \<noteq> (key, r)) (sc_entries s)\<rparr>"
        using evict_one_idle_removes [OF assms] by (auto simp: Pair)
      have "length (filter (\<lambda>e. e \<noteq> (key, r)) (sc_entries s)) < length (sc_entries s)"
        using e(1) by (auto simp: length_filter_less)
      then show ?thesis
        using e full True Pair s' by (force simp: make_room_def has_room_def list_ex_iff)
    qed
  qed
qed

lemma insert_section_result:
  assumes "cache_inv s" and "misses key s"
  shows "fst (insert_section key generation allocation s) =
    (if has_room s then Ok (lt_next (sc_table s))
     else Err (Source_cache_saturated (sc_max_entries s)))"
  using make_room_has_room [OF assms(1)]
  by (auto simp: insert_section_miss [OF assms] not_le [symmetric])

lemma source_cache_reachable:
  "cache_inv (snd (cache_run ops (source_cache_new max_entries)))"
  using cache_run_inv [OF cache_inv_new] by blast

lemma cache_inv_tick: "cache_inv s \<Longrightarrow> cache_inv (snd (tick s))"
  by (simp add: tick_def)

lemma cache_inv_count_miss: "cache_inv s \<Longrightarrow> cache_inv (count_miss s)"
  by (simp add: count_miss_def)

lemma misses_count_miss [simp]: "misses key (count_miss s) = misses key s"
  by (simp add: misses_def collides_def count_miss_def)

lemma misses_tick [simp]: "misses key (s\<lparr>sc_clock := c\<rparr>) = misses key s"
  by (simp add: misses_def collides_def)

lemma has_room_counters [simp]:
  "has_room (count_miss s) = has_room s" "has_room (s\<lparr>sc_clock := c\<rparr>) = has_room s"
  by (simp_all add: has_room_def idle_def count_miss_def)

lemma insert_after_miss:
  assumes "cache_inv s" and "misses key s"
  shows "fst (insert_section key generation allocation (count_miss (s\<lparr>sc_clock := c\<rparr>))) =
    (if has_room s then Ok (lt_next (sc_table s))
     else Err (Source_cache_saturated (sc_max_entries s)))"
proof -
  have "cache_inv (count_miss (s\<lparr>sc_clock := c\<rparr>))" "misses key (count_miss (s\<lparr>sc_clock := c\<rparr>))"
    using assms by (simp_all add: count_miss_def misses_def collides_def)
  then show ?thesis
    by (simp add: insert_section_result) (simp add: count_miss_def)
qed

text \<open>What the second section of an undisturbed miss drops.\<close>

lemma map_filter_cong: "(\<And>x. x \<in> set xs \<Longrightarrow> f x = g x) \<Longrightarrow> List.map_filter f xs = List.map_filter g xs"
  by (induction xs) (auto simp: List.map_filter_def)

lemma dropped_after_miss:
  fixes s :: "('t, 'a, 'm) source_cache_scheme"
  assumes "cache_inv s" and "misses key s"
  shows "dropped_sources s (snd (insert_section key generation allocation s)) allocation =
    removed_allocations s (make_room s) @ (if has_room s then [] else [allocation])"
proof -
  have old: "r < sc_next s" if "(k, r) \<in> set (sc_entries s)" for k r
    using assms(1) that unfolding cache_inv_def by fastforce
  have "(key, sc_next s) \<notin> set (sc_entries s)" using old by blast
  then have removed: "removed_allocations s (room\<lparr>sc_next := n, sc_allocation := a, sc_table := t,
      sc_last_used := f, sc_entries := sc_entries room @ [(key, sc_next s)]\<rparr>) = removed_allocations s room"
    for room :: "('t, 'a, 'm) source_cache_scheme" and n a t f
    unfolding removed_allocations_def by (intro map_filter_cong) (auto simp del: split_paired_All)
  have "sc_next s \<notin> snd ` set (sc_entries (make_room s))"
    using old make_room_frame [of s] by force
  then show ?thesis
    using make_room_has_room [OF assms(1)]
    by (auto simp: insert_section_miss [OF assms] dropped_sources_def removed not_le)
qed

lemma removed_allocations_cong:
  "sc_allocation s = sc_allocation s' \<Longrightarrow> sc_entries s = sc_entries s' \<Longrightarrow> sc_entries t = sc_entries t' \<Longrightarrow>
   removed_allocations s t = removed_allocations s' t'"
  unfolding removed_allocations_def by (simp only:)

lemma make_room_after_miss:
  "removed_allocations (count_miss (s\<lparr>sc_clock := c\<rparr>)) (make_room (count_miss (s\<lparr>sc_clock := c\<rparr>))) =
   removed_allocations s (make_room s)"
proof (rule removed_allocations_cong)
  show "sc_entries (make_room (count_miss (s\<lparr>sc_clock := c\<rparr>))) = sc_entries (make_room s)"
    by (simp add: make_room_def evict_one_idle_def idle_def count_miss_def split: option.split prod.split)
qed (simp_all add: count_miss_def)

text \<open>A claim that nobody disturbs, as one decision.\<close>

definition claim_decision ::
  "'t cache_key \<Rightarrow> ('w \<Rightarrow> ('e + 'a) \<times> 'w) \<Rightarrow> ('a \<Rightarrow> 'w \<Rightarrow> 'w) \<Rightarrow> ('t, 'a, 'm) source_cache_scheme \<Rightarrow>
   'w \<Rightarrow> ('e cache_error + nat) \<times> 'w" where
  "claim_decision key create dispose s w =
     (case map_of (sc_entries s) key of
        Some r \<Rightarrow>
          (if r \<in> lt_claimed (sc_table s) then Err Reappeared_before_release
           else Ok (lt_next (sc_table s)), w)
      | None \<Rightarrow>
          if collides key s then (Err Different_topology, w)
          else (case create w of
              (Inl e, w') \<Rightarrow> (Err (Create_failed e), w')
            | (Inr allocation, w') \<Rightarrow>
                (if has_room s then Ok (lt_next (sc_table s))
                 else Err (Source_cache_saturated (sc_max_entries s)),
                 fold dispose (removed_allocations s (make_room s) @ (if has_room s then [] else [allocation])) w')))"

lemma claim_cached_decision:
  assumes "cache_inv s"
  shows "(case claim_cached key create dispose [] [] (s, w) of (result, s', w') \<Rightarrow> (result, w')) =
    claim_decision key create dispose s w"
proof (cases "misses key s")
  case True
  have miss: "map_of (sc_entries s) key = None" "\<not> collides key s"
    using True by (simp_all add: misses_def)
  have "cache_inv (count_miss (s\<lparr>sc_clock := c\<rparr>))" for c using assms by (simp add: count_miss_def)
  then have dropped: "dropped_sources (count_miss (s\<lparr>sc_clock := c\<rparr>))
        (snd (insert_section key generation allocation (count_miss (s\<lparr>sc_clock := c\<rparr>)))) allocation =
      removed_allocations s (make_room s) @ (if has_room s then [] else [allocation])" for c generation allocation
    using True by (subst dropped_after_miss) (simp_all add: make_room_after_miss)
  show ?thesis
    using True miss
    by (cases "create w"; cases "fst (create w)")
      (simp_all add: insert_after_miss [OF assms True] dropped claim_cached_def claim_decision_def tick_def
        lookup_section_misses split_beta Let_def)
next
  case False
  show ?thesis
  proof (cases "map_of (sc_entries s) key")
    case None
    then have "collides key (s\<lparr>sc_clock := c\<rparr>)" "collides key s" for c
      using False by (simp_all add: misses_def collides_def)
    then show ?thesis
      using None by (simp add: claim_cached_def claim_decision_def tick_def lookup_section_def)
  next
    case (Some r)
    then show ?thesis
      by (simp add: claim_cached_def claim_decision_def tick_def lookup_section_def apfst_def
          map_prod_def split_beta claim_cached_entry_result)
  qed
qed

lemma evict_stream_kept:
  assumes "cache_inv s"
  shows "sc_entries (snd (evict_nv12_stream stream s)) =
    filter (\<lambda>(k, r). ck_stream k \<noteq> stream \<or> \<not> idle s r) (sc_entries s)"
  using kept_iff [OF assms] by (simp add: evict_nv12_stream_def evict_stream_def Let_def)

lemma evict_stream_result:
  assumes "cache_inv s"
  shows "fst (evict_nv12_stream stream s) =
    (let retained = length (filter (\<lambda>(k, r). ck_stream k = stream \<and> \<not> idle s r) (sc_entries s)) in
     if retained = 0 then Ok () else Err retained)"
proof -
  have "filter (\<lambda>(k, r). ck_stream k = stream)
      (filter (\<lambda>(k, r). ck_stream k \<noteq> stream \<or> \<not> idle s r) (sc_entries s)) =
    filter (\<lambda>(k, r). ck_stream k = stream \<and> \<not> idle s r) (sc_entries s)"
    unfolding filter_filter by (rule filter_cong) auto
  then show ?thesis
    using kept_iff [OF assms] by (simp add: evict_nv12_stream_def evict_stream_def Let_def)
qed

text \<open>An entry whose source somebody still refers to stays, whatever anyone does.\<close>

lemma leased_not_idle:
  "cache_inv s \<Longrightarrow> lt_leases (sc_table s) l = Some (r, p) \<Longrightarrow> \<not> idle s r"
  by (auto simp: idle_iff)

lemma entries_after_claim:
  "sc_entries (snd (claim_cached_entry generation r s)) = sc_entries s"
  by (auto simp: claim_cached_entry_def claim_source_def split: option.split)

lemma entries_after_lookup:
  "sc_entries (snd (lookup_section key generation s)) = sc_entries s"
  by (auto simp: lookup_section_def entries_after_claim apfst_def map_prod_def split_beta
      split: option.split)

lemma make_room_keeps:
  assumes "cache_inv s" and "e \<in> set (sc_entries s)" and "\<not> idle s (snd e)"
  shows "e \<in> set (sc_entries (make_room s))"
proof -
  have "e \<in> set (sc_entries (snd (evict_one_idle s)))"
  proof (cases "evict_one_idle s")
    case (Pair evicted s')
    then show ?thesis
      using evict_one_idle_removes [OF assms(1)] assms(2,3) by (cases evicted) auto
  qed
  then show ?thesis using assms(2) by (auto simp: make_room_def split: prod.split bool.split)
qed

lemma step_keeps_entry:
  assumes "cache_inv s" and "e \<in> set (sc_entries s)" and "\<not> idle s (snd e)"
  shows "e \<in> set (sc_entries (snd (cache_step op s)))"
proof (cases op)
  case (Op_insert key generation allocation)
  show ?thesis
  proof (cases "misses key s")
    case True
    then show ?thesis
      using Op_insert make_room_keeps [OF assms] by (simp add: insert_section_miss [OF assms(1)])
  next
    case False
    then show ?thesis
      using Op_insert assms(2) by (simp add: insert_section_hit entries_after_lookup)
  qed
next
  case (Op_evict_stream stream)
  then show ?thesis using assms(2,3) by (auto simp: evict_stream_kept [OF assms(1)])
qed (use assms(2) in \<open>simp_all add: tick_def count_miss_def entries_after_lookup split_beta\<close>)

lemma max_entries_claim: "sc_max_entries (snd (claim_cached_entry generation r s)) = sc_max_entries s"
  by (auto simp: claim_cached_entry_def claim_source_def split: option.split)

lemma max_entries_lookup: "sc_max_entries (snd (lookup_section key generation s)) = sc_max_entries s"
  by (auto simp: lookup_section_def max_entries_claim apfst_def map_prod_def split_beta split: option.split)

lemma max_entries_room: "sc_max_entries (make_room s) = sc_max_entries s"
  by (simp add: make_room_def evict_one_idle_def split: option.split prod.split)

lemma max_entries_looked_up: "lookup_section key generation s = (found, s') \<Longrightarrow> sc_max_entries s' = sc_max_entries s"
  by (metis max_entries_lookup snd_conv)

lemma max_entries_insert: "sc_max_entries (snd (insert_section key generation allocation s)) = sc_max_entries s"
  by (auto simp: insert_section_def claim_source_def max_entries_room Let_def split: prod.split option.split
      dest: max_entries_looked_up)

lemma sc_max_entries_step [simp]: "sc_max_entries (snd (cache_step op s)) = sc_max_entries s"
proof (cases op)
  case (Op_evict_stream stream)
  then show ?thesis by (simp add: evict_nv12_stream_def evict_stream_def Let_def split_beta)
qed (simp_all add: tick_def count_miss_def max_entries_lookup max_entries_insert split_beta)

section \<open>The counter of the packed cache\<close>

lemma rejections_after_claim [simp]:
  "pc_allocation_size_rejections (snd (claim_cached_entry generation r s)) =
     pc_allocation_size_rejections s"
  by (auto simp: claim_cached_entry_def claim_source_def split: option.split)

lemma rejections_after_lookup [simp]:
  "pc_allocation_size_rejections (snd (lookup_section key generation s)) =
     pc_allocation_size_rejections s"
  by (auto simp: lookup_section_def apfst_def map_prod_def split_beta split: option.split)

lemma rejections_after_make_room [simp]:
  "pc_allocation_size_rejections (make_room s) = pc_allocation_size_rejections s"
  by (auto simp: make_room_def evict_one_idle_def split: option.split)

lemma rejections_after_insert [simp]:
  "pc_allocation_size_rejections (snd (insert_section key generation allocation s)) =
     pc_allocation_size_rejections s"
proof (cases "misses key s")
  case True
  then show ?thesis
    by (auto simp: insert_section_def lookup_section_misses Let_def claim_source_def
        split: option.split)
qed (simp add: insert_section_hit)

lemma rejections_after_step [simp]:
  "pc_allocation_size_rejections (snd (cache_step op s)) = pc_allocation_size_rejections s"
  by (cases op) (simp_all add: tick_def count_miss_def evict_nv12_stream_def evict_stream_def Let_def
      split_beta)

lemma rejections_after_run [simp]:
  "pc_allocation_size_rejections (snd (cache_run ops s)) = pc_allocation_size_rejections s"
  by (induction ops arbitrary: s) (simp_all add: split_beta)

lemma rejections_after_cached [simp]:
  "pc_allocation_size_rejections (fst (snd (claim_cached key create dispose others1 others2 (s, w)))) =
     pc_allocation_size_rejections s"
  by (auto simp: claim_cached_def tick_def split_beta count_miss_def Let_def split: option.split sum.split)

fun rejects_allocation_size ::
  "('io identity_message vulkan_import_error, 'e) packed_claim_error + nat \<Rightarrow> bool" where
  "rejects_allocation_size (Inl (Packed_layout e)) = is_allocation_size e"
| "rejects_allocation_size (Inl (Packed_staged_layout e)) = True"
| "rejects_allocation_size (Inl (Packed_identity e)) = True"
| "rejects_allocation_size (Inl (Packed_cache (Create_failed e))) = is_allocation_size e"
| "rejects_allocation_size result = False"

lemma creation_failure_rejections:
  assumes "count_creation_failure outcome = (result, s', w')"
  shows "pc_allocation_size_rejections s' = pc_allocation_size_rejections (fst (snd outcome)) +
    (if rejects_allocation_size result then 1 else 0)"
  using assms
  by (cases outcome)
    (auto simp: count_creation_failure_def reject_allocation_size_def map_err_def
      split: sum.splits cache_error.splits if_splits)

section \<open>Properties\<close>

text \<open>The lease \<open>l\<close> is not fully released and is on the entry of \<open>key\<close>.\<close>

definition leases_entry :: "('t, 'a, 'm) source_cache_scheme \<Rightarrow> nat \<Rightarrow> 't cache_key \<Rightarrow> bool" where
  "leases_entry s l key \<longleftrightarrow>
     (\<exists>r p. lt_leases (sc_table s) l = Some (r, p) \<and> p \<noteq> Released \<and> (key, r) \<in> set (sc_entries s))"

definition exclusive :: "('t, 'a, 'm) source_cache_scheme \<Rightarrow> bool" where
  "exclusive s \<longleftrightarrow>
     (\<forall>l l' key key'. leases_entry s l key \<longrightarrow> leases_entry s l' key' \<longrightarrow> same_buffer key key' \<longrightarrow>
        l = l' \<and> key = key') \<and>
     (\<forall>l r p. lt_leases (sc_table s) l = Some (r, p) \<longrightarrow> (\<exists>key. (key, r) \<in> set (sc_entries s)))"

lemma cache_inv_exclusive:
  assumes "cache_inv s"
  shows "exclusive s"
  unfolding exclusive_def
proof (intro conjI allI impI)
  fix l r p
  assume "lt_leases (sc_table s) l = Some (r, p)"
  then show "\<exists>key. (key, r) \<in> set (sc_entries s)" using cache_inv_leases [OF assms] by force
next
  fix l l' key key'
  assume l: "leases_entry s l key" and l': "leases_entry s l' key'" and same: "same_buffer key key'"
  obtain r p r' p' where r: "lt_leases (sc_table s) l = Some (r, p)" "p \<noteq> Released"
      "(key, r) \<in> set (sc_entries s)"
    and r': "lt_leases (sc_table s) l' = Some (r', p')" "p' \<noteq> Released" "(key', r') \<in> set (sc_entries s)"
    using l l' unfolding leases_entry_def by blast
  show key: "key = key'"
    using assms same r(3) r'(3) unfolding cache_inv_def by blast
  have "distinct (map fst (sc_entries s))" using assms by (simp add: cache_inv_def)
  then have "r = r'" using r(3) r'(3) key by (auto dest: eq_key_imp_eq_value)
  then have "l \<in> active (sc_table s) r" "l' \<in> active (sc_table s) r"
    using r r' by (auto simp: active_def)
  then show "l = l'" using cache_inv_table_inv [OF assms] unfolding table_inv_def by blast
qed

text \<open>C20: a cached DMA-BUF is leased to one frame at a time. Whatever the threads of the importer do,
  in any interleaving of their locked sections, atomic steps and drops: no assertion about a
  double release fails; two leases that are not released never refer to the same buffer of the
  same stream, not even under two layouts; and the source of every lease that still exists is in
  the cache, so its Vulkan allocation has not been destroyed.\<close>

theorem source_leases_exclusive:
  "fst (cache_run ops (source_cache_new max_entries)) \<and>
   exclusive (snd (cache_run ops (source_cache_new max_entries)))"
  using cache_run_inv [OF cache_inv_new] cache_inv_exclusive by blast

text \<open>A source cache never holds more than its limit, holds each source once, and holds a buffer of
  a stream under one layout and one read strategy only, after any interleaving of operations.\<close>

lemma source_cache_bounded:
  "let entries = sc_entries (snd (cache_run ops (source_cache_new max_entries))) in
   sc_max_entries (snd (cache_run ops (source_cache_new max_entries))) = max_entries \<and>
   length entries \<le> max_entries \<and> distinct (map snd entries) \<and>
   distinct (map (\<lambda>(key, r). (ck_stream key, ck_device key, ck_inode key)) entries)"
proof -
  let ?s = "snd (cache_run ops (source_cache_new max_entries))"
  have inv: "cache_inv ?s" by (rule source_cache_reachable)
  have max: "sc_max_entries (snd (cache_run ops s)) = sc_max_entries s"
    for s :: "('a, 'b) source_cache"
    by (induction ops arbitrary: s) (simp_all add: split_beta sc_max_entries_step)
  have pairwise: "\<forall>(k, r) \<in> set (sc_entries ?s). \<forall>(k', r') \<in> set (sc_entries ?s).
      same_buffer k k' \<longrightarrow> k = k'"
    and distinct: "distinct (map fst (sc_entries ?s))" "distinct (map snd (sc_entries ?s))"
    using inv unfolding cache_inv_def by blast+
  have "inj_on (\<lambda>(key, r). (ck_stream key, ck_device key, ck_inode key)) (set (sc_entries ?s))"
  proof (rule inj_onI)
    fix e e'
    assume "e \<in> set (sc_entries ?s)" "e' \<in> set (sc_entries ?s)"
      "(\<lambda>(key, r). (ck_stream key, ck_device key, ck_inode key)) e =
       (\<lambda>(key, r). (ck_stream key, ck_device key, ck_inode key)) e'"
    then have "fst e = fst e'" using pairwise by (fastforce simp: same_buffer_def)
    then show "e = e'"
      using \<open>e \<in> _\<close> \<open>e' \<in> _\<close> distinct(1) by (metis eq_key_imp_eq_value prod.collapse)
  qed
  moreover have "distinct (sc_entries ?s)" using distinct(2) by (simp add: distinct_map)
  ultimately show ?thesis
    using inv distinct max by (simp add: Let_def cache_inv_def distinct_map source_cache_new_def)
qed

text \<open>C29: what an undisturbed claim decides, in any state the importer can reach: a buffer cached under
  the same key is leased again without importing it, unless its previous lease is not released
  yet; a buffer cached under another layout is rejected; otherwise the buffer is imported, exactly
  once, and cached if a place is free or some source is idle. The creation runs only for a miss, and
  what is dropped after it is the evicted source, or the created one when it was not cached.\<close>

theorem source_claim_decides:
  "let s = snd (cache_run ops (source_cache_new max_entries)) in
   (case claim_cached key create dispose [] [] (s, w) of (result, s', w') \<Rightarrow> (result, w')) =
   claim_decision key create dispose s w"
  unfolding Let_def using source_cache_reachable by (rule claim_cached_decision)

text \<open>C28: eviction is safe and least-recently-used. In every reachable state, no operation of any thread
  removes an entry whose source some lease still refers to, and \<open>evict_one_idle\<close> removes exactly one
  entry, idle and least recently used among the idle ones, or nothing when none is idle.\<close>

theorem source_eviction_safe:
  assumes "s = snd (cache_run ops (source_cache_new max_entries))"
  shows "(\<forall>(key, r) \<in> set (sc_entries s).
      (\<exists>l. map_option fst (lt_leases (sc_table s) l) = Some r) \<longrightarrow>
        (key, r) \<in> set (sc_entries (snd (cache_step op s)))) \<and>
    (case evict_one_idle s of
      (False, s') \<Rightarrow> s' = s \<and> (\<forall>(k, r) \<in> set (sc_entries s). \<not> idle s r)
    | (True, s') \<Rightarrow> (\<exists>(key, r) \<in> set (sc_entries s). idle s r \<and>
        (\<forall>(k', r') \<in> set (sc_entries s). idle s r' \<longrightarrow> sc_last_used s r \<le> sc_last_used s r') \<and>
        s' = s\<lparr>sc_entries := filter (\<lambda>e. e \<noteq> (key, r)) (sc_entries s)\<rparr>))"
proof -
  have inv: "cache_inv s" unfolding assms by (rule source_cache_reachable)
  then have "\<not> idle s r" if "map_option fst (lt_leases (sc_table s) l) = Some r" for r l
    using that by (auto simp: idle_iff)
  then show ?thesis
    using step_keeps_entry [OF inv] evict_one_idle_removes [OF inv] by fastforce
qed

text \<open>
  Two buffers in a cache of two: the first lease is dropped, the second held while a third buffer
  makes the cache evict.
\<close>

definition example_key :: "u64 \<Rightarrow> nat cache_key" where
  "example_key inode = \<lparr>ck_stream = 1, ck_device = 1, ck_inode = inode, ck_layout = 0\<rparr>"

definition example_ops :: "(nat, unit) cache_op list" where
  "example_ops = [Op_insert (example_key 1) 1 (), Op_insert (example_key 2) 2 (),
     Op_lease (Drop_lease 0)]"

lemmas example_cache_simps = example_ops_def example_key_def source_cache_new_def empty_table_def
  insert_section_def lookup_section_def collides_def same_buffer_def make_room_def claim_source_def
  claim_lease_def drop_lease_def release_lease_def release_swap_def release_clear_def Let_def
  evict_one_idle_def idle_def strong_count_def

lemma example_cache_entries:
  "sc_entries (snd (cache_run example_ops (source_cache_new 2))) =
     [(example_key 1, 0), (example_key 2, 1)]"
  "lt_leases (sc_table (snd (cache_run example_ops (source_cache_new 2)))) 1 = Some (1, Held)"
  by (simp_all add: example_cache_simps)

lemma source_eviction_safe_witness:
  "(example_key 2, 1) \<in> set (sc_entries (snd (cache_step (Op_insert (example_key 3) 3 ())
     (snd (cache_run example_ops (source_cache_new 2))))))"
proof -
  let ?s = "snd (cache_run example_ops (source_cache_new 2))"
  have "map_option fst (lt_leases (sc_table ?s) 1) = Some 1"
    unfolding example_cache_entries(2) by simp
  moreover have "(example_key 2, 1) \<in> set (sc_entries ?s)"
    unfolding example_cache_entries(1) by simp
  ultimately show ?thesis
    using conjunct1 [OF source_eviction_safe [OF refl, of example_ops 2
        "Op_insert (example_key 3) 3 ()"]]
    by blast
qed

text \<open>Evicting a stream drops exactly its idle sources: entries of other streams and leased ones stay,
  and the call succeeds if and only if no source of the stream is in use any more; otherwise it
  reports how many are. So once all its leases are dropped, a stream can be evicted completely.\<close>

lemma stream_eviction_exact:
  "let s = snd (cache_run ops (source_cache_new max_entries));
       used = filter (\<lambda>(k, r). ck_stream k = stream \<and> \<not> idle s r) (sc_entries s) in
   sc_entries (snd (evict_nv12_stream stream s)) =
     filter (\<lambda>(k, r). \<not> (ck_stream k = stream \<and> idle s r)) (sc_entries s) \<and>
   fst (evict_nv12_stream stream s) = (if used = [] then Ok () else Err (length used))"
  unfolding Let_def evict_stream_kept [OF source_cache_reachable]
    evict_stream_result [OF source_cache_reachable]
  by simp

text \<open>The packed cache counts exactly its allocation-size rejections. A claim of a packed source, with
  whatever other threads do meanwhile, adds one to \<open>allocation_size_rejections\<close> if it fails because
  the declared or observed size of the allocation is wrong, on any of its four paths, and leaves
  the counter alone otherwise.\<close>

lemma packed_rejections_counted:
  "case claim_cached_packed_source device probe request strategy create dispose others1 others2 (s, w) of
     (result, s', w') \<Rightarrow>
       pc_allocation_size_rejections s' =
         pc_allocation_size_rejections s + (if rejects_allocation_size result then 1 else 0)"
  by (auto simp: claim_cached_packed_source_def reject_allocation_size_def map_err_def
      result_bind_def split: sum.split packed_import_strategy.split prod.split
      dest: creation_failure_rejections)

end
