(* ===== verification/Output_Pool.thy ===== *)
theory Output_Pool
  imports Exclusive_Lease Errors
begin

text \<open>
  The output pools of \<open>vulkan/mod.rs\<close>: images a staged import writes, kept for reuse and leased to
  one frame at a time. \<open>Nv12OutputPool\<close> and \<open>PackedOutputPool\<close> share their structure, with a slot
  tagged by its dimensions and strategy, or by its dimensions; their \<open>claim\<close>s are modelled
  each. Creating a slot and pointing its descriptors at a source view work on the state \<open>'w\<close> of the
  device and are arguments here.
\<close>

section \<open>Pools\<close>

text \<open>
  The slots are the vector of \<open>Arc\<close>s, each the number of its slot, with its tag; \<open>'s\<close> are the
  Vulkan objects of a slot. \<open>op_initialized\<close> are the slots whose flag is set.
\<close>

record ('t, 's) output_pool =
  op_slots :: "('t \<times> nat) list"
  op_resources :: "nat \<Rightarrow> 's option"
  op_initialized :: "nat set"
  op_max_slots :: nat
  op_table :: lease_table
  op_next :: nat

definition output_pool_new :: "nat \<Rightarrow> ('t, 's) output_pool" where
  "output_pool_new max_slots =
     \<lparr>op_slots = [], op_resources = (\<lambda>_. None), op_initialized = {}, op_max_slots = max_slots, op_table = empty_table, op_next = 0\<rparr>"

text \<open>\<open>Vec::swap_remove\<close> of an index in range, and \<open>iter().position\<close>.\<close>

definition swap_remove :: "nat \<Rightarrow> 'x list \<Rightarrow> 'x list" where
  "swap_remove i xs = butlast (xs[i := last xs])"

fun position :: "('x \<Rightarrow> bool) \<Rightarrow> 'x list \<Rightarrow> nat option" where
  "position P [] = None"
| "position P (x # xs) = (if P x then Some 0 else map_option Suc (position P xs))"

fun lease_run :: "lease_op list \<Rightarrow> lease_table \<Rightarrow> lease_table" where
  "lease_run [] t = t"
| "lease_run (op # ops) t = lease_run ops (snd (lease_step op t))"

text \<open>
  What a claim does when no slot it scanned was free: give up an idle slot of another tag if the
  pool is full, create a slot, and lease it. A slot is claimed by a store when it is created.
\<close>

definition push_slot :: "'t \<Rightarrow> 's \<Rightarrow> ('t, 's) output_pool \<Rightarrow> nat \<times> ('t, 's) output_pool" where
  "push_slot tag resources p =
     (case claim_lease (op_next p) (op_table p) of
        Some (l, t) \<Rightarrow> (l, p\<lparr>op_table := t, op_slots := op_slots p @ [(tag, op_next p)],
                          op_resources := (op_resources p)(op_next p \<mapsto> resources),
                          op_next := op_next p + 1\<rparr>)
      | None \<Rightarrow> (0, p))"

definition make_slot_room :: "'t \<Rightarrow> ('t, 's) output_pool \<Rightarrow> ('t, 's) output_pool option" where
  "make_slot_room tag p =
     (if op_max_slots p \<le> length (op_slots p)
      then case position (\<lambda>(t, r). r \<notin> lt_claimed (op_table p) \<and> t \<noteq> tag) (op_slots p) of
          Some i \<Rightarrow> Some (p\<lparr>op_slots := swap_remove i (op_slots p)\<rparr>)
        | None \<Rightarrow> None
      else Some p)"

text \<open>
  The slots that leave the vector and that no lease refers to any more: their objects are dropped at
  once. A slot whose released lease is not dropped yet follows when it is.
\<close>

definition removed_slots :: "('t, 's) output_pool \<Rightarrow> ('t, 's) output_pool \<Rightarrow> 's list" where
  "removed_slots before after =
     List.map_filter (\<lambda>(t, r). if (t, r) \<in> set (op_slots after) \<or> 1 < strong_count r (op_table before) then None
        else op_resources before r) (op_slots before)"

definition claim_new_slot ::
  "pool_name \<Rightarrow> usize \<Rightarrow> 't \<Rightarrow> ('w \<Rightarrow> ('e + 's) \<times> 'w) \<Rightarrow> ('s \<Rightarrow> 'w \<Rightarrow> 'w) \<Rightarrow> ('t, 's) output_pool \<times> 'w \<Rightarrow>
   ('e vulkan_import_error + nat) \<times> ('t, 's) output_pool \<times> 'w" where
  "claim_new_slot name limit tag create dispose pw =
     (case pw of (p, w) \<Rightarrow>
      case make_slot_room tag p of
        None \<Rightarrow> (Err (PoolSaturated name limit), p, w)
      | Some p1 \<Rightarrow>
          (case create (fold dispose (removed_slots p p1) w) of
             (Inl e, w') \<Rightarrow> (Err (Other e), p1, w')
           | (Inr resources, w') \<Rightarrow> (case push_slot tag resources p1 of (l, p2) \<Rightarrow> (Ok l, p2, w'))))"

text \<open>
  \<open>Nv12OutputPool::claim\<close>: the first free slot of the tag, its descriptor set pointed at the
  source view if there is one; if that fails, the lease is dropped. \<open>others\<close> is what
  holders of leases do between the scan for a free slot and the search for one to give up.
\<close>

definition nv12_pool_claim ::
  "'t \<Rightarrow> 'v option \<Rightarrow> (nat \<Rightarrow> 'v \<Rightarrow> 'w \<Rightarrow> ('e + unit) \<times> 'w) \<Rightarrow> ('w \<Rightarrow> ('e + 's) \<times> 'w) \<Rightarrow>
   ('s \<Rightarrow> 'w \<Rightarrow> 'w) \<Rightarrow> lease_op list \<Rightarrow> ('t, 's) output_pool \<times> 'w \<Rightarrow> ('e vulkan_import_error + nat) \<times> ('t, 's) output_pool \<times> 'w" where
  "nv12_pool_claim tag source_view update create dispose others pw =
     (case pw of (p, w) \<Rightarrow>
      case claim_first claim_lease (\<lambda>(t, r). t = tag) snd (op_slots p) (op_table p) of
        Some ((_, r), l, t) \<Rightarrow>
          (case source_view of
             None \<Rightarrow> (Ok l, p\<lparr>op_table := t\<rparr>, w)
           | Some view \<Rightarrow>
               (case update r view w of
                  (Inl e, w') \<Rightarrow> (Err (Other e), p\<lparr>op_table := drop_lease l t\<rparr>, w')
                | (Inr _, w') \<Rightarrow> (Ok l, p\<lparr>op_table := t\<rparr>, w')))
      | None \<Rightarrow>
          claim_new_slot Nv12_output (op_max_slots p) tag create dispose
            (p\<lparr>op_table := lease_run others (op_table p)\<rparr>, w))"

text \<open>\<open>PackedOutputPool::claim\<close>: updating the descriptor set cannot fail.\<close>

definition packed_pool_claim ::
  "'t \<Rightarrow> 'v \<Rightarrow> (nat \<Rightarrow> 'v \<Rightarrow> 'w \<Rightarrow> 'w) \<Rightarrow> ('w \<Rightarrow> ('e + 's) \<times> 'w) \<Rightarrow>
   ('s \<Rightarrow> 'w \<Rightarrow> 'w) \<Rightarrow> lease_op list \<Rightarrow> ('t, 's) output_pool \<times> 'w \<Rightarrow> ('e vulkan_import_error + nat) \<times> ('t, 's) output_pool \<times> 'w" where
  "packed_pool_claim tag source_view update create dispose others pw =
     (case pw of (p, w) \<Rightarrow>
      case claim_first claim_lease (\<lambda>(t, r). t = tag) snd (op_slots p) (op_table p) of
        Some ((_, r), l, t) \<Rightarrow> (Ok l, p\<lparr>op_table := t\<rparr>, update r source_view w)
      | None \<Rightarrow>
          claim_new_slot Packed_output (op_max_slots p) tag create dispose
            (p\<lparr>op_table := lease_run others (op_table p)\<rparr>, w))"

section \<open>Interleavings\<close>

text \<open>
  What threads do to a pool: a claim with what the device answers it, and the steps of the leases.
\<close>

datatype ('t, 'v, 's) pool_op =
    Pool_claim 't "'v option" "unit + unit" "unit + 's" "lease_op list"
  | Pool_lease lease_op

fun pool_step :: "('t, 'v, 's) pool_op \<Rightarrow> ('t, 's) output_pool \<Rightarrow> bool \<times> ('t, 's) output_pool" where
  "pool_step (Pool_claim tag view update create others) p =
     (True, fst (snd (nv12_pool_claim tag view (\<lambda>_ _ w. (update, w)) (\<lambda>w. (create, w)) (\<lambda>_ w. w) others (p, ()))))"
| "pool_step (Pool_lease op) p =
     (case lease_step op (op_table p) of (ok, t) \<Rightarrow> (ok, p\<lparr>op_table := t\<rparr>))"

fun pool_run :: "('t, 'v, 's) pool_op list \<Rightarrow> ('t, 's) output_pool \<Rightarrow> bool \<times> ('t, 's) output_pool" where
  "pool_run [] p = (True, p)"
| "pool_run (op # ops) p =
     (case pool_step op p of (ok, p') \<Rightarrow> (case pool_run ops p' of (ok', p'') \<Rightarrow> (ok \<and> ok', p'')))"

section \<open>The invariant of a pool\<close>

definition pool_inv :: "('t, 's) output_pool \<Rightarrow> bool" where
  "pool_inv p \<longleftrightarrow>
     table_inv (op_table p) \<and> distinct (map snd (op_slots p)) \<and>
     length (op_slots p) \<le> op_max_slots p \<and>
     (\<forall>(t, r) \<in> set (op_slots p). r < op_next p) \<and>
     (\<forall>l r q. lt_leases (op_table p) l = Some (r, q) \<longrightarrow>
        r < op_next p \<and> (q = Released \<or> r \<in> snd ` set (op_slots p)))"

lemma swap_remove_last: "swap_remove (length xs) (xs @ [x]) = xs"
  by (simp add: swap_remove_def)

lemma swap_remove_inner: "i < length xs \<Longrightarrow> swap_remove i (xs @ [x]) = xs[i := x]"
  by (simp add: swap_remove_def list_update_append)

lemma swap_remove_facts:
  assumes "i < length xs" and "distinct (map f xs)"
  shows "set (swap_remove i xs) = set xs - {xs ! i}" and "distinct (map f (swap_remove i xs))"
    and "length (swap_remove i xs) = length xs - 1"
proof -
  from assms(1) obtain ys x where xs: "xs = ys @ [x]" by (cases xs rule: rev_cases) auto
  have distinct: "distinct (map f ys)" "f x \<notin> f ` set ys" using assms(2) xs by auto
  have ys: "distinct ys" using distinct(1) by (simp add: distinct_map)
  have x: "x \<notin> set ys" using distinct(2) by auto
  show "length (swap_remove i xs) = length xs - 1" by (simp add: swap_remove_def)
  consider "i = length ys" | "i < length ys" using assms(1) xs by fastforce
  then have "set (swap_remove i xs) = set xs - {xs ! i} \<and> distinct (map f (swap_remove i xs))"
  proof cases
    case 1
    then show ?thesis using distinct x by (simp add: xs swap_remove_last)
  next
    case 2
    have "set (ys[i := x]) = insert x (set ys - {ys ! i})"
      using ys 2 by (rule set_update_distinct)
    moreover have "distinct ((map f ys)[i := f x])"
      using distinct by (simp add: distinct_list_update image_def)
    ultimately show ?thesis
      using 2 x ys by (auto simp: xs swap_remove_inner nth_append map_update)
  qed
  then show "set (swap_remove i xs) = set xs - {xs ! i}" and "distinct (map f (swap_remove i xs))"
    by simp_all
qed

lemma position_Some: "position P xs = Some i \<Longrightarrow> i < length xs \<and> P (xs ! i)"
  by (induction xs arbitrary: i) (auto split: if_splits)

lemma position_None: "position P xs = None \<longleftrightarrow> (\<forall>x \<in> set xs. \<not> P x)"
  by (induction xs) auto

lemma pool_inv_new: "pool_inv (output_pool_new max_slots)"
  by (simp add: pool_inv_def output_pool_new_def table_inv_empty) (simp add: empty_table_def)

lemma pool_inv_lease_step:
  assumes "pool_inv p"
  shows "pool_inv (p\<lparr>op_table := snd (lease_step op (op_table p))\<rparr>)"
proof -
  let ?t = "snd (lease_step op (op_table p))"
  have inv: "table_inv (op_table p)" using assms by (simp add: pool_inv_def)
  have bounded: "r < op_next p \<and> (q = Released \<or> r \<in> snd ` set (op_slots p))"
    if "lt_leases ?t l = Some (r, q)" for l r q
  proof -
    have "map_option fst (lt_leases (op_table p) l) = Some r"
      using that lease_step_shrinks [of op "op_table p" "fst (lease_step op (op_table p))" ?t]
      by (metis empty_iff insertE option.distinct(1) option.map(2) prod.collapse prod.sel(1))
    then obtain q' where q': "lt_leases (op_table p) l = Some (r, q')" by auto
    have "q = Released" if "q' = Released"
      using that q' \<open>lt_leases ?t l = Some (r, q)\<close> by (rule lease_step_released)
    then show ?thesis using assms q' unfolding pool_inv_def by blast
  qed
  then show ?thesis
    using assms table_inv_step(2) [OF inv, of op] unfolding pool_inv_def by simp
qed

lemma pool_inv_lease_run:
  "pool_inv p \<Longrightarrow> pool_inv (p\<lparr>op_table := lease_run ops (op_table p)\<rparr>)"
proof (induction ops arbitrary: p)
  case Nil
  then show ?case by simp
next
  case (Cons op ops)
  then show ?case
    using Cons.IH [OF pool_inv_lease_step [OF Cons.prems, of op]] by simp
qed

text \<open>The claim of a slot of the pool, and of a slot that was just created.\<close>

lemma pool_inv_claim:
  assumes "pool_inv p" and "claim_lease r (op_table p) = Some (l, t)" and "r \<in> snd ` set (op_slots p)"
  shows "pool_inv (p\<lparr>op_table := t\<rparr>)"
proof -
  have inv: "table_inv (op_table p)" using assms(1) by (simp add: pool_inv_def)
  have bounded: "r' < op_next p \<and> (q = Released \<or> r' \<in> snd ` set (op_slots p))"
    if "lt_leases t l' = Some (r', q)" for l' r' q
  proof (cases "l' = l")
    case True
    then show ?thesis
      using that assms(1,3) claim_lease_active(5) [OF inv assms(2)] unfolding pool_inv_def by auto
  next
    case False
    then have "lt_leases (op_table p) l' = Some (r', q)"
      using that claim_lease_active(5) [OF inv assms(2)] by simp
    then show ?thesis using assms(1) unfolding pool_inv_def by blast
  qed
  then show ?thesis
    using assms(1) claim_lease_active(2) [OF inv assms(2)] unfolding pool_inv_def by simp
qed

lemma fresh_slot_free:
  assumes "pool_inv p"
  shows "\<exists>t. claim_lease (op_next p) (op_table p) = Some (lt_next (op_table p), t)"
proof -
  have "active (op_table p) (op_next p) = {}"
    using assms unfolding pool_inv_def active_def by fastforce
  then have "op_next p \<notin> lt_claimed (op_table p)"
    using assms by (simp add: pool_inv_def table_inv_def)
  then show ?thesis by (simp add: claim_lease_def)
qed

lemma push_slot_inv:
  assumes "pool_inv p" and "length (op_slots p) < op_max_slots p"
  shows "fst (push_slot tag resources p) = lt_next (op_table p)" and "pool_inv (snd (push_slot tag resources p))"
proof -
  obtain t where t: "claim_lease (op_next p) (op_table p) = Some (lt_next (op_table p), t)"
    using fresh_slot_free [OF assms(1)] by blast
  let ?p = "p\<lparr>op_slots := op_slots p @ [(tag, op_next p)], op_next := op_next p + 1\<rparr>"
  have "op_next p \<notin> snd ` set (op_slots p)"
    using assms(1) unfolding pool_inv_def by fastforce
  moreover have "\<forall>l r q. lt_leases (op_table p) l = Some (r, q) \<longrightarrow> r < op_next p + 1"
    using assms(1) less_SucI unfolding pool_inv_def by fastforce
  ultimately have "pool_inv ?p"
    using assms unfolding pool_inv_def by (fastforce simp: less_SucI)
  then have "pool_inv (?p\<lparr>op_table := t\<rparr>)"
    by (rule pool_inv_claim) (use t in auto)
  then show "pool_inv (snd (push_slot tag resources p))" by (simp add: push_slot_def t pool_inv_def)
  show "fst (push_slot tag resources p) = lt_next (op_table p)" by (simp add: push_slot_def t)
qed

text \<open>Room is made exactly if the pool is not full or a slot of another tag is idle.\<close>

definition slot_room :: "'t \<Rightarrow> ('t, 's) output_pool \<Rightarrow> bool" where
  "slot_room tag p \<longleftrightarrow> length (op_slots p) < op_max_slots p \<or>
     list_ex (\<lambda>(t, r). r \<notin> lt_claimed (op_table p) \<and> t \<noteq> tag) (op_slots p)"

lemma make_slot_room_None: "make_slot_room tag p = None \<longleftrightarrow> \<not> slot_room tag p"
  by (auto simp: make_slot_room_def slot_room_def position_None list_ex_iff split: option.split)
    (fastforce dest: position_Some nth_mem)

lemma make_slot_room_inv:
  assumes "pool_inv p" and "make_slot_room tag p = Some p'"
  shows "pool_inv p'" and "length (op_slots p') < op_max_slots p'" and "op_table p' = op_table p"
    and "op_max_slots p' = op_max_slots p" and "op_next p' = op_next p"
proof -
  show "op_table p' = op_table p" "op_max_slots p' = op_max_slots p" "op_next p' = op_next p"
    using assms(2) by (auto simp: make_slot_room_def split: if_splits option.splits)
  have "pool_inv p' \<and> length (op_slots p') < op_max_slots p'"
  proof (cases "op_max_slots p \<le> length (op_slots p)")
    case False
    then show ?thesis using assms by (simp add: make_slot_room_def)
  next
    case True
    then obtain i where i: "position (\<lambda>(t, r). r \<notin> lt_claimed (op_table p) \<and> t \<noteq> tag) (op_slots p) = Some i"
      and p': "p' = p\<lparr>op_slots := swap_remove i (op_slots p)\<rparr>"
      using assms(2) by (auto simp: make_slot_room_def split: option.splits)
    have distinct: "distinct (map snd (op_slots p))" using assms(1) by (simp add: pool_inv_def)
    have lt: "i < length (op_slots p)" and free: "snd (op_slots p ! i) \<notin> lt_claimed (op_table p)"
      using position_Some [OF i] by auto
    note facts = swap_remove_facts [OF lt distinct]
    have others: "snd e \<noteq> snd (op_slots p ! i)" if "e \<in> set (op_slots p)" "e \<noteq> op_slots p ! i" for e
      using that lt distinct by (metis distinct_map inj_onD nth_mem)
    have slots: "snd ` set (swap_remove i (op_slots p)) = snd ` set (op_slots p) - {snd (op_slots p ! i)}"
      unfolding facts(1) using others by auto
    have live: "r \<noteq> snd (op_slots p ! i)"
      if "lt_leases (op_table p) l = Some (r, q)" "q \<noteq> Released" for l r q
      using that free assms(1) unfolding pool_inv_def table_inv_def active_def by fastforce
    have "pool_inv p'"
      using assms(1) facts live unfolding pool_inv_def p' by (fastforce simp: slots)
    moreover have "length (op_slots p) \<le> op_max_slots p" using assms(1) by (simp add: pool_inv_def)
    then have "length (op_slots p') < op_max_slots p'" using lt facts(3) unfolding p' by simp
    ultimately show ?thesis by simp
  qed
  then show "pool_inv p'" and "length (op_slots p') < op_max_slots p'" by simp_all
qed

lemma claim_new_slot_inv:
  assumes "pool_inv p"
  shows "pool_inv (fst (snd (claim_new_slot name limit tag create dispose (p, w))))"
proof (cases "make_slot_room tag p")
  case None
  then show ?thesis using assms by (simp add: claim_new_slot_def)
next
  case (Some p1)
  note p1 = make_slot_room_inv(1,2) [OF assms Some]
  show ?thesis
    using Some p1(1) push_slot_inv(2) [OF p1] by (simp add: claim_new_slot_def split_beta split: sum.split)
qed

lemma claim_first_pool:
  assumes "pool_inv p"
    and "claim_first claim_lease P snd (op_slots p) (op_table p) = Some ((tag, r), l, t)"
  shows "(tag, r) \<in> set (op_slots p)" and "P (tag, r)" and "claim_lease r (op_table p) = Some (l, t)"
    and "pool_inv (p\<lparr>op_table := t\<rparr>)"
proof -
  have inv: "table_inv (op_table p)" using assms(1) by (simp add: pool_inv_def)
  have found: "find (\<lambda>x. P x \<and> leases.free (op_table p) (snd x)) (op_slots p) = Some (tag, r)"
    "claim_lease r (op_table p) = Some (l, t)"
    using leases.claim_first_finds [OF inv, where P = P and res = snd and xs = "op_slots p"] assms(2) by simp_all
  then show slot: "(tag, r) \<in> set (op_slots p)" and "P (tag, r)"
    by (metis find_Some_iff nth_mem)+
  show "claim_lease r (op_table p) = Some (l, t)" by (fact found(2))
  show "pool_inv (p\<lparr>op_table := t\<rparr>)"
    using slot by (intro pool_inv_claim [OF assms(1) found(2)]) force
qed

text \<open>Dropping a lease that was just taken.\<close>

lemma drop_claimed:
  assumes "table_inv t" and "claim_lease r t = Some (l, t')"
  shows "drop_lease l t' = snd (lease_step (Drop_lease l) t')"
    and "lt_claimed (drop_lease l t') = lt_claimed t"
  using claim_lease_active(3-5) [OF assms]
  by (auto simp: drop_lease_def release_lease_def release_swap_def release_clear_def Let_def)

lemma nv12_pool_claim_inv:
  assumes "pool_inv p"
  shows "pool_inv (fst (snd (nv12_pool_claim tag view update create dispose others (p, w))))"
proof (cases "claim_first claim_lease (\<lambda>(t, r). t = tag) snd (op_slots p) (op_table p)")
  case None
  then show ?thesis
    using claim_new_slot_inv [OF pool_inv_lease_run [OF assms]] by (simp add: nv12_pool_claim_def)
next
  case (Some found)
  then obtain t r l table where found: "found = ((t, r), l, table)" by (cases found) auto
  note claimed = claim_first_pool [OF assms Some [unfolded found]]
  have inv: "table_inv (op_table p)" using assms by (simp add: pool_inv_def)
  have "pool_inv (p\<lparr>op_table := drop_lease l table\<rparr>)"
    using pool_inv_lease_step [OF claimed(4), of "Drop_lease l"]
    unfolding drop_claimed(1) [OF inv claimed(3)] by simp
  then show ?thesis
    using Some claimed(4) by (simp add: nv12_pool_claim_def found split: option.split sum.split prod.split)
qed

lemma packed_pool_claim_inv:
  assumes "pool_inv p"
  shows "pool_inv (fst (snd (packed_pool_claim tag view update create dispose others (p, w))))"
proof (cases "claim_first claim_lease (\<lambda>(t, r). t = tag) snd (op_slots p) (op_table p)")
  case None
  then show ?thesis
    using claim_new_slot_inv [OF pool_inv_lease_run [OF assms]] by (simp add: packed_pool_claim_def)
next
  case (Some found)
  then obtain t r l table where found: "found = ((t, r), l, table)" by (cases found) auto
  show ?thesis
    using Some claim_first_pool(4) [OF assms Some [unfolded found]]
    by (simp add: packed_pool_claim_def found)
qed

lemma pool_step_inv:
  assumes "pool_inv p"
  shows "fst (pool_step op p)" and "pool_inv (snd (pool_step op p))"
proof -
  have "fst (pool_step op p) \<and> pool_inv (snd (pool_step op p))"
  proof (cases op)
    case (Pool_claim tag view update create others)
    then show ?thesis using nv12_pool_claim_inv [OF assms] by simp
  next
    case (Pool_lease lease_op)
    have "table_inv (op_table p)" using assms by (simp add: pool_inv_def)
    then show ?thesis
      using table_inv_step(1) pool_inv_lease_step [OF assms] Pool_lease by (simp add: split_beta)
  qed
  then show "fst (pool_step op p)" and "pool_inv (snd (pool_step op p))" by simp_all
qed

lemma pool_run_inv:
  "pool_inv p \<Longrightarrow> fst (pool_run ops p) \<and> pool_inv (snd (pool_run ops p))"
proof (induction ops arbitrary: p)
  case Nil
  then show ?case by simp
next
  case (Cons op ops)
  have "pool_inv (snd (pool_step op p))" and "fst (pool_step op p)"
    using Cons.prems pool_step_inv by blast+
  then show ?case using Cons.IH [of "snd (pool_step op p)"] by (simp add: split_beta)
qed

lemma pool_reachable: "pool_inv (snd (pool_run ops (output_pool_new max_slots)))"
  using pool_run_inv [OF pool_inv_new] by blast

lemma lease_run_max: "op_max_slots (fst (snd (claim_new_slot name limit tag create dispose (p, w)))) = op_max_slots p"
  by (auto simp: claim_new_slot_def make_slot_room_def push_slot_def
      split: option.split sum.split prod.split)

lemma pool_step_max: "op_max_slots (snd (pool_step op p)) = op_max_slots p"
  by (cases op) (auto simp: nv12_pool_claim_def lease_run_max split_beta split: option.split sum.split)

section \<open>What a claim decides\<close>

lemma leases_free_iff: "table_inv t \<Longrightarrow> leases.free t r \<longleftrightarrow> r \<notin> lt_claimed t"
  by (simp add: leases.free_def table_inv_def)

definition free_slot :: "'t \<Rightarrow> ('t, 's) output_pool \<Rightarrow> ('t \<times> nat) option" where
  "free_slot tag p = find (\<lambda>(t, r). t = tag \<and> r \<notin> lt_claimed (op_table p)) (op_slots p)"

lemma claim_first_free_slot:
  assumes "pool_inv p"
  shows "claim_first claim_lease (\<lambda>(t, r). t = tag) snd (op_slots p) (op_table p) =
    (case free_slot tag p of
       None \<Rightarrow> None
     | Some (t, r) \<Rightarrow> Some ((t, r), lt_next (op_table p), snd (the (claim_lease r (op_table p)))))"
proof -
  have inv: "table_inv (op_table p)" using assms by (simp add: pool_inv_def)
  have same: "(\<lambda>x. (case x of (t, r) \<Rightarrow> t = tag) \<and> leases.free (op_table p) (snd x)) =
      (\<lambda>(t, r). t = tag \<and> r \<notin> lt_claimed (op_table p))"
    using leases_free_iff [OF inv] by (auto simp: fun_eq_iff)
  note finds = leases.claim_first_finds [OF inv, where P = "\<lambda>(t, r). t = tag" and res = snd
      and xs = "op_slots p", unfolded same]
  show ?thesis
  proof (cases "claim_first claim_lease (\<lambda>(t, r). t = tag) snd (op_slots p) (op_table p)")
    case None
    have "free_slot tag p = None"
      using finds None leases_free_iff [OF inv] by (fastforce simp: free_slot_def find_None_iff)
    then show ?thesis using None by simp
  next
    case (Some found)
    then show ?thesis
      using finds claim_lease_active(6) [OF inv]
      by (cases found) (auto simp: free_slot_def)
  qed
qed

text \<open>The decision of an undisturbed claim, and what the device did for it.\<close>

definition output_decision ::
  "'t \<Rightarrow> 'v option \<Rightarrow> (nat \<Rightarrow> 'v \<Rightarrow> 'w \<Rightarrow> ('e + unit) \<times> 'w) \<Rightarrow> ('w \<Rightarrow> ('e + 's) \<times> 'w) \<Rightarrow>
   ('s \<Rightarrow> 'w \<Rightarrow> 'w) \<Rightarrow> ('t, 's) output_pool \<Rightarrow> 'w \<Rightarrow> ('e vulkan_import_error + nat) \<times> 'w" where
  "output_decision tag view update create dispose p w =
     (case free_slot tag p of
        Some (t, r) \<Rightarrow>
          (case view of
             None \<Rightarrow> (Ok (lt_next (op_table p)), w)
           | Some v \<Rightarrow> (case update r v w of
                 (Inl e, w') \<Rightarrow> (Err (Other e), w')
               | (Inr _, w') \<Rightarrow> (Ok (lt_next (op_table p)), w')))
      | None \<Rightarrow>
          if slot_room tag p
          then (case create (fold dispose (removed_slots p (the (make_slot_room tag p))) w) of
              (Inl e, w') \<Rightarrow> (Err (Other e), w')
            | (Inr _, w') \<Rightarrow> (Ok (lt_next (op_table p)), w'))
          else (Err (PoolSaturated Nv12_output (op_max_slots p)), w))"

lemma claim_new_slot_decision:
  assumes "pool_inv p"
  shows "(case claim_new_slot name limit tag create dispose (p, w) of (result, p', w') \<Rightarrow> (result, w')) =
    (if slot_room tag p
     then (case create (fold dispose (removed_slots p (the (make_slot_room tag p))) w) of
         (Inl e, w') \<Rightarrow> (Err (Other e), w')
       | (Inr _, w') \<Rightarrow> (Ok (lt_next (op_table p)), w'))
     else (Err (PoolSaturated name limit), w))"
proof (cases "make_slot_room tag p")
  case None
  then show ?thesis using make_slot_room_None [of tag p] by (simp add: claim_new_slot_def)
next
  case (Some p1)
  have "slot_room tag p" using Some make_slot_room_None [of tag p] by auto
  moreover have "fst (push_slot tag resources p1) = lt_next (op_table p)" for resources
    using push_slot_inv(1) make_slot_room_inv(1-3) [OF assms Some] by metis
  ultimately show ?thesis
    using Some by (simp add: claim_new_slot_def split_beta split: sum.split)
qed

lemma nv12_pool_claim_decision:
  assumes "pool_inv p"
  shows "(case nv12_pool_claim tag view update create dispose [] (p, w) of (result, p', w') \<Rightarrow> (result, w')) =
    output_decision tag view update create dispose p w"
proof (cases "free_slot tag p")
  case None
  then show ?thesis
    by (simp add: nv12_pool_claim_def claim_first_free_slot [OF assms] output_decision_def
        claim_new_slot_decision [OF assms])
next
  case (Some e)
  then show ?thesis
    by (cases e) (simp add: nv12_pool_claim_def claim_first_free_slot [OF assms] output_decision_def
        split: option.split sum.split prod.split)
qed

text \<open>A failed claim leaves every slot as claimed as it was.\<close>

lemma nv12_pool_claim_error:
  assumes "pool_inv p"
    and "nv12_pool_claim tag view update create dispose others (p, w) = (Err e, p', w')"
  shows "lt_claimed (op_table p') \<subseteq> lt_claimed (op_table p)"
proof -
  have run: "lt_claimed (lease_run ops t) \<subseteq> lt_claimed t" for ops t
  proof (induction ops arbitrary: t)
    case (Cons op ops)
    then show ?case
      using lease_step_shrinks [of op t "fst (lease_step op t)" "snd (lease_step op t)"]
      by simp blast
  qed simp
  have inv: "table_inv (op_table p)" using assms(1) by (simp add: pool_inv_def)
  show ?thesis
  proof (cases "claim_first claim_lease (\<lambda>(t, r). t = tag) snd (op_slots p) (op_table p)")
    case None
    then show ?thesis
      using assms(2) run [of others "op_table p"]
        make_slot_room_inv(3) [OF pool_inv_lease_run [OF assms(1), of others]]
      by (auto simp: nv12_pool_claim_def claim_new_slot_def split: option.splits sum.splits prod.splits)
  next
    case (Some found)
    then obtain t r l table where
      scan: "claim_first claim_lease (\<lambda>(t, r). t = tag) snd (op_slots p) (op_table p) =
        Some ((t, r), l, table)"
      by (cases found) auto
    have dropped: "lt_claimed (drop_lease l table) = lt_claimed (op_table p)"
      using drop_claimed(2) [OF inv claim_first_pool(3) [OF assms(1) scan]] .
    have "p' = p\<lparr>op_table := drop_lease l table\<rparr>"
    proof (cases view)
      case None
      then show ?thesis using assms(2) by (simp add: nv12_pool_claim_def scan)
    next
      case (Some v)
      obtain outcome w1 where update: "update r v w = (outcome, w1)" by fastforce
      show ?thesis
        using assms(2) by (cases outcome) (simp_all add: nv12_pool_claim_def scan Some update)
    qed
    then show ?thesis using dropped by simp
  qed
qed

section \<open>Properties\<close>

definition pool_exclusive :: "('t, 's) output_pool \<Rightarrow> bool" where
  "pool_exclusive p \<longleftrightarrow>
     (\<forall>r. \<forall>l \<in> active (op_table p) r. \<forall>l' \<in> active (op_table p) r. l = l') \<and>
     (\<forall>r. active (op_table p) r \<noteq> {} \<longrightarrow> r \<in> snd ` set (op_slots p)) \<and>
     distinct (map snd (op_slots p))"

lemma pool_inv_exclusive:
  assumes "pool_inv p"
  shows "pool_exclusive p"
proof -
  have "r \<in> snd ` set (op_slots p)" if "active (op_table p) r \<noteq> {}" for r
    using that assms unfolding pool_inv_def active_def by fastforce
  moreover have "l = l'" if "l \<in> active (op_table p) r" "l' \<in> active (op_table p) r" for r l l'
    using that assms unfolding pool_inv_def table_inv_def by blast
  moreover have "distinct (map snd (op_slots p))" using assms by (simp add: pool_inv_def)
  ultimately show ?thesis unfolding pool_exclusive_def by blast
qed

text \<open>An output image is leased to one frame at a time. After any interleaving of claims, releases
  and drops, with every answer the device may give: no assertion about a double release fails,
  two leases that are not released are on different slots, such a slot is still in its pool, and
  the pool never has more slots than its limit.\<close>

lemma output_leases_exclusive:
  "fst (pool_run ops (output_pool_new max_slots)) \<and>
   pool_exclusive (snd (pool_run ops (output_pool_new max_slots))) \<and>
   length (op_slots (snd (pool_run ops (output_pool_new max_slots)))) \<le> max_slots"
proof -
  have max: "op_max_slots (snd (pool_run ops p)) = op_max_slots p" for p :: "('a, 'b) output_pool"
    by (induction ops arbitrary: p) (simp_all add: split_beta pool_step_max)
  have "pool_inv (snd (pool_run ops (output_pool_new max_slots)))" by (rule pool_reachable)
  then have "length (op_slots (snd (pool_run ops (output_pool_new max_slots)))) \<le> max_slots"
    using max [of "output_pool_new max_slots"] unfolding pool_inv_def
    by (simp add: output_pool_new_def)
  then show ?thesis using pool_run_inv [OF pool_inv_new] pool_inv_exclusive by blast
qed

text \<open>What an undisturbed claim of an output decides, in every reachable state of the pool: the first
  free slot of the same dimensions and strategy, with its descriptors pointed at the source; else a
  new slot, if the pool is not full or an idle slot of other dimensions or strategy can be given up,
  whose objects are then dropped before the creation unless a lease still refers to it;
  else saturation. So it reports \<open>PoolSaturated\<close> only when every slot of a full pool is leased.\<close>

lemma output_claim_decides:
  "let p = snd (pool_run ops (output_pool_new max_slots)) in
   (case nv12_pool_claim tag view update create dispose [] (p, w) of (result, p', w') \<Rightarrow> (result, w')) =
     output_decision tag view update create dispose p w"
  unfolding Let_def using pool_reachable by (rule nv12_pool_claim_decision)

lemma saturated_means_leased:
  assumes "free_slot tag p = None" and "\<not> slot_room tag p" and "pool_inv p"
  shows "length (op_slots p) = op_max_slots p \<and> (\<forall>(t, r) \<in> set (op_slots p). r \<in> lt_claimed (op_table p))"
  using assms by (fastforce simp: free_slot_def slot_room_def find_None_iff list_ex_iff pool_inv_def)

text \<open>A failed claim of an output keeps nothing. If \<open>Nv12OutputPool::claim\<close> returns an error, because
  the pool is saturated, the slot could not be created or its descriptors not be updated, then no
  slot is claimed that was not claimed before, in any reachable state and whatever leases are
  released meanwhile.\<close>

lemma output_claim_error_keeps_nothing:
  assumes "p = snd (pool_run ops (output_pool_new max_slots))"
    and "nv12_pool_claim tag view update create dispose others (p, w) = (Err e, p', w')"
  shows "lt_claimed (op_table p') \<subseteq> lt_claimed (op_table p)"
  using pool_reachable [of ops max_slots] assms(2) unfolding assms(1) [symmetric]
  by (rule nv12_pool_claim_error)

lemma output_claim_error_keeps_nothing_witness:
  "lt_claimed (op_table (fst (snd (nv12_pool_claim (1 :: nat) (None :: unit option)
       (\<lambda>_ _ w. (Ok (), w)) (\<lambda>w. (Err (2 :: nat) :: nat + unit, w)) (\<lambda>_ w. w) [] (output_pool_new 3, ()))))) \<subseteq> {}"
proof -
  have "nv12_pool_claim (1 :: nat) (None :: unit option) (\<lambda>_ _ w. (Ok (), w)) (\<lambda>w. (Err (2 :: nat) :: nat + unit, w)) (\<lambda>_ w. w) []
      (output_pool_new 3, ()) = (Err (Other 2), output_pool_new 3, ())"
    by (simp add: nv12_pool_claim_def output_pool_new_def claim_new_slot_def make_slot_room_def)
  from output_claim_error_keeps_nothing [OF _ this, of "[] :: (nat, unit, unit) pool_op list" 3]
  show ?thesis
    by (simp add: nv12_pool_claim_def output_pool_new_def claim_new_slot_def make_slot_room_def
        empty_table_def)
qed

end
