(* ===== verification/Device_Resources.thy ===== *)
theory Device_Resources
  imports Vulkan_Capability
begin

text \<open>
  The creation and destruction of Vulkan objects in \<open>vulkan/mod.rs\<close>: imported images and buffers,
  local images, views, cached sources, output slots and compute pipelines, with the error path of
  every call. A device state has the set of live objects; the driver decides which call fails. What
  is shown is that a failed creation leaves no object, memory or descriptor behind, that a successful
  one owns exactly what it created, and that nothing is destroyed twice or under its users.
\<close>

section \<open>Objects and device state\<close>

datatype vk_object =
    Image nat | Buffer nat | Memory nat | Image_view nat | Buffer_view nat
  | Descriptor_set_layout nat | Pipeline_layout nat | Shader_module nat | Pipeline nat
  | Descriptor_pool nat | Descriptor_set nat | Raw_fd nat
  | Command_pool nat | Command_buffer nat | Fence nat | Semaphore nat | Query_pool nat

text \<open>
  What an object is created with, as far as the code chooses it: format, extent, usage, the modifier
  and the offset and pitch of each plane of an imported image (\<open>None\<close>: optimal tiling); size and usage
  of a buffer; the resource and format of a view; the number of storage images of a layout or pool.
\<close>

record image_create_info =
  ici_format :: vk_format
  ici_extent :: dimensions
  ici_modifier :: "(u64 \<times> (u64 \<times> u64) list) option"
  ici_usage :: "image_usage set"
  ici_flags :: "create_flag set"
  ici_view_formats :: "vk_format list"

datatype create_info =
    Image_info image_create_info
  | Buffer_info u64 "buffer_usage set"
  | Image_view_info vk_object vk_format
  | Buffer_view_info vk_object vk_format u64
  | Storage_images nat
  | Plain

text \<open>
  \<open>vs_users o\<close> are the objects that refer to \<open>o\<close> (a view to its image, a bound image to its
  memory). \<open>vs_bindings\<close> are the views a descriptor set points at, in the
  order of its bindings. \<open>vs_fault\<close> is set when an object is destroyed that is not live, or that a live object
  still refers to.
\<close>

record vk_state =
  vs_live :: "vk_object set"
  vs_info :: "vk_object \<Rightarrow> create_info option"
  vs_users :: "vk_object \<Rightarrow> vk_object set"
  vs_bindings :: "vk_object \<Rightarrow> vk_object list option"
  vs_next :: nat
  vs_calls :: nat
  vs_fault :: bool

record memory_requirements =
  mr_size :: u64
  mr_memory_type_bits :: u32

text \<open>
  What the driver answers: the error of the \<open>i\<close>-th fallible call, if it fails; the requirements of
  the \<open>i\<close>-th object; whether the \<open>i\<close>-th call that returns a list returns an empty one, and how many
  pipelines a failed pipeline call returns; the memory types of a DMA-BUF; the number of memory types.
\<close>

record vk_driver =
  dr_fails :: "nat \<Rightarrow> vk_result option"
  dr_requirements :: "vk_object \<Rightarrow> memory_requirements"
  dr_empty :: "nat \<Rightarrow> bool"
  dr_partial :: "nat \<Rightarrow> nat"
  dr_fd_memory_type_bits :: "i32 \<Rightarrow> u32"
  dr_memory_type_count :: nat

text \<open>A fallible call, a call that makes an object, one that destroys it, and a new reference.\<close>

definition vk_call :: "vk_driver \<Rightarrow> vk_state \<Rightarrow> (vk_result + unit) \<times> vk_state" where
  "vk_call driver s =
     (case dr_fails driver (vs_calls s) of
        Some e \<Rightarrow> (Err e, s\<lparr>vs_calls := vs_calls s + 1\<rparr>)
      | None \<Rightarrow> (Ok (), s\<lparr>vs_calls := vs_calls s + 1\<rparr>))"

definition vk_new :: "(nat \<Rightarrow> vk_object) \<Rightarrow> create_info \<Rightarrow> vk_state \<Rightarrow> vk_object \<times> vk_state" where
  "vk_new mk info s =
     (mk (vs_next s), s\<lparr>vs_live := insert (mk (vs_next s)) (vs_live s), vs_next := vs_next s + 1,
        vs_info := (vs_info s)(mk (vs_next s) \<mapsto> info)\<rparr>)"

definition vk_create ::
  "vk_driver \<Rightarrow> (nat \<Rightarrow> vk_object) \<Rightarrow> create_info \<Rightarrow> vk_state \<Rightarrow> (vk_result + vk_object) \<times> vk_state"
where
  "vk_create driver mk info s =
     (case vk_call driver s of
        (Inl e, s') \<Rightarrow> (Err e, s')
      | (Inr _, s') \<Rightarrow> apfst Ok (vk_new mk info s'))"

definition vk_destroy :: "vk_object \<Rightarrow> vk_state \<Rightarrow> vk_state" where
  "vk_destroy obj s =
     s\<lparr>vs_live := vs_live s - {obj},
       vs_fault := vs_fault s \<or> obj \<notin> vs_live s \<or> vs_users s obj \<inter> vs_live s \<noteq> {}\<rparr>"

definition vk_refer :: "vk_object \<Rightarrow> vk_object \<Rightarrow> vk_state \<Rightarrow> vk_state" where
  "vk_refer user obj s = s\<lparr>vs_users := (vs_users s)(obj := insert user (vs_users s obj))\<rparr>"

text \<open>Sequencing with early return, and the error path that cleans up first.\<close>

definition io_bind :: "('w \<Rightarrow> ('e + 'a) \<times> 'w) \<Rightarrow> ('a \<Rightarrow> 'w \<Rightarrow> ('e + 'b) \<times> 'w) \<Rightarrow> 'w \<Rightarrow> ('e + 'b) \<times> 'w" where
  "io_bind m f s = (case m s of (Inl e, s') \<Rightarrow> (Inl e, s') | (Inr x, s') \<Rightarrow> f x s')"

definition io_return :: "'a \<Rightarrow> 'w \<Rightarrow> ('e + 'a) \<times> 'w" where
  "io_return x s = (Inr x, s)"

definition io_map_err :: "('e \<Rightarrow> 'f) \<Rightarrow> ('w \<Rightarrow> ('e + 'a) \<times> 'w) \<Rightarrow> 'w \<Rightarrow> ('f + 'a) \<times> 'w" where
  "io_map_err g m s = apfst (map_err g) (m s)"

definition io_cleanup :: "('w \<Rightarrow> 'w) \<Rightarrow> ('w \<Rightarrow> ('e + 'a) \<times> 'w) \<Rightarrow> 'w \<Rightarrow> ('e + 'a) \<times> 'w" where
  "io_cleanup clean m s = (case m s of (Inl e, s') \<Rightarrow> (Inl e, clean s') | (Inr x, s') \<Rightarrow> (Inr x, s'))"

section \<open>Memory types\<close>

datatype resource_error =
    No_memory_type
  | Fd_properties_failed vk_result
  | Duplicate_fd_failed vk_result
  | Create_import_image_failed vk_result
  | Object_smaller_than_requirement u64 u64
  | Import_image_memory_failed vk_result
  | Bind_image_memory_failed vk_result
  | Buffer_needs_fd_and_size
  | Buffer_span_exceeds_allocation u64 u64
  | Create_source_buffer_failed vk_result
  | Allocation_smaller_than_requirement u64 u64 u64
  | Import_buffer_memory_failed vk_result
  | Bind_buffer_memory_failed vk_result
  | Create_output_image_failed vk_result
  | Allocate_output_memory_failed vk_result
  | Bind_output_memory_failed vk_result
  | Create_output_view_failed vk_result
  | Create_source_view_failed vk_result
  | Direct_cannot_be_source_buffer
  | Transfer_output_has_compute_resources
  | Compute_output_needs_pipeline
  | Compute_output_needs_source_view
  | Direct_cannot_be_compute_output
  | Pipeline_strategy_mismatch
  | Create_descriptor_pool_failed vk_result
  | Allocate_descriptor_set_failed vk_result
  | No_descriptor_set
  | Transfer_output_has_no_descriptor_set
  | Output_lacks_descriptor_set
  | Create_descriptor_layout_failed vk_result
  | Create_pipeline_layout_failed vk_result
  | Shader_bytes_invalid
  | Create_shader_failed vk_result
  | Create_pipeline_failed vk_result
  | No_pipeline

text \<open>
  \<open>select_memory_type\<close>: the first type whose bit is set; the shift of a \<open>u32\<close> by 32 or more would
  panic, so the answer is \<open>None\<close> there. Vulkan has at most 32 memory types.
\<close>

fun find_memory_type :: "u32 \<Rightarrow> nat list \<Rightarrow> nat option" where
  "find_memory_type bits [] = None"
| "find_memory_type bits (index # indices) =
     (if index < 32 \<and> bits AND push_bit index 1 \<noteq> 0 then Some index
      else find_memory_type bits indices)"

definition select_memory_type :: "vk_driver \<Rightarrow> u32 \<Rightarrow> resource_error + u32" where
  "select_memory_type driver bits =
     ok_or No_memory_type
       (map_option word_of_nat (find_memory_type bits [0..<dr_memory_type_count driver]))"

definition imported_memory_type ::
  "vk_driver \<Rightarrow> i32 \<Rightarrow> u32 \<Rightarrow> vk_state \<Rightarrow> (resource_error + u32) \<times> vk_state" where
  "imported_memory_type driver source_fd requirement_bits =
     io_bind (io_map_err Fd_properties_failed (vk_call driver))
       (\<lambda>_ s. (select_memory_type driver (requirement_bits AND dr_fd_memory_type_bits driver source_fd), s))"

text \<open>
  \<open>duplicate_import_fd\<close> opens a descriptor. \<open>allocate_memory\<close> of an import takes it over on
  success only; after a failure it is closed.
\<close>

definition duplicate_import_fd :: "vk_driver \<Rightarrow> vk_state \<Rightarrow> (resource_error + vk_object) \<times> vk_state" where
  "duplicate_import_fd driver = io_map_err Duplicate_fd_failed (vk_create driver Raw_fd Plain)"

definition close_unconsumed_fd :: "vk_object \<Rightarrow> vk_state \<Rightarrow> vk_state" where
  "close_unconsumed_fd fd s = vk_destroy fd s"

definition allocate_imported_memory ::
  "vk_driver \<Rightarrow> vk_object \<Rightarrow> vk_state \<Rightarrow> (vk_result + vk_object) \<times> vk_state" where
  "allocate_imported_memory driver fd s =
     (case vk_create driver Memory Plain s of
        (Inl e, s') \<Rightarrow> (Inl e, s')
      | (Inr memory, s') \<Rightarrow> (Inr memory, vk_destroy fd s'))"

text \<open>A bind: on success the resource refers to its memory.\<close>

definition vk_bind :: "vk_driver \<Rightarrow> vk_object \<Rightarrow> vk_object \<Rightarrow> vk_state \<Rightarrow> (vk_result + unit) \<times> vk_state" where
  "vk_bind driver obj memory s =
     (case vk_call driver s of
        (Inl e, s') \<Rightarrow> (Inl e, s')
      | (Inr _, s') \<Rightarrow> (Inr (), vk_refer obj memory s'))"

section \<open>Allocations\<close>

record image_allocation =
  ia_image :: vk_object
  ia_memory :: vk_object

record buffer_allocation =
  ba_buffer :: vk_object
  ba_memory :: vk_object
  ba_size :: u64

definition image_allocation_drop :: "image_allocation \<Rightarrow> vk_state \<Rightarrow> vk_state" where
  "image_allocation_drop a s = vk_destroy (ia_memory a) (vk_destroy (ia_image a) s)"

definition buffer_allocation_drop :: "buffer_allocation \<Rightarrow> vk_state \<Rightarrow> vk_state" where
  "buffer_allocation_drop a s = vk_destroy (ba_memory a) (vk_destroy (ba_buffer a) s)"

definition import_image_memory ::
  "vk_driver \<Rightarrow> vk_object \<Rightarrow> i32 \<Rightarrow> u64 option \<Rightarrow> vk_state \<Rightarrow>
   (resource_error vulkan_import_error + vk_object) \<times> vk_state" where
  "import_image_memory driver img source_fd allocation_size s =
     (let requirements = dr_requirements driver img in
      if (case allocation_size of Some n \<Rightarrow> n < mr_size requirements | None \<Rightarrow> False)
      then (Err (AllocationSize (Object_smaller_than_requirement
          (case allocation_size of Some n \<Rightarrow> n | None \<Rightarrow> 0) (mr_size requirements))), s)
      else io_bind (io_map_err Other (imported_memory_type driver source_fd (mr_memory_type_bits requirements)))
        (\<lambda>_. io_bind (io_map_err Other (duplicate_import_fd driver))
        (\<lambda>fd. io_bind
          (io_cleanup (close_unconsumed_fd fd)
            (io_map_err (\<lambda>e. Other (Import_image_memory_failed e)) (allocate_imported_memory driver fd)))
        (\<lambda>memory. io_bind
          (io_cleanup (vk_destroy memory)
            (io_map_err (\<lambda>e. Other (Bind_image_memory_failed e)) (vk_bind driver img memory)))
        (\<lambda>_. io_return memory)))) s)"

definition create_direct_image ::
  "vk_driver \<Rightarrow> dimensions \<Rightarrow> i32 \<Rightarrow> u64 \<Rightarrow> imported_plane list \<Rightarrow> vk_format \<Rightarrow> image_usage set \<Rightarrow>
   u64 option \<Rightarrow> vk_state \<Rightarrow> (resource_error vulkan_import_error + image_allocation) \<times> vk_state" where
  "create_direct_image driver dims source_fd modifier planes fmt usage allocation_size =
     io_bind (io_map_err (\<lambda>e. Other (Create_import_image_failed e)) (vk_create driver Image
         (Image_info \<lparr>ici_format = fmt, ici_extent = dims,
            ici_modifier = Some (modifier,
              map (\<lambda>plane. (ip_offset plane, u64_of_u32 (ip_pitch plane))) planes),
            ici_usage = usage, ici_flags = {}, ici_view_formats = []\<rparr>)))
       (\<lambda>img. io_bind
         (io_cleanup (vk_destroy img) (import_image_memory driver img source_fd allocation_size))
       (\<lambda>memory. io_return \<lparr>ia_image = img, ia_memory = memory\<rparr>))"

definition create_imported_buffer_with_allocation_size ::
  "vk_driver \<Rightarrow> i32 \<Rightarrow> u64 \<Rightarrow> u64 \<Rightarrow> buffer_usage set \<Rightarrow> vk_state \<Rightarrow>
   (resource_error vulkan_import_error + buffer_allocation) \<times> vk_state" where
  "create_imported_buffer_with_allocation_size driver source_fd buffer_size allocation_size usage s =
     (if is_negative source_fd \<or> buffer_size = 0 \<or> allocation_size = 0
      then (Err (AllocationSize Buffer_needs_fd_and_size), s)
      else if allocation_size < buffer_size
      then (Err (AllocationSize (Buffer_span_exceeds_allocation buffer_size allocation_size)), s)
      else io_bind (io_map_err (\<lambda>e. Other (Create_source_buffer_failed e)) (vk_create driver Buffer
          (Buffer_info buffer_size usage)))
        (\<lambda>buffer s. let requirements = dr_requirements driver buffer in
          if allocation_size < mr_size requirements
          then (Err (AllocationSize (Allocation_smaller_than_requirement allocation_size
              (mr_size requirements) buffer_size)), vk_destroy buffer s)
          else io_bind
            (io_cleanup (vk_destroy buffer) (io_map_err Other
              (imported_memory_type driver source_fd (mr_memory_type_bits requirements))))
          (\<lambda>_. io_bind
            (io_cleanup (vk_destroy buffer) (io_map_err Other (duplicate_import_fd driver)))
          (\<lambda>fd. io_bind
            (io_cleanup (\<lambda>s. vk_destroy buffer (close_unconsumed_fd fd s))
              (io_map_err (\<lambda>e. Other (Import_buffer_memory_failed e)) (allocate_imported_memory driver fd)))
          (\<lambda>memory. io_bind
            (io_cleanup (\<lambda>s. vk_destroy buffer (vk_destroy memory s))
              (io_map_err (\<lambda>e. Other (Bind_buffer_memory_failed e)) (vk_bind driver buffer memory)))
          (\<lambda>_. io_return \<lparr>ba_buffer = buffer, ba_memory = memory, ba_size = buffer_size\<rparr>)))) s) s)"

definition create_imported_buffer ::
  "vk_driver \<Rightarrow> i32 \<Rightarrow> u64 \<Rightarrow> buffer_usage set \<Rightarrow> vk_state \<Rightarrow>
   (resource_error vulkan_import_error + buffer_allocation) \<times> vk_state" where
  "create_imported_buffer driver source_fd allocation_size usage =
     create_imported_buffer_with_allocation_size driver source_fd allocation_size allocation_size usage"

definition create_local_image_with_flags ::
  "vk_driver \<Rightarrow> dimensions \<Rightarrow> vk_format \<Rightarrow> image_usage set \<Rightarrow> create_flag set \<Rightarrow> vk_format list \<Rightarrow>
   vk_state \<Rightarrow> (resource_error + image_allocation) \<times> vk_state" where
  "create_local_image_with_flags driver dims fmt usage flags view_formats =
     io_bind (io_map_err Create_output_image_failed (vk_create driver Image
         (Image_info \<lparr>ici_format = fmt, ici_extent = dims, ici_modifier = None, ici_usage = usage,
            ici_flags = flags, ici_view_formats = view_formats\<rparr>)))
       (\<lambda>img. io_bind
         (io_cleanup (vk_destroy img)
           (\<lambda>s. (select_memory_type driver (mr_memory_type_bits (dr_requirements driver img)), s)))
       (\<lambda>_. io_bind
         (io_cleanup (vk_destroy img)
           (io_map_err Allocate_output_memory_failed (vk_create driver Memory Plain)))
       (\<lambda>memory. io_bind
         (io_cleanup (\<lambda>s. vk_destroy img (vk_destroy memory s))
           (io_map_err Bind_output_memory_failed (vk_bind driver img memory)))
       (\<lambda>_. io_return \<lparr>ia_image = img, ia_memory = memory\<rparr>))))"

definition create_local_image ::
  "vk_driver \<Rightarrow> dimensions \<Rightarrow> vk_format \<Rightarrow> image_usage set \<Rightarrow> vk_state \<Rightarrow>
   (resource_error + image_allocation) \<times> vk_state" where
  "create_local_image driver dims fmt usage =
     create_local_image_with_flags driver dims fmt usage {} []"

text \<open>A view refers to its resource.\<close>

definition create_view ::
  "vk_driver \<Rightarrow> (nat \<Rightarrow> vk_object) \<Rightarrow> create_info \<Rightarrow> vk_object \<Rightarrow> vk_state \<Rightarrow>
   (vk_result + vk_object) \<times> vk_state" where
  "create_view driver mk info resource =
     io_bind (vk_create driver mk info) (\<lambda>view s. (Ok view, vk_refer view resource s))"

definition create_image_view ::
  "vk_driver \<Rightarrow> vk_object \<Rightarrow> vk_format \<Rightarrow> vk_state \<Rightarrow> (resource_error + vk_object) \<times> vk_state" where
  "create_image_view driver img fmt =
     io_map_err Create_output_view_failed
       (create_view driver Image_view (Image_view_info img fmt) img)"

section \<open>Cached sources\<close>

datatype nv12_source_allocation =
    Source_direct image_allocation
  | Source_compute vk_object buffer_allocation
  | Source_transfer buffer_allocation

fun compute_view :: "nv12_source_allocation \<Rightarrow> vk_object option" where
  "compute_view (Source_compute view source) = Some view"
| "compute_view _ = None"

fun allocation_source :: "nv12_source_allocation \<Rightarrow> buffer_allocation option" where
  "allocation_source (Source_compute view source) = Some source"
| "allocation_source (Source_transfer source) = Some source"
| "allocation_source (Source_direct sampled) = None"

text \<open>The fields drop in order: the view before its buffer.\<close>

fun nv12_source_drop :: "nv12_source_allocation \<Rightarrow> vk_state \<Rightarrow> vk_state" where
  "nv12_source_drop (Source_direct sampled) s = image_allocation_drop sampled s"
| "nv12_source_drop (Source_compute view source) s =
     buffer_allocation_drop source (vk_destroy view s)"
| "nv12_source_drop (Source_transfer source) s = buffer_allocation_drop source s"

datatype packed_source_allocation =
    Packed_source_direct image_allocation
  | Packed_source_staged vk_object buffer_allocation

fun packed_source_drop :: "packed_source_allocation \<Rightarrow> vk_state \<Rightarrow> vk_state" where
  "packed_source_drop (Packed_source_direct sampled) s = image_allocation_drop sampled s"
| "packed_source_drop (Packed_source_staged view source) s =
     buffer_allocation_drop source (vk_destroy view s)"

text \<open>A local that is still owned when the function returns early is dropped.\<close>

definition create_buffer_view ::
  "vk_driver \<Rightarrow> buffer_allocation \<Rightarrow> u64 \<Rightarrow> vk_state \<Rightarrow> (vk_result + vk_object) \<times> vk_state" where
  "create_buffer_view driver source span =
     io_cleanup (buffer_allocation_drop source)
       (create_view driver Buffer_view (Buffer_view_info (ba_buffer source) R32_UINT span)
         (ba_buffer source))"

definition create_cached_nv12_source ::
  "vk_driver \<Rightarrow> i32 \<Rightarrow> u64 \<Rightarrow> u64 \<Rightarrow> nv12_import_strategy \<Rightarrow> vk_state \<Rightarrow>
   (resource_error vulkan_import_error + nv12_source_allocation) \<times> vk_state" where
  "create_cached_nv12_source driver source_fd source_buffer_size source_allocation_size strategy s =
     (if strategy \<in> {LinearBufferToOptimalNv12, LinearBufferToOptimalYuvPlanes}
      then io_bind (create_imported_buffer_with_allocation_size driver source_fd source_buffer_size
          source_allocation_size TRANSFER_NV12_SOURCE_USAGE)
        (\<lambda>source. io_return (Source_transfer source)) s
      else if strategy \<in> {LinearBufferToYuvPlanes, LinearBufferToRgba}
      then io_bind (create_imported_buffer_with_allocation_size driver source_fd source_buffer_size
          source_allocation_size STAGED_NV12_SOURCE_USAGE)
        (\<lambda>source. io_bind
          (io_map_err (\<lambda>e. Other (Create_source_view_failed e))
            (create_buffer_view driver source source_buffer_size))
        (\<lambda>view. io_return (Source_compute view source))) s
      else (Err (Other Direct_cannot_be_source_buffer), s))"

definition create_cached_packed_staged_source ::
  "vk_driver \<Rightarrow> i32 \<Rightarrow> u64 \<Rightarrow> vk_state \<Rightarrow>
   (resource_error vulkan_import_error + packed_source_allocation) \<times> vk_state" where
  "create_cached_packed_staged_source driver source_fd source_allocation_size =
     io_bind (create_imported_buffer driver source_fd source_allocation_size STAGED_PACKED_SOURCE_USAGE)
       (\<lambda>source. io_bind
         (io_map_err (\<lambda>e. Other (Create_source_view_failed e))
           (create_buffer_view driver source source_allocation_size))
       (\<lambda>view. io_return (Packed_source_staged view source)))"

section \<open>Compute pipelines\<close>

datatype compute_output = Output_rgba | Output_yuv_planes

record compute_pipeline =
  cp_output :: compute_output
  cp_descriptor_set_layout :: vk_object
  cp_pipeline_layout :: vk_object
  cp_pipeline :: vk_object

text \<open>The embedded shader as little-endian words: its length must be a multiple of four.\<close>

fun shader_words_of :: "8 word list \<Rightarrow> (resource_error + u32 list)" where
  "shader_words_of [] = Ok []"
| "shader_words_of (a # b # c # d # bytes) =
     map_ok (\<lambda>words. (ucast a OR push_bit 8 (ucast b) OR push_bit 16 (ucast c) OR push_bit 24 (ucast d))
         # words) (shader_words_of bytes)"
| "shader_words_of _ = Err Shader_bytes_invalid"

text \<open>
  \<open>create_compute_pipelines\<close> returns a pipeline, no pipeline, or an error with the pipelines it
  made, which are destroyed. The shader module is destroyed whatever it returned.
\<close>

definition vk_new_many :: "nat \<Rightarrow> vk_state \<Rightarrow> vk_object list \<times> vk_state" where
  "vk_new_many n s = fold (\<lambda>_ (objs, s). case vk_new Pipeline Plain s of (obj, s') \<Rightarrow> (objs @ [obj], s'))
     [0..<n] ([], s)"

fun vk_destroy_all :: "vk_object list \<Rightarrow> vk_state \<Rightarrow> vk_state" where
  "vk_destroy_all [] s = s"
| "vk_destroy_all (obj # objs) s = vk_destroy_all objs (vk_destroy obj s)"

definition create_compute_pipelines ::
  "vk_driver \<Rightarrow> vk_state \<Rightarrow> ((vk_object list \<times> vk_result) + vk_object option) \<times> vk_state" where
  "create_compute_pipelines driver s =
     (case vk_call driver s of
        (Inl e, s') \<Rightarrow>
          (case vk_new_many (dr_partial driver (vs_calls s)) s' of (objs, s'') \<Rightarrow> (Inl (objs, e), s''))
      | (Inr _, s') \<Rightarrow>
          if dr_empty driver (vs_calls s) then (Inr None, s')
          else (case vk_new Pipeline Plain s' of (obj, s'') \<Rightarrow> (Inr (Some obj), s'')))"

definition make_pipeline ::
  "vk_driver \<Rightarrow> vk_object \<Rightarrow> vk_object \<Rightarrow> vk_state \<Rightarrow> (resource_error + vk_object) \<times> vk_state" where
  "make_pipeline driver pipeline_layout shader s =
     (case create_compute_pipelines driver s of
        (made, s1) \<Rightarrow>
          let s2 = vk_destroy shader s1 in
          (case made of
             Inr (Some pipeline) \<Rightarrow> (Ok pipeline, s2)
           | Inr None \<Rightarrow> (Err No_pipeline, vk_destroy pipeline_layout s2)
           | Inl (pipelines, e) \<Rightarrow>
               (Err (Create_pipeline_failed e),
                vk_destroy pipeline_layout (vk_destroy_all pipelines s2))))"

definition build_pipeline ::
  "vk_driver \<Rightarrow> 8 word list \<Rightarrow> vk_object \<Rightarrow> vk_state \<Rightarrow> (resource_error + vk_object) \<times> vk_state" where
  "build_pipeline driver bytes pipeline_layout =
     io_bind (io_cleanup (vk_destroy pipeline_layout) (\<lambda>s. (shader_words_of bytes, s)))
       (\<lambda>words. io_bind
         (io_cleanup (vk_destroy pipeline_layout)
           (io_map_err Create_shader_failed (vk_create driver Shader_module Plain)))
       (\<lambda>shader. make_pipeline driver pipeline_layout shader))"

definition compute_pipeline_new ::
  "vk_driver \<Rightarrow> (compute_output \<Rightarrow> 8 word list) \<Rightarrow> compute_output \<Rightarrow> vk_state \<Rightarrow>
   (resource_error + compute_pipeline) \<times> vk_state" where
  "compute_pipeline_new driver bytes output =
     io_bind (io_map_err Create_descriptor_layout_failed (vk_create driver Descriptor_set_layout
         (Storage_images (if output = Output_yuv_planes then 2 else 1))))
       (\<lambda>set_layout. io_cleanup (vk_destroy set_layout)
         (io_bind (io_map_err Create_pipeline_layout_failed (vk_create driver Pipeline_layout Plain))
         (\<lambda>pipeline_layout. io_bind (build_pipeline driver (bytes output) pipeline_layout)
         (\<lambda>pipeline. io_return \<lparr>cp_output = output, cp_descriptor_set_layout = set_layout,
            cp_pipeline_layout = pipeline_layout, cp_pipeline = pipeline\<rparr>))))"

text \<open>\<open>PackedComputePipeline::new\<close>: one storage image, no choice of output.\<close>

definition packed_compute_pipeline_new ::
  "vk_driver \<Rightarrow> 8 word list \<Rightarrow> vk_state \<Rightarrow> (resource_error + compute_pipeline) \<times> vk_state" where
  "packed_compute_pipeline_new driver bytes =
     io_bind (io_map_err Create_descriptor_layout_failed
         (vk_create driver Descriptor_set_layout (Storage_images 1)))
       (\<lambda>set_layout. io_cleanup (vk_destroy set_layout)
         (io_bind (io_map_err Create_pipeline_layout_failed (vk_create driver Pipeline_layout Plain))
         (\<lambda>pipeline_layout. io_bind (build_pipeline driver bytes pipeline_layout)
         (\<lambda>pipeline. io_return \<lparr>cp_output = Output_rgba, cp_descriptor_set_layout = set_layout,
            cp_pipeline_layout = pipeline_layout, cp_pipeline = pipeline\<rparr>))))"

definition compute_pipeline_drop :: "compute_pipeline \<Rightarrow> vk_state \<Rightarrow> vk_state" where
  "compute_pipeline_drop p s =
     vk_destroy (cp_descriptor_set_layout p)
       (vk_destroy (cp_pipeline_layout p) (vk_destroy (cp_pipeline p) s))"

section \<open>Output slots\<close>

datatype slot_images =
    Slot_rgba vk_object image_allocation
  | Slot_nv12 image_allocation
  | Slot_transfer_planes image_allocation image_allocation
  | Slot_planes vk_object image_allocation vk_object image_allocation

record staged_output_slot =
  so_descriptor_pool :: "vk_object option"
  so_descriptor_set :: "vk_object option"
  so_images :: slot_images

fun slot_images_drop :: "slot_images \<Rightarrow> vk_state \<Rightarrow> vk_state" where
  "slot_images_drop (Slot_rgba view sampled) s = image_allocation_drop sampled (vk_destroy view s)"
| "slot_images_drop (Slot_nv12 sampled) s = image_allocation_drop sampled s"
| "slot_images_drop (Slot_transfer_planes luma chroma) s =
     image_allocation_drop chroma (image_allocation_drop luma s)"
| "slot_images_drop (Slot_planes luma_view luma chroma_view chroma) s =
     image_allocation_drop chroma (vk_destroy chroma_view
       (image_allocation_drop luma (vk_destroy luma_view s)))"

definition staged_output_slot_drop :: "staged_output_slot \<Rightarrow> vk_state \<Rightarrow> vk_state" where
  "staged_output_slot_drop slot s =
     slot_images_drop (so_images slot)
       (case so_descriptor_pool slot of Some pool \<Rightarrow> vk_destroy pool s | None \<Rightarrow> s)"

text \<open>
  \<open>allocate_descriptor_sets\<close> returns a set or, against its specification, none. A set belongs to its
  pool and is not destroyed by itself.
\<close>

definition allocate_descriptor_set ::
  "vk_driver \<Rightarrow> vk_state \<Rightarrow> (vk_result + vk_object option) \<times> vk_state" where
  "allocate_descriptor_set driver s =
     (case vk_call driver s of
        (Inl e, s') \<Rightarrow> (Inl e, s')
      | (Inr _, s') \<Rightarrow>
          if dr_empty driver (vs_calls s) then (Inr None, s')
          else (Inr (Some (Descriptor_set (vs_next s'))), s'\<lparr>vs_next := vs_next s' + 1\<rparr>))"

definition bind_views :: "vk_object \<Rightarrow> vk_object list \<Rightarrow> vk_state \<Rightarrow> vk_state" where
  "bind_views descriptor_set views s = s\<lparr>vs_bindings := (vs_bindings s)(descriptor_set \<mapsto> views)\<rparr>"

definition update_staged_descriptor_set ::
  "staged_output_slot \<Rightarrow> vk_object \<Rightarrow> vk_state \<Rightarrow> (resource_error + unit) \<times> vk_state" where
  "update_staged_descriptor_set slot source_view s =
     (case (case so_images slot of
          Slot_rgba view _ \<Rightarrow> Ok [view]
        | Slot_planes luma_view _ chroma_view _ \<Rightarrow> Ok [luma_view, chroma_view]
        | _ \<Rightarrow> Err Transfer_output_has_no_descriptor_set) of
        Inl e \<Rightarrow> (Err e, s)
      | Inr views \<Rightarrow>
          (case so_descriptor_set slot of
             None \<Rightarrow> (Err Output_lacks_descriptor_set, s)
           | Some descriptor_set \<Rightarrow> (Ok (), bind_views descriptor_set (source_view # views) s)))"

text \<open>
  The images of a slot. The second image of a pair is created while the first, and its view, are
  locals: they drop in reverse order if it fails.
\<close>

definition chroma_dimensions :: "dimensions \<Rightarrow> dimensions" where
  "chroma_dimensions dims = (fst dims div 2, snd dims div 2)"

definition create_transfer_images ::
  "vk_driver \<Rightarrow> dimensions \<Rightarrow> nv12_import_strategy \<Rightarrow> vk_state \<Rightarrow> (resource_error + slot_images) \<times> vk_state"
where
  "create_transfer_images driver dims strategy =
     (if strategy = LinearBufferToOptimalNv12
      then io_bind (create_local_image driver dims IMPORTED_NV12_FORMAT TRANSFER_NV12_OUTPUT_USAGE)
        (\<lambda>sampled. io_return (Slot_nv12 sampled))
      else io_bind (create_local_image driver dims R8_UNORM TRANSFER_NV12_OUTPUT_USAGE)
        (\<lambda>luma. io_bind
          (io_cleanup (image_allocation_drop luma)
            (create_local_image driver (chroma_dimensions dims) R8G8_UNORM TRANSFER_NV12_OUTPUT_USAGE))
        (\<lambda>chroma. io_return (Slot_transfer_planes luma chroma))))"

definition create_viewed_image ::
  "vk_driver \<Rightarrow> dimensions \<Rightarrow> vk_format \<Rightarrow> vk_state \<Rightarrow>
   (resource_error + vk_object \<times> image_allocation) \<times> vk_state" where
  "create_viewed_image driver dims fmt =
     io_bind (create_local_image driver dims fmt STAGED_NV12_OUTPUT_USAGE)
       (\<lambda>img. io_bind
         (io_cleanup (image_allocation_drop img) (create_image_view driver (ia_image img) fmt))
       (\<lambda>view. io_return (view, img)))"

definition create_compute_images ::
  "vk_driver \<Rightarrow> dimensions \<Rightarrow> compute_output \<Rightarrow> vk_state \<Rightarrow> (resource_error + slot_images) \<times> vk_state" where
  "create_compute_images driver dims output =
     (case output of
        Output_rgba \<Rightarrow>
          io_bind (create_viewed_image driver dims IMPORTED_RGBA_FORMAT)
            (\<lambda>(view, sampled). io_return (Slot_rgba view sampled))
      | Output_yuv_planes \<Rightarrow>
          io_bind (create_viewed_image driver dims R8_UNORM)
            (\<lambda>(luma_view, luma). io_bind
              (io_cleanup (\<lambda>s. image_allocation_drop luma (vk_destroy luma_view s))
                (create_viewed_image driver (chroma_dimensions dims) R8G8_UNORM))
            (\<lambda>(chroma_view, chroma). io_return (Slot_planes luma_view luma chroma_view chroma))))"

text \<open>
  The descriptor pool and set of a compute slot. When the driver returns no set, the early return
  drops the images and leaves the pool: nothing owns it yet.
\<close>

definition create_slot_descriptors ::
  "vk_driver \<Rightarrow> nat \<Rightarrow> vk_state \<Rightarrow> (resource_error + vk_object \<times> vk_object) \<times> vk_state" where
  "create_slot_descriptors driver storage_count =
     io_bind (io_map_err Create_descriptor_pool_failed
         (vk_create driver Descriptor_pool (Storage_images storage_count)))
       (\<lambda>pool. io_bind
         (io_cleanup (vk_destroy pool)
           (io_map_err Allocate_descriptor_set_failed (allocate_descriptor_set driver)))
       (\<lambda>descriptor_set s.
         (case descriptor_set of
            Some dset \<Rightarrow> (Ok (pool, dset), s)
          | None \<Rightarrow> (Err No_descriptor_set, s))))"

definition expected_output :: "nv12_import_strategy \<Rightarrow> resource_error + compute_output" where
  "expected_output strategy =
     (case strategy of
        LinearBufferToRgba \<Rightarrow> Ok Output_rgba
      | LinearBufferToYuvPlanes \<Rightarrow> Ok Output_yuv_planes
      | _ \<Rightarrow> Err Direct_cannot_be_compute_output)"

definition create_staged_output_slot ::
  "vk_driver \<Rightarrow> dimensions \<Rightarrow> nv12_import_strategy \<Rightarrow> compute_pipeline option \<Rightarrow> vk_object option \<Rightarrow>
   vk_state \<Rightarrow> (resource_error + staged_output_slot) \<times> vk_state" where
  "create_staged_output_slot driver dims strategy pipeline source_view s =
     (if strategy \<in> {DirectImageToOptimalYuvPlanes, LinearBufferToOptimalNv12,
                      LinearBufferToOptimalYuvPlanes}
      then if pipeline \<noteq> None \<or> source_view \<noteq> None
        then (Err Transfer_output_has_compute_resources, s)
        else io_bind (create_transfer_images driver dims strategy)
          (\<lambda>images. io_return \<lparr>so_descriptor_pool = None, so_descriptor_set = None,
             so_images = images\<rparr>) s
      else case (pipeline, source_view) of
          (None, _) \<Rightarrow> (Err Compute_output_needs_pipeline, s)
        | (Some _, None) \<Rightarrow> (Err Compute_output_needs_source_view, s)
        | (Some p, Some view) \<Rightarrow>
            (case expected_output strategy of
               Inl e \<Rightarrow> (Err e, s)
             | Inr output \<Rightarrow>
                 if cp_output p \<noteq> output then (Err Pipeline_strategy_mismatch, s)
                 else io_bind (create_compute_images driver dims output)
                   (\<lambda>images. io_bind
                     (io_cleanup (slot_images_drop images)
                       (create_slot_descriptors driver (if output = Output_yuv_planes then 2 else 1)))
                   (\<lambda>(pool, dset).
                     let slot = \<lparr>so_descriptor_pool = Some pool, so_descriptor_set = Some dset,
                                 so_images = images\<rparr> in
                     io_bind
                       (io_cleanup (staged_output_slot_drop slot)
                         (update_staged_descriptor_set slot view))
                     (\<lambda>_. io_return slot))) s))"

record packed_output_slot =
  po_descriptor_pool :: vk_object
  po_descriptor_set :: vk_object
  po_storage_view :: vk_object
  po_sampled :: image_allocation

definition packed_output_slot_drop :: "packed_output_slot \<Rightarrow> vk_state \<Rightarrow> vk_state" where
  "packed_output_slot_drop slot s =
     image_allocation_drop (po_sampled slot)
       (vk_destroy (po_storage_view slot) (vk_destroy (po_descriptor_pool slot) s))"

definition update_packed_descriptor_set ::
  "packed_output_slot \<Rightarrow> vk_object \<Rightarrow> vk_state \<Rightarrow> vk_state" where
  "update_packed_descriptor_set slot source_view s =
     bind_views (po_descriptor_set slot) [source_view, po_storage_view slot] s"

definition create_packed_descriptors ::
  "vk_driver \<Rightarrow> vk_state \<Rightarrow> (resource_error + vk_object \<times> vk_object) \<times> vk_state" where
  "create_packed_descriptors driver =
     io_bind (io_map_err Create_descriptor_pool_failed
         (vk_create driver Descriptor_pool (Storage_images 1)))
       (\<lambda>pool. io_cleanup (vk_destroy pool)
         (io_bind (io_map_err Allocate_descriptor_set_failed (allocate_descriptor_set driver))
         (\<lambda>descriptor_set s.
           (case descriptor_set of
              Some dset \<Rightarrow> (Ok (pool, dset), s)
            | None \<Rightarrow> (Err No_descriptor_set, s)))))"

definition create_packed_output_slot ::
  "vk_driver \<Rightarrow> dimensions \<Rightarrow> compute_pipeline \<Rightarrow> vk_object \<Rightarrow> vk_state \<Rightarrow>
   (resource_error + packed_output_slot) \<times> vk_state" where
  "create_packed_output_slot driver dims pipeline source_view =
     io_bind (create_local_image_with_flags driver dims IMPORTED_SCANOUT_BGRA_FORMAT
         STAGED_PACKED_OUTPUT_USAGE {C_MUTABLE_FORMAT} [IMPORTED_SCANOUT_BGRA_FORMAT, R32_UINT])
       (\<lambda>sampled. io_bind
         (io_cleanup (image_allocation_drop sampled)
           (create_image_view driver (ia_image sampled) R32_UINT))
       (\<lambda>view. io_bind
         (io_cleanup (\<lambda>s. image_allocation_drop sampled (vk_destroy view s))
           (create_packed_descriptors driver))
       (\<lambda>(pool, dset) s.
         let slot = \<lparr>po_descriptor_pool = pool, po_descriptor_set = dset, po_storage_view = view,
                     po_sampled = sampled\<rparr> in
         (Ok slot, update_packed_descriptor_set slot source_view s))))"

end
