(* ===== verification/Resource_Safety.thy ===== *)
theory Resource_Safety
  imports Device_Resources
begin

text \<open>
  What the creation functions of \<open>Device_Resources\<close> own and give back. A state is abstracted to its
  live objects and the references between them; \<open>gained\<close> relates two states by what the second has
  more. A function is judged by \<open>owes\<close>: from a state that holds some objects beyond a base state, it
  fails in a state that holds nothing beyond the base, or returns a value that owns all it holds.
\<close>

section \<open>References and ownership\<close>

fun vk_index :: "vk_object \<Rightarrow> nat" where
  "vk_index (Image n) = n" | "vk_index (Buffer n) = n" | "vk_index (Memory n) = n"
| "vk_index (Image_view n) = n" | "vk_index (Buffer_view n) = n"
| "vk_index (Descriptor_set_layout n) = n" | "vk_index (Pipeline_layout n) = n"
| "vk_index (Shader_module n) = n" | "vk_index (Pipeline n) = n" | "vk_index (Descriptor_pool n) = n"
| "vk_index (Descriptor_set n) = n" | "vk_index (Raw_fd n) = n"
| "vk_index (Command_pool n) = n" | "vk_index (Command_buffer n) = n" | "vk_index (Fence n) = n"
| "vk_index (Semaphore n) = n" | "vk_index (Query_pool n) = n"

definition vk_edges :: "vk_state \<Rightarrow> (vk_object \<times> vk_object) set" where
  "vk_edges s = {(u, t). u \<in> vs_live s \<and> u \<in> vs_users s t}"

definition vk_wf :: "vk_state \<Rightarrow> bool" where
  "vk_wf s \<longleftrightarrow>
     (\<forall>t \<in> vs_live s. vk_index t < vs_next s) \<and>
     (\<forall>t u. u \<in> vs_users s t \<longrightarrow> vk_index u < vs_next s) \<and>
     (\<forall>(u, t) \<in> vk_edges s. t \<in> vs_live s)"

definition gained ::
  "vk_state \<Rightarrow> vk_object set \<Rightarrow> (vk_object \<times> vk_object) set \<Rightarrow> vk_state \<Rightarrow> bool" where
  "gained s objs refs s' \<longleftrightarrow>
     vk_wf s' \<and> vs_live s' = vs_live s \<union> objs \<and> vs_live s \<inter> objs = {} \<and>
     vk_edges s' = vk_edges s \<union> refs \<and> vk_edges s \<inter> refs = {} \<and> vs_fault s' = vs_fault s"

lemma gained_refl: "vk_wf s \<Longrightarrow> gained s {} {} s"
  by (simp add: gained_def)

lemma gained_trans:
  "gained s A D s1 \<Longrightarrow> gained s1 B E s2 \<Longrightarrow> gained s (A \<union> B) (D \<union> E) s2 \<and> A \<inter> B = {} \<and> D \<inter> E = {}"
  by (auto simp: gained_def)

lemma gained_wf: "gained s A D s' \<Longrightarrow> vk_wf s'"
  by (simp add: gained_def)

text \<open>Destroying an object that is held and that nothing refers to.\<close>

lemma vk_edges_destroy: "vk_edges (vk_destroy t s) = vk_edges s - {t} \<times> UNIV"
  by (auto simp: vk_edges_def vk_destroy_def)

lemma gained_destroy:
  assumes "vk_wf s" and "gained s A D s'" and "t \<in> A" and "\<forall>u. (u, t) \<notin> D"
  shows "gained s (A - {t}) (D - {t} \<times> UNIV) (vk_destroy t s')"
proof -
  have base: "t \<notin> vs_live s" using assms(2,3) by (auto simp: gained_def)
  have out: "(t, v) \<notin> vk_edges s" for v using base by (simp add: vk_edges_def)
  have into: "(u, t) \<notin> vk_edges s" for u using base assms(1) by (auto simp: vk_wf_def)
  have edges: "vk_edges s' = vk_edges s \<union> D" using assms(2) by (simp add: gained_def)
  have nobody: "vs_users s' t \<inter> vs_live s' = {}"
  proof -
    have "(u, t) \<notin> vk_edges s'" for u using into assms(4) edges by auto
    then show ?thesis by (auto simp: vk_edges_def)
  qed
  have wf: "vk_wf (vk_destroy t s')"
  proof -
    have "v \<noteq> t" if "(u, v) \<in> vk_edges s'" for u v
      using that into assms(4) edges by auto
    then show ?thesis
      using gained_wf [OF assms(2)] unfolding vk_wf_def vk_edges_destroy
      by (auto simp: vk_destroy_def)
  qed
  have live: "t \<in> vs_live s'" using assms(2,3) by (auto simp: gained_def)
  show ?thesis
    using assms(2,3) wf nobody live base out
    unfolding gained_def vk_edges_destroy by (auto simp: vk_destroy_def)
qed

section \<open>Judgements\<close>

definition outcome ::
  "vk_state \<Rightarrow> vk_object set \<Rightarrow> (vk_object \<times> vk_object) set \<Rightarrow> ('a \<Rightarrow> bool) \<Rightarrow> ('a \<Rightarrow> vk_object set) \<Rightarrow>
   ('a \<Rightarrow> (vk_object \<times> vk_object) set) \<Rightarrow> ('e + 'a) \<times> vk_state \<Rightarrow> bool" where
  "outcome s0 A D valid objs refs result \<longleftrightarrow>
     (case fst result of
        Inl e \<Rightarrow> gained s0 A D (snd result)
      | Inr x \<Rightarrow> valid x \<and> gained s0 (objs x) (refs x) (snd result))"

lemma outcome_simps [simp]:
  "outcome s0 A D valid objs refs (Inl e, s') = gained s0 A D s'"
  "outcome s0 A D valid objs refs (Inr x, s') = (valid x \<and> gained s0 (objs x) (refs x) s')"
  by (simp_all add: outcome_def)

text \<open>Holding \<open>A\<close> with \<open>D\<close> before; a failure holds \<open>A'\<close> with \<open>D'\<close>.\<close>

definition runs ::
  "vk_object set \<Rightarrow> vk_object set \<Rightarrow> (vk_object \<times> vk_object) set \<Rightarrow> vk_object set \<Rightarrow>
   (vk_object \<times> vk_object) set \<Rightarrow> (vk_state \<Rightarrow> ('e + 'a) \<times> vk_state) \<Rightarrow> ('a \<Rightarrow> bool) \<Rightarrow>
   ('a \<Rightarrow> vk_object set) \<Rightarrow> ('a \<Rightarrow> (vk_object \<times> vk_object) set) \<Rightarrow> bool" where
  "runs base A D A' D' m valid objs refs \<longleftrightarrow>
     (\<forall>s0 s. vk_wf s0 \<longrightarrow> base \<subseteq> vs_live s0 \<longrightarrow> gained s0 A D s \<longrightarrow>
       outcome s0 A' D' valid objs refs (m s))"

abbreviation steps where "steps base A D m valid objs refs \<equiv> runs base A D A D m valid objs refs"

abbreviation owes where "owes base A D m valid objs refs \<equiv> runs base A D {} {} m valid objs refs"

definition clears ::
  "(vk_state \<Rightarrow> vk_state) \<Rightarrow> vk_object set \<Rightarrow> (vk_object \<times> vk_object) set \<Rightarrow> bool" where
  "clears d A D \<longleftrightarrow> (\<forall>s0 s. vk_wf s0 \<longrightarrow> gained s0 A D s \<longrightarrow> gained s0 {} {} (d s))"

lemma clears_nothing: "clears (\<lambda>s. s) {} {}"
  by (simp add: clears_def)

lemma clears_destroy:
  assumes "t \<in> A" and "\<forall>u. (u, t) \<notin> D" and "clears d (A - {t}) (D - {t} \<times> UNIV)"
  shows "clears (\<lambda>s. d (vk_destroy t s)) A D"
  using assms gained_destroy unfolding clears_def by blast

text \<open>Destroying a list of objects clears what is held when every object goes before what it refers to.\<close>

fun clearing :: "vk_object list \<Rightarrow> vk_object set \<Rightarrow> (vk_object \<times> vk_object) set \<Rightarrow> bool" where
  "clearing [] A D \<longleftrightarrow> A = {} \<and> D = {}"
| "clearing (t # ts) A D \<longleftrightarrow>
     t \<in> A \<and> (\<forall>u. (u, t) \<notin> D) \<and> clearing ts (A - {t}) (D - {t} \<times> UNIV)"

lemma clears_all: "clearing ts A D \<Longrightarrow> clears (vk_destroy_all ts) A D"
proof (induction ts arbitrary: A D)
  case Nil
  then show ?case by (simp add: clears_def)
next
  case (Cons t ts)
  then have "clears (\<lambda>s. vk_destroy_all ts (vk_destroy t s)) A D"
    by (intro clears_destroy) simp_all
  then show ?case by (simp add: clears_def)
qed

lemma runs_bind:
  assumes "runs base A D A' D' m valid objs refs"
    and "\<And>x. valid x \<Longrightarrow> runs base (objs x) (refs x) A' D' (f x) valid' objs' refs'"
  shows "runs base A D A' D' (io_bind m f) valid' objs' refs'"
  unfolding runs_def
proof (intro allI impI)
  fix s0 s
  assume s: "vk_wf s0" "base \<subseteq> vs_live s0" "gained s0 A D s"
  obtain r s1 where m: "m s = (r, s1)" by fastforce
  have first: "outcome s0 A' D' valid objs refs (r, s1)"
    using assms(1) s unfolding runs_def m [symmetric] by blast
  show "outcome s0 A' D' valid' objs' refs' (io_bind m f s)"
  proof (cases r)
    case (Inl e)
    then show ?thesis using first by (simp add: io_bind_def m)
  next
    case (Inr x)
    then have x: "valid x" "gained s0 (objs x) (refs x) s1" using first by simp_all
    then show ?thesis
      using assms(2) [OF x(1)] s(1,2) unfolding runs_def by (simp add: io_bind_def m Inr)
  qed
qed

lemma runs_return: "valid x \<Longrightarrow> runs base (objs x) (refs x) A' D' (io_return x) valid objs refs"
  by (simp add: runs_def io_return_def)

lemma owes_cleanup:
  assumes "steps base A D m valid objs refs" and "clears d A D"
  shows "owes base A D (io_cleanup d m) valid objs refs"
  unfolding runs_def
proof (intro allI impI)
  fix s0 s
  assume s: "vk_wf s0" "base \<subseteq> vs_live s0" "gained s0 A D s"
  obtain r s1 where m: "m s = (r, s1)" by fastforce
  have "outcome s0 A D valid objs refs (r, s1)"
    using assms(1) s unfolding runs_def m [symmetric] by blast
  then show "outcome s0 {} {} valid objs refs (io_cleanup d m s)"
    using assms(2) s(1) unfolding clears_def by (cases r) (simp_all add: io_cleanup_def m)
qed

lemma runs_map_err:
  assumes "runs base A D A' D' m valid objs refs"
  shows "runs base A D A' D' (io_map_err g m) valid objs refs"
proof -
  have "outcome s0 A' D' valid objs refs (io_map_err g m s) =
      outcome s0 A' D' valid objs refs (m s)" for s0 s
    by (cases "m s"; cases "fst (m s)") (simp_all add: io_map_err_def)
  then show ?thesis using assms by (simp add: runs_def)
qed

text \<open>The frame rule: what a function does to what its caller holds already.\<close>

lemma steps_frame:
  assumes "owes inner {} {} m valid objs refs" and "inner \<subseteq> base \<union> A"
  shows "steps base A D m (\<lambda>x. valid x \<and> A \<inter> objs x = {}) (\<lambda>x. A \<union> objs x) (\<lambda>x. D \<union> refs x)"
  unfolding runs_def
proof (intro allI impI)
  fix s0 s
  assume s: "vk_wf s0" "base \<subseteq> vs_live s0" "gained s0 A D s"
  have wf: "vk_wf s" using gained_wf [OF s(3)] .
  have inner: "inner \<subseteq> vs_live s" using assms(2) s(2,3) by (auto simp: gained_def)
  obtain r s1 where m: "m s = (r, s1)" by fastforce
  have "outcome s {} {} valid objs refs (r, s1)"
    using assms(1) wf inner gained_refl [OF wf] unfolding runs_def m [symmetric] by blast
  then show "outcome s0 A D (\<lambda>x. valid x \<and> A \<inter> objs x = {}) (\<lambda>x. A \<union> objs x) (\<lambda>x. D \<union> refs x) (m s)"
    using gained_trans [OF s(3)] unfolding m by (cases r) (fastforce, fastforce)
qed

lemma runs_weaken:
  assumes "runs base A D A' D' m valid objs refs"
    and "\<And>x. valid x \<Longrightarrow> valid' x \<and> objs x = objs' x \<and> refs x = refs' x"
  shows "runs base A D A' D' m valid' objs' refs'"
  unfolding runs_def
proof (intro allI impI)
  fix s0 s
  assume s: "vk_wf s0" "base \<subseteq> vs_live s0" "gained s0 A D s"
  obtain r s1 where m: "m s = (r, s1)" by fastforce
  have "outcome s0 A' D' valid objs refs (r, s1)"
    using assms(1) s unfolding runs_def m [symmetric] by blast
  then show "outcome s0 A' D' valid' objs' refs' (m s)"
    using assms(2) unfolding m by (cases r) auto
qed

section \<open>The driver's calls\<close>

lemma vk_index_mk: "mk \<in> {Image, Buffer, Memory, Image_view, Buffer_view, Descriptor_set_layout,
    Pipeline_layout, Shader_module, Pipeline, Descriptor_pool, Raw_fd} \<Longrightarrow> vk_index (mk n) = n"
  by auto

lemma vk_edges_call [simp]: "vk_edges (s\<lparr>vs_calls := c\<rparr>) = vk_edges s"
  by (simp add: vk_edges_def)

lemma vk_wf_call [simp]: "vk_wf (s\<lparr>vs_calls := c\<rparr>) = vk_wf s"
  unfolding vk_wf_def vk_edges_call by simp

lemma gained_call: "gained s0 A D s \<Longrightarrow> gained s0 A D (s\<lparr>vs_calls := c\<rparr>)"
  by (simp add: gained_def)

lemma vk_call_runs: "steps base A D (vk_call driver) (\<lambda>_. True) (\<lambda>_. A) (\<lambda>_. D)"
  by (auto simp: runs_def vk_call_def gained_call split: option.split)

lemma gained_new:
  assumes "vk_wf s0" and "gained s0 A D s" and "vk_index (mk (vs_next s)) = vs_next s"
  shows "mk (vs_next s) \<notin> A" and "gained s0 (insert (mk (vs_next s)) A) D (snd (vk_new mk info s))"
proof -
  let ?o = "mk (vs_next s)"
  have wf: "vk_wf s" using assms(2) by (rule gained_wf)
  have fresh: "?o \<notin> vs_live s" using wf assms(3) by (auto simp: vk_wf_def)
  show "?o \<notin> A" using fresh assms(2) by (auto simp: gained_def)
  have unused: "?o \<notin> vs_users s t" for t
  proof
    assume "?o \<in> vs_users s t"
    then have "vk_index ?o < vs_next s" using wf by (auto simp: vk_wf_def)
    then show False using assms(3) by simp
  qed
  have edges: "vk_edges (snd (vk_new mk info s)) = vk_edges s"
    using unused by (auto simp: vk_edges_def vk_new_def)
  have "vk_wf (snd (vk_new mk info s))"
    using wf assms(3) unfolding vk_wf_def edges by (auto simp: vk_new_def less_SucI)
  moreover have "vs_live s0 \<inter> insert ?o A = {}" using fresh assms(2) by (auto simp: gained_def)
  ultimately show "gained s0 (insert ?o A) D (snd (vk_new mk info s))"
    using assms(2) unfolding gained_def edges by (auto simp: vk_new_def)
qed

lemma vk_create_runs:
  assumes "\<And>n. vk_index (mk n) = n"
  shows "steps base A D (vk_create driver mk info) (\<lambda>x. (\<exists>n. x = mk n) \<and> x \<notin> A) (\<lambda>x. insert x A) (\<lambda>_. D)"
  unfolding runs_def
proof (intro allI impI)
  fix s0 s
  assume s: "vk_wf s0" "base \<subseteq> vs_live s0" "gained s0 A D s"
  let ?s = "s\<lparr>vs_calls := vs_calls s + 1\<rparr>"
  have called: "gained s0 A D ?s" using s(3) by (rule gained_call)
  show "outcome s0 A D (\<lambda>x. (\<exists>n. x = mk n) \<and> x \<notin> A) (\<lambda>x. insert x A) (\<lambda>_. D) (vk_create driver mk info s)"
    using gained_new(1) [OF s(1) called, of mk] gained_new(2) [OF s(1) called, of mk info] assms called
    by (auto simp: vk_create_def vk_call_def vk_new_def split: option.split)
qed

lemma gained_refer:
  assumes "vk_wf s0" and "gained s0 A D s" and "u \<in> vs_live s" and "t \<in> vs_live s"
    and "(u, t) \<notin> vk_edges s0"
  shows "gained s0 A (insert (u, t) D) (vk_refer u t s)"
proof -
  have edges: "vk_edges (vk_refer u t s) = insert (u, t) (vk_edges s)"
    using assms(3) by (auto simp: vk_edges_def vk_refer_def)
  have "vk_wf (vk_refer u t s)"
    using gained_wf [OF assms(2)] assms(3,4) unfolding vk_wf_def edges by (auto simp: vk_refer_def)
  then show ?thesis
    using assms(2,5) unfolding gained_def edges by (auto simp: vk_refer_def)
qed

lemma vk_bind_runs:
  assumes "obj \<in> base \<union> A" and "memory \<in> A"
  shows "steps base A D (vk_bind driver obj memory) (\<lambda>_. True) (\<lambda>_. A) (\<lambda>_. insert (obj, memory) D)"
  unfolding runs_def
proof (intro allI impI)
  fix s0 s
  assume s: "vk_wf s0" "base \<subseteq> vs_live s0" "gained s0 A D s"
  let ?s = "s\<lparr>vs_calls := vs_calls s + 1\<rparr>"
  have called: "gained s0 A D ?s" using s(3) by (rule gained_call)
  have live: "obj \<in> vs_live ?s" "memory \<in> vs_live ?s" using assms s(2,3) by (auto simp: gained_def)
  have "memory \<notin> vs_live s0" using assms(2) s(3) by (auto simp: gained_def)
  then have "(obj, memory) \<notin> vk_edges s0" using s(1) by (auto simp: vk_wf_def)
  then have "gained s0 A (insert (obj, memory) D) (vk_refer obj memory ?s)"
    using gained_refer [OF s(1) called live] by simp
  then show "outcome s0 A D (\<lambda>_. True) (\<lambda>_. A) (\<lambda>_. insert (obj, memory) D) (vk_bind driver obj memory s)"
    using called by (simp add: vk_bind_def vk_call_def split: option.split)
qed

lemma create_view_runs:
  assumes "\<And>n. vk_index (mk n) = n" and "resource \<in> base \<union> A"
  shows "steps base A D (create_view driver mk info resource) (\<lambda>v. (\<exists>n. v = mk n) \<and> v \<notin> A)
    (\<lambda>v. insert v A) (\<lambda>v. insert (v, resource) D)"
proof -
  have "runs base (insert v A) D A D (\<lambda>s. (Ok v, vk_refer v resource s))
      (\<lambda>v. (\<exists>n. v = mk n) \<and> v \<notin> A) (\<lambda>v. insert v A) (\<lambda>v. insert (v, resource) D)"
    if v: "(\<exists>n. v = mk n) \<and> v \<notin> A" for v
    unfolding runs_def
  proof (intro allI impI)
    fix s0 s
    assume s: "vk_wf s0" "base \<subseteq> vs_live s0" "gained s0 (insert v A) D s"
    have live: "v \<in> vs_live s" "resource \<in> vs_live s" "v \<notin> vs_live s0"
      using assms(2) s(2,3) by (auto simp: gained_def)
    then have "(v, resource) \<notin> vk_edges s0" by (simp add: vk_edges_def)
    then show "outcome s0 A D (\<lambda>v. (\<exists>n. v = mk n) \<and> v \<notin> A) (\<lambda>v. insert v A)
        (\<lambda>v. insert (v, resource) D) (Ok v, vk_refer v resource s)"
      using gained_refer [OF s(1,3) live(1,2)] v by simp
  qed
  then show ?thesis
    unfolding create_view_def by (rule runs_bind [OF vk_create_runs [OF assms(1)]])
qed

text \<open>An import takes its descriptor over.\<close>

lemma allocate_imported_memory_runs:
  assumes "fd \<in> A" and "\<forall>u. (u, fd) \<notin> D" and "\<forall>n. fd \<noteq> Memory n"
  shows "steps base A D (allocate_imported_memory driver fd) (\<lambda>m. (\<exists>n. m = Memory n) \<and> m \<notin> A)
    (\<lambda>m. insert m (A - {fd})) (\<lambda>_. D - {fd} \<times> UNIV)"
  unfolding runs_def
proof (intro allI impI)
  fix s0 s
  assume s: "vk_wf s0" "base \<subseteq> vs_live s0" "gained s0 A D s"
  obtain r s1 where made: "vk_create driver Memory Plain s = (r, s1)" by fastforce
  have first: "outcome s0 A D (\<lambda>x. (\<exists>n. x = Memory n) \<and> x \<notin> A) (\<lambda>x. insert x A) (\<lambda>_. D) (r, s1)"
    using vk_create_runs [of Memory base A D driver Plain] s unfolding runs_def made [symmetric] by simp
  show "outcome s0 A D (\<lambda>m. (\<exists>n. m = Memory n) \<and> m \<notin> A) (\<lambda>m. insert m (A - {fd}))
      (\<lambda>_. D - {fd} \<times> UNIV) (allocate_imported_memory driver fd s)"
  proof (cases r)
    case (Inl e)
    then show ?thesis using first by (simp add: allocate_imported_memory_def made)
  next
    case (Inr m)
    then have m: "\<exists>n. m = Memory n" "m \<notin> A" "gained s0 (insert m A) D s1" using first by simp_all
    have "gained s0 (insert m A - {fd}) (D - {fd} \<times> UNIV) (vk_destroy fd s1)"
      using gained_destroy [OF s(1) m(3)] assms(1,2) by simp
    moreover have "insert m A - {fd} = insert m (A - {fd})" using m(1) assms(3) by auto
    ultimately show ?thesis using m(1,2) by (simp add: allocate_imported_memory_def made Inr)
  qed
qed

text \<open>A step that only reads.\<close>

lemma reads_runs: "steps base A D (\<lambda>s. (r, s)) (\<lambda>_. True) (\<lambda>_. A) (\<lambda>_. D)"
  by (cases r) (simp_all add: runs_def)

lemma imported_memory_type_runs:
  "steps base A D (imported_memory_type driver fd bits) (\<lambda>_. True) (\<lambda>_. A) (\<lambda>_. D)"
  unfolding imported_memory_type_def
  by (rule runs_bind [OF runs_map_err [OF vk_call_runs]], rule reads_runs)

lemma duplicate_import_fd_runs:
  "steps base A D (duplicate_import_fd driver) (\<lambda>x. (\<exists>n. x = Raw_fd n) \<and> x \<notin> A)
     (\<lambda>x. insert x A) (\<lambda>_. D)"
  unfolding duplicate_import_fd_def by (rule runs_map_err [OF vk_create_runs]) simp

section \<open>Allocations\<close>

lemma err_runs: "steps base A D (\<lambda>s. (Inl e, s)) valid objs refs"
  by (simp add: runs_def)

lemma runs_if:
  "(c \<Longrightarrow> runs base A D A' D' m valid objs refs) \<Longrightarrow> (\<not> c \<Longrightarrow> runs base A D A' D' n valid objs refs) \<Longrightarrow>
   runs base A D A' D' (\<lambda>s. if c then m s else n s) valid objs refs"
  by (cases c) simp_all

lemma clears_one: "clearing [t] A D \<Longrightarrow> clears (vk_destroy t) A D"
  using clears_all [of "[t]" A D] by (simp add: clears_def)

lemma clears_two: "clearing [t, u] A D \<Longrightarrow> clears (\<lambda>s. vk_destroy u (vk_destroy t s)) A D"
  using clears_all [of "[t, u]" A D] by (simp add: clears_def)

text \<open>A cleanup after a step that changes what is held.\<close>

lemma owes_cleanup_one:
  assumes "steps base A D m valid objs refs" and "clearing [t] A D"
  shows "owes base A D (io_cleanup (vk_destroy t) m) valid objs refs"
  using owes_cleanup [OF assms(1) clears_one [OF assms(2)]] .

lemma owes_cleanup_two:
  assumes "steps base A D m valid objs refs" and "clearing [t, u] A D"
  shows "owes base A D (io_cleanup (\<lambda>s. vk_destroy u (vk_destroy t s)) m) valid objs refs"
  using owes_cleanup [OF assms(1) clears_two [OF assms(2)]] .

definition is_memory :: "vk_object \<Rightarrow> bool" where "is_memory x \<longleftrightarrow> (\<exists>n. x = Memory n)"

lemma is_memory_Memory: "is_memory (Memory n)"
  by (simp add: is_memory_def)

lemma is_memory_cases: "is_memory x \<Longrightarrow> (\<And>n. x = Memory n \<Longrightarrow> thesis) \<Longrightarrow> thesis"
  by (auto simp: is_memory_def)

text \<open>A descriptor that becomes memory, or is closed.\<close>

lemma consume_fd_owes:
  assumes "fd = Raw_fd n"
  shows "owes base {fd} {} (io_cleanup (close_unconsumed_fd fd)
    (io_map_err g (allocate_imported_memory driver fd))) is_memory (\<lambda>m. {m}) (\<lambda>_. {})"
proof -
  have "steps base {fd} {} (io_map_err g (allocate_imported_memory driver fd)) is_memory (\<lambda>m. {m}) (\<lambda>_. {})"
    by (rule runs_weaken [OF runs_map_err [OF allocate_imported_memory_runs]])
      (use assms in \<open>auto simp: is_memory_def\<close>)
  moreover have "close_unconsumed_fd fd = vk_destroy fd" by (rule ext) (simp add: close_unconsumed_fd_def)
  ultimately show ?thesis by (simp add: owes_cleanup_one)
qed

lemma import_image_memory_owes:
  assumes "img = Image i"
  shows "owes {img} {} {} (import_image_memory driver img source_fd asize) is_memory
    (\<lambda>m. {m}) (\<lambda>m. {(img, m)})"
proof -
  have bind: "owes {img} {m} {} (io_cleanup (vk_destroy m) (io_map_err g (vk_bind driver img m)))
      (\<lambda>_. True) (\<lambda>_. {m}) (\<lambda>_. {(img, m)})" for m g
    by (rule owes_cleanup_one [OF runs_map_err [OF vk_bind_runs]]) simp_all
  have rest: "owes {img} {fd} {} (io_bind
      (io_cleanup (close_unconsumed_fd fd) (io_map_err f (allocate_imported_memory driver fd)))
      (\<lambda>m. io_bind (io_cleanup (vk_destroy m) (io_map_err g (vk_bind driver img m)))
        (\<lambda>_. io_return m))) is_memory (\<lambda>m. {m}) (\<lambda>m. {(img, m)})"
    if "fd = Raw_fd n" for fd n f g
    by (rule runs_bind [OF consume_fd_owes [OF that]], rule runs_bind [OF bind])
      (simp add: runs_def io_return_def)
  show ?thesis
    unfolding import_image_memory_def [abs_def] Let_def
  proof (rule runs_if)
    show "owes {img} {} {} (io_bind (io_map_err Other (imported_memory_type driver source_fd
          (mr_memory_type_bits (dr_requirements driver img))))
        (\<lambda>_. io_bind (io_map_err Other (duplicate_import_fd driver))
        (\<lambda>fd. io_bind (io_cleanup (close_unconsumed_fd fd)
            (io_map_err (\<lambda>e. Other (Import_image_memory_failed e)) (allocate_imported_memory driver fd)))
        (\<lambda>m. io_bind (io_cleanup (vk_destroy m)
            (io_map_err (\<lambda>e. Other (Bind_image_memory_failed e)) (vk_bind driver img m)))
        (\<lambda>_. io_return m))))) is_memory (\<lambda>m. {m}) (\<lambda>m. {(img, m)})"
      by (rule runs_bind [OF runs_map_err [OF imported_memory_type_runs]],
          rule runs_bind [OF runs_map_err [OF duplicate_import_fd_runs]]) (auto intro: rest)
  qed (rule err_runs)
qed

end
