(* ===== verification/Owned_Resources.thy ===== *)
theory Owned_Resources
  imports Resource_Safety
begin

text \<open>
  The handles that \<open>vulkan/mod.rs\<close> returns: allocations, viewed images, cached sources, pipelines and
  output slots. Each has the objects it owns, the references among them and a \<open>Drop\<close>; the locale
  \<open>owned_handle\<close> states what a \<open>Drop\<close> must give back and is interpreted on every handle.
\<close>

section \<open>What a handle promises\<close>

text \<open>
  A creation from state \<open>s\<close>: a failure leaves exactly the live objects, references and fault flag of
  \<open>s\<close>; a success adds exactly the objects of the handle, and dropping it at once restores \<open>s\<close>.
\<close>

definition exact_creation ::
  "('h \<Rightarrow> bool) \<Rightarrow> ('h \<Rightarrow> vk_object set) \<Rightarrow> ('h \<Rightarrow> (vk_object \<times> vk_object) set) \<Rightarrow>
   ('h \<Rightarrow> vk_state \<Rightarrow> vk_state) \<Rightarrow> vk_state \<Rightarrow> ('e + 'h) \<times> vk_state \<Rightarrow> bool" where
  "exact_creation ok objects refs dispose s result \<longleftrightarrow>
     (case result of
        (Inl e, s') \<Rightarrow> gained s {} {} s'
      | (Inr h, s') \<Rightarrow> ok h \<and> gained s (objects h) (refs h) s' \<and> gained s {} {} (dispose h s'))"

locale owned_handle =
  fixes dispose :: "'h \<Rightarrow> vk_state \<Rightarrow> vk_state"
    and objects :: "'h \<Rightarrow> vk_object set"
    and refs :: "'h \<Rightarrow> (vk_object \<times> vk_object) set"
    and ok :: "'h \<Rightarrow> bool"
  assumes dispose_clears: "ok h \<Longrightarrow> clears (dispose h) (objects h) (refs h)"
begin

text \<open>A step after the handle was made: a failure drops the handle.\<close>

lemma cleanup:
  assumes "ok h" and "steps base (objects h) (refs h) m valid objs edges"
  shows "owes base (objects h) (refs h) (io_cleanup (dispose h) m) valid objs edges"
  using owes_cleanup [OF assms(2) dispose_clears [OF assms(1)]] .

lemma beside:
  assumes "ok h" and "owes inner {} {} m valid objs edges" and "inner \<subseteq> base \<union> objects h"
  shows "owes base (objects h) (refs h) (io_cleanup (dispose h) m)
    (\<lambda>x. valid x \<and> objects h \<inter> objs x = {}) (\<lambda>x. objects h \<union> objs x) (\<lambda>x. refs h \<union> edges x)"
  using cleanup [OF assms(1) steps_frame [OF assms(2,3)]] .

lemma created:
  assumes "owes base {} {} m ok objects refs" and "vk_wf s" and "base \<subseteq> vs_live s"
  shows "exact_creation ok objects refs dispose s (m s)"
proof -
  obtain r s' where m: "m s = (r, s')" by fastforce
  have "outcome s {} {} ok objects refs (r, s')"
    using assms gained_refl [OF assms(2)] unfolding runs_def m [symmetric] by blast
  then show ?thesis
    using dispose_clears assms(2) unfolding clears_def exact_creation_def m by (cases r) auto
qed

end

section \<open>Allocations\<close>

definition image_ok :: "image_allocation \<Rightarrow> bool" where
  "image_ok a \<longleftrightarrow> (\<exists>m n. ia_image a = Image m \<and> ia_memory a = Memory n)"

definition image_objects :: "image_allocation \<Rightarrow> vk_object set" where
  "image_objects a = {ia_image a, ia_memory a}"

definition image_refs :: "image_allocation \<Rightarrow> (vk_object \<times> vk_object) set" where
  "image_refs a = {(ia_image a, ia_memory a)}"

definition buffer_ok :: "buffer_allocation \<Rightarrow> bool" where
  "buffer_ok a \<longleftrightarrow> (\<exists>m n. ba_buffer a = Buffer m \<and> ba_memory a = Memory n)"

definition buffer_objects :: "buffer_allocation \<Rightarrow> vk_object set" where
  "buffer_objects a = {ba_buffer a, ba_memory a}"

definition buffer_refs :: "buffer_allocation \<Rightarrow> (vk_object \<times> vk_object) set" where
  "buffer_refs a = {(ba_buffer a, ba_memory a)}"

lemmas allocation_defs =
  image_ok_def image_objects_def image_refs_def buffer_ok_def buffer_objects_def buffer_refs_def

lemma image_drop_list: "image_allocation_drop a = vk_destroy_all [ia_image a, ia_memory a]"
  by (rule ext) (simp add: image_allocation_drop_def)

lemma buffer_drop_list: "buffer_allocation_drop a = vk_destroy_all [ba_buffer a, ba_memory a]"
  by (rule ext) (simp add: buffer_allocation_drop_def)

interpretation images: owned_handle image_allocation_drop image_objects image_refs image_ok
proof
  fix a assume "image_ok a"
  then have "clearing [ia_image a, ia_memory a] (image_objects a) (image_refs a)"
    by (auto simp: allocation_defs)
  then show "clears (image_allocation_drop a) (image_objects a) (image_refs a)"
    unfolding image_drop_list by (rule clears_all)
qed

interpretation buffers: owned_handle buffer_allocation_drop buffer_objects buffer_refs buffer_ok
proof
  fix a assume "buffer_ok a"
  then have "clearing [ba_buffer a, ba_memory a] (buffer_objects a) (buffer_refs a)"
    by (auto simp: allocation_defs)
  then show "clears (buffer_allocation_drop a) (buffer_objects a) (buffer_refs a)"
    unfolding buffer_drop_list by (rule clears_all)
qed

lemma create_direct_image_owes:
  "owes base {} {} (create_direct_image driver dims fd modifier planes fmt usage asize)
     image_ok image_objects image_refs"
proof -
  have import: "owes base {img} {} (io_cleanup (vk_destroy img) (import_image_memory driver img fd asize))
      (\<lambda>m. is_memory m) (\<lambda>m. {img, m}) (\<lambda>m. {(img, m)})" if "img = Image i" for img i
    by (rule owes_cleanup_one, rule runs_weaken [OF steps_frame [OF import_image_memory_owes [OF that]]])
      (use that in auto)
  show ?thesis
    unfolding create_direct_image_def
  proof (rule runs_bind [OF runs_map_err [OF vk_create_runs]])
    fix img assume "(\<exists>n. img = Image n) \<and> img \<notin> {}"
    then obtain i where i: "img = Image i" by blast
    show "owes base {img} {} (io_bind
        (io_cleanup (vk_destroy img) (import_image_memory driver img fd asize))
        (\<lambda>memory. io_return \<lparr>ia_image = img, ia_memory = memory\<rparr>)) image_ok image_objects image_refs"
      by (rule runs_bind [OF import [OF i]])
        (auto simp: runs_def io_return_def allocation_defs is_memory_def i)
  qed simp
qed

lemma create_local_image_owes:
  "owes base {} {} (create_local_image_with_flags driver dims fmt usage flags formats)
     image_ok image_objects image_refs"
proof -
  have choose: "owes base {img} {} (io_cleanup (vk_destroy img)
      (\<lambda>s. (select_memory_type driver bits, s))) (\<lambda>_. True) (\<lambda>_. {img}) (\<lambda>_. {})" for img bits
    by (rule owes_cleanup_one [OF reads_runs]) simp
  have alloc: "owes base {img} {} (io_cleanup (vk_destroy img)
      (io_map_err g (vk_create driver Memory Plain))) is_memory (\<lambda>m. {img, m}) (\<lambda>_. {})" for img g
    by (rule owes_cleanup_one, rule runs_weaken [OF runs_map_err [OF vk_create_runs]])
      (auto simp: is_memory_def)
  have bind: "owes base {img, m} {} (io_cleanup (\<lambda>s. vk_destroy img (vk_destroy m s))
      (io_map_err g (vk_bind driver img m))) (\<lambda>_. True) (\<lambda>_. {img, m}) (\<lambda>_. {(img, m)})"
    if "img = Image i" "is_memory m" for img m i g
    by (rule owes_cleanup_two [OF runs_map_err [OF vk_bind_runs]])
      (use that in \<open>auto simp: is_memory_def\<close>)
  show ?thesis
    unfolding create_local_image_with_flags_def
  proof (rule runs_bind [OF runs_map_err [OF vk_create_runs]])
    fix img assume "(\<exists>n. img = Image n) \<and> img \<notin> {}"
    then obtain i where i: "img = Image i" by blast
    show "owes base {img} {} (io_bind
        (io_cleanup (vk_destroy img)
          (\<lambda>s. (select_memory_type driver (mr_memory_type_bits (dr_requirements driver img)), s)))
        (\<lambda>_. io_bind (io_cleanup (vk_destroy img)
          (io_map_err Allocate_output_memory_failed (vk_create driver Memory Plain)))
        (\<lambda>memory. io_bind (io_cleanup (\<lambda>s. vk_destroy img (vk_destroy memory s))
          (io_map_err Bind_output_memory_failed (vk_bind driver img memory)))
        (\<lambda>_. io_return \<lparr>ia_image = img, ia_memory = memory\<rparr>)))) image_ok image_objects image_refs"
      by (rule runs_bind [OF choose], rule runs_bind [OF alloc], rule runs_bind [OF bind [OF i]])
        (auto simp: runs_def io_return_def allocation_defs is_memory_def i)
  qed simp
qed

text \<open>
  An imported buffer: the buffer is destroyed after every failure, after what was created on top of
  it.
\<close>

lemma runs_let_if:
  "(\<not> c \<Longrightarrow> runs base A D A' D' n valid objs refs) \<Longrightarrow> clears d A D \<Longrightarrow> A' = {} \<Longrightarrow> D' = {} \<Longrightarrow>
   runs base A D A' D' (\<lambda>s. if c then (Inl e, d s) else n s) valid objs refs"
  by (cases c) (auto simp: runs_def clears_def)

lemma buffer_fd_owes:
  assumes "buffer = Buffer i" and "fd = Raw_fd n"
  shows "owes base {fd, buffer} {} (io_cleanup (\<lambda>s. vk_destroy buffer (close_unconsumed_fd fd s))
    (io_map_err g (allocate_imported_memory driver fd))) is_memory (\<lambda>m. {m, buffer}) (\<lambda>_. {})"
  unfolding close_unconsumed_fd_def
proof (rule owes_cleanup_two)
  show "steps base {fd, buffer} {} (io_map_err g (allocate_imported_memory driver fd)) is_memory
      (\<lambda>m. {m, buffer}) (\<lambda>_. {})"
    by (rule runs_weaken [OF runs_map_err [OF allocate_imported_memory_runs]])
      (use assms in \<open>auto simp: is_memory_def\<close>)
qed (use assms in auto)

lemma create_imported_buffer_owes:
  "owes base {} {} (create_imported_buffer_with_allocation_size driver fd bsize asize usage)
     buffer_ok buffer_objects buffer_refs"
proof -
  have memory_type: "owes base {b} {} (io_cleanup (vk_destroy b)
      (io_map_err g (imported_memory_type driver fd bits))) (\<lambda>_. True) (\<lambda>_. {b}) (\<lambda>_. {})" for b bits g
    by (rule owes_cleanup_one [OF runs_map_err [OF imported_memory_type_runs]]) simp
  have dup: "owes base {b} {} (io_cleanup (vk_destroy b) (io_map_err g (duplicate_import_fd driver)))
      (\<lambda>x. \<exists>n. x = Raw_fd n) (\<lambda>x. {x, b}) (\<lambda>_. {})" for b g
    by (rule owes_cleanup_one, rule runs_weaken [OF runs_map_err [OF duplicate_import_fd_runs]]) auto
  have bind: "owes base {m, b} {} (io_cleanup (\<lambda>s. vk_destroy b (vk_destroy m s))
      (io_map_err g (vk_bind driver b m))) (\<lambda>_. True) (\<lambda>_. {m, b}) (\<lambda>_. {(b, m)})"
    if "b = Buffer i" "is_memory m" for b m i g
    by (rule owes_cleanup_two [OF runs_map_err [OF vk_bind_runs]])
      (use that in \<open>auto simp: is_memory_def\<close>)
  have chain: "owes base {b} {} (io_bind
      (io_cleanup (vk_destroy b) (io_map_err Other (imported_memory_type driver fd bits)))
      (\<lambda>_. io_bind (io_cleanup (vk_destroy b) (io_map_err Other (duplicate_import_fd driver)))
      (\<lambda>fd. io_bind (io_cleanup (\<lambda>s. vk_destroy b (close_unconsumed_fd fd s))
          (io_map_err (\<lambda>e. Other (Import_buffer_memory_failed e)) (allocate_imported_memory driver fd)))
      (\<lambda>m. io_bind (io_cleanup (\<lambda>s. vk_destroy b (vk_destroy m s))
          (io_map_err (\<lambda>e. Other (Bind_buffer_memory_failed e)) (vk_bind driver b m)))
      (\<lambda>_. io_return \<lparr>ba_buffer = b, ba_memory = m, ba_size = bsize\<rparr>)))))
      buffer_ok buffer_objects buffer_refs" if b: "b = Buffer i" for b i bits
  proof (rule runs_bind [OF memory_type], rule runs_bind [OF dup])
    fix f assume "\<exists>n. f = Raw_fd n"
    then obtain n where f: "f = Raw_fd n" by blast
    show "owes base {f, b} {} (io_bind (io_cleanup (\<lambda>s. vk_destroy b (close_unconsumed_fd f s))
          (io_map_err (\<lambda>e. Other (Import_buffer_memory_failed e)) (allocate_imported_memory driver f)))
        (\<lambda>m. io_bind (io_cleanup (\<lambda>s. vk_destroy b (vk_destroy m s))
          (io_map_err (\<lambda>e. Other (Bind_buffer_memory_failed e)) (vk_bind driver b m)))
        (\<lambda>_. io_return \<lparr>ba_buffer = b, ba_memory = m, ba_size = bsize\<rparr>)))
        buffer_ok buffer_objects buffer_refs"
      by (rule runs_bind [OF buffer_fd_owes [OF b f]], rule runs_bind [OF bind [OF b]])
        (auto simp: runs_def io_return_def allocation_defs is_memory_def b insert_commute)
  qed
  show ?thesis
    unfolding create_imported_buffer_with_allocation_size_def [abs_def] Let_def
  proof (intro runs_if err_runs)
    show "owes base {} {} (io_bind
        (io_map_err (\<lambda>e. Other (Create_source_buffer_failed e))
          (vk_create driver Buffer (Buffer_info bsize usage)))
        (\<lambda>b s. if asize < mr_size (dr_requirements driver b)
          then (Err (AllocationSize (Allocation_smaller_than_requirement asize
              (mr_size (dr_requirements driver b)) bsize)), vk_destroy b s)
          else io_bind
            (io_cleanup (vk_destroy b) (io_map_err Other
              (imported_memory_type driver fd (mr_memory_type_bits (dr_requirements driver b)))))
          (\<lambda>_. io_bind (io_cleanup (vk_destroy b) (io_map_err Other (duplicate_import_fd driver)))
          (\<lambda>fd. io_bind (io_cleanup (\<lambda>s. vk_destroy b (close_unconsumed_fd fd s))
              (io_map_err (\<lambda>e. Other (Import_buffer_memory_failed e)) (allocate_imported_memory driver fd)))
          (\<lambda>m. io_bind (io_cleanup (\<lambda>s. vk_destroy b (vk_destroy m s))
              (io_map_err (\<lambda>e. Other (Bind_buffer_memory_failed e)) (vk_bind driver b m)))
          (\<lambda>_. io_return \<lparr>ba_buffer = b, ba_memory = m, ba_size = bsize\<rparr>)))) s))
        buffer_ok buffer_objects buffer_refs"
    proof (rule runs_bind [OF runs_map_err [OF vk_create_runs]], simp, elim conjE exE)
      fix b i assume b: "b = Buffer i"
      show "owes base {b} {} (\<lambda>s. if asize < mr_size (dr_requirements driver b)
          then (Err (AllocationSize (Allocation_smaller_than_requirement asize
              (mr_size (dr_requirements driver b)) bsize)), vk_destroy b s)
          else io_bind
            (io_cleanup (vk_destroy b) (io_map_err Other
              (imported_memory_type driver fd (mr_memory_type_bits (dr_requirements driver b)))))
          (\<lambda>_. io_bind (io_cleanup (vk_destroy b) (io_map_err Other (duplicate_import_fd driver)))
          (\<lambda>fd. io_bind (io_cleanup (\<lambda>s. vk_destroy b (close_unconsumed_fd fd s))
              (io_map_err (\<lambda>e. Other (Import_buffer_memory_failed e)) (allocate_imported_memory driver fd)))
          (\<lambda>m. io_bind (io_cleanup (\<lambda>s. vk_destroy b (vk_destroy m s))
              (io_map_err (\<lambda>e. Other (Bind_buffer_memory_failed e)) (vk_bind driver b m)))
          (\<lambda>_. io_return \<lparr>ba_buffer = b, ba_memory = m, ba_size = bsize\<rparr>)))) s)
          buffer_ok buffer_objects buffer_refs"
        by (rule runs_let_if [OF chain [OF b] clears_one]) simp_all
    qed
  qed
qed

section \<open>Viewed images and cached sources\<close>

definition viewed_ok :: "vk_object \<times> image_allocation \<Rightarrow> bool" where
  "viewed_ok x \<longleftrightarrow> (\<exists>n. fst x = Image_view n) \<and> image_ok (snd x)"

definition viewed_objects :: "vk_object \<times> image_allocation \<Rightarrow> vk_object set" where
  "viewed_objects x = insert (fst x) (image_objects (snd x))"

definition viewed_refs :: "vk_object \<times> image_allocation \<Rightarrow> (vk_object \<times> vk_object) set" where
  "viewed_refs x = insert (fst x, ia_image (snd x)) (image_refs (snd x))"

definition viewed_drop :: "vk_object \<times> image_allocation \<Rightarrow> vk_state \<Rightarrow> vk_state" where
  "viewed_drop x s = image_allocation_drop (snd x) (vk_destroy (fst x) s)"

lemmas viewed_defs = viewed_ok_def viewed_objects_def viewed_refs_def

interpretation viewed_images: owned_handle viewed_drop viewed_objects viewed_refs viewed_ok
proof
  fix x assume "viewed_ok x"
  then have "clearing [fst x, ia_image (snd x), ia_memory (snd x)] (viewed_objects x) (viewed_refs x)"
    by (auto simp: viewed_defs allocation_defs)
  moreover have "viewed_drop x = vk_destroy_all [fst x, ia_image (snd x), ia_memory (snd x)]"
    by (rule ext) (simp add: viewed_drop_def image_allocation_drop_def)
  ultimately show "clears (viewed_drop x) (viewed_objects x) (viewed_refs x)"
    using clears_all by metis
qed

lemma image_view_owes:
  assumes "image_ok img"
  shows "owes base (image_objects img) (image_refs img)
    (io_cleanup (image_allocation_drop img) (create_image_view driver (ia_image img) fmt))
    (\<lambda>v. viewed_ok (v, img)) (\<lambda>v. viewed_objects (v, img)) (\<lambda>v. viewed_refs (v, img))"
  unfolding create_image_view_def
  by (rule images.cleanup [OF assms], rule runs_weaken [OF runs_map_err [OF create_view_runs]])
    (use assms in \<open>auto simp: viewed_defs allocation_defs\<close>)

lemma create_viewed_image_owes:
  "owes base {} {} (create_viewed_image driver dims fmt) viewed_ok viewed_objects viewed_refs"
  unfolding create_viewed_image_def create_local_image_def
  by (rule runs_bind [OF create_local_image_owes], rule runs_bind [OF image_view_owes])
    (auto simp: runs_def io_return_def)

text \<open>The view of a source buffer.\<close>

lemma create_buffer_view_owes:
  assumes "buffer_ok b"
  shows "owes base (buffer_objects b) (buffer_refs b) (create_buffer_view driver b span)
    (\<lambda>v. \<exists>n. v = Buffer_view n) (\<lambda>v. insert v (buffer_objects b))
    (\<lambda>v. insert (v, ba_buffer b) (buffer_refs b))"
  unfolding create_buffer_view_def
  by (rule buffers.cleanup [OF assms], rule runs_weaken [OF create_view_runs])
    (use assms in \<open>auto simp: allocation_defs\<close>)

fun nv12_source_ok :: "nv12_source_allocation \<Rightarrow> bool" where
  "nv12_source_ok (Source_direct sampled) \<longleftrightarrow> image_ok sampled"
| "nv12_source_ok (Source_compute view source) \<longleftrightarrow> (\<exists>n. view = Buffer_view n) \<and> buffer_ok source"
| "nv12_source_ok (Source_transfer source) \<longleftrightarrow> buffer_ok source"

fun nv12_source_objects :: "nv12_source_allocation \<Rightarrow> vk_object set" where
  "nv12_source_objects (Source_direct sampled) = image_objects sampled"
| "nv12_source_objects (Source_compute view source) = insert view (buffer_objects source)"
| "nv12_source_objects (Source_transfer source) = buffer_objects source"

fun nv12_source_refs :: "nv12_source_allocation \<Rightarrow> (vk_object \<times> vk_object) set" where
  "nv12_source_refs (Source_direct sampled) = image_refs sampled"
| "nv12_source_refs (Source_compute view source) = insert (view, ba_buffer source) (buffer_refs source)"
| "nv12_source_refs (Source_transfer source) = buffer_refs source"

lemma clears_view_buffer:
  assumes "v = Buffer_view n" and "buffer_ok b"
  shows "clears (\<lambda>s. buffer_allocation_drop b (vk_destroy v s)) (insert v (buffer_objects b))
    (insert (v, ba_buffer b) (buffer_refs b))"
proof -
  have "clearing [v, ba_buffer b, ba_memory b] (insert v (buffer_objects b))
      (insert (v, ba_buffer b) (buffer_refs b))"
    using assms by (auto simp: allocation_defs)
  moreover have "(\<lambda>s. buffer_allocation_drop b (vk_destroy v s)) = vk_destroy_all [v, ba_buffer b, ba_memory b]"
    by (rule ext) (simp add: buffer_allocation_drop_def)
  ultimately show ?thesis using clears_all by metis
qed

interpretation nv12_sources:
  owned_handle nv12_source_drop nv12_source_objects nv12_source_refs nv12_source_ok
proof
  fix x assume ok: "nv12_source_ok x"
  show "clears (nv12_source_drop x) (nv12_source_objects x) (nv12_source_refs x)"
  proof (cases x)
    case (Source_direct a)
    then show ?thesis using ok images.dispose_clears [of a] by (simp add: clears_def)
  next
    case (Source_compute v b)
    then show ?thesis using ok clears_view_buffer [of v _ b] by (auto simp: clears_def)
  next
    case (Source_transfer b)
    then show ?thesis using ok buffers.dispose_clears [of b] by (simp add: clears_def)
  qed
qed

lemma create_cached_nv12_source_owes:
  "owes base {} {} (create_cached_nv12_source driver fd bsize asize strategy)
     nv12_source_ok nv12_source_objects nv12_source_refs"
proof -
  have transfer: "owes base {} {} (io_bind
      (create_imported_buffer_with_allocation_size driver fd bsize asize usage)
      (\<lambda>source. io_return (Source_transfer source))) nv12_source_ok nv12_source_objects nv12_source_refs"
    for usage
    by (rule runs_bind [OF create_imported_buffer_owes]) (simp add: runs_def io_return_def)
  have viewed: "owes base (buffer_objects b) (buffer_refs b) (io_bind
      (io_map_err g (create_buffer_view driver b bsize))
      (\<lambda>view. io_return (Source_compute view b))) nv12_source_ok nv12_source_objects nv12_source_refs"
    if "buffer_ok b" for b g
    by (rule runs_bind [OF runs_map_err [OF create_buffer_view_owes [OF that]]])
      (use that in \<open>simp add: runs_def io_return_def\<close>)
  have compute: "owes base {} {} (io_bind
      (create_imported_buffer_with_allocation_size driver fd bsize asize usage)
      (\<lambda>source. io_bind (io_map_err g (create_buffer_view driver source bsize))
        (\<lambda>view. io_return (Source_compute view source)))) nv12_source_ok nv12_source_objects nv12_source_refs"
    for usage g
    by (rule runs_bind [OF create_imported_buffer_owes viewed])
  show ?thesis
    unfolding create_cached_nv12_source_def [abs_def]
    by (intro runs_if transfer compute err_runs)
qed

fun packed_source_ok :: "packed_source_allocation \<Rightarrow> bool" where
  "packed_source_ok (Packed_source_direct sampled) \<longleftrightarrow> image_ok sampled"
| "packed_source_ok (Packed_source_staged view source) \<longleftrightarrow> (\<exists>n. view = Buffer_view n) \<and> buffer_ok source"

fun packed_source_objects :: "packed_source_allocation \<Rightarrow> vk_object set" where
  "packed_source_objects (Packed_source_direct sampled) = image_objects sampled"
| "packed_source_objects (Packed_source_staged view source) = insert view (buffer_objects source)"

fun packed_source_refs :: "packed_source_allocation \<Rightarrow> (vk_object \<times> vk_object) set" where
  "packed_source_refs (Packed_source_direct sampled) = image_refs sampled"
| "packed_source_refs (Packed_source_staged view source) = insert (view, ba_buffer source) (buffer_refs source)"

interpretation packed_sources:
  owned_handle packed_source_drop packed_source_objects packed_source_refs packed_source_ok
proof
  fix x assume ok: "packed_source_ok x"
  show "clears (packed_source_drop x) (packed_source_objects x) (packed_source_refs x)"
  proof (cases x)
    case (Packed_source_direct a)
    then show ?thesis using ok images.dispose_clears [of a] by (simp add: clears_def)
  next
    case (Packed_source_staged v b)
    then show ?thesis using ok clears_view_buffer [of v _ b] by (auto simp: clears_def)
  qed
qed

lemma create_cached_packed_staged_source_owes:
  "owes base {} {} (create_cached_packed_staged_source driver fd asize)
     packed_source_ok packed_source_objects packed_source_refs"
  unfolding create_cached_packed_staged_source_def create_imported_buffer_def
  by (rule runs_bind [OF create_imported_buffer_owes], rule runs_bind [OF runs_map_err [OF create_buffer_view_owes]])
    (auto simp: runs_def io_return_def)

section \<open>Compute pipelines\<close>

text \<open>A cleanup that gives back one object of several.\<close>

lemma runs_cleanup_one:
  assumes "steps base (insert t A) D m valid objs refs" and "t \<notin> A"
    and "\<forall>u. (u, t) \<notin> D" and "D \<inter> {t} \<times> UNIV = {}"
  shows "runs base (insert t A) D A D (io_cleanup (vk_destroy t) m) valid objs refs"
  unfolding runs_def
proof (intro allI impI)
  fix s0 s
  assume s: "vk_wf s0" "base \<subseteq> vs_live s0" "gained s0 (insert t A) D s"
  obtain r s1 where m: "m s = (r, s1)" by fastforce
  have first: "outcome s0 (insert t A) D valid objs refs (r, s1)"
    using assms(1) s unfolding runs_def m [symmetric] by blast
  have sets: "insert t A - {t} = A" "D - {t} \<times> UNIV = D" using assms(2,4) by auto
  show "outcome s0 A D valid objs refs (io_cleanup (vk_destroy t) m s)"
  proof (cases r)
    case (Inl e)
    then have "gained s0 (insert t A - {t}) (D - {t} \<times> UNIV) (vk_destroy t s1)"
      using first assms(3) by (intro gained_destroy [OF s(1)]) simp_all
    then show ?thesis by (simp add: io_cleanup_def m Inl sets)
  next
    case (Inr x)
    then show ?thesis using first by (simp add: io_cleanup_def m)
  qed
qed

lemma vk_new_many_Suc:
  "vk_new_many (Suc n) s =
     (case vk_new_many n s of (objs, s1) \<Rightarrow> (case vk_new Pipeline Plain s1 of (x, s2) \<Rightarrow> (objs @ [x], s2)))"
  by (simp add: vk_new_many_def)

lemma gained_new_many:
  assumes "vk_wf s0" and "gained s0 A D s"
  shows "vk_new_many n s = (objs, s') \<Longrightarrow>
    gained s0 (A \<union> set objs) D s' \<and> distinct objs \<and> A \<inter> set objs = {}"
proof (induction n arbitrary: objs s')
  case 0
  then show ?case using assms by (simp add: vk_new_many_def)
next
  case (Suc n)
  obtain made s1 where made: "vk_new_many n s = (made, s1)" by fastforce
  have made': "gained s0 (A \<union> set made) D s1" "distinct made" "A \<inter> set made = {}"
    using Suc.IH [OF made] by simp_all
  have "objs = made @ [Pipeline (vs_next s1)]" "s' = snd (vk_new Pipeline Plain s1)"
    using Suc.prems by (simp_all add: vk_new_many_Suc made vk_new_def)
  then show ?case
    using made' gained_new(1) [OF assms(1) made'(1), of Pipeline]
      gained_new(2) [OF assms(1) made'(1), of Pipeline Plain] by auto
qed

lemma gained_destroy_all:
  assumes "vk_wf s0"
  shows "gained s0 (A \<union> set objs) {} s \<Longrightarrow> distinct objs \<Longrightarrow> A \<inter> set objs = {} \<Longrightarrow>
    gained s0 A {} (vk_destroy_all objs s)"
proof (induction objs arbitrary: s)
  case Nil
  then show ?case by simp
next
  case (Cons x objs)
  have "gained s0 (A \<union> set (x # objs) - {x}) {} (vk_destroy x s)"
    using gained_destroy [OF assms Cons.prems(1), of x] by simp
  moreover have "A \<union> set (x # objs) - {x} = A \<union> set objs" using Cons.prems(2,3) by auto
  ultimately show ?case using Cons by simp
qed

definition pipeline_ok :: "compute_pipeline \<Rightarrow> bool" where
  "pipeline_ok p \<longleftrightarrow> (\<exists>a b c. cp_descriptor_set_layout p = Descriptor_set_layout a \<and>
     cp_pipeline_layout p = Pipeline_layout b \<and> cp_pipeline p = Pipeline c)"

definition pipeline_objects :: "compute_pipeline \<Rightarrow> vk_object set" where
  "pipeline_objects p = {cp_descriptor_set_layout p, cp_pipeline_layout p, cp_pipeline p}"

interpretation pipelines: owned_handle compute_pipeline_drop pipeline_objects "\<lambda>_. {}" pipeline_ok
proof
  fix p assume "pipeline_ok p"
  then have "clearing [cp_pipeline p, cp_pipeline_layout p, cp_descriptor_set_layout p]
      (pipeline_objects p) {}"
    by (auto simp: pipeline_ok_def pipeline_objects_def)
  moreover have "compute_pipeline_drop p =
      vk_destroy_all [cp_pipeline p, cp_pipeline_layout p, cp_descriptor_set_layout p]"
    by (rule ext) (simp add: compute_pipeline_drop_def)
  ultimately show "clears (compute_pipeline_drop p) (pipeline_objects p) {}"
    using clears_all by metis
qed

text \<open>The pipeline call: the shader goes in every case, and the layout and the pipelines of a failure.\<close>

lemma create_compute_pipelines_runs:
  assumes "vk_wf s0" and "gained s0 A D s" and "create_compute_pipelines driver s = (made, s')"
  shows "case made of
      Inl (objs, e) \<Rightarrow> gained s0 (A \<union> set objs) D s' \<and> distinct objs \<and> A \<inter> set objs = {}
    | Inr None \<Rightarrow> gained s0 A D s'
    | Inr (Some p) \<Rightarrow> gained s0 (insert p A) D s' \<and> (\<exists>n. p = Pipeline n) \<and> p \<notin> A"
proof -
  let ?s = "s\<lparr>vs_calls := vs_calls s + 1\<rparr>"
  have called: "gained s0 A D ?s" using assms(2) by (rule gained_call)
  show ?thesis
  proof (cases "dr_fails driver (vs_calls s)")
    case None
    then show ?thesis
      using assms(3) called gained_new(1) [OF assms(1) called, of Pipeline]
        gained_new(2) [OF assms(1) called, of Pipeline Plain]
      by (auto simp: create_compute_pipelines_def vk_call_def vk_new_def split: if_splits)
  next
    case (Some e)
    obtain objs s1 where many: "vk_new_many (dr_partial driver (vs_calls s)) ?s = (objs, s1)" by fastforce
    then show ?thesis
      using assms(3) Some gained_new_many [OF assms(1) called many]
      by (auto simp: create_compute_pipelines_def vk_call_def)
  qed
qed

lemma make_pipeline_runs:
  assumes "layout = Pipeline_layout n" and "shader = Shader_module k" and "layout \<notin> A" and "shader \<notin> A"
  shows "runs base (insert shader (insert layout A)) {} A {} (make_pipeline driver layout shader)
    (\<lambda>p. (\<exists>n. p = Pipeline n) \<and> p \<notin> A) (\<lambda>p. insert p (insert layout A)) (\<lambda>_. {})"
  unfolding runs_def
proof (intro allI impI)
  fix s0 s
  assume s: "vk_wf s0" "base \<subseteq> vs_live s0" "gained s0 (insert shader (insert layout A)) {} s"
  obtain made s1 where made: "create_compute_pipelines driver s = (made, s1)" by fastforce
  note after = create_compute_pipelines_runs [OF s(1,3) made]
  have shader: "gained s0 (insert layout A \<union> B) {} (vk_destroy shader t)"
    if "gained s0 (insert shader (insert layout A) \<union> B) {} t" "shader \<notin> B" for t B
  proof -
    have "insert shader (insert layout A) \<union> B - {shader} = insert layout A \<union> B"
      using assms that(2) by auto
    then show ?thesis using gained_destroy [OF s(1) that(1), of shader] by simp
  qed
  have layout: "gained s0 A {} (vk_destroy layout t)" if "gained s0 (insert layout A) {} t" for t
    using gained_destroy [OF s(1) that, of layout] assms(3) by simp
  show "outcome s0 A {} (\<lambda>p. (\<exists>n. p = Pipeline n) \<and> p \<notin> A) (\<lambda>p. insert p (insert layout A)) (\<lambda>_. {})
      (make_pipeline driver layout shader s)"
  proof (cases made)
    case (Inl failure)
    obtain objs e where f: "failure = (objs, e)" by fastforce
    have g: "gained s0 (insert shader (insert layout A) \<union> set objs) {} s1" "distinct objs"
        "insert shader (insert layout A) \<inter> set objs = {}"
      using after Inl f by simp_all
    have "gained s0 (insert layout A) {} (vk_destroy_all objs (vk_destroy shader s1))"
      by (rule gained_destroy_all [OF s(1) shader [OF g(1)] g(2)]) (use g(3) in auto)
    then show ?thesis using layout by (simp add: make_pipeline_def made Inl f)
  next
    case (Inr p)
    show ?thesis
    proof (cases p)
      case None
      then show ?thesis
        using after Inr shader [of "{}" s1] layout by (simp add: make_pipeline_def made)
    next
      case (Some x)
      have x: "gained s0 (insert x (insert shader (insert layout A))) {} s1" "\<exists>n. x = Pipeline n" "x \<notin> A"
        using after Inr Some by auto
      then have "gained s0 (insert layout A \<union> {x}) {} (vk_destroy shader s1)"
        using assms(2) by (intro shader) auto
      then show ?thesis using x(2,3) by (simp add: make_pipeline_def made Inr Some insert_commute)
    qed
  qed
qed

lemma build_pipeline_runs:
  assumes "layout = Pipeline_layout n" and "layout \<notin> A"
  shows "runs base (insert layout A) {} A {} (build_pipeline driver bytes layout)
    (\<lambda>p. (\<exists>n. p = Pipeline n) \<and> p \<notin> A) (\<lambda>p. insert p (insert layout A)) (\<lambda>_. {})"
proof -
  have words: "runs base (insert layout A) {} A {} (io_cleanup (vk_destroy layout)
      (\<lambda>s. (shader_words_of bytes, s))) (\<lambda>_. True) (\<lambda>_. insert layout A) (\<lambda>_. {})"
    by (rule runs_cleanup_one [OF reads_runs assms(2)]) simp_all
  have shader: "runs base (insert layout A) {} A {} (io_cleanup (vk_destroy layout)
      (io_map_err g (vk_create driver Shader_module Plain)))
      (\<lambda>x. (\<exists>n. x = Shader_module n) \<and> x \<notin> insert layout A) (\<lambda>x. insert x (insert layout A)) (\<lambda>_. {})" for g
    by (rule runs_cleanup_one [OF runs_map_err [OF vk_create_runs] assms(2)]) simp_all
  show ?thesis
    unfolding build_pipeline_def
    by (rule runs_bind [OF words], rule runs_bind [OF shader])
      (use assms in \<open>auto intro!: make_pipeline_runs\<close>)
qed

lemma pipeline_new_owes:
  "owes base {} {} (io_bind (io_map_err g (vk_create driver Descriptor_set_layout info))
     (\<lambda>set_layout. io_cleanup (vk_destroy set_layout)
       (io_bind (io_map_err Create_pipeline_layout_failed (vk_create driver Pipeline_layout Plain))
       (\<lambda>layout. io_bind (build_pipeline driver bytes layout)
       (\<lambda>pipeline. io_return \<lparr>cp_output = output, cp_descriptor_set_layout = set_layout,
          cp_pipeline_layout = layout, cp_pipeline = pipeline\<rparr>))))) pipeline_ok pipeline_objects (\<lambda>_. {})"
proof -
  have inner: "steps base {set_layout} {}
      (io_bind (io_map_err Create_pipeline_layout_failed (vk_create driver Pipeline_layout Plain))
        (\<lambda>layout. io_bind (build_pipeline driver bytes layout)
        (\<lambda>pipeline. io_return \<lparr>cp_output = output, cp_descriptor_set_layout = set_layout,
          cp_pipeline_layout = layout, cp_pipeline = pipeline\<rparr>))) pipeline_ok pipeline_objects (\<lambda>_. {})"
    if sl: "set_layout = Descriptor_set_layout a" for set_layout a
  proof (rule runs_bind [OF runs_map_err [OF vk_create_runs]], simp, elim conjE exE)
    fix layout n assume layout: "layout = Pipeline_layout n"
    then have "runs base {layout, set_layout} {} {set_layout} {} (build_pipeline driver bytes layout)
        (\<lambda>p. (\<exists>n. p = Pipeline n) \<and> p \<notin> {set_layout}) (\<lambda>p. {p, layout, set_layout}) (\<lambda>_. {})"
      using sl by (intro build_pipeline_runs) simp_all
    then show "runs base {layout, set_layout} {} {set_layout} {} (io_bind (build_pipeline driver bytes layout)
        (\<lambda>pipeline. io_return \<lparr>cp_output = output, cp_descriptor_set_layout = set_layout,
          cp_pipeline_layout = layout, cp_pipeline = pipeline\<rparr>)) pipeline_ok pipeline_objects (\<lambda>_. {})"
      by (rule runs_bind)
        (use sl layout in \<open>auto simp: runs_def io_return_def pipeline_ok_def pipeline_objects_def insert_commute\<close>)
  qed
  show ?thesis
    by (rule runs_bind [OF runs_map_err [OF vk_create_runs]]) (auto intro!: owes_cleanup_one inner)
qed

section \<open>Output slots\<close>

lemma clearing_append:
  "clearing xs A D \<Longrightarrow> clearing ys B E \<Longrightarrow> A \<inter> B = {} \<Longrightarrow> D \<subseteq> A \<times> A \<Longrightarrow> E \<subseteq> B \<times> B \<Longrightarrow>
   clearing (xs @ ys) (A \<union> B) (D \<union> E)"
proof (induction xs arbitrary: A D)
  case Nil
  then show ?case by simp
next
  case (Cons t xs)
  have t: "t \<in> A" "t \<notin> B" "\<forall>u. (u, t) \<notin> D" using Cons.prems by auto
  have "clearing (xs @ ys) ((A - {t}) \<union> B) ((D - {t} \<times> UNIV) \<union> E)"
    using Cons.prems t by (intro Cons.IH) auto
  moreover have "A \<union> B - {t} = (A - {t}) \<union> B" using t(2) by auto
  moreover have "D \<union> E - {t} \<times> UNIV = (D - {t} \<times> UNIV) \<union> E" using t(2) Cons.prems(5) by auto
  moreover have "\<forall>u. (u, t) \<notin> D \<union> E" using t(2,3) Cons.prems(5) by auto
  ultimately show ?case using t(1) by simp
qed

lemma vk_destroy_all_append: "vk_destroy_all (xs @ ys) s = vk_destroy_all ys (vk_destroy_all xs s)"
  by (induction xs arbitrary: s) simp_all

definition image_list :: "image_allocation \<Rightarrow> vk_object list" where
  "image_list a = [ia_image a, ia_memory a]"

definition viewed_list :: "vk_object \<times> image_allocation \<Rightarrow> vk_object list" where
  "viewed_list x = fst x # image_list (snd x)"

lemma image_clearing:
  "image_ok a \<Longrightarrow> clearing (image_list a) (image_objects a) (image_refs a)"
  "image_refs a \<subseteq> image_objects a \<times> image_objects a"
  by (auto simp: image_list_def allocation_defs)

lemma viewed_clearing:
  "viewed_ok x \<Longrightarrow> clearing (viewed_list x) (viewed_objects x) (viewed_refs x)"
  "viewed_refs x \<subseteq> viewed_objects x \<times> viewed_objects x"
  by (auto simp: viewed_list_def image_list_def viewed_defs allocation_defs)

fun slot_images_ok :: "slot_images \<Rightarrow> bool" where
  "slot_images_ok (Slot_rgba view sampled) \<longleftrightarrow> viewed_ok (view, sampled)"
| "slot_images_ok (Slot_nv12 sampled) \<longleftrightarrow> image_ok sampled"
| "slot_images_ok (Slot_transfer_planes luma chroma) \<longleftrightarrow>
     image_ok luma \<and> image_ok chroma \<and> image_objects luma \<inter> image_objects chroma = {}"
| "slot_images_ok (Slot_planes lv luma cv chroma) \<longleftrightarrow>
     viewed_ok (lv, luma) \<and> viewed_ok (cv, chroma) \<and> viewed_objects (lv, luma) \<inter> viewed_objects (cv, chroma) = {}"

fun slot_images_objects :: "slot_images \<Rightarrow> vk_object set" where
  "slot_images_objects (Slot_rgba view sampled) = viewed_objects (view, sampled)"
| "slot_images_objects (Slot_nv12 sampled) = image_objects sampled"
| "slot_images_objects (Slot_transfer_planes luma chroma) = image_objects luma \<union> image_objects chroma"
| "slot_images_objects (Slot_planes lv luma cv chroma) =
     viewed_objects (lv, luma) \<union> viewed_objects (cv, chroma)"

fun slot_images_refs :: "slot_images \<Rightarrow> (vk_object \<times> vk_object) set" where
  "slot_images_refs (Slot_rgba view sampled) = viewed_refs (view, sampled)"
| "slot_images_refs (Slot_nv12 sampled) = image_refs sampled"
| "slot_images_refs (Slot_transfer_planes luma chroma) = image_refs luma \<union> image_refs chroma"
| "slot_images_refs (Slot_planes lv luma cv chroma) = viewed_refs (lv, luma) \<union> viewed_refs (cv, chroma)"

fun slot_images_list :: "slot_images \<Rightarrow> vk_object list" where
  "slot_images_list (Slot_rgba view sampled) = viewed_list (view, sampled)"
| "slot_images_list (Slot_nv12 sampled) = image_list sampled"
| "slot_images_list (Slot_transfer_planes luma chroma) = image_list luma @ image_list chroma"
| "slot_images_list (Slot_planes lv luma cv chroma) = viewed_list (lv, luma) @ viewed_list (cv, chroma)"

lemma slot_images_clearing:
  "slot_images_ok x \<Longrightarrow> clearing (slot_images_list x) (slot_images_objects x) (slot_images_refs x)"
  by (cases x) (simp_all add: image_clearing viewed_clearing clearing_append)

lemma slot_images_drop_list: "slot_images_drop x = vk_destroy_all (slot_images_list x)"
  by (rule ext, cases x)
    (simp_all add: image_list_def viewed_list_def image_allocation_drop_def)

lemma slot_images_kinds:
  "slot_images_ok x \<Longrightarrow> y \<in> slot_images_objects x \<Longrightarrow> \<exists>n. y = Image n \<or> y = Memory n \<or> y = Image_view n"
  by (cases x) (auto simp: viewed_defs allocation_defs)

lemma slot_images_refs_inside:
  "slot_images_refs x \<subseteq> slot_images_objects x \<times> slot_images_objects x"
  by (cases x) (use image_clearing(2) viewed_clearing(2) in \<open>fastforce+\<close>)

interpretation slots_images:
  owned_handle slot_images_drop slot_images_objects slot_images_refs slot_images_ok
  by unfold_locales (simp add: slot_images_drop_list clears_all slot_images_clearing)

lemma create_transfer_images_owes:
  "owes base {} {} (create_transfer_images driver dims strategy)
     (\<lambda>x. slot_images_ok x \<and> (\<nexists>v a. x = Slot_rgba v a) \<and> (\<nexists>v a w b. x = Slot_planes v a w b))
     slot_images_objects slot_images_refs"
  (is "owes base {} {} _ ?ok _ _")
proof -
  have first: "owes base {} {} (create_local_image driver dims fmt usage) image_ok image_objects image_refs"
    for dims fmt usage base
    unfolding create_local_image_def by (rule create_local_image_owes)
  have second: "owes base (image_objects luma) (image_refs luma) (io_bind
      (io_cleanup (image_allocation_drop luma)
        (create_local_image driver (chroma_dimensions dims) R8G8_UNORM TRANSFER_NV12_OUTPUT_USAGE))
      (\<lambda>chroma. io_return (Slot_transfer_planes luma chroma))) ?ok slot_images_objects slot_images_refs"
    if "image_ok luma" for luma
    by (rule runs_bind [OF images.beside [OF that first]])
      (use that in \<open>auto simp: runs_def io_return_def\<close>)
  show ?thesis
  proof (cases "strategy = LinearBufferToOptimalNv12")
    case True
    have "owes base {} {} (io_bind
        (create_local_image driver dims IMPORTED_NV12_FORMAT TRANSFER_NV12_OUTPUT_USAGE)
        (\<lambda>sampled. io_return (Slot_nv12 sampled))) ?ok slot_images_objects slot_images_refs"
      by (rule runs_bind [OF first]) (simp add: runs_def io_return_def)
    then show ?thesis using True by (simp add: create_transfer_images_def)
  next
    case False
    have "owes base {} {} (io_bind
        (create_local_image driver dims R8_UNORM TRANSFER_NV12_OUTPUT_USAGE)
        (\<lambda>luma. io_bind (io_cleanup (image_allocation_drop luma)
            (create_local_image driver (chroma_dimensions dims) R8G8_UNORM TRANSFER_NV12_OUTPUT_USAGE))
          (\<lambda>chroma. io_return (Slot_transfer_planes luma chroma)))) ?ok slot_images_objects slot_images_refs"
      by (rule runs_bind [OF first second])
    then show ?thesis using False by (simp add: create_transfer_images_def)
  qed
qed

lemma create_compute_images_owes:
  "owes base {} {} (create_compute_images driver dims compute)
     (\<lambda>x. slot_images_ok x \<and> ((\<exists>v a. x = Slot_rgba v a) \<or> (\<exists>v a w b. x = Slot_planes v a w b)))
     slot_images_objects slot_images_refs"
  (is "owes base {} {} _ ?ok _ _")
proof -
  have rgba: "owes base {} {} (io_bind (create_viewed_image driver dims IMPORTED_RGBA_FORMAT)
      (\<lambda>(view, sampled). io_return (Slot_rgba view sampled))) ?ok slot_images_objects slot_images_refs"
    by (rule runs_bind [OF create_viewed_image_owes]) (auto simp: runs_def io_return_def)
  have second: "owes base (viewed_objects x) (viewed_refs x) (io_bind
      (io_cleanup (viewed_drop x) (create_viewed_image driver (chroma_dimensions dims) R8G8_UNORM))
      (\<lambda>y. io_return (Slot_planes (fst x) (snd x) (fst y) (snd y)))) ?ok slot_images_objects slot_images_refs"
    if "viewed_ok x" for x
    by (rule runs_bind [OF viewed_images.beside [OF that create_viewed_image_owes]])
      (use that in \<open>auto simp: runs_def io_return_def\<close>)
  have planes: "owes base {} {} (io_bind (create_viewed_image driver dims R8_UNORM)
      (\<lambda>x. io_bind
        (io_cleanup (viewed_drop x) (create_viewed_image driver (chroma_dimensions dims) R8G8_UNORM))
        (\<lambda>y. io_return (Slot_planes (fst x) (snd x) (fst y) (snd y))))) ?ok slot_images_objects slot_images_refs"
    by (rule runs_bind [OF create_viewed_image_owes second])
  have "viewed_drop (v, a) = (\<lambda>s. image_allocation_drop a (vk_destroy v s))" for v a
    by (rule ext) (simp add: viewed_drop_def)
  then show ?thesis
    using rgba planes by (cases compute) (simp_all add: create_compute_images_def split_def viewed_drop_def [abs_def])
qed

text \<open>Descriptor sets: a set lives and dies with its pool.\<close>

lemma vk_edges_bindings [simp]: "vk_edges (s\<lparr>vs_bindings := b\<rparr>) = vk_edges s"
  by (simp add: vk_edges_def)

lemma vk_wf_bindings [simp]: "vk_wf (s\<lparr>vs_bindings := b\<rparr>) = vk_wf s"
  unfolding vk_wf_def vk_edges_bindings by simp

lemma gained_bindings: "gained s0 A D s \<Longrightarrow> gained s0 A D (s\<lparr>vs_bindings := b\<rparr>)"
  by (simp add: gained_def)

lemma gained_next: "gained s0 A D s \<Longrightarrow> gained s0 A D (s\<lparr>vs_next := Suc (vs_next s)\<rparr>)"
proof -
  assume g: "gained s0 A D s"
  have edges: "vk_edges (s\<lparr>vs_next := Suc (vs_next s)\<rparr>) = vk_edges s" by (simp add: vk_edges_def)
  have "vk_wf (s\<lparr>vs_next := Suc (vs_next s)\<rparr>)"
    using gained_wf [OF g] unfolding vk_wf_def edges by (auto simp: less_SucI)
  then show ?thesis using g unfolding gained_def edges by simp
qed

lemma allocate_descriptor_set_runs:
  "steps base A D (allocate_descriptor_set driver)
     (\<lambda>x. x = None \<longrightarrow> (\<exists>i. dr_empty driver i)) (\<lambda>_. A) (\<lambda>_. D)"
  unfolding runs_def
proof (intro allI impI)
  fix s0 s
  assume "gained s0 A D s"
  then have "gained s0 A D (s\<lparr>vs_calls := vs_calls s + 1\<rparr>)" by (rule gained_call)
  then show "outcome s0 A D (\<lambda>x. x = None \<longrightarrow> (\<exists>i. dr_empty driver i)) (\<lambda>_. A) (\<lambda>_. D)
      (allocate_descriptor_set driver s)"
    using gained_next
    by (fastforce simp: allocate_descriptor_set_def vk_call_def split: option.split)
qed

definition pool_ok :: "vk_object \<times> vk_object \<Rightarrow> bool" where
  "pool_ok x \<longleftrightarrow> (\<exists>n. fst x = Descriptor_pool n)"

lemma create_packed_descriptors_owes:
  "owes base {} {} (create_packed_descriptors driver) pool_ok (\<lambda>x. {fst x}) (\<lambda>_. {})"
proof -
  have "steps base {pool} {} (io_bind (io_map_err Allocate_descriptor_set_failed (allocate_descriptor_set driver))
      (\<lambda>descriptor_set s. case descriptor_set of Some dset \<Rightarrow> (Ok (pool, dset), s)
         | None \<Rightarrow> (Err No_descriptor_set, s))) pool_ok (\<lambda>x. {fst x}) (\<lambda>_. {})"
    if "pool = Descriptor_pool n" for pool n
    by (rule runs_bind [OF runs_map_err [OF allocate_descriptor_set_runs]])
      (use that in \<open>auto simp: runs_def pool_ok_def split: option.split\<close>)
  then show ?thesis
    unfolding create_packed_descriptors_def
    by (intro runs_bind [OF runs_map_err [OF vk_create_runs]]) (auto intro!: owes_cleanup_one)
qed

lemma create_slot_descriptors_owes:
  assumes "\<And>i. \<not> dr_empty driver i"
  shows "owes base {} {} (create_slot_descriptors driver count) pool_ok (\<lambda>x. {fst x}) (\<lambda>_. {})"
proof -
  have alloc: "owes base {pool} {} (io_cleanup (vk_destroy pool) (io_map_err g (allocate_descriptor_set driver)))
      (\<lambda>x. x \<noteq> None) (\<lambda>_. {pool}) (\<lambda>_. {})" for pool g
    by (rule owes_cleanup_one, rule runs_weaken [OF runs_map_err [OF allocate_descriptor_set_runs]])
      (use assms in auto)
  have "owes base {pool} {} (io_bind (io_cleanup (vk_destroy pool)
        (io_map_err Allocate_descriptor_set_failed (allocate_descriptor_set driver)))
      (\<lambda>descriptor_set s. case descriptor_set of Some dset \<Rightarrow> (Ok (pool, dset), s)
         | None \<Rightarrow> (Err No_descriptor_set, s))) pool_ok (\<lambda>x. {fst x}) (\<lambda>_. {})"
    if "pool = Descriptor_pool n" for pool n
    by (rule runs_bind [OF alloc]) (use that in \<open>auto simp: runs_def pool_ok_def\<close>)
  then show ?thesis
    unfolding create_slot_descriptors_def
    by (intro runs_bind [OF runs_map_err [OF vk_create_runs]]) auto
qed

definition packed_slot_ok :: "packed_output_slot \<Rightarrow> bool" where
  "packed_slot_ok slot \<longleftrightarrow>
     (\<exists>n. po_descriptor_pool slot = Descriptor_pool n) \<and> viewed_ok (po_storage_view slot, po_sampled slot)"

definition packed_slot_objects :: "packed_output_slot \<Rightarrow> vk_object set" where
  "packed_slot_objects slot =
     insert (po_descriptor_pool slot) (viewed_objects (po_storage_view slot, po_sampled slot))"

definition packed_slot_refs :: "packed_output_slot \<Rightarrow> (vk_object \<times> vk_object) set" where
  "packed_slot_refs slot = viewed_refs (po_storage_view slot, po_sampled slot)"

interpretation packed_slots:
  owned_handle packed_output_slot_drop packed_slot_objects packed_slot_refs packed_slot_ok
proof
  fix slot assume ok: "packed_slot_ok slot"
  let ?x = "(po_storage_view slot, po_sampled slot)"
  have fresh: "po_descriptor_pool slot \<notin> viewed_objects ?x"
    using ok by (auto simp: packed_slot_ok_def viewed_defs allocation_defs)
  then have "viewed_refs ?x - {po_descriptor_pool slot} \<times> UNIV = viewed_refs ?x"
      "\<forall>u. (u, po_descriptor_pool slot) \<notin> viewed_refs ?x"
    using viewed_clearing(2) [of ?x] by auto
  then have "clearing (po_descriptor_pool slot # viewed_list ?x) (packed_slot_objects slot)
      (packed_slot_refs slot)"
    using ok fresh viewed_clearing(1) [of ?x]
    by (simp add: packed_slot_ok_def packed_slot_objects_def packed_slot_refs_def)
  moreover have "packed_output_slot_drop slot = vk_destroy_all (po_descriptor_pool slot # viewed_list ?x)"
    by (rule ext)
      (simp add: packed_output_slot_drop_def viewed_list_def image_list_def image_allocation_drop_def)
  ultimately show "clears (packed_output_slot_drop slot) (packed_slot_objects slot) (packed_slot_refs slot)"
    by (simp add: clears_all)
qed

lemma create_packed_output_slot_owes:
  "owes base {} {} (create_packed_output_slot driver dims pipeline view)
     packed_slot_ok packed_slot_objects packed_slot_refs"
proof -
  have descriptors: "owes base (viewed_objects (v, img)) (viewed_refs (v, img))
      (io_bind (io_cleanup (\<lambda>s. image_allocation_drop img (vk_destroy v s)) (create_packed_descriptors driver))
        (\<lambda>(pool, dset) s.
         let slot = \<lparr>po_descriptor_pool = pool, po_descriptor_set = dset, po_storage_view = v,
                     po_sampled = img\<rparr> in
         (Ok slot, update_packed_descriptor_set slot view s)))
      packed_slot_ok packed_slot_objects packed_slot_refs" if ok: "viewed_ok (v, img)" for v img
  proof (rule runs_bind)
    have "(\<lambda>s. image_allocation_drop img (vk_destroy v s)) = viewed_drop (v, img)"
      by (rule ext) (simp add: viewed_drop_def)
    then show "owes base (viewed_objects (v, img)) (viewed_refs (v, img))
        (io_cleanup (\<lambda>s. image_allocation_drop img (vk_destroy v s)) (create_packed_descriptors driver))
        (\<lambda>x. pool_ok x \<and> viewed_objects (v, img) \<inter> {fst x} = {})
        (\<lambda>x. viewed_objects (v, img) \<union> {fst x}) (\<lambda>x. viewed_refs (v, img) \<union> {})"
      using viewed_images.beside [OF ok create_packed_descriptors_owes, of "{}" base] by simp
  qed (use ok in \<open>auto simp: runs_def pool_ok_def packed_slot_ok_def packed_slot_objects_def
      packed_slot_refs_def update_packed_descriptor_set_def bind_views_def gained_bindings Let_def\<close>)
  show ?thesis
    unfolding create_packed_output_slot_def
    by (rule runs_bind [OF create_local_image_owes], rule runs_bind [OF image_view_owes]) (assumption, rule descriptors)
qed

definition staged_slot_ok :: "staged_output_slot \<Rightarrow> bool" where
  "staged_slot_ok slot \<longleftrightarrow> slot_images_ok (so_images slot) \<and>
     (case so_descriptor_pool slot of None \<Rightarrow> True | Some pool \<Rightarrow> \<exists>n. pool = Descriptor_pool n)"

definition staged_slot_objects :: "staged_output_slot \<Rightarrow> vk_object set" where
  "staged_slot_objects slot = set_option (so_descriptor_pool slot) \<union> slot_images_objects (so_images slot)"

definition staged_slot_refs :: "staged_output_slot \<Rightarrow> (vk_object \<times> vk_object) set" where
  "staged_slot_refs slot = slot_images_refs (so_images slot)"

lemmas staged_slot_defs = staged_slot_ok_def staged_slot_objects_def staged_slot_refs_def

interpretation staged_slots:
  owned_handle staged_output_slot_drop staged_slot_objects staged_slot_refs staged_slot_ok
proof
  fix slot assume ok: "staged_slot_ok slot"
  let ?x = "so_images slot"
  show "clears (staged_output_slot_drop slot) (staged_slot_objects slot) (staged_slot_refs slot)"
  proof (cases "so_descriptor_pool slot")
    case None
    then have "staged_output_slot_drop slot = slot_images_drop ?x"
      by (intro ext) (simp add: staged_output_slot_drop_def)
    then show ?thesis
      using ok None slots_images.dispose_clears [of ?x] by (simp add: staged_slot_defs)
  next
    case (Some pool)
    have fresh: "pool \<notin> slot_images_objects ?x"
      using ok Some slot_images_kinds [of ?x pool] by (auto simp: staged_slot_ok_def)
    then have "slot_images_refs ?x - {pool} \<times> UNIV = slot_images_refs ?x"
        "\<forall>u. (u, pool) \<notin> slot_images_refs ?x"
      using slot_images_refs_inside [of ?x] by auto
    then have "clearing (pool # slot_images_list ?x) (staged_slot_objects slot) (staged_slot_refs slot)"
      using ok Some fresh slot_images_clearing [of ?x] by (simp add: staged_slot_defs)
    moreover have "staged_output_slot_drop slot = vk_destroy_all (pool # slot_images_list ?x)"
      by (rule ext) (simp add: staged_output_slot_drop_def Some slot_images_drop_list)
    ultimately show ?thesis by (simp add: clears_all)
  qed
qed

text \<open>The two ends of \<open>create_staged_output_slot\<close>: a transfer slot and a compute slot.\<close>

lemma transfer_slot_owes:
  "owes base {} {} (io_bind (create_transfer_images driver dims strategy)
     (\<lambda>images. io_return \<lparr>so_descriptor_pool = None, so_descriptor_set = None, so_images = images\<rparr>))
     staged_slot_ok staged_slot_objects staged_slot_refs"
  by (rule runs_bind [OF create_transfer_images_owes]) (auto simp: runs_def io_return_def staged_slot_defs)

lemma update_staged_descriptor_set_runs:
  "steps base A D (update_staged_descriptor_set slot view) (\<lambda>_. True) (\<lambda>_. A) (\<lambda>_. D)"
  by (auto simp: runs_def update_staged_descriptor_set_def bind_views_def gained_bindings
      split: slot_images.split option.split)

lemma compute_slot_owes:
  assumes "\<And>i. \<not> dr_empty driver i"
  shows "owes base {} {} (io_bind (create_compute_images driver dims compute)
     (\<lambda>images. io_bind
       (io_cleanup (slot_images_drop images) (create_slot_descriptors driver count))
     (\<lambda>(pool, dset).
       let slot = \<lparr>so_descriptor_pool = Some pool, so_descriptor_set = Some dset, so_images = images\<rparr> in
       io_bind (io_cleanup (staged_output_slot_drop slot) (update_staged_descriptor_set slot view))
       (\<lambda>_. io_return slot)))) staged_slot_ok staged_slot_objects staged_slot_refs"
proof (rule runs_bind [OF create_compute_images_owes], elim conjE)
  fix images assume ok: "slot_images_ok images"
  have bound: "owes base (staged_slot_objects slot) (staged_slot_refs slot)
      (io_bind (io_cleanup (staged_output_slot_drop slot) (update_staged_descriptor_set slot view))
        (\<lambda>_. io_return slot)) staged_slot_ok staged_slot_objects staged_slot_refs"
    if "staged_slot_ok slot" for slot
    by (rule runs_bind [OF staged_slots.cleanup [OF that update_staged_descriptor_set_runs]])
      (use that in \<open>simp add: runs_def io_return_def\<close>)
  show "owes base (slot_images_objects images) (slot_images_refs images) (io_bind
       (io_cleanup (slot_images_drop images) (create_slot_descriptors driver count))
     (\<lambda>(pool, dset).
       let slot = \<lparr>so_descriptor_pool = Some pool, so_descriptor_set = Some dset, so_images = images\<rparr> in
       io_bind (io_cleanup (staged_output_slot_drop slot) (update_staged_descriptor_set slot view))
       (\<lambda>_. io_return slot))) staged_slot_ok staged_slot_objects staged_slot_refs"
  proof (rule runs_bind [OF slots_images.beside [OF ok create_slot_descriptors_owes [OF assms], of "{}"]])
    fix x :: "vk_object \<times> vk_object"
    assume x: "pool_ok x \<and> slot_images_objects images \<inter> {fst x} = {}"
    obtain pool dset where p: "x = (pool, dset)" by fastforce
    let ?slot = "\<lparr>so_descriptor_pool = Some pool, so_descriptor_set = Some dset, so_images = images\<rparr>"
    have "staged_slot_ok ?slot" "staged_slot_objects ?slot = slot_images_objects images \<union> {fst x}"
        "staged_slot_refs ?slot = slot_images_refs images \<union> {}"
      using x ok p by (auto simp: staged_slot_defs pool_ok_def)
    then show "owes base (slot_images_objects images \<union> {fst x}) (slot_images_refs images \<union> {})
       (case x of (pool, dset) \<Rightarrow>
       let slot = \<lparr>so_descriptor_pool = Some pool, so_descriptor_set = Some dset, so_images = images\<rparr> in
       io_bind (io_cleanup (staged_output_slot_drop slot) (update_staged_descriptor_set slot view))
       (\<lambda>_. io_return slot)) staged_slot_ok staged_slot_objects staged_slot_refs"
      using bound [of ?slot] p by (simp add: Let_def)
  qed simp
qed

lemma create_staged_output_slot_owes:
  assumes "\<And>i. \<not> dr_empty driver i"
  shows "owes base {} {} (create_staged_output_slot driver dims strategy pipeline view)
     staged_slot_ok staged_slot_objects staged_slot_refs"
proof (cases "strategy \<in> {DirectImageToOptimalYuvPlanes, LinearBufferToOptimalNv12,
      LinearBufferToOptimalYuvPlanes}")
  case True
  then show ?thesis
    unfolding create_staged_output_slot_def [abs_def] if_P [OF True]
    by (intro runs_if err_runs transfer_slot_owes)
next
  case False
  show ?thesis
  proof (cases pipeline)
    case None
    then show ?thesis unfolding create_staged_output_slot_def [abs_def] using False err_runs by simp
  next
    case (Some p)
    show ?thesis
    proof (cases view)
      case None
      then show ?thesis unfolding create_staged_output_slot_def [abs_def] using False Some err_runs by simp
    next
      case view: (Some v)
      show ?thesis
      proof (cases "expected_output strategy")
        case (Inl e)
        then show ?thesis
          unfolding create_staged_output_slot_def [abs_def] using False Some view err_runs by simp
      next
        case (Inr compute)
        show ?thesis
          unfolding create_staged_output_slot_def [abs_def] if_not_P [OF False] Some view
            prod.case option.case Inr sum.case
          by (intro runs_if err_runs compute_slot_owes [OF assms])
      qed
    qed
  qed
qed

section \<open>Properties\<close>

definition vk_start :: vk_state where
  "vk_start = \<lparr>vs_live = {}, vs_info = (\<lambda>_. None), vs_users = (\<lambda>_. {}), vs_bindings = (\<lambda>_. None),
     vs_next = 0, vs_calls = 0, vs_fault = False\<rparr>"

lemma vk_wf_start: "vk_wf vk_start"
  by (simp add: vk_wf_def vk_start_def vk_edges_def)

definition example_driver :: vk_driver where
  "example_driver = \<lparr>dr_fails = (\<lambda>_. None),
     dr_requirements = (\<lambda>_. \<lparr>mr_size = 4096, mr_memory_type_bits = 3\<rparr>), dr_empty = (\<lambda>_. False),
     dr_partial = (\<lambda>_. 0), dr_fd_memory_type_bits = (\<lambda>_. 2), dr_memory_type_count = 2\<rparr>"

definition example_pipeline :: "compute_output \<Rightarrow> compute_pipeline" where
  "example_pipeline which = \<lparr>cp_output = which, cp_descriptor_set_layout = Descriptor_set_layout 0,
     cp_pipeline_layout = Pipeline_layout 1, cp_pipeline = Pipeline 2\<rparr>"

lemma exact_creation_error: "exact_creation ok objs refs d s m \<Longrightarrow> fst m = Inl e \<Longrightarrow> gained s {} {} (snd m)"
  by (cases m) (simp add: exact_creation_def)

lemma exact_creation_success:
  "exact_creation ok objs refs d s m \<Longrightarrow> fst m = Inr h \<Longrightarrow>
   gained s (objs h) (refs h) (snd m) \<and> gained s {} {} (d h (snd m))"
  by (cases m) (simp add: exact_creation_def)

lemma gained_start: "gained vk_start A D s \<Longrightarrow> vs_live s = A"
  by (simp add: gained_def vk_start_def)

text \<open>Running a creation on the example driver.\<close>

lemma example_driver_simps [simp]:
  "dr_fails example_driver i = None"
  "dr_requirements example_driver obj = \<lparr>mr_size = 4096, mr_memory_type_bits = 3\<rparr>"
  "dr_fd_memory_type_bits example_driver fd = 2"
  "\<not> dr_empty example_driver i"
  by (simp_all add: example_driver_def)

lemma example_memory_types [simp]:
  "select_memory_type (example_driver\<lparr>dr_empty := e\<rparr>) 3 = Inr 0"
  "select_memory_type example_driver 3 = Inr 0"
  "select_memory_type example_driver 2 = Inr 1"
  by (simp_all add: select_memory_type_def example_driver_def upt_rec ok_or_def)

lemmas run_defs = io_bind_def io_map_err_def io_cleanup_def io_return_def vk_create_def vk_call_def
  vk_new_def vk_bind_def vk_refer_def create_view_def vk_destroy_def vk_start_def

lemmas buffer_run_defs = create_imported_buffer_with_allocation_size_def imported_memory_type_def
  duplicate_import_fd_def allocate_imported_memory_def create_buffer_view_def run_defs

lemmas slot_run_defs = expected_output_def example_pipeline_def create_compute_images_def
  create_viewed_image_def create_local_image_def create_local_image_with_flags_def
  create_image_view_def create_slot_descriptors_def create_packed_descriptors_def
  allocate_descriptor_set_def image_allocation_drop_def update_staged_descriptor_set_def
  bind_views_def chroma_dimensions_def eval_nat_numeral Let_def run_defs

text \<open>Creating a cached NV12 or packed source, or importing an image directly, is exact on every
  path: whichever driver call fails, in whatever position, no buffer, image, memory, view or descriptor stays
  behind and nothing is destroyed twice or under its users; on success the returned allocation owns
  exactly what was created, and its drop gives all of it back.\<close>

lemma cached_sources_owned_exactly:
  assumes "vk_wf s"
  shows "exact_creation nv12_source_ok nv12_source_objects nv12_source_refs nv12_source_drop s
      (create_cached_nv12_source driver fd bsize asize strategy s) \<and>
    exact_creation packed_source_ok packed_source_objects packed_source_refs packed_source_drop s
      (create_cached_packed_staged_source driver fd asize s) \<and>
    exact_creation image_ok image_objects image_refs image_allocation_drop s
      (create_direct_image driver dims fd modifier planes fmt usage size_bound s)"
  by (intro conjI nv12_sources.created [OF create_cached_nv12_source_owes assms, of "{}"]
      packed_sources.created [OF create_cached_packed_staged_source_owes assms, of "{}"]
      images.created [OF create_direct_image_owes assms, of "{}"]) simp_all

lemma cached_sources_owned_exactly_witness:
  "let (r, s) = create_cached_nv12_source example_driver 3 4096 4096 LinearBufferToRgba vk_start;
       h = Source_compute (Buffer_view 3) \<lparr>ba_buffer = Buffer 0, ba_memory = Memory 2, ba_size = 4096\<rparr> in
   r = Inr h \<and> vs_live s = {Buffer_view 3, Buffer 0, Memory 2} \<and> vs_live (nv12_source_drop h s) = {}"
proof -
  let ?m = "create_cached_nv12_source example_driver 3 4096 4096 LinearBufferToRgba vk_start"
  let ?h = "Source_compute (Buffer_view 3) \<lparr>ba_buffer = Buffer 0, ba_memory = Memory 2, ba_size = 4096\<rparr>"
  have exact: "exact_creation nv12_source_ok nv12_source_objects nv12_source_refs nv12_source_drop vk_start ?m"
    by (rule conjunct1 [OF cached_sources_owned_exactly [OF vk_wf_start]])
  have made: "fst ?m = Inr ?h"
    by (simp add: create_cached_nv12_source_def buffer_run_defs Let_def is_negative_def)
  note live = exact_creation_success [OF exact made]
  have "vs_live (snd ?m) = {Buffer_view 3, Buffer 0, Memory 2}"
    using gained_start [OF conjunct1 [OF live]] by (simp add: buffer_objects_def)
  moreover have "vs_live (nv12_source_drop ?h (snd ?m)) = {}"
    by (rule gained_start [OF conjunct2 [OF live]])
  ultimately show ?thesis using made unfolding Let_def split_def by blast
qed

text \<open>Both compute pipelines are created exactly: a failure at any call, and a failed or empty
  answer of \<open>create_compute_pipelines\<close>, leaves no layout, shader or pipeline, and the shader module never
  outlives the creation; a created pipeline owns its two layouts and itself, and drops them.\<close>

lemma compute_pipelines_owned_exactly:
  assumes "vk_wf s"
  shows "exact_creation pipeline_ok pipeline_objects (\<lambda>_. {}) compute_pipeline_drop s
      (compute_pipeline_new driver bytes which s) \<and>
    exact_creation pipeline_ok pipeline_objects (\<lambda>_. {}) compute_pipeline_drop s
      (packed_compute_pipeline_new driver shader s)"
  unfolding compute_pipeline_new_def packed_compute_pipeline_new_def
  by (intro conjI pipelines.created [OF pipeline_new_owes assms, of "{}"]) simp_all

lemma compute_pipelines_owned_exactly_witness:
  "let (r, s) = packed_compute_pipeline_new
       (example_driver\<lparr>dr_fails := (\<lambda>i. if i = 3 then Some VK_TIMEOUT else None), dr_partial := (\<lambda>_. 2)\<rparr>)
       [0, 0, 0, 0] vk_start in
   r = Inl (Create_pipeline_failed VK_TIMEOUT) \<and> vs_next s = 5 \<and> vs_live s = {}"
proof -
  let ?d = "example_driver\<lparr>dr_fails := (\<lambda>i. if i = 3 then Some VK_TIMEOUT else None), dr_partial := (\<lambda>_. 2)\<rparr>"
  let ?m = "packed_compute_pipeline_new ?d [0, 0, 0, 0] vk_start"
  have exact: "exact_creation pipeline_ok pipeline_objects (\<lambda>_. {}) compute_pipeline_drop vk_start ?m"
    by (rule conjunct2 [OF compute_pipelines_owned_exactly [OF vk_wf_start]])
  have made: "fst ?m = Inl (Create_pipeline_failed VK_TIMEOUT)" "vs_next (snd ?m) = 5"
    by (simp_all add: packed_compute_pipeline_new_def build_pipeline_def make_pipeline_def
        create_compute_pipelines_def vk_new_many_def eval_nat_numeral Let_def run_defs)
  show ?thesis
    using made gained_start [OF exact_creation_error [OF exact made(1)]] by (simp add: split_def)
qed

text \<open>An output slot for a staged NV12 import is created exactly, for each strategy, with its images,
  views and descriptor pool, as long as the driver keeps to its specification and a successful
  allocation of descriptor sets returns one.\<close>

lemma staged_output_slot_owned_exactly:
  assumes "vk_wf s" and "\<And>i. \<not> dr_empty driver i"
  shows "exact_creation staged_slot_ok staged_slot_objects staged_slot_refs staged_output_slot_drop s
    (create_staged_output_slot driver dims strategy pipeline view s)"
  by (rule staged_slots.created [OF create_staged_output_slot_owes [OF assms(2)] assms(1), of "{}"]) simp

lemma staged_output_slot_owned_exactly_witness:
  "let (r, s) = create_staged_output_slot example_driver (64, 64) LinearBufferToYuvPlanes
       (Some (example_pipeline Output_yuv_planes)) (Some (Buffer_view 3)) vk_start;
       slot = \<lparr>so_descriptor_pool = Some (Descriptor_pool 6), so_descriptor_set = Some (Descriptor_set 7),
         so_images = Slot_planes (Image_view 2) \<lparr>ia_image = Image 0, ia_memory = Memory 1\<rparr>
           (Image_view 5) \<lparr>ia_image = Image 3, ia_memory = Memory 4\<rparr>\<rparr> in
   r = Inr slot \<and> vs_live s = staged_slot_objects slot \<and> vs_live (staged_output_slot_drop slot s) = {}"
proof -
  let ?m = "create_staged_output_slot example_driver (64, 64) LinearBufferToYuvPlanes
       (Some (example_pipeline Output_yuv_planes)) (Some (Buffer_view 3)) vk_start"
  let ?slot = "\<lparr>so_descriptor_pool = Some (Descriptor_pool 6), so_descriptor_set = Some (Descriptor_set 7),
         so_images = Slot_planes (Image_view 2) \<lparr>ia_image = Image 0, ia_memory = Memory 1\<rparr>
           (Image_view 5) \<lparr>ia_image = Image 3, ia_memory = Memory 4\<rparr>\<rparr>"
  have exact: "exact_creation staged_slot_ok staged_slot_objects staged_slot_refs staged_output_slot_drop vk_start ?m"
    by (rule staged_output_slot_owned_exactly [OF vk_wf_start]) simp
  have made: "fst ?m = Inr ?slot"
    by (simp add: create_staged_output_slot_def slot_run_defs)
  note live = exact_creation_success [OF exact made]
  show ?thesis
    using made gained_start [OF conjunct1 [OF live]] gained_start [OF conjunct2 [OF live]]
    unfolding Let_def split_def by blast
qed

text \<open>A packed output slot is created exactly whatever the driver does, also when it reports success
  and returns no descriptor set.\<close>

lemma packed_output_slot_owned_exactly:
  assumes "vk_wf s"
  shows "exact_creation packed_slot_ok packed_slot_objects packed_slot_refs packed_output_slot_drop s
    (create_packed_output_slot driver dims pipeline view s)"
  by (rule packed_slots.created [OF create_packed_output_slot_owes assms, of "{}"]) simp

lemma packed_output_slot_owned_exactly_witness:
  "let (r, s) = create_packed_output_slot (example_driver\<lparr>dr_empty := (\<lambda>_. True)\<rparr>) (64, 64)
       (example_pipeline Output_rgba) (Buffer_view 3) vk_start in
   r = Inl No_descriptor_set \<and> vs_next s = 4 \<and> vs_live s = {}"
proof -
  let ?m = "create_packed_output_slot (example_driver\<lparr>dr_empty := (\<lambda>_. True)\<rparr>) (64, 64)
       (example_pipeline Output_rgba) (Buffer_view 3) vk_start"
  have exact: "exact_creation packed_slot_ok packed_slot_objects packed_slot_refs packed_output_slot_drop vk_start ?m"
    by (rule packed_output_slot_owned_exactly [OF vk_wf_start])
  have made: "fst ?m = Inl No_descriptor_set" "vs_next (snd ?m) = 4"
    by (simp_all add: create_packed_output_slot_def slot_run_defs)
  show ?thesis
    using made gained_start [OF exact_creation_error [OF exact made(1)]] by (simp add: split_def)
qed

text \<open>C26: the staged slot lacks that last step: when the driver makes the pool, reports success and
  returns no descriptor set, the step fails and leaves exactly its pool live, with no owner; so does the
  creation of a whole slot, which has dropped its images by then.\<close>

theorem empty_descriptor_list_leaks_pool:
  assumes "vk_wf s" and "dr_fails driver (vs_calls s) = None" and "dr_fails driver (vs_calls s + 1) = None"
    and "dr_empty driver (vs_calls s + 1)"
  shows "(case create_slot_descriptors driver count s of
      (r, s') \<Rightarrow> r = Inl No_descriptor_set \<and> gained s {Descriptor_pool (vs_next s)} {} s') \<and>
    (case create_staged_output_slot (example_driver\<lparr>dr_empty := (\<lambda>_. True)\<rparr>) (64, 64) LinearBufferToRgba
       (Some (example_pipeline Output_rgba)) (Some (Buffer_view 3)) vk_start of
     (r, s') \<Rightarrow> r = Inl No_descriptor_set \<and> vs_live s' = {Descriptor_pool 3})"
proof
  have "gained s {Descriptor_pool (vs_next s)} {}
      (snd (vk_new Descriptor_pool (Storage_images count) (s\<lparr>vs_calls := vs_calls s + 1\<rparr>)))"
    using gained_new(2) [OF assms(1) gained_call [OF gained_refl [OF assms(1)]], of Descriptor_pool] by simp
  from gained_call [OF this, of "vs_calls s + 2"]
  show "case create_slot_descriptors driver count s of
      (r, s') \<Rightarrow> r = Inl No_descriptor_set \<and> gained s {Descriptor_pool (vs_next s)} {} s'"
    using assms(2-4)
    by (simp add: create_slot_descriptors_def allocate_descriptor_set_def io_bind_def io_map_err_def
        io_cleanup_def vk_create_def vk_call_def vk_new_def)
  show "case create_staged_output_slot (example_driver\<lparr>dr_empty := (\<lambda>_. True)\<rparr>) (64, 64) LinearBufferToRgba
       (Some (example_pipeline Output_rgba)) (Some (Buffer_view 3)) vk_start of
     (r, s') \<Rightarrow> r = Inl No_descriptor_set \<and> vs_live s' = {Descriptor_pool 3}"
    by (auto simp: create_staged_output_slot_def slot_run_defs)
qed

theorem empty_descriptor_list_leaks_pool_witness:
  "case create_slot_descriptors (example_driver\<lparr>dr_empty := (\<lambda>_. True)\<rparr>) 1 vk_start of
     (r, s') \<Rightarrow> r = Inl No_descriptor_set \<and> gained vk_start {Descriptor_pool 0} {} s'"
  using empty_descriptor_list_leaks_pool
    [OF vk_wf_start, of "example_driver\<lparr>dr_empty := (\<lambda>_. True)\<rparr>" 1]
  by (simp add: vk_start_def split_def)

end
