(* ===== verification/Importer.thy ===== *)
theory Importer
  imports Source_Cache Output_Pool Owned_Resources
begin

text \<open>
  \<open>VulkanDmaBufImporter\<close> of \<open>vulkan/mod.rs\<close>: the importer's caches, pools and pipelines over one
  device, the imports with all their checks, and the images they return with the plan of the work
  that makes them readable. Each operation runs undisturbed here; the interleavings of the locked
  sections are those of \<open>Source_Cache\<close> and \<open>Output_Pool\<close>. A poisoned lock needs a panic under the
  lock and is not modelled.
\<close>

section \<open>The world of an importer\<close>

text \<open>
  The device's objects, the files behind the descriptors, and the process-wide counter of imports.
\<close>

record 'f world =
  w_vk :: vk_state
  w_files :: 'f
  w_next_import_id :: u64

definition on_vk :: "(vk_state \<Rightarrow> 'r \<times> vk_state) \<Rightarrow> 'f world \<Rightarrow> 'r \<times> 'f world" where
  "on_vk m w = (case m (w_vk w) of (r, s) \<Rightarrow> (r, w\<lparr>w_vk := s\<rparr>))"

definition on_files :: "('f \<Rightarrow> 'r \<times> 'f) \<Rightarrow> 'f world \<Rightarrow> 'r \<times> 'f world" where
  "on_files m w = (case m (w_files w) of (r, f) \<Rightarrow> (r, w\<lparr>w_files := f\<rparr>))"

definition vk_drop :: "(vk_state \<Rightarrow> vk_state) \<Rightarrow> 'f world \<Rightarrow> 'f world" where
  "vk_drop d w = w\<lparr>w_vk := d (w_vk w)\<rparr>"

definition next_import_id :: "'f world \<Rightarrow> u64 \<times> 'f world" where
  "next_import_id w =
     (let n = w_next_import_id w in
      if n = 0 then (n + 1, w\<lparr>w_next_import_id := n + 2\<rparr>) else (n, w\<lparr>w_next_import_id := n + 1\<rparr>))"

text \<open>
  What an importer is given: the device's answers to capability queries and to calls, the probe of
  a descriptor, the embedded shaders.
\<close>

record ('f, 'io) importer_env =
  env_device :: vk_device
  env_driver :: vk_driver
  env_probe :: "i32 \<Rightarrow> 'f \<Rightarrow> ('io allocation_size_error + dmabuf_probe) \<times> 'f"
  env_nv12_shader :: "compute_output \<Rightarrow> 8 word list"
  env_packed_shader :: "8 word list"

section \<open>The importer\<close>

record pool_limits =
  lim_nv12_source_cache_entries :: usize
  lim_nv12_output_slots :: usize
  lim_packed_source_cache_entries :: usize
  lim_packed_output_slots :: usize

definition pool_limits_default :: pool_limits where
  "pool_limits_default = \<lparr>lim_nv12_source_cache_entries = 32, lim_nv12_output_slots = 8,
     lim_packed_source_cache_entries = 32, lim_packed_output_slots = 8\<rparr>"

text \<open>A cached packed source keeps the format it was imported with beside its allocation.\<close>

type_synonym nv12_source_cache =
  "(frame_topology \<times> nv12_import_strategy, nv12_source_allocation) source_cache"

type_synonym packed_cache = "(packed_source_allocation \<times> packed_image_format) packed_source_cache"

type_synonym nv12_output_pool = "(dimensions \<times> nv12_import_strategy, staged_output_slot) output_pool"

type_synonym packed_output_pool = "(dimensions, packed_output_slot) output_pool"

record importer =
  im_capabilities :: "nv12_capability list"
  im_preference :: nv12_staging_preference
  im_nv12_pool :: nv12_output_pool
  im_nv12_cache :: nv12_source_cache
  im_packed_pool :: packed_output_pool
  im_packed_cache :: packed_cache
  im_rgba_compute :: "compute_pipeline option"
  im_planar_compute :: "compute_pipeline option"
  im_packed_compute :: "compute_pipeline option"
  im_packed_staging_error :: "query_error option"
  im_output_busy_rejections :: u64
  im_packed_output_busy_rejections :: u64

datatype 'io import_error =
    Limits_must_be_nonzero
  | Pipeline_failed resource_error
  | Capability_not_issued u64
  | Capability_modifier_mismatch
  | Capability_rejected capability_error
  | Layout_rejected layout_error
  | Nv12_source_failed
      "('io identity_message vulkan_import_error, resource_error vulkan_import_error) nv12_claim_error"
  | Packed_source_failed
      "('io identity_message vulkan_import_error, resource_error) packed_claim_error"
  | Output_failed "resource_error vulkan_import_error"
  | Planar_pipeline_unavailable
  | Rgba_pipeline_unavailable
  | Packed_pipeline_missing
  | Direct_cannot_be_buffer_staged
  | Direct_received_staged_entry
  | Staged_received_direct_entry
  | Transfer_owns_pipeline
  | Compute_lacks_pipeline
  | Scanout_zero_allocation
  | Scanout_unsupported query_error
  | Scanout_identity "'io identity_message vulkan_import_error"
  | Scanout_failed "resource_error vulkan_import_error"

definition packed_source_cache_new :: "nat \<Rightarrow> 'a packed_source_cache" where
  "packed_source_cache_new max_entries =
     source_cache.extend (source_cache_new max_entries) (packed_source_cache.fields 0)"

definition option_drop :: "('h \<Rightarrow> vk_state \<Rightarrow> vk_state) \<Rightarrow> 'h option \<Rightarrow> vk_state \<Rightarrow> vk_state" where
  "option_drop dispose h s = (case h of Some x \<Rightarrow> dispose x s | None \<Rightarrow> s)"

text \<open>
  \<open>new_with_limits_and_staging_preference\<close>: a pipeline for each strategy of the inventory that needs
  one, dropped if a later one cannot be created.
\<close>

definition pipeline_if ::
  "bool \<Rightarrow> (vk_state \<Rightarrow> (resource_error + compute_pipeline) \<times> vk_state) \<Rightarrow> vk_state \<Rightarrow>
   (resource_error + compute_pipeline option) \<times> vk_state" where
  "pipeline_if needed create =
     (if needed then io_bind create (\<lambda>p. io_return (Some p)) else io_return None)"

definition importer_new ::
  "('f, 'io) importer_env \<Rightarrow> pool_limits \<Rightarrow> nv12_staging_preference \<Rightarrow> vk_state \<Rightarrow>
   ('io import_error + importer) \<times> vk_state" where
  "importer_new env limits preference s =
     (if lim_nv12_source_cache_entries limits = 0 \<or> lim_nv12_output_slots limits = 0 \<or>
         lim_packed_source_cache_entries limits = 0 \<or> lim_packed_output_slots limits = 0
      then (Err Limits_must_be_nonzero, s)
      else
        let capabilities = inventory_nv12 (env_device env) preference;
            uses = (\<lambda>strategy. list_ex (\<lambda>c. cap_strategy c = strategy) capabilities);
            packed = validate_packed_staging_support (env_device env) Packed_Bgra8888 DRM_FORMAT_MOD_LINEAR
        in io_map_err Pipeline_failed
          (io_bind (pipeline_if (uses LinearBufferToRgba)
              (compute_pipeline_new (env_driver env) (env_nv12_shader env) Output_rgba))
          (\<lambda>rgba. io_bind (io_cleanup (option_drop compute_pipeline_drop rgba)
              (pipeline_if (uses LinearBufferToYuvPlanes)
                (compute_pipeline_new (env_driver env) (env_nv12_shader env) Output_yuv_planes)))
          (\<lambda>planar. io_bind (io_cleanup
              (\<lambda>s. option_drop compute_pipeline_drop rgba (option_drop compute_pipeline_drop planar s))
              (pipeline_if (is_ok packed)
                (packed_compute_pipeline_new (env_driver env) (env_packed_shader env))))
          (\<lambda>packed_pipeline. io_return
            \<lparr>im_capabilities = capabilities, im_preference = preference,
             im_nv12_pool = output_pool_new (lim_nv12_output_slots limits),
             im_nv12_cache = source_cache_new (lim_nv12_source_cache_entries limits),
             im_packed_pool = output_pool_new (lim_packed_output_slots limits),
             im_packed_cache = packed_source_cache_new (lim_packed_source_cache_entries limits),
             im_rgba_compute = rgba, im_planar_compute = planar, im_packed_compute = packed_pipeline,
             im_packed_staging_error = (case packed of Inl e \<Rightarrow> Some e | Inr _ \<Rightarrow> None),
             im_output_busy_rejections = 0, im_packed_output_busy_rejections = 0\<rparr>)))) s)"

section \<open>Imported images\<close>

datatype image_tiling = Tiling_optimal | Tiling_drm_format_modifier

record direct_sampling =
  ds_conversion :: nv12_conversion
  ds_format_features :: "format_feature set"

datatype staged_operation =
    Compute compute_pipeline nv12_push_constants
  | Buffer_transfer shared_layout
  | Image_transfer

text \<open>A lease is its number in the table of its cache or pool.\<close>

record staged_nv12 =
  sn_source :: nat
  sn_output :: nat
  sn_operation :: staged_operation
  sn_conversion :: nv12_conversion
  sn_format_features :: "format_feature set"

record staged_packed =
  sp_source :: nat
  sp_output :: nat
  sp_pipeline :: compute_pipeline
  sp_push_constants :: packed_push_constants

datatype imported_kind =
    Direct_packed nat
  | Direct_bgra_scanout image_allocation
  | Direct_nv12 nat direct_sampling
  | Staged_packed staged_packed
  | Staged_nv12 staged_nv12

record imported_image =
  ii_id :: u64
  ii_kind :: imported_kind
  ii_dimensions :: dimensions
  ii_modifier :: u64
  ii_sampled_usage :: "image_usage set"
  ii_sampled_tiling :: image_tiling

text \<open>What a lease refers to.\<close>

definition lease_resource :: "nat \<Rightarrow> lease_table \<Rightarrow> nat option" where
  "lease_resource l t = map_option fst (lt_leases t l)"

definition leased_source :: "nat \<Rightarrow> ('t, 'a, 'm) source_cache_scheme \<Rightarrow> 'a option" where
  "leased_source l s = Option.bind (lease_resource l (sc_table s)) (sc_allocation s)"

definition leased_slot :: "nat \<Rightarrow> ('t, 's) output_pool \<Rightarrow> 's option" where
  "leased_slot l p = Option.bind (lease_resource l (op_table p)) (op_resources p)"

definition slot_initialized :: "nat \<Rightarrow> ('t, 's) output_pool \<Rightarrow> bool" where
  "slot_initialized l p \<longleftrightarrow> (case lease_resource l (op_table p) of Some r \<Rightarrow> r \<in> op_initialized p | None \<Rightarrow> False)"

section \<open>Claims\<close>

definition claim_nv12_source ::
  "('f, 'io) importer_env \<Rightarrow> u64 \<Rightarrow> i32 \<Rightarrow> frame_topology \<Rightarrow> nv12_import_strategy \<Rightarrow>
   (vk_state \<Rightarrow> (resource_error vulkan_import_error + nv12_source_allocation) \<times> vk_state) \<Rightarrow>
   importer \<Rightarrow> 'f world \<Rightarrow> ('io import_error + nat) \<times> importer \<times> 'f world" where
  "claim_nv12_source env stream source_fd topology strategy create im w =
     (case claim_cached_source (\<lambda>fd. on_files (env_probe env fd)) stream source_fd topology strategy
         (on_vk create) (\<lambda>a. vk_drop (nv12_source_drop a)) [] [] (im_nv12_cache im, w) of
        (result, cache, w') \<Rightarrow> (map_err Nv12_source_failed result, im\<lparr>im_nv12_cache := cache\<rparr>, w'))"

definition create_packed_source ::
  "('f, 'io) importer_env \<Rightarrow> packed_image_import \<Rightarrow> packed_import_strategy \<Rightarrow> vk_state \<Rightarrow>
   (resource_error vulkan_import_error + packed_source_allocation \<times> packed_image_format) \<times> vk_state" where
  "create_packed_source env request strategy =
     io_bind (case strategy of
         Packed_DirectSampledImage \<Rightarrow>
           io_bind (create_direct_image (env_driver env) (pi_dimensions request) (pi_source_fd request)
               (pi_modifier request) [pi_plane request] (packed_vk_format (pi_format request))
               DIRECT_PACKED_USAGE (Some (pi_source_size request)))
             (\<lambda>sampled. io_return (Packed_source_direct sampled))
       | LinearBufferToOptimalBgra \<Rightarrow>
           create_cached_packed_staged_source (env_driver env) (pi_source_fd request) (pi_source_size request))
       (\<lambda>allocation. io_return (allocation, pi_format request))"

definition claim_packed_source ::
  "('f, 'io) importer_env \<Rightarrow> packed_image_import \<Rightarrow> packed_import_strategy \<Rightarrow> importer \<Rightarrow> 'f world \<Rightarrow>
   ('io import_error + nat) \<times> importer \<times> 'f world" where
  "claim_packed_source env request strategy im w =
     (case claim_cached_packed_source (env_device env) (\<lambda>fd. on_files (env_probe env fd)) request strategy
         (on_vk (create_packed_source env request strategy)) (\<lambda>a. vk_drop (packed_source_drop (fst a)))
         [] [] (im_packed_cache im, w) of
        (result, cache, w') \<Rightarrow> (map_err Packed_source_failed result, im\<lparr>im_packed_cache := cache\<rparr>, w'))"

text \<open>
  \<open>claim_nv12_output\<close> counts the claims that find the pool busy. A slot of the pool has its objects, so
  \<open>the\<close> is defined where the claim uses it.
\<close>

definition claim_nv12_output ::
  "('f, 'io) importer_env \<Rightarrow> dimensions \<Rightarrow> nv12_import_strategy \<Rightarrow> compute_pipeline option \<Rightarrow>
   vk_object option \<Rightarrow> importer \<Rightarrow> 'f world \<Rightarrow> ('io import_error + nat) \<times> importer \<times> 'f world" where
  "claim_nv12_output env dims strategy pipeline source_view im w =
     (case nv12_pool_claim (dims, strategy) source_view
         (\<lambda>r view. on_vk (update_staged_descriptor_set (the (op_resources (im_nv12_pool im) r)) view))
         (on_vk (create_staged_output_slot (env_driver env) dims strategy pipeline source_view))
         (\<lambda>slot. vk_drop (staged_output_slot_drop slot)) [] (im_nv12_pool im, w) of
        (Inr l, pool, w') \<Rightarrow> (Ok l, im\<lparr>im_nv12_pool := pool\<rparr>, w')
      | (Inl (PoolSaturated name limit), pool, w') \<Rightarrow>
          (Err (Output_failed (PoolSaturated name limit)),
           im\<lparr>im_nv12_pool := pool, im_output_busy_rejections := im_output_busy_rejections im + 1\<rparr>, w')
      | (Inl e, pool, w') \<Rightarrow> (Err (Output_failed e), im\<lparr>im_nv12_pool := pool\<rparr>, w'))"

definition claim_packed_output ::
  "('f, 'io) importer_env \<Rightarrow> dimensions \<Rightarrow> compute_pipeline \<Rightarrow> vk_object \<Rightarrow> importer \<Rightarrow> 'f world \<Rightarrow>
   ('io import_error + nat) \<times> importer \<times> 'f world" where
  "claim_packed_output env dims pipeline source_view im w =
     (case packed_pool_claim dims source_view
         (\<lambda>r view. vk_drop (update_packed_descriptor_set (the (op_resources (im_packed_pool im) r)) view))
         (on_vk (create_packed_output_slot (env_driver env) dims pipeline source_view))
         (\<lambda>slot. vk_drop (packed_output_slot_drop slot)) [] (im_packed_pool im, w) of
        (Inr l, pool, w') \<Rightarrow> (Ok l, im\<lparr>im_packed_pool := pool\<rparr>, w')
      | (Inl (PoolSaturated name limit), pool, w') \<Rightarrow>
          (Err (Output_failed (PoolSaturated name limit)),
           im\<lparr>im_packed_pool := pool,
              im_packed_output_busy_rejections := im_packed_output_busy_rejections im + 1\<rparr>, w')
      | (Inl e, pool, w') \<Rightarrow> (Err (Output_failed e), im\<lparr>im_packed_pool := pool\<rparr>, w'))"

text \<open>
  The drops of leases. The cache still has a leased source, so only the lease goes; the drop of the
  last lease of a slot that left its pool drops the slot's objects.
\<close>

definition drop_source :: "nat \<Rightarrow> ('t, 'a, 'm) source_cache_scheme \<Rightarrow> ('t, 'a, 'm) source_cache_scheme" where
  "drop_source l s = s\<lparr>sc_table := drop_lease l (sc_table s)\<rparr>"

definition drop_output ::
  "('s \<Rightarrow> vk_state \<Rightarrow> vk_state) \<Rightarrow> nat \<Rightarrow> ('t, 's) output_pool \<Rightarrow> 'f world \<Rightarrow> ('t, 's) output_pool \<times> 'f world" where
  "drop_output dispose l p w =
     (let table = drop_lease l (op_table p) in
      (p\<lparr>op_table := table\<rparr>,
       case lease_resource l (op_table p) of
         None \<Rightarrow> w
       | Some r \<Rightarrow>
           if r \<notin> snd ` set (op_slots p) \<and> strong_count r table = 1
           then vk_drop (option_drop dispose (op_resources p r)) w else w))"

definition drop_nv12_source :: "nat \<Rightarrow> importer \<Rightarrow> importer" where
  "drop_nv12_source l im = im\<lparr>im_nv12_cache := drop_source l (im_nv12_cache im)\<rparr>"

definition drop_packed_source :: "nat \<Rightarrow> importer \<Rightarrow> importer" where
  "drop_packed_source l im = im\<lparr>im_packed_cache := drop_source l (im_packed_cache im)\<rparr>"

definition drop_nv12_output :: "nat \<Rightarrow> importer \<Rightarrow> 'f world \<Rightarrow> importer \<times> 'f world" where
  "drop_nv12_output l im w =
     (case drop_output staged_output_slot_drop l (im_nv12_pool im) w of
        (pool, w') \<Rightarrow> (im\<lparr>im_nv12_pool := pool\<rparr>, w'))"

definition drop_packed_output :: "nat \<Rightarrow> importer \<Rightarrow> 'f world \<Rightarrow> importer \<times> 'f world" where
  "drop_packed_output l im w =
     (case drop_output packed_output_slot_drop l (im_packed_pool im) w of
        (pool, w') \<Rightarrow> (im\<lparr>im_packed_pool := pool\<rparr>, w'))"

section \<open>Importing\<close>

text \<open>\<open>create_staged_nv12\<close>, the function: what a staged import does, from its strategy.\<close>

definition staged_operation_of ::
  "dimensions \<Rightarrow> shared_layout \<Rightarrow> nv12_conversion \<Rightarrow> compute_pipeline option \<Rightarrow> nv12_import_strategy \<Rightarrow>
   'io import_error + staged_operation" where
  "staged_operation_of dims layout conversion pipeline strategy =
     (if strategy \<in> {LinearBufferToOptimalNv12, LinearBufferToOptimalYuvPlanes}
      then if pipeline \<noteq> None then Err Transfer_owns_pipeline else Ok (Buffer_transfer layout)
      else if strategy \<in> {LinearBufferToYuvPlanes, LinearBufferToRgba}
      then result_bind (ok_or Compute_lacks_pipeline pipeline) (\<lambda>p.
          map_ok (Compute p) (map_err Layout_rejected (nv12_push_constants_of dims layout conversion)))
      else Err Direct_cannot_be_buffer_staged)"

definition staged_usage :: "nv12_import_strategy \<Rightarrow> image_usage set" where
  "staged_usage strategy =
     (if strategy \<in> {LinearBufferToOptimalNv12, LinearBufferToOptimalYuvPlanes}
      then TRANSFER_NV12_OUTPUT_USAGE else STAGED_NV12_OUTPUT_USAGE)"

text \<open>\<open>create_staged_nv12\<close>, the method: the checks of the layout, the source, the output.\<close>

definition staged_layout_check ::
  "('f, 'io) importer_env \<Rightarrow> dimensions \<Rightarrow> shared_layout \<Rightarrow> nv12_import_strategy \<Rightarrow> 'io import_error + u64" where
  "staged_layout_check env dims layout strategy =
     (if strategy \<in> {LinearBufferToOptimalNv12, LinearBufferToOptimalYuvPlanes}
      then map_err Layout_rejected (result_bind (validate_transfer_layout dims layout)
          (\<lambda>_. nv12_transfer_source_span dims layout))
      else if strategy \<in> {LinearBufferToYuvPlanes, LinearBufferToRgba}
      then map_err Layout_rejected (result_bind
          (validate_staged_layout (vd_max_texel_buffer_elements (env_device env)) dims layout)
          (\<lambda>_. nv12_compute_source_span dims layout))
      else Err Direct_cannot_be_buffer_staged)"

definition finish_staged_nv12 ::
  "dimensions \<Rightarrow> shared_layout \<Rightarrow> nv12_conversion \<Rightarrow> nv12_import_strategy \<Rightarrow> format_feature set \<Rightarrow>
   compute_pipeline option \<Rightarrow> nat \<Rightarrow> nat \<Rightarrow> importer \<Rightarrow> 'f world \<Rightarrow>
   ('io import_error + imported_image) \<times> importer \<times> 'f world" where
  "finish_staged_nv12 dims layout conversion strategy features pipeline source out im w =
     (case staged_operation_of dims layout conversion pipeline strategy of
        Inl e \<Rightarrow> (case drop_nv12_output out im w of (im', w') \<Rightarrow> (Err e, drop_nv12_source source im', w'))
      | Inr operation \<Rightarrow>
          (case next_import_id w of (import_id, w') \<Rightarrow>
             (Ok \<lparr>ii_id = import_id, ii_kind = Staged_nv12 \<lparr>sn_source = source, sn_output = out,
                  sn_operation = operation, sn_conversion = conversion, sn_format_features = features\<rparr>,
                ii_dimensions = dims, ii_modifier = sl_modifier layout,
                ii_sampled_usage = staged_usage strategy, ii_sampled_tiling = Tiling_optimal\<rparr>, im, w')))"

definition create_staged_nv12 ::
  "('f, 'io) importer_env \<Rightarrow> u64 \<Rightarrow> dimensions \<Rightarrow> i32 \<Rightarrow> shared_layout \<Rightarrow> nv12_conversion \<Rightarrow>
   nv12_import_strategy \<Rightarrow> format_feature set \<Rightarrow> compute_pipeline option \<Rightarrow> importer \<Rightarrow> 'f world \<Rightarrow>
   ('io import_error + imported_image) \<times> importer \<times> 'f world" where
  "create_staged_nv12 env stream dims source_fd layout conversion strategy features pipeline im w =
     (case staged_layout_check env dims layout strategy of
        Inl e \<Rightarrow> (Err e, im, w)
      | Inr source_span \<Rightarrow>
      (let topology = layout_frame_topology layout dims in
      case claim_nv12_source env stream source_fd topology strategy
          (create_cached_nv12_source (env_driver env) source_fd source_span (ft_object_size topology) strategy)
          im w of
        (Inl e, im1, w1) \<Rightarrow> (Err e, im1, w1)
      | (Inr source, im1, w1) \<Rightarrow>
      case claim_nv12_output env dims strategy pipeline
          (Option.bind (leased_source source (im_nv12_cache im1)) compute_view) im1 w1 of
        (Inl e, im2, w2) \<Rightarrow> (Err e, drop_nv12_source source im2, w2)
      | (Inr out, im2, w2) \<Rightarrow>
          finish_staged_nv12 dims layout conversion strategy features pipeline source out im2 w2))"

definition create_direct_nv12_source ::
  "('f, 'io) importer_env \<Rightarrow> dimensions \<Rightarrow> i32 \<Rightarrow> shared_layout \<Rightarrow> image_usage set \<Rightarrow> vk_state \<Rightarrow>
   (resource_error vulkan_import_error + nv12_source_allocation) \<times> vk_state" where
  "create_direct_nv12_source env dims source_fd layout usage =
     io_bind (create_direct_image (env_driver env) dims source_fd (sl_modifier layout)
         [fst (sl_planes layout), snd (sl_planes layout)] IMPORTED_NV12_FORMAT usage
         (Some (sl_object_size layout)))
       (\<lambda>sampled. io_return (Source_direct sampled))"

definition from_direct_nv12_source ::
  "dimensions \<Rightarrow> shared_layout \<Rightarrow> nv12_conversion \<Rightarrow> nv12_capability \<Rightarrow> nat \<Rightarrow> importer \<Rightarrow> 'f world \<Rightarrow>
   ('io import_error + imported_image) \<times> importer \<times> 'f world" where
  "from_direct_nv12_source dims layout conversion capability source im w =
     (case leased_source source (im_nv12_cache im) of
        Some (Source_direct _) \<Rightarrow>
          (case next_import_id w of (import_id, w') \<Rightarrow>
             (Ok \<lparr>ii_id = import_id, ii_kind = Direct_nv12 source \<lparr>ds_conversion = conversion,
                  ds_format_features = cap_sampled_features capability\<rparr>,
                ii_dimensions = dims, ii_modifier = sl_modifier layout,
                ii_sampled_usage = DIRECT_NV12_USAGE, ii_sampled_tiling = Tiling_drm_format_modifier\<rparr>, im, w'))
      | _ \<Rightarrow> (Err Direct_received_staged_entry, drop_nv12_source source im, w))"

definition import_nv12_shared_object ::
  "('f, 'io) importer_env \<Rightarrow> u64 \<Rightarrow> dimensions \<Rightarrow> i32 \<Rightarrow> shared_layout \<Rightarrow> nv12_conversion \<Rightarrow>
   nv12_capability \<Rightarrow> importer \<Rightarrow> 'f world \<Rightarrow> ('io import_error + imported_image) \<times> importer \<times> 'f world" where
  "import_nv12_shared_object env stream dims source_fd layout conversion capability im w =
     (let strategy = cap_strategy capability;
          features = cap_sampled_features capability;
          staged = (\<lambda>pipeline. create_staged_nv12 env stream dims source_fd layout conversion strategy
            features pipeline im w);
          direct = (\<lambda>usage. claim_nv12_source env stream source_fd (layout_frame_topology layout dims)
            strategy (create_direct_nv12_source env dims source_fd layout usage) im w) in
      if \<not> list_ex (\<lambda>admitted. same_nv12_capability admitted capability) (im_capabilities im)
      then (Err (Capability_not_issued (cap_modifier capability)), im, w)
      else if cap_modifier capability \<noteq> sl_modifier layout then (Err Capability_modifier_mismatch, im, w)
      else case validate_nv12_modifier_capability capability dims conversion of
        Inl e \<Rightarrow> (Err (Capability_rejected e), im, w)
      | Inr _ \<Rightarrow>
      case validate_nv12_shared_layout dims layout of
        Inl e \<Rightarrow> (Err (Layout_rejected e), im, w)
      | Inr _ \<Rightarrow>
      case strategy of
        DirectSampledImage \<Rightarrow>
          (case direct DIRECT_NV12_USAGE of
             (Inl e, im1, w1) \<Rightarrow> (Err e, im1, w1)
           | (Inr source, im1, w1) \<Rightarrow> from_direct_nv12_source dims layout conversion capability source im1 w1)
      | DirectImageToOptimalYuvPlanes \<Rightarrow>
          (case direct DIRECT_NV12_PLANE_TRANSFER_USAGE of
             (Inl e, im1, w1) \<Rightarrow> (Err e, im1, w1)
           | (Inr source, im1, w1) \<Rightarrow>
             (case claim_nv12_output env dims strategy None None im1 w1 of
                (Inl e, im2, w2) \<Rightarrow> (Err e, drop_nv12_source source im2, w2)
              | (Inr out, im2, w2) \<Rightarrow>
                (case next_import_id w2 of (import_id, w3) \<Rightarrow>
                  (Ok \<lparr>ii_id = import_id, ii_kind = Staged_nv12 \<lparr>sn_source = source, sn_output = out,
                       sn_operation = Image_transfer, sn_conversion = conversion,
                       sn_format_features = features\<rparr>,
                     ii_dimensions = dims, ii_modifier = sl_modifier layout,
                     ii_sampled_usage = TRANSFER_NV12_OUTPUT_USAGE, ii_sampled_tiling = Tiling_optimal\<rparr>,
                   im2, w3))))
      | LinearBufferToOptimalNv12 \<Rightarrow> staged None
      | LinearBufferToOptimalYuvPlanes \<Rightarrow> staged None
      | LinearBufferToYuvPlanes \<Rightarrow>
          (case im_planar_compute im of
             None \<Rightarrow> (Err Planar_pipeline_unavailable, im, w) | Some p \<Rightarrow> staged (Some p))
      | LinearBufferToRgba \<Rightarrow>
          (case im_rgba_compute im of
             None \<Rightarrow> (Err Rgba_pipeline_unavailable, im, w) | Some p \<Rightarrow> staged (Some p)))"

section \<open>Packed imports\<close>

definition from_direct_packed_source ::
  "dimensions \<Rightarrow> u64 \<Rightarrow> nat \<Rightarrow> importer \<Rightarrow> 'f world \<Rightarrow>
   ('io import_error + imported_image) \<times> importer \<times> 'f world" where
  "from_direct_packed_source dims modifier source im w =
     (case leased_source source (im_packed_cache im) of
        Some (Packed_source_direct _, _) \<Rightarrow>
          (case next_import_id w of (import_id, w') \<Rightarrow>
             (Ok \<lparr>ii_id = import_id, ii_kind = Direct_packed source, ii_dimensions = dims, ii_modifier = modifier,
                ii_sampled_usage = DIRECT_PACKED_USAGE, ii_sampled_tiling = Tiling_drm_format_modifier\<rparr>, im, w'))
      | _ \<Rightarrow> (Err Direct_received_staged_entry, drop_packed_source source im, w))"

definition create_staged_packed ::
  "packed_image_import \<Rightarrow> nat \<Rightarrow> nat \<Rightarrow> compute_pipeline \<Rightarrow> importer \<Rightarrow> 'f world \<Rightarrow>
   ('io import_error + imported_image) \<times> importer \<times> 'f world" where
  "create_staged_packed request source out pipeline im w =
     (case packed_push_constants_of request of
        Inl e \<Rightarrow> (case drop_packed_output out im w of
            (im', w') \<Rightarrow> (Err (Layout_rejected e), drop_packed_source source im', w'))
      | Inr constants \<Rightarrow>
          (case next_import_id w of (import_id, w') \<Rightarrow>
             (Ok \<lparr>ii_id = import_id, ii_kind = Staged_packed \<lparr>sp_source = source, sp_output = out,
                  sp_pipeline = pipeline, sp_push_constants = constants\<rparr>,
                ii_dimensions = pi_dimensions request, ii_modifier = pi_modifier request,
                ii_sampled_usage = STAGED_PACKED_OUTPUT_USAGE, ii_sampled_tiling = Tiling_optimal\<rparr>, im, w')))"

definition import_packed_with_strategy ::
  "('f, 'io) importer_env \<Rightarrow> packed_image_import \<Rightarrow> packed_import_strategy \<Rightarrow> importer \<Rightarrow> 'f world \<Rightarrow>
   ('io import_error + imported_image) \<times> importer \<times> 'f world" where
  "import_packed_with_strategy env request strategy im w =
     (case claim_packed_source env request strategy im w of
        (Inl e, im1, w1) \<Rightarrow> (Err e, im1, w1)
      | (Inr source, im1, w1) \<Rightarrow>
          (case strategy of
             Packed_DirectSampledImage \<Rightarrow>
               from_direct_packed_source (pi_dimensions request) (pi_modifier request) source im1 w1
           | LinearBufferToOptimalBgra \<Rightarrow>
               (case leased_source source (im_packed_cache im1) of
                  Some (Packed_source_staged view _, _) \<Rightarrow>
                    (case im_packed_compute im1 of
                       None \<Rightarrow> (Err Packed_pipeline_missing, drop_packed_source source im1, w1)
                     | Some pipeline \<Rightarrow>
                         (case claim_packed_output env (pi_dimensions request) pipeline view im1 w1 of
                            (Inl e, im2, w2) \<Rightarrow> (Err e, drop_packed_source source im2, w2)
                          | (Inr out, im2, w2) \<Rightarrow>
                              create_staged_packed request source out pipeline im2 w2))
                | _ \<Rightarrow> (Err Staged_received_direct_entry, drop_packed_source source im1, w1))))"

definition import_packed ::
  "('f, 'io) importer_env \<Rightarrow> packed_image_import \<Rightarrow> importer \<Rightarrow> 'f world \<Rightarrow>
   ('io import_error + imported_image) \<times> importer \<times> 'f world" where
  "import_packed env request = import_packed_with_strategy env request Packed_DirectSampledImage"

definition new_bgra_scanout ::
  "('f, 'io) importer_env \<Rightarrow> dimensions \<Rightarrow> i32 \<Rightarrow> u64 \<Rightarrow> u64 \<Rightarrow> imported_plane \<Rightarrow> image_usage set \<Rightarrow>
   'f world \<Rightarrow> ('io import_error + imported_image) \<times> 'f world" where
  "new_bgra_scanout env dims source_fd object_size modifier plane usage w =
     (case validate_image_inputs dims source_fd plane of
        Inl e \<Rightarrow> (Err (Layout_rejected e), w)
      | Inr _ \<Rightarrow>
      if object_size = 0 then (Err Scanout_zero_allocation, w)
      else case validate_bgra_scanout_import_support (env_device env) modifier usage of
        Inl e \<Rightarrow> (Err (Scanout_unsupported e), w)
      | Inr _ \<Rightarrow>
      case verified_dmabuf_identity (\<lambda>fd. on_files (env_probe env fd)) source_fd object_size w of
        (Inl e, w1) \<Rightarrow> (Err (Scanout_identity e), w1)
      | (Inr _, w1) \<Rightarrow>
      case on_vk (create_direct_image (env_driver env) dims source_fd modifier [plane]
          IMPORTED_SCANOUT_BGRA_FORMAT usage (Some object_size)) w1 of
        (Inl e, w2) \<Rightarrow> (Err (Scanout_failed e), w2)
      | (Inr sampled, w2) \<Rightarrow>
          (case next_import_id w2 of (import_id, w3) \<Rightarrow>
             (Ok \<lparr>ii_id = import_id, ii_kind = Direct_bgra_scanout sampled, ii_dimensions = dims,
                ii_modifier = modifier, ii_sampled_usage = usage,
                ii_sampled_tiling = Tiling_drm_format_modifier\<rparr>, w3)))"

section \<open>What an imported image shows\<close>

datatype sampled_images =
    Sampled_rgba vk_object
  | Sampled_bgra vk_object
  | Sampled_nv12 vk_object
  | Sampled_yuv_planes vk_object vk_object

fun slot_sampled_images :: "slot_images \<Rightarrow> sampled_images" where
  "slot_sampled_images (Slot_rgba _ sampled) = Sampled_rgba (ia_image sampled)"
| "slot_sampled_images (Slot_nv12 sampled) = Sampled_nv12 (ia_image sampled)"
| "slot_sampled_images (Slot_transfer_planes luma chroma) =
     Sampled_yuv_planes (ia_image luma) (ia_image chroma)"
| "slot_sampled_images (Slot_planes _ luma _ chroma) = Sampled_yuv_planes (ia_image luma) (ia_image chroma)"

datatype sampled_image_format = Format_rgba8888 | Format_bgra8888 | Format_nv12 | Format_nv12_planes

text \<open>\<open>None\<close>: a dangling lease, or an \<open>unreachable!\<close> of the source.\<close>

definition packed_source_image :: "nat \<Rightarrow> importer \<Rightarrow> vk_object option" where
  "packed_source_image l im =
     (case leased_source l (im_packed_cache im) of
        Some (Packed_source_direct sampled, _) \<Rightarrow> Some (ia_image sampled) | _ \<Rightarrow> None)"

definition nv12_source_image :: "nat \<Rightarrow> importer \<Rightarrow> vk_object option" where
  "nv12_source_image l im =
     (case leased_source l (im_nv12_cache im) of
        Some (Source_direct sampled) \<Rightarrow> Some (ia_image sampled) | _ \<Rightarrow> None)"

definition output_images :: "nat \<Rightarrow> importer \<Rightarrow> sampled_images option" where
  "output_images l im = map_option (\<lambda>slot. slot_sampled_images (so_images slot)) (leased_slot l (im_nv12_pool im))"

definition imported_image_handle :: "imported_image \<Rightarrow> importer \<Rightarrow> vk_object option" where
  "imported_image_handle img im =
     (case ii_kind img of
        Direct_packed source \<Rightarrow> packed_source_image source im
      | Direct_bgra_scanout sampled \<Rightarrow> Some (ia_image sampled)
      | Direct_nv12 source _ \<Rightarrow> nv12_source_image source im
      | Staged_packed staged \<Rightarrow>
          map_option (\<lambda>slot. ia_image (po_sampled slot)) (leased_slot (sp_output staged) (im_packed_pool im))
      | Staged_nv12 staged \<Rightarrow>
          (case output_images (sn_output staged) im of
             Some (Sampled_rgba x) \<Rightarrow> Some x
           | Some (Sampled_nv12 x) \<Rightarrow> Some x
           | Some (Sampled_yuv_planes luma _) \<Rightarrow> Some luma
           | _ \<Rightarrow> None))"

definition sampled_format :: "imported_image \<Rightarrow> importer \<Rightarrow> sampled_image_format option" where
  "sampled_format img im =
     (case ii_kind img of
        Direct_packed source \<Rightarrow>
          map_option (\<lambda>(_, fmt). case fmt of Packed_Rgba8888 \<Rightarrow> Format_rgba8888 | Packed_Bgra8888 \<Rightarrow> Format_bgra8888)
            (leased_source source (im_packed_cache im))
      | Direct_bgra_scanout _ \<Rightarrow> Some Format_bgra8888
      | Direct_nv12 _ _ \<Rightarrow> Some Format_nv12
      | Staged_packed _ \<Rightarrow> Some Format_bgra8888
      | Staged_nv12 staged \<Rightarrow>
          map_option (\<lambda>images. case images of
              Sampled_rgba _ \<Rightarrow> Format_rgba8888
            | Sampled_bgra _ \<Rightarrow> Format_bgra8888
            | Sampled_nv12 _ \<Rightarrow> Format_nv12
            | Sampled_yuv_planes _ _ \<Rightarrow> Format_nv12_planes) (output_images (sn_output staged) im))"

definition nv12_sampling :: "imported_image \<Rightarrow> importer \<Rightarrow> direct_sampling option" where
  "nv12_sampling img im =
     (case ii_kind img of
        Direct_nv12 _ metadata \<Rightarrow> Some metadata
      | Staged_nv12 staged \<Rightarrow>
          (case output_images (sn_output staged) im of
             Some (Sampled_nv12 _) \<Rightarrow> Some \<lparr>ds_conversion = sn_conversion staged,
                                         ds_format_features = sn_format_features staged\<rparr>
           | _ \<Rightarrow> None)
      | _ \<Rightarrow> None)"

definition staged_nv12_planes :: "imported_image \<Rightarrow> importer \<Rightarrow> (vk_object \<times> vk_object \<times> nv12_conversion) option" where
  "staged_nv12_planes img im =
     (case ii_kind img of
        Staged_nv12 staged \<Rightarrow>
          (case output_images (sn_output staged) im of
             Some (Sampled_yuv_planes luma chroma) \<Rightarrow> Some (luma, chroma, sn_conversion staged)
           | _ \<Rightarrow> None)
      | _ \<Rightarrow> None)"

definition is_staged :: "imported_image \<Rightarrow> bool" where
  "is_staged img \<longleftrightarrow> (case ii_kind img of Staged_packed _ \<Rightarrow> True | Staged_nv12 _ \<Rightarrow> True | _ \<Rightarrow> False)"

section \<open>Acquire plans\<close>

datatype staged_push_constants = Push_nv12 nv12_push_constants | Push_packed packed_push_constants

record staged_acquire_plan =
  sap_source_buffer :: vk_object
  sap_source_size :: u64
  sap_output :: sampled_images
  sap_output_initialized :: bool
  sap_descriptor_set :: vk_object
  sap_pipeline :: vk_object
  sap_pipeline_layout :: vk_object
  sap_push_constants :: staged_push_constants
  sap_dispatch :: "u32 \<times> u32"

record staged_transfer_plan =
  stp_source_buffer :: vk_object
  stp_source_size :: u64
  stp_output :: sampled_images
  stp_output_initialized :: bool
  stp_dimensions :: dimensions
  stp_planes :: "imported_plane \<times> imported_plane"

record image_transfer_plan =
  itp_source_image :: vk_object
  itp_output :: sampled_images
  itp_output_initialized :: bool
  itp_dimensions :: dimensions

datatype acquire_work =
    Plan_direct_image vk_object
  | Plan_staged_compute staged_acquire_plan
  | Plan_staged_transfer staged_transfer_plan
  | Plan_image_transfer image_transfer_plan

definition packed_plan :: "staged_packed \<Rightarrow> dimensions \<Rightarrow> importer \<Rightarrow> acquire_work option" where
  "packed_plan staged dims im =
     (case (leased_source (sp_source staged) (im_packed_cache im), leased_slot (sp_output staged) (im_packed_pool im)) of
        (Some (Packed_source_staged _ source, _), Some slot) \<Rightarrow>
          Some (Plan_staged_compute
            \<lparr>sap_source_buffer = ba_buffer source, sap_source_size = ba_size source,
             sap_output = Sampled_bgra (ia_image (po_sampled slot)),
             sap_output_initialized = slot_initialized (sp_output staged) (im_packed_pool im),
             sap_descriptor_set = po_descriptor_set slot,
             sap_pipeline = cp_pipeline (sp_pipeline staged),
             sap_pipeline_layout = cp_pipeline_layout (sp_pipeline staged),
             sap_push_constants = Push_packed (sp_push_constants staged),
             sap_dispatch = packed_dispatch dims\<rparr>)
      | _ \<Rightarrow> None)"

definition nv12_plan :: "staged_nv12 \<Rightarrow> dimensions \<Rightarrow> importer \<Rightarrow> acquire_work option" where
  "nv12_plan staged dims im =
     (let initialized = slot_initialized (sn_output staged) (im_nv12_pool im) in
      case (leased_source (sn_source staged) (im_nv12_cache im), leased_slot (sn_output staged) (im_nv12_pool im)) of
        (Some allocation, Some slot) \<Rightarrow>
          (let shown = slot_sampled_images (so_images slot) in
           case sn_operation staged of
             Compute pipeline constants \<Rightarrow>
               (case (allocation_source allocation, so_descriptor_set slot) of
                  (Some source, Some dset) \<Rightarrow>
                    Some (Plan_staged_compute
                      \<lparr>sap_source_buffer = ba_buffer source, sap_source_size = ba_size source,
                       sap_output = shown, sap_output_initialized = initialized,
                       sap_descriptor_set = dset, sap_pipeline = cp_pipeline pipeline,
                       sap_pipeline_layout = cp_pipeline_layout pipeline,
                       sap_push_constants = Push_nv12 constants, sap_dispatch = nv12_dispatch dims\<rparr>)
                | _ \<Rightarrow> None)
           | Buffer_transfer layout \<Rightarrow>
               (case allocation_source allocation of
                  Some source \<Rightarrow>
                    Some (Plan_staged_transfer
                      \<lparr>stp_source_buffer = ba_buffer source, stp_source_size = ba_size source,
                       stp_output = shown, stp_output_initialized = initialized,
                       stp_dimensions = dims, stp_planes = sl_planes layout\<rparr>)
                | None \<Rightarrow> None)
           | Image_transfer \<Rightarrow>
               (case allocation of
                  Source_direct sampled \<Rightarrow>
                    Some (Plan_image_transfer
                      \<lparr>itp_source_image = ia_image sampled, itp_output = shown,
                       itp_output_initialized = initialized, itp_dimensions = dims\<rparr>)
                | _ \<Rightarrow> None))
      | _ \<Rightarrow> None)"

definition acquire_plan :: "imported_image \<Rightarrow> importer \<Rightarrow> acquire_work option" where
  "acquire_plan img im =
     (case ii_kind img of
        Staged_packed staged \<Rightarrow> packed_plan staged (ii_dimensions img) im
      | Staged_nv12 staged \<Rightarrow> nv12_plan staged (ii_dimensions img) im
      | Direct_packed source \<Rightarrow> map_option Plan_direct_image (packed_source_image source im)
      | Direct_bgra_scanout sampled \<Rightarrow> Some (Plan_direct_image (ia_image sampled))
      | Direct_nv12 source _ \<Rightarrow> map_option Plan_direct_image (nv12_source_image source im))"

section \<open>Releasing and dropping images\<close>

definition release_source :: "nat \<Rightarrow> ('t, 'a, 'm) source_cache_scheme \<Rightarrow> bool \<times> ('t, 'a, 'm) source_cache_scheme" where
  "release_source l s = (case release_lease l (sc_table s) of (ok, t) \<Rightarrow> (ok, s\<lparr>sc_table := t\<rparr>))"

definition release_staged_source :: "imported_image \<Rightarrow> importer \<Rightarrow> bool \<times> importer" where
  "release_staged_source img im =
     (case ii_kind img of
        Staged_packed staged \<Rightarrow>
          (case release_source (sp_source staged) (im_packed_cache im) of
             (ok, cache) \<Rightarrow> (ok, im\<lparr>im_packed_cache := cache\<rparr>))
      | Staged_nv12 staged \<Rightarrow>
          (case release_source (sn_source staged) (im_nv12_cache im) of
             (ok, cache) \<Rightarrow> (ok, im\<lparr>im_nv12_cache := cache\<rparr>))
      | _ \<Rightarrow> (False, im))"

definition staged_source_released :: "imported_image \<Rightarrow> importer \<Rightarrow> bool" where
  "staged_source_released img im \<longleftrightarrow>
     (case ii_kind img of
        Staged_packed staged \<Rightarrow> is_released (sp_source staged) (sc_table (im_packed_cache im))
      | Staged_nv12 staged \<Rightarrow> is_released (sn_source staged) (sc_table (im_nv12_cache im))
      | _ \<Rightarrow> False)"

definition initialize_slot :: "nat \<Rightarrow> ('t, 's) output_pool \<Rightarrow> ('t, 's) output_pool" where
  "initialize_slot l p =
     p\<lparr>op_initialized := op_initialized p \<union> set_option (lease_resource l (op_table p))\<rparr>"

definition mark_acquire_submitted :: "imported_image \<Rightarrow> importer \<Rightarrow> importer" where
  "mark_acquire_submitted img im =
     (case ii_kind img of
        Staged_packed staged \<Rightarrow> im\<lparr>im_packed_pool := initialize_slot (sp_output staged) (im_packed_pool im)\<rparr>
      | Staged_nv12 staged \<Rightarrow> im\<lparr>im_nv12_pool := initialize_slot (sn_output staged) (im_nv12_pool im)\<rparr>
      | _ \<Rightarrow> im)"

text \<open>The drop of an image: its fields in order, the source's lease before the output's.\<close>

definition image_drop :: "imported_image \<Rightarrow> importer \<Rightarrow> 'f world \<Rightarrow> importer \<times> 'f world" where
  "image_drop img im w =
     (case ii_kind img of
        Direct_packed source \<Rightarrow> (drop_packed_source source im, w)
      | Direct_bgra_scanout sampled \<Rightarrow> (im, vk_drop (image_allocation_drop sampled) w)
      | Direct_nv12 source _ \<Rightarrow> (drop_nv12_source source im, w)
      | Staged_packed staged \<Rightarrow>
          drop_packed_output (sp_output staged) (drop_packed_source (sp_source staged) im) w
      | Staged_nv12 staged \<Rightarrow>
          drop_nv12_output (sn_output staged) (drop_nv12_source (sn_source staged) im) w)"

section \<open>Evictions and statistics\<close>

definition importer_evict_nv12 :: "u64 \<Rightarrow> importer \<Rightarrow> 'f world \<Rightarrow> (nat + unit) \<times> importer \<times> 'f world" where
  "importer_evict_nv12 stream im w =
     (case evict_nv12_stream stream (im_nv12_cache im) of
        (result, cache) \<Rightarrow>
          (result, im\<lparr>im_nv12_cache := cache\<rparr>,
           fold (\<lambda>a. vk_drop (nv12_source_drop a)) (removed_allocations (im_nv12_cache im) cache) w))"

definition importer_evict_packed :: "u64 \<Rightarrow> importer \<Rightarrow> 'f world \<Rightarrow> (nat + unit) \<times> importer \<times> 'f world" where
  "importer_evict_packed stream im w =
     (case evict_packed_stream stream (im_packed_cache im) of
        (result, cache) \<Rightarrow>
          (result, im\<lparr>im_packed_cache := cache\<rparr>,
           fold (\<lambda>a. vk_drop (packed_source_drop (fst a))) (removed_allocations (im_packed_cache im) cache) w))"

record cache_stats =
  st_source_entries :: nat
  st_active_sources :: nat
  st_output_slots :: nat
  st_active_outputs :: nat
  st_hits :: u64
  st_misses :: u64
  st_evictions :: u64
  st_active_reuse_rejections :: u64
  st_topology_collisions :: u64
  st_output_busy_rejections :: u64

record packed_cache_stats = cache_stats +
  st_allocation_size_rejections :: u64

definition stats_of ::
  "('t, 'a, 'm) source_cache_scheme \<Rightarrow> ('u, 's) output_pool \<Rightarrow> u64 \<Rightarrow> cache_stats" where
  "stats_of s p busy =
     \<lparr>st_source_entries = length (sc_entries s),
      st_active_sources = length (filter (\<lambda>(k, r). r \<in> lt_claimed (sc_table s)) (sc_entries s)),
      st_output_slots = length (op_slots p),
      st_active_outputs = length (filter (\<lambda>(t, r). r \<in> lt_claimed (op_table p)) (op_slots p)),
      st_hits = sc_hits s, st_misses = sc_misses s, st_evictions = sc_evictions s,
      st_active_reuse_rejections = sc_active_reuse_rejections s,
      st_topology_collisions = sc_topology_collisions s, st_output_busy_rejections = busy\<rparr>"

definition nv12_cache_stats :: "importer \<Rightarrow> cache_stats" where
  "nv12_cache_stats im = stats_of (im_nv12_cache im) (im_nv12_pool im) (im_output_busy_rejections im)"

definition packed_cache_stats_of :: "importer \<Rightarrow> packed_cache_stats" where
  "packed_cache_stats_of im =
     cache_stats.extend (stats_of (im_packed_cache im) (im_packed_pool im) (im_packed_output_busy_rejections im))
       (packed_cache_stats.fields (pc_allocation_size_rejections (im_packed_cache im)))"

section \<open>The life of an importer\<close>

text \<open>
  What a client does with one importer and the images it holds: imports, which add an image on
  success, and, for one of its images, releasing the source, recording the submission of its
  acquire work, dropping it; evictions of a stream. The fields of an import are its arguments.
\<close>

datatype importer_op =
    Import_nv12 u64 dimensions i32 shared_layout nv12_conversion nv12_capability
  | Import_packed packed_image_import packed_import_strategy
  | Import_scanout dimensions i32 u64 u64 imported_plane "image_usage set"
  | Release_source nat
  | Submit_acquire nat
  | Drop_image nat
  | Evict_nv12 u64
  | Evict_packed u64

record 'f client =
  cl_importer :: importer
  cl_world :: "'f world"
  cl_images :: "imported_image list"

definition keep_image ::
  "'f client \<Rightarrow> ('e + imported_image) \<times> importer \<times> 'f world \<Rightarrow> 'f client" where
  "keep_image c imported =
     (case imported of (result, im, w) \<Rightarrow>
        c\<lparr>cl_importer := im, cl_world := w,
          cl_images := cl_images c @ (case result of Inr img \<Rightarrow> [img] | Inl _ \<Rightarrow> [])\<rparr>)"

definition drop_nth :: "nat \<Rightarrow> 'a list \<Rightarrow> 'a list" where
  "drop_nth i xs = take i xs @ drop (Suc i) xs"

fun importer_step :: "('f, 'io) importer_env \<Rightarrow> importer_op \<Rightarrow> 'f client \<Rightarrow> 'f client" where
  "importer_step env (Import_nv12 stream dims fd layout conversion capability) c =
     keep_image c (import_nv12_shared_object env stream dims fd layout conversion capability
       (cl_importer c) (cl_world c))"
| "importer_step env (Import_packed request strategy) c =
     keep_image c (import_packed_with_strategy env request strategy (cl_importer c) (cl_world c))"
| "importer_step env (Import_scanout dims fd object_size modifier plane usage) c =
     keep_image c (case new_bgra_scanout env dims fd object_size modifier plane usage (cl_world c) of
       (result, w) \<Rightarrow> (result, cl_importer c, w))"
| "importer_step env (Release_source i) c =
     (if i < length (cl_images c)
      then c\<lparr>cl_importer := snd (release_staged_source (cl_images c ! i) (cl_importer c))\<rparr> else c)"
| "importer_step env (Submit_acquire i) c =
     (if i < length (cl_images c)
      then c\<lparr>cl_importer := mark_acquire_submitted (cl_images c ! i) (cl_importer c)\<rparr> else c)"
| "importer_step env (Drop_image i) c =
     (if i < length (cl_images c)
      then case image_drop (cl_images c ! i) (cl_importer c) (cl_world c) of
          (im, w) \<Rightarrow> c\<lparr>cl_importer := im, cl_world := w, cl_images := drop_nth i (cl_images c)\<rparr>
      else c)"
| "importer_step env (Evict_nv12 stream) c =
     (case importer_evict_nv12 stream (cl_importer c) (cl_world c) of
        (_, im, w) \<Rightarrow> c\<lparr>cl_importer := im, cl_world := w\<rparr>)"
| "importer_step env (Evict_packed stream) c =
     (case importer_evict_packed stream (cl_importer c) (cl_world c) of
        (_, im, w) \<Rightarrow> c\<lparr>cl_importer := im, cl_world := w\<rparr>)"

fun importer_run :: "('f, 'io) importer_env \<Rightarrow> importer_op list \<Rightarrow> 'f client \<Rightarrow> 'f client" where
  "importer_run env [] c = c"
| "importer_run env (op # ops) c = importer_run env ops (importer_step env op c)"

definition client_start :: "importer \<Rightarrow> vk_state \<Rightarrow> 'f \<Rightarrow> u64 \<Rightarrow> 'f client" where
  "client_start im s files n =
     \<lparr>cl_importer = im, cl_world = \<lparr>w_vk = s, w_files = files, w_next_import_id = n\<rparr>, cl_images = []\<rparr>"

end
