(* ===== verification/Sync_Commands.thy ===== *)
theory Sync_Commands
  imports Importer
begin

text \<open>
  The command buffers of \<open>vulkan/sync.rs\<close>: what each recorder writes, as a list of commands, and what a
  queue does with them. The execution tracks, for each buffer and image, the queue family that owns
  it, its layout and the accesses made visible by the last barrier; it fails (\<open>None\<close>) on a command that
  Vulkan's rules do not allow there. What is shown: every acquire is allowed, returns the producer's
  memory to the external family, and leaves its images readable by the renderer.
\<close>

section \<open>Commands\<close>

datatype access = SHADER_READ | SHADER_WRITE | TRANSFER_READ | TRANSFER_WRITE | MEMORY_READ

datatype pipeline_stage =
  TOP_OF_PIPE | COMPUTE_SHADER | FRAGMENT_SHADER | TRANSFER_STAGE | BOTTOM_OF_PIPE | ALL_COMMANDS

datatype image_layout =
    LAYOUT_UNDEFINED | LAYOUT_GENERAL | SHADER_READ_ONLY_OPTIMAL | TRANSFER_SRC_OPTIMAL | TRANSFER_DST_OPTIMAL

datatype image_aspect = ASPECT_COLOR | ASPECT_PLANE_0 | ASPECT_PLANE_1

text \<open>\<open>vk::QUEUE_FAMILY_EXTERNAL\<close> is \<open>!1\<close>, \<open>vk::QUEUE_FAMILY_IGNORED\<close> is \<open>!0\<close>.\<close>

definition DMA_BUF_EXTERNAL_QUEUE_FAMILY :: u32 where
  "DMA_BUF_EXTERNAL_QUEUE_FAMILY = - 2"

definition QUEUE_FAMILY_IGNORED :: u32 where
  "QUEUE_FAMILY_IGNORED = - 1"

record buffer_barrier =
  bb_src_access :: "access set"
  bb_dst_access :: "access set"
  bb_src_family :: u32
  bb_dst_family :: u32
  bb_buffer :: vk_object
  bb_offset :: u64
  bb_size :: u64

text \<open>\<open>color_range\<close>: the barriers cover the whole image, so the range is not repeated.\<close>

record image_barrier =
  ib_src_access :: "access set"
  ib_dst_access :: "access set"
  ib_old_layout :: image_layout
  ib_new_layout :: image_layout
  ib_src_family :: u32
  ib_dst_family :: u32
  ib_image :: vk_object

record buffer_image_copy =
  bic_aspect :: image_aspect
  bic_buffer_offset :: u64
  bic_buffer_row_length :: u32
  bic_extent :: dimensions

record image_copy =
  ic_source_aspect :: image_aspect
  ic_extent :: dimensions

datatype vk_command =
    Cmd_pipeline_barrier pipeline_stage pipeline_stage "buffer_barrier list" "image_barrier list"
  | Cmd_bind_pipeline vk_object
  | Cmd_bind_descriptor_set vk_object vk_object
  | Cmd_push_constants vk_object staged_push_constants
  | Cmd_dispatch u32 u32
  | Cmd_copy_buffer_to_image vk_object vk_object image_layout "buffer_image_copy list"
  | Cmd_copy_image vk_object image_layout vk_object image_layout "image_copy list"
  | Cmd_reset_query_pool vk_object
  | Cmd_write_timestamp pipeline_stage vk_object nat

section \<open>Recorders\<close>

definition direct_acquire_commands :: "u32 \<Rightarrow> vk_object \<Rightarrow> vk_command list" where
  "direct_acquire_commands family img =
     [Cmd_pipeline_barrier TOP_OF_PIPE FRAGMENT_SHADER []
       [\<lparr>ib_src_access = {}, ib_dst_access = {SHADER_READ}, ib_old_layout = LAYOUT_GENERAL,
         ib_new_layout = SHADER_READ_ONLY_OPTIMAL, ib_src_family = DMA_BUF_EXTERNAL_QUEUE_FAMILY,
         ib_dst_family = family, ib_image = img\<rparr>]]"

fun staged_output_images :: "sampled_images \<Rightarrow> vk_object list" where
  "staged_output_images (Sampled_rgba x) = [x]"
| "staged_output_images (Sampled_bgra x) = [x]"
| "staged_output_images (Sampled_nv12 x) = [x]"
| "staged_output_images (Sampled_yuv_planes luma chroma) = [luma, chroma]"

text \<open>What the three staged recorders share: the timestamps around the work, the barriers of the outputs.\<close>

definition begin_timing :: "vk_object option \<Rightarrow> vk_command list" where
  "begin_timing query =
     (case query of None \<Rightarrow> []
      | Some pool \<Rightarrow> [Cmd_reset_query_pool pool, Cmd_write_timestamp TOP_OF_PIPE pool 0])"

definition end_timing :: "vk_object option \<Rightarrow> nat \<Rightarrow> vk_command list" where
  "end_timing query n =
     (case query of None \<Rightarrow> [] | Some pool \<Rightarrow> [Cmd_write_timestamp BOTTOM_OF_PIPE pool n])"

definition output_acquire :: "bool \<Rightarrow> access \<Rightarrow> image_layout \<Rightarrow> vk_object \<Rightarrow> image_barrier" where
  "output_acquire initialized write_access layout img =
     \<lparr>ib_src_access = (if initialized then {SHADER_READ} else {}), ib_dst_access = {write_access},
      ib_old_layout = (if initialized then SHADER_READ_ONLY_OPTIMAL else LAYOUT_UNDEFINED),
      ib_new_layout = layout, ib_src_family = QUEUE_FAMILY_IGNORED, ib_dst_family = QUEUE_FAMILY_IGNORED,
      ib_image = img\<rparr>"

definition output_release :: "access \<Rightarrow> image_layout \<Rightarrow> vk_object \<Rightarrow> image_barrier" where
  "output_release write_access layout img =
     \<lparr>ib_src_access = {write_access}, ib_dst_access = {SHADER_READ}, ib_old_layout = layout,
      ib_new_layout = SHADER_READ_ONLY_OPTIMAL, ib_src_family = QUEUE_FAMILY_IGNORED,
      ib_dst_family = QUEUE_FAMILY_IGNORED, ib_image = img\<rparr>"

definition output_source_stage :: "bool \<Rightarrow> pipeline_stage" where
  "output_source_stage initialized = (if initialized then FRAGMENT_SHADER else TOP_OF_PIPE)"

definition buffer_acquire :: "u32 \<Rightarrow> access \<Rightarrow> vk_object \<Rightarrow> u64 \<Rightarrow> buffer_barrier" where
  "buffer_acquire family read_access buffer buffer_size =
     \<lparr>bb_src_access = {}, bb_dst_access = {read_access}, bb_src_family = DMA_BUF_EXTERNAL_QUEUE_FAMILY,
      bb_dst_family = family, bb_buffer = buffer, bb_offset = 0, bb_size = buffer_size\<rparr>"

definition buffer_release :: "u32 \<Rightarrow> access \<Rightarrow> vk_object \<Rightarrow> u64 \<Rightarrow> buffer_barrier" where
  "buffer_release family read_access buffer buffer_size =
     \<lparr>bb_src_access = {read_access}, bb_dst_access = {}, bb_src_family = family,
      bb_dst_family = DMA_BUF_EXTERNAL_QUEUE_FAMILY, bb_buffer = buffer, bb_offset = 0, bb_size = buffer_size\<rparr>"

definition staged_acquire_commands :: "u32 \<Rightarrow> staged_acquire_plan \<Rightarrow> vk_object option \<Rightarrow> vk_command list" where
  "staged_acquire_commands family plan query =
     begin_timing query @
     [Cmd_pipeline_barrier (output_source_stage (sap_output_initialized plan)) COMPUTE_SHADER
        [buffer_acquire family SHADER_READ (sap_source_buffer plan) (sap_source_size plan)]
        (map (output_acquire (sap_output_initialized plan) SHADER_WRITE LAYOUT_GENERAL)
          (staged_output_images (sap_output plan))),
      Cmd_bind_pipeline (sap_pipeline plan),
      Cmd_bind_descriptor_set (sap_pipeline_layout plan) (sap_descriptor_set plan),
      Cmd_push_constants (sap_pipeline_layout plan) (sap_push_constants plan),
      Cmd_dispatch (fst (sap_dispatch plan)) (snd (sap_dispatch plan)),
      Cmd_pipeline_barrier COMPUTE_SHADER FRAGMENT_SHADER []
        (map (output_release SHADER_WRITE LAYOUT_GENERAL) (staged_output_images (sap_output plan))),
      Cmd_pipeline_barrier COMPUTE_SHADER BOTTOM_OF_PIPE
        [buffer_release family SHADER_READ (sap_source_buffer plan) (sap_source_size plan)] []] @
     end_timing query 1"

definition nv12_transfer_region :: "image_aspect \<Rightarrow> u64 \<Rightarrow> u32 \<Rightarrow> u32 \<Rightarrow> u32 \<Rightarrow> buffer_image_copy" where
  "nv12_transfer_region aspect buffer_offset row_length width height =
     \<lparr>bic_aspect = aspect, bic_buffer_offset = buffer_offset, bic_buffer_row_length = row_length,
      bic_extent = (width, height)\<rparr>"

definition nv12_multiplanar_transfer_regions :: "staged_transfer_plan \<Rightarrow> buffer_image_copy list" where
  "nv12_multiplanar_transfer_regions plan =
     (case (stp_planes plan, stp_dimensions plan) of ((luma, chroma), (width, height)) \<Rightarrow>
        [nv12_transfer_region ASPECT_PLANE_0 (ip_offset luma) (ip_pitch luma) width height,
         nv12_transfer_region ASPECT_PLANE_1 (ip_offset chroma) (ip_pitch chroma div 2)
           (width div 2) (height div 2)])"

definition nv12_separate_transfer_regions :: "staged_transfer_plan \<Rightarrow> buffer_image_copy list" where
  "nv12_separate_transfer_regions plan =
     (case (stp_planes plan, stp_dimensions plan) of ((luma, chroma), (width, height)) \<Rightarrow>
        [nv12_transfer_region ASPECT_COLOR (ip_offset luma) (ip_pitch luma) width height,
         nv12_transfer_region ASPECT_COLOR (ip_offset chroma) (ip_pitch chroma div 2)
           (width div 2) (height div 2)])"

datatype record_error =
    Transfer_output_not_planar
  | Image_transfer_needs_planes
  | Begin_failed vk_result
  | End_failed vk_result
  | Reset_acquire_pool_failed vk_result

text \<open>The copies of a transfer; the match rejects the outputs that have no planes.\<close>

definition transfer_copies :: "staged_transfer_plan \<Rightarrow> record_error + vk_command list" where
  "transfer_copies plan =
     (case stp_output plan of
        Sampled_nv12 img \<Rightarrow>
          Ok [Cmd_copy_buffer_to_image (stp_source_buffer plan) img TRANSFER_DST_OPTIMAL
                (nv12_multiplanar_transfer_regions plan)]
      | Sampled_yuv_planes luma chroma \<Rightarrow>
          let regions = nv12_separate_transfer_regions plan in
          Ok [Cmd_copy_buffer_to_image (stp_source_buffer plan) luma TRANSFER_DST_OPTIMAL [regions ! 0],
              Cmd_copy_buffer_to_image (stp_source_buffer plan) chroma TRANSFER_DST_OPTIMAL [regions ! 1]]
      | _ \<Rightarrow> Err Transfer_output_not_planar)"

definition staged_transfer_commands ::
  "u32 \<Rightarrow> staged_transfer_plan \<Rightarrow> vk_object option \<Rightarrow> record_error + vk_command list" where
  "staged_transfer_commands family plan query =
     map_ok (\<lambda>copies.
       begin_timing query @
       [Cmd_pipeline_barrier (output_source_stage (stp_output_initialized plan)) TRANSFER_STAGE
          [buffer_acquire family TRANSFER_READ (stp_source_buffer plan) (stp_source_size plan)]
          (map (output_acquire (stp_output_initialized plan) TRANSFER_WRITE TRANSFER_DST_OPTIMAL)
            (staged_output_images (stp_output plan)))] @
       copies @
       [Cmd_pipeline_barrier TRANSFER_STAGE FRAGMENT_SHADER []
          (map (output_release TRANSFER_WRITE TRANSFER_DST_OPTIMAL) (staged_output_images (stp_output plan))),
        Cmd_pipeline_barrier TRANSFER_STAGE BOTTOM_OF_PIPE
          [buffer_release family TRANSFER_READ (stp_source_buffer plan) (stp_source_size plan)] []] @
       end_timing query 1) (transfer_copies plan)"

definition image_copy_region :: "image_aspect \<Rightarrow> u32 \<Rightarrow> u32 \<Rightarrow> image_copy" where
  "image_copy_region aspect width height = \<lparr>ic_source_aspect = aspect, ic_extent = (width, height)\<rparr>"

definition image_source_acquire :: "u32 \<Rightarrow> vk_object \<Rightarrow> image_barrier" where
  "image_source_acquire family img =
     \<lparr>ib_src_access = {}, ib_dst_access = {TRANSFER_READ}, ib_old_layout = LAYOUT_GENERAL,
      ib_new_layout = TRANSFER_SRC_OPTIMAL, ib_src_family = DMA_BUF_EXTERNAL_QUEUE_FAMILY,
      ib_dst_family = family, ib_image = img\<rparr>"

definition image_source_release :: "u32 \<Rightarrow> vk_object \<Rightarrow> image_barrier" where
  "image_source_release family img =
     \<lparr>ib_src_access = {TRANSFER_READ}, ib_dst_access = {}, ib_old_layout = TRANSFER_SRC_OPTIMAL,
      ib_new_layout = LAYOUT_GENERAL, ib_src_family = family,
      ib_dst_family = DMA_BUF_EXTERNAL_QUEUE_FAMILY, ib_image = img\<rparr>"

definition image_transfer_commands ::
  "u32 \<Rightarrow> image_transfer_plan \<Rightarrow> vk_object option \<Rightarrow> record_error + vk_command list" where
  "image_transfer_commands family plan query =
     (case itp_output plan of
        Sampled_yuv_planes luma chroma \<Rightarrow>
          (let source = itp_source_image plan; (width, height) = itp_dimensions plan in
           Ok (begin_timing query @
             [Cmd_pipeline_barrier (output_source_stage (itp_output_initialized plan)) TRANSFER_STAGE []
                (image_source_acquire family source # map (output_acquire (itp_output_initialized plan) TRANSFER_WRITE
                  TRANSFER_DST_OPTIMAL) [luma, chroma]),
              Cmd_copy_image source TRANSFER_SRC_OPTIMAL luma TRANSFER_DST_OPTIMAL
                [image_copy_region ASPECT_PLANE_0 width height],
              Cmd_copy_image source TRANSFER_SRC_OPTIMAL chroma TRANSFER_DST_OPTIMAL
                [image_copy_region ASPECT_PLANE_1 (width div 2) (height div 2)],
              Cmd_pipeline_barrier TRANSFER_STAGE FRAGMENT_SHADER []
                (map (output_release TRANSFER_WRITE TRANSFER_DST_OPTIMAL) [luma, chroma]),
              Cmd_pipeline_barrier TRANSFER_STAGE BOTTOM_OF_PIPE [] [image_source_release family source]] @
             end_timing query 1))
      | _ \<Rightarrow> Err Image_transfer_needs_planes)"

definition staged_release_commands :: "vk_object option \<Rightarrow> vk_command list" where
  "staged_release_commands query = end_timing query 2"

definition direct_release_commands :: "u32 \<Rightarrow> vk_object \<Rightarrow> vk_command list" where
  "direct_release_commands family img =
     [Cmd_pipeline_barrier ALL_COMMANDS BOTTOM_OF_PIPE []
       [\<lparr>ib_src_access = {MEMORY_READ}, ib_dst_access = {}, ib_old_layout = SHADER_READ_ONLY_OPTIMAL,
         ib_new_layout = LAYOUT_GENERAL, ib_src_family = family,
         ib_dst_family = DMA_BUF_EXTERNAL_QUEUE_FAMILY, ib_image = img\<rparr>]]"

text \<open>The match of \<open>record_acquire\<close>; a direct image has no timestamps.\<close>

definition acquire_commands :: "u32 \<Rightarrow> acquire_work \<Rightarrow> vk_object option \<Rightarrow> record_error + vk_command list" where
  "acquire_commands family plan query =
     (case plan of
        Plan_direct_image img \<Rightarrow> Ok (direct_acquire_commands family img)
      | Plan_staged_compute p \<Rightarrow> Ok (staged_acquire_commands family p query)
      | Plan_staged_transfer p \<Rightarrow> staged_transfer_commands family p query
      | Plan_image_transfer p \<Rightarrow> image_transfer_commands family p query)"

section \<open>What a queue does with them\<close>

text \<open>
  \<open>gp_use\<close> are the accesses since the last barrier of a resource, \<open>gp_ready\<close> the stage and accesses that
  barrier made it ready for; \<open>gp_queries\<close> are the timestamps that are reset and not written. What a
  descriptor set points at, a source buffer and the images written, is an argument.
\<close>

record gpu =
  gp_owner :: "vk_object \<Rightarrow> u32"
  gp_layout :: "vk_object \<Rightarrow> image_layout"
  gp_use :: "vk_object \<Rightarrow> (pipeline_stage \<times> access) list"
  gp_ready :: "vk_object \<Rightarrow> pipeline_stage \<times> access set"
  gp_queries :: "(vk_object \<times> nat) set"
  gp_pipeline :: "vk_object option"
  gp_set :: "(vk_object \<times> vk_object) option"
  gp_constants :: "vk_object option"

type_synonym descriptors = "vk_object \<Rightarrow> vk_object \<times> vk_object list"

definition is_read :: "access \<Rightarrow> bool" where
  "is_read a \<longleftrightarrow> a \<in> {SHADER_READ, TRANSFER_READ, MEMORY_READ}"

definition covers :: "pipeline_stage \<Rightarrow> access set \<Rightarrow> pipeline_stage \<times> access \<Rightarrow> bool" where
  "covers stage accesses u \<longleftrightarrow>
     (stage = fst u \<or> stage = ALL_COMMANDS) \<and> (is_read (snd u) \<or> snd u \<in> accesses)"

text \<open>A transfer of ownership is from the external family to this one or back; equal families transfer nothing.\<close>

definition new_owner :: "u32 \<Rightarrow> u32 \<Rightarrow> u32 \<Rightarrow> u32 \<Rightarrow> u32 option" where
  "new_owner family src dst owner =
     (if src = dst then if owner = family then Some family else None
      else if owner = src \<and> (src, dst) \<in> {(DMA_BUF_EXTERNAL_QUEUE_FAMILY, family), (family, DMA_BUF_EXTERNAL_QUEUE_FAMILY)}
      then Some dst else None)"

definition after_barrier ::
  "vk_object \<Rightarrow> u32 \<Rightarrow> image_layout \<Rightarrow> pipeline_stage \<Rightarrow> access set \<Rightarrow> gpu \<Rightarrow> gpu" where
  "after_barrier x owner layout stage accesses g =
     g\<lparr>gp_owner := (gp_owner g)(x := owner), gp_layout := (gp_layout g)(x := layout),
       gp_use := (gp_use g)(x := []), gp_ready := (gp_ready g)(x := (stage, accesses))\<rparr>"

definition exec_buffer_barrier ::
  "u32 \<Rightarrow> pipeline_stage \<Rightarrow> pipeline_stage \<Rightarrow> buffer_barrier \<Rightarrow> gpu \<Rightarrow> gpu option" where
  "exec_buffer_barrier family src dst b g =
     (let x = bb_buffer b in
      if list_all (covers src (bb_src_access b)) (gp_use g x)
      then map_option (\<lambda>owner. after_barrier x owner (gp_layout g x) dst (bb_dst_access b) g)
        (new_owner family (bb_src_family b) (bb_dst_family b) (gp_owner g x))
      else None)"

definition exec_image_barrier ::
  "u32 \<Rightarrow> pipeline_stage \<Rightarrow> pipeline_stage \<Rightarrow> image_barrier \<Rightarrow> gpu \<Rightarrow> gpu option" where
  "exec_image_barrier family src dst b g =
     (let x = ib_image b in
      if list_all (covers src (ib_src_access b)) (gp_use g x) \<and> ib_old_layout b \<in> {LAYOUT_UNDEFINED, gp_layout g x}
      then map_option (\<lambda>owner. after_barrier x owner (ib_new_layout b) dst (ib_dst_access b) g)
        (new_owner family (ib_src_family b) (ib_dst_family b) (gp_owner g x))
      else None)"

fun exec_all :: "('c \<Rightarrow> gpu \<Rightarrow> gpu option) \<Rightarrow> 'c list \<Rightarrow> gpu \<Rightarrow> gpu option" where
  "exec_all f [] g = Some g"
| "exec_all f (c # cs) g = Option.bind (f c g) (exec_all f cs)"

text \<open>An access is allowed to the owner, at the stage and for the access of the last barrier.\<close>

definition exec_use :: "u32 \<Rightarrow> pipeline_stage \<Rightarrow> access \<Rightarrow> vk_object \<Rightarrow> gpu \<Rightarrow> gpu option" where
  "exec_use family stage a x g =
     (if gp_owner g x = family \<and> fst (gp_ready g x) = stage \<and> a \<in> snd (gp_ready g x)
      then Some (g\<lparr>gp_use := (gp_use g)(x := (stage, a) # gp_use g x)\<rparr>) else None)"

definition exec_image_use ::
  "u32 \<Rightarrow> pipeline_stage \<Rightarrow> access \<Rightarrow> image_layout \<Rightarrow> vk_object \<Rightarrow> gpu \<Rightarrow> gpu option" where
  "exec_image_use family stage a layout x g =
     (if gp_layout g x = layout then exec_use family stage a x g else None)"

fun exec_command :: "u32 \<Rightarrow> descriptors \<Rightarrow> vk_command \<Rightarrow> gpu \<Rightarrow> gpu option" where
  "exec_command family ds (Cmd_pipeline_barrier src dst buffers images) g =
     Option.bind (exec_all (exec_buffer_barrier family src dst) buffers g)
       (exec_all (exec_image_barrier family src dst) images)"
| "exec_command family ds (Cmd_bind_pipeline pipeline) g = Some (g\<lparr>gp_pipeline := Some pipeline\<rparr>)"
| "exec_command family ds (Cmd_bind_descriptor_set layout dset) g = Some (g\<lparr>gp_set := Some (layout, dset)\<rparr>)"
| "exec_command family ds (Cmd_push_constants layout constants) g = Some (g\<lparr>gp_constants := Some layout\<rparr>)"
| "exec_command family ds (Cmd_dispatch x y) g =
     (case (gp_pipeline g, gp_set g, gp_constants g) of
        (Some _, Some (layout, dset), Some layout') \<Rightarrow>
          if layout = layout'
          then Option.bind (exec_use family COMPUTE_SHADER SHADER_READ (fst (ds dset)) g)
            (exec_all (exec_image_use family COMPUTE_SHADER SHADER_WRITE LAYOUT_GENERAL) (snd (ds dset)))
          else None
      | _ \<Rightarrow> None)"
| "exec_command family ds (Cmd_copy_buffer_to_image buffer img layout regions) g =
     (if layout = TRANSFER_DST_OPTIMAL
      then Option.bind (exec_use family TRANSFER_STAGE TRANSFER_READ buffer g)
        (exec_image_use family TRANSFER_STAGE TRANSFER_WRITE layout img) else None)"
| "exec_command family ds (Cmd_copy_image source source_layout img layout regions) g =
     (if source_layout = TRANSFER_SRC_OPTIMAL \<and> layout = TRANSFER_DST_OPTIMAL
      then Option.bind (exec_image_use family TRANSFER_STAGE TRANSFER_READ source_layout source g)
        (exec_image_use family TRANSFER_STAGE TRANSFER_WRITE layout img) else None)"
| "exec_command family ds (Cmd_reset_query_pool pool) g =
     Some (g\<lparr>gp_queries := gp_queries g \<union> {pool} \<times> {0, 1, 2}\<rparr>)"
| "exec_command family ds (Cmd_write_timestamp stage pool n) g =
     (if (pool, n) \<in> gp_queries g then Some (g\<lparr>gp_queries := gp_queries g - {(pool, n)}\<rparr>) else None)"

abbreviation exec_commands :: "u32 \<Rightarrow> descriptors \<Rightarrow> vk_command list \<Rightarrow> gpu \<Rightarrow> gpu option" where
  "exec_commands family ds \<equiv> exec_all (exec_command family ds)"

text \<open>The renderer's own work: its fragment shaders read images.\<close>

definition renderer_samples :: "u32 \<Rightarrow> vk_object list \<Rightarrow> gpu \<Rightarrow> gpu option" where
  "renderer_samples family =
     exec_all (exec_image_use family FRAGMENT_SHADER SHADER_READ SHADER_READ_ONLY_OPTIMAL)"

section \<open>States of the images\<close>

text \<open>With the producer; readable by the renderer, which may have read; waiting for its first use.\<close>

definition with_producer :: "vk_object \<Rightarrow> gpu \<Rightarrow> bool" where
  "with_producer x g \<longleftrightarrow> gp_owner g x = DMA_BUF_EXTERNAL_QUEUE_FAMILY \<and> gp_use g x = [] \<and> gp_layout g x = LAYOUT_GENERAL"

definition readable :: "u32 \<Rightarrow> vk_object \<Rightarrow> gpu \<Rightarrow> bool" where
  "readable family x g \<longleftrightarrow> gp_owner g x = family \<and> gp_layout g x = SHADER_READ_ONLY_OPTIMAL \<and>
     gp_ready g x = (FRAGMENT_SHADER, {SHADER_READ}) \<and> set (gp_use g x) \<subseteq> {(FRAGMENT_SHADER, SHADER_READ)}"

definition output_ready :: "u32 \<Rightarrow> bool \<Rightarrow> vk_object \<Rightarrow> gpu \<Rightarrow> bool" where
  "output_ready family initialized x g \<longleftrightarrow>
     (initialized \<longrightarrow> readable family x g) \<and> (\<not> initialized \<longrightarrow> gp_owner g x = family \<and> gp_use g x = [])"

text \<open>What a plan acquires from the producer, and what it makes readable.\<close>

fun plan_sources :: "acquire_work \<Rightarrow> vk_object list" where
  "plan_sources (Plan_direct_image x) = [x]"
| "plan_sources (Plan_staged_compute p) = [sap_source_buffer p]"
| "plan_sources (Plan_staged_transfer p) = [stp_source_buffer p]"
| "plan_sources (Plan_image_transfer p) = [itp_source_image p]"

fun plan_outputs :: "acquire_work \<Rightarrow> vk_object list" where
  "plan_outputs (Plan_direct_image x) = []"
| "plan_outputs (Plan_staged_compute p) = staged_output_images (sap_output p)"
| "plan_outputs (Plan_staged_transfer p) = staged_output_images (stp_output p)"
| "plan_outputs (Plan_image_transfer p) = staged_output_images (itp_output p)"

fun plan_initialized :: "acquire_work \<Rightarrow> bool" where
  "plan_initialized (Plan_direct_image x) = False"
| "plan_initialized (Plan_staged_compute p) = sap_output_initialized p"
| "plan_initialized (Plan_staged_transfer p) = stp_output_initialized p"
| "plan_initialized (Plan_image_transfer p) = itp_output_initialized p"

fun plan_shown :: "acquire_work \<Rightarrow> vk_object list" where
  "plan_shown (Plan_direct_image x) = [x]"
| "plan_shown p = plan_outputs p"

fun plan_planar :: "acquire_work \<Rightarrow> bool" where
  "plan_planar (Plan_staged_transfer p) \<longleftrightarrow> (case stp_output p of Sampled_nv12 _ \<Rightarrow> True | Sampled_yuv_planes _ _ \<Rightarrow> True | _ \<Rightarrow> False)"
| "plan_planar (Plan_image_transfer p) \<longleftrightarrow> (case itp_output p of Sampled_yuv_planes _ _ \<Rightarrow> True | _ \<Rightarrow> False)"
| "plan_planar p \<longleftrightarrow> True"

definition plan_ready :: "u32 \<Rightarrow> bool \<Rightarrow> acquire_work \<Rightarrow> gpu \<Rightarrow> bool" where
  "plan_ready family initialized plan g \<longleftrightarrow>
     list_all (\<lambda>x. with_producer x g) (plan_sources plan) \<and>
     list_all (\<lambda>x. output_ready family initialized x g) (plan_outputs plan)"

definition others_kept :: "vk_object set \<Rightarrow> gpu \<Rightarrow> gpu \<Rightarrow> bool" where
  "others_kept xs g g' \<longleftrightarrow> (\<forall>x. x \<notin> xs \<longrightarrow> gp_owner g' x = gp_owner g x \<and> gp_layout g' x = gp_layout g x \<and>
     gp_use g' x = gp_use g x \<and> gp_ready g' x = gp_ready g x)"

section \<open>Executing lists of commands\<close>

lemma exec_all_append [simp]: "exec_all f (cs @ ds) g = Option.bind (exec_all f cs g) (exec_all f ds)"
  by (induction cs arbitrary: g) (simp_all split: bind_split)

definition barriered ::
  "vk_object list \<Rightarrow> u32 \<Rightarrow> image_layout \<Rightarrow> pipeline_stage \<Rightarrow> access set \<Rightarrow> gpu \<Rightarrow> gpu" where
  "barriered xs owner layout stage accesses = fold (\<lambda>x. after_barrier x owner layout stage accesses) xs"

definition used :: "vk_object list \<Rightarrow> pipeline_stage \<times> access \<Rightarrow> gpu \<Rightarrow> gpu" where
  "used xs u = fold (\<lambda>x g. g\<lparr>gp_use := (gp_use g)(x := u # gp_use g x)\<rparr>) xs"

lemma after_barrier_simps [simp]:
  "gp_owner (after_barrier x owner layout stage accesses g) y = (if y = x then owner else gp_owner g y)"
  "gp_layout (after_barrier x owner layout stage accesses g) y = (if y = x then layout else gp_layout g y)"
  "gp_use (after_barrier x owner layout stage accesses g) y = (if y = x then [] else gp_use g y)"
  "gp_ready (after_barrier x owner layout stage accesses g) y = (if y = x then (stage, accesses) else gp_ready g y)"
  "gp_queries (after_barrier x owner layout stage accesses g) = gp_queries g"
  "gp_pipeline (after_barrier x owner layout stage accesses g) = gp_pipeline g"
  "gp_set (after_barrier x owner layout stage accesses g) = gp_set g"
  "gp_constants (after_barrier x owner layout stage accesses g) = gp_constants g"
  by (simp_all add: after_barrier_def)

lemma barriered_simps [simp]:
  "gp_owner (barriered xs owner layout stage accesses g) y = (if y \<in> set xs then owner else gp_owner g y)"
  "gp_layout (barriered xs owner layout stage accesses g) y = (if y \<in> set xs then layout else gp_layout g y)"
  "gp_use (barriered xs owner layout stage accesses g) y = (if y \<in> set xs then [] else gp_use g y)"
  "gp_ready (barriered xs owner layout stage accesses g) y = (if y \<in> set xs then (stage, accesses) else gp_ready g y)"
  "gp_queries (barriered xs owner layout stage accesses g) = gp_queries g"
  "gp_pipeline (barriered xs owner layout stage accesses g) = gp_pipeline g"
  "gp_set (barriered xs owner layout stage accesses g) = gp_set g"
  "gp_constants (barriered xs owner layout stage accesses g) = gp_constants g"
  unfolding barriered_def by (induction xs arbitrary: g) simp_all

lemma used_simps [simp]:
  "gp_owner (used xs u g) = gp_owner g" "gp_layout (used xs u g) = gp_layout g"
  "gp_ready (used xs u g) = gp_ready g" "gp_queries (used xs u g) = gp_queries g"
  "gp_pipeline (used xs u g) = gp_pipeline g" "gp_set (used xs u g) = gp_set g"
  "gp_constants (used xs u g) = gp_constants g"
  unfolding used_def by (induction xs arbitrary: g) simp_all

lemma used_use:
  "set (gp_use (used xs u g) y) = (if y \<in> set xs then insert u (set (gp_use g y)) else set (gp_use g y))"
  unfolding used_def by (induction xs arbitrary: g) auto

lemma used_other [simp]: "y \<notin> set xs \<Longrightarrow> gp_use (used xs u g) y = gp_use g y"
  unfolding used_def by (induction xs arbitrary: g) simp_all

lemma output_ready_others:
  assumes "x \<notin> set xs" and "\<forall>y \<in> set xs. output_ready family initialized y g"
  shows "\<forall>y \<in> set xs. output_ready family initialized y (after_barrier x owner layout stage accesses g)"
proof
  fix y assume "y \<in> set xs"
  then show "output_ready family initialized y (after_barrier x owner layout stage accesses g)"
    using assms by (cases "y = x") (simp_all add: output_ready_def readable_def)
qed

text \<open>The barriers of the outputs of a staged import, before and after the work.\<close>

lemma exec_output_acquires:
  assumes "distinct xs" and "\<forall>x \<in> set xs. output_ready family initialized x g"
  shows "exec_all (exec_image_barrier family (output_source_stage initialized) stage)
      (map (output_acquire initialized a layout) xs) g = Some (barriered xs family layout stage {a} g)"
  using assms
proof (induction xs arbitrary: g)
  case (Cons x xs)
  let ?g = "after_barrier x family layout stage {a} g"
  have covered: "list_all (covers FRAGMENT_SHADER {SHADER_READ}) us"
    if "set us \<subseteq> {(FRAGMENT_SHADER, SHADER_READ)}" for us
    using that by (auto simp: list_all_iff covers_def is_read_def)
  have "exec_image_barrier family (output_source_stage initialized) stage (output_acquire initialized a layout x) g = Some ?g"
    using Cons.prems(2) covered
    by (auto simp: exec_image_barrier_def output_acquire_def output_ready_def readable_def output_source_stage_def
        new_owner_def split: if_splits)
  moreover have "\<forall>y \<in> set xs. output_ready family initialized y ?g"
    using Cons.prems by (intro output_ready_others) simp_all
  ultimately show ?case using Cons.IH [of ?g] Cons.prems(1) by (simp add: barriered_def)
qed (simp add: barriered_def)

lemma exec_output_releases:
  assumes "distinct xs"
    and "\<forall>x \<in> set xs. gp_owner g x = family \<and> gp_layout g x = layout \<and> set (gp_use g x) \<subseteq> {(stage, a)}"
  shows "exec_all (exec_image_barrier family stage FRAGMENT_SHADER) (map (output_release a layout) xs) g =
      Some (barriered xs family SHADER_READ_ONLY_OPTIMAL FRAGMENT_SHADER {SHADER_READ} g)"
  using assms
proof (induction xs arbitrary: g)
  case (Cons x xs)
  let ?g = "after_barrier x family SHADER_READ_ONLY_OPTIMAL FRAGMENT_SHADER {SHADER_READ} g"
  have "list_all (covers stage {a}) (gp_use g x)"
    using Cons.prems(2) by (auto simp: list_all_iff covers_def)
  then have "exec_image_barrier family stage FRAGMENT_SHADER (output_release a layout x) g = Some ?g"
    using Cons.prems(2) by (simp add: exec_image_barrier_def output_release_def new_owner_def)
  moreover have "\<forall>y \<in> set xs. gp_owner ?g y = family \<and> gp_layout ?g y = layout \<and> set (gp_use ?g y) \<subseteq> {(stage, a)}"
    using Cons.prems by auto
  ultimately show ?case using Cons.IH [of ?g] Cons.prems(1) by (simp add: barriered_def)
qed (simp add: barriered_def)

lemma exec_image_uses:
  assumes "\<forall>x \<in> set xs. gp_owner g x = family \<and> gp_layout g x = layout \<and> fst (gp_ready g x) = stage \<and> a \<in> snd (gp_ready g x)"
  shows "exec_all (exec_image_use family stage a layout) xs g = Some (used xs (stage, a) g)"
  using assms by (induction xs arbitrary: g) (simp_all add: exec_image_use_def exec_use_def used_def)

lemma exec_use_used:
  "gp_owner g x = family \<Longrightarrow> fst (gp_ready g x) = stage \<Longrightarrow> a \<in> snd (gp_ready g x) \<Longrightarrow>
     exec_use family stage a x g = Some (used [x] (stage, a) g)"
  by (simp add: exec_use_def used_def)

lemma exec_begin_timing:
  "\<exists>g'. exec_commands family ds (begin_timing query) g = Some g' \<and> others_kept {} g g' \<and>
     (\<forall>pool. query = Some pool \<longrightarrow> {(pool, 1), (pool, 2)} \<subseteq> gp_queries g')"
  by (auto simp: begin_timing_def others_kept_def split: option.splits)

lemma exec_end_timing:
  assumes "\<forall>pool. query = Some pool \<longrightarrow> (pool, n) \<in> gp_queries g"
  shows "exec_commands family ds (end_timing query n) g =
    Some (g\<lparr>gp_queries := gp_queries g - set_option query \<times> {n}\<rparr>)"
  using assms by (cases query) (simp_all add: end_timing_def)

lemma exec_buffer_acquire:
  assumes "with_producer x g"
  shows "exec_buffer_barrier family src dst (buffer_acquire family a x sz) g =
    Some (after_barrier x family LAYOUT_GENERAL dst {a} g)"
  using assms by (auto simp: exec_buffer_barrier_def buffer_acquire_def with_producer_def new_owner_def)

lemma exec_buffer_release:
  assumes "gp_owner g x = family" and "gp_layout g x = LAYOUT_GENERAL" and "set (gp_use g x) \<subseteq> {(src, a)}"
    and "family \<noteq> DMA_BUF_EXTERNAL_QUEUE_FAMILY"
  shows "exec_buffer_barrier family src dst (buffer_release family a x sz) g =
    Some (after_barrier x DMA_BUF_EXTERNAL_QUEUE_FAMILY LAYOUT_GENERAL dst {} g)"
proof -
  have "list_all (covers src {a}) (gp_use g x)" using assms(3) by (auto simp: list_all_iff covers_def)
  then show ?thesis using assms by (auto simp: exec_buffer_barrier_def buffer_release_def new_owner_def)
qed

section \<open>Acquires\<close>

text \<open>What a staged acquire leaves: the source back with the producer, the outputs readable.\<close>

definition acquired :: "u32 \<Rightarrow> vk_object list \<Rightarrow> vk_object list \<Rightarrow> vk_object option \<Rightarrow> gpu \<Rightarrow> gpu \<Rightarrow> bool" where
  "acquired family sources outputs query g g' \<longleftrightarrow>
     (\<forall>x \<in> set sources. with_producer x g') \<and> (\<forall>x \<in> set outputs. readable family x g') \<and>
     others_kept (set sources \<union> set outputs) g g' \<and> set_option query \<times> {2} \<subseteq> gp_queries g'"

text \<open>The work between the barriers only reads the source and writes the outputs.\<close>

definition works ::
  "vk_object \<Rightarrow> vk_object list \<Rightarrow> pipeline_stage \<Rightarrow> access \<Rightarrow> access \<Rightarrow> gpu \<Rightarrow> gpu \<Rightarrow> bool" where
  "works src os stage r w g g' \<longleftrightarrow>
     gp_owner g' = gp_owner g \<and> gp_layout g' = gp_layout g \<and> gp_ready g' = gp_ready g \<and>
     gp_queries g' = gp_queries g \<and>
     (\<forall>y. set (gp_use g' y) \<subseteq> set (gp_use g y) \<union> (if y = src then {(stage, r)} else {}) \<union>
        (if y \<in> set os then {(stage, w)} else {})) \<and>
     (\<forall>y. y \<noteq> src \<longrightarrow> y \<notin> set os \<longrightarrow> gp_use g' y = gp_use g y)"

lemma staged_bracket:
  assumes src: "with_producer src g" and outs: "\<forall>x \<in> set os. output_ready family initialized x g"
    and distinct: "distinct (src # os)" and external: "family \<noteq> DMA_BUF_EXTERNAL_QUEUE_FAMILY"
    and first: "\<And>g. with_producer src g \<Longrightarrow> \<forall>x \<in> set os. output_ready family initialized x g \<Longrightarrow>
        exec_command family ds opening g =
          Some (barriered os family layout stage {w} (after_barrier src family src_layout stage {r} g))"
    and work: "\<And>g. (\<forall>x \<in> set os. gp_owner g x = family \<and> gp_layout g x = layout \<and> gp_ready g x = (stage, {w})) \<Longrightarrow>
        gp_owner g src = family \<Longrightarrow> gp_layout g src = src_layout \<Longrightarrow> gp_ready g src = (stage, {r}) \<Longrightarrow>
        \<exists>g'. exec_commands family ds body g = Some g' \<and> works src os stage r w g g'"
    and last: "\<And>g. gp_owner g src = family \<Longrightarrow> gp_layout g src = src_layout \<Longrightarrow> set (gp_use g src) \<subseteq> {(stage, r)} \<Longrightarrow>
        exec_command family ds closing g =
          Some (after_barrier src DMA_BUF_EXTERNAL_QUEUE_FAMILY LAYOUT_GENERAL BOTTOM_OF_PIPE {} g)"
  shows "\<exists>g'. exec_commands family ds
      (begin_timing query @ [opening] @ body @
       [Cmd_pipeline_barrier stage FRAGMENT_SHADER [] (map (output_release w layout) os), closing] @
       end_timing query 1) g = Some g' \<and> acquired family [src] os query g g'"
proof -
  obtain g1 where g1: "exec_commands family ds (begin_timing query) g = Some g1" "others_kept {} g g1"
      "\<forall>pool. query = Some pool \<longrightarrow> {(pool, 1), (pool, 2)} \<subseteq> gp_queries g1"
    using exec_begin_timing [of family ds query g] by auto
  let ?g3 = "barriered os family layout stage {w} (after_barrier src family src_layout stage {r} g1)"
  have opened: "exec_command family ds opening g1 = Some ?g3"
    using src outs g1(2) by (intro first) (simp_all add: with_producer_def output_ready_def readable_def others_kept_def)
  obtain g5 where g5: "exec_commands family ds body ?g3 = Some g5" "works src os stage r w ?g3 g5"
    using work [of ?g3] distinct by fastforce
  let ?g6 = "barriered os family SHADER_READ_ONLY_OPTIMAL FRAGMENT_SHADER {SHADER_READ} g5"
  have bound: "set (gp_use g5 y) \<subseteq> set (gp_use ?g3 y) \<union> (if y = src then {(stage, r)} else {}) \<union>
      (if y \<in> set os then {(stage, w)} else {})" for y
    using g5(2) by (simp only: works_def)
  have used: "set (gp_use g5 src) \<subseteq> {(stage, r)}" using bound [of src] distinct by simp
  have "set (gp_use g5 x) \<subseteq> {(stage, w)}" if "x \<in> set os" for x
    using bound [of x] distinct that by (cases "x = src") simp_all
  then have released: "exec_all (exec_image_barrier family stage FRAGMENT_SHADER) (map (output_release w layout) os) g5 = Some ?g6"
    using g5(2) distinct by (intro exec_output_releases) (simp_all add: works_def)
  let ?g7 = "after_barrier src DMA_BUF_EXTERNAL_QUEUE_FAMILY LAYOUT_GENERAL BOTTOM_OF_PIPE {} ?g6"
  have closed: "exec_command family ds closing ?g6 = Some ?g7"
    using used g5(2) distinct by (intro last) (simp_all add: works_def)
  have timing: "\<forall>pool. query = Some pool \<longrightarrow> (pool, 1) \<in> gp_queries ?g7" using g1(3) g5(2) by (simp add: works_def)
  let ?g8 = "?g7\<lparr>gp_queries := gp_queries ?g7 - set_option query \<times> {1}\<rparr>"
  have "acquired family [src] os query g ?g8"
    using g1(2,3) g5(2) distinct
    by (cases query) (auto simp: acquired_def works_def with_producer_def readable_def others_kept_def)
  then show ?thesis
    by (simp add: g1(1) opened g5(1) released closed exec_end_timing [OF timing] del: One_nat_def)
qed

lemma exec_buffer_opening:
  assumes "with_producer src g" and "\<forall>x \<in> set os. output_ready family initialized x g" and "distinct (src # os)"
  shows "exec_command family ds (Cmd_pipeline_barrier (output_source_stage initialized) stage
      [buffer_acquire family r src n] (map (output_acquire initialized w layout) os)) g =
    Some (barriered os family layout stage {w} (after_barrier src family LAYOUT_GENERAL stage {r} g))"
  using exec_output_acquires [OF _ output_ready_others [OF _ assms(2)], of src] assms(3)
  by (simp add: exec_buffer_acquire [OF assms(1)])

lemma exec_buffer_closing:
  assumes "family \<noteq> DMA_BUF_EXTERNAL_QUEUE_FAMILY"
    and "gp_owner g src = family" and "gp_layout g src = LAYOUT_GENERAL" and "set (gp_use g src) \<subseteq> {(stage, r)}"
  shows "exec_command family ds (Cmd_pipeline_barrier stage BOTTOM_OF_PIPE [buffer_release family r src n] []) g =
    Some (after_barrier src DMA_BUF_EXTERNAL_QUEUE_FAMILY LAYOUT_GENERAL BOTTOM_OF_PIPE {} g)"
  by (simp add: exec_buffer_release [OF assms(2,3,4,1)])

lemma staged_acquire_commands_append:
  "staged_acquire_commands family p query =
     begin_timing query @
     [Cmd_pipeline_barrier (output_source_stage (sap_output_initialized p)) COMPUTE_SHADER
        [buffer_acquire family SHADER_READ (sap_source_buffer p) (sap_source_size p)]
        (map (output_acquire (sap_output_initialized p) SHADER_WRITE LAYOUT_GENERAL)
          (staged_output_images (sap_output p)))] @
     [Cmd_bind_pipeline (sap_pipeline p),
      Cmd_bind_descriptor_set (sap_pipeline_layout p) (sap_descriptor_set p),
      Cmd_push_constants (sap_pipeline_layout p) (sap_push_constants p),
      Cmd_dispatch (fst (sap_dispatch p)) (snd (sap_dispatch p))] @
     [Cmd_pipeline_barrier COMPUTE_SHADER FRAGMENT_SHADER []
        (map (output_release SHADER_WRITE LAYOUT_GENERAL) (staged_output_images (sap_output p))),
      Cmd_pipeline_barrier COMPUTE_SHADER BOTTOM_OF_PIPE
        [buffer_release family SHADER_READ (sap_source_buffer p) (sap_source_size p)] []] @
     end_timing query 1"
  by (simp add: staged_acquire_commands_def)

lemma staged_compute_acquires:
  assumes "with_producer (sap_source_buffer p) g"
    and "\<forall>x \<in> set (staged_output_images (sap_output p)). output_ready family (sap_output_initialized p) x g"
    and distinct: "distinct (sap_source_buffer p # staged_output_images (sap_output p))"
    and ds: "ds (sap_descriptor_set p) = (sap_source_buffer p, staged_output_images (sap_output p))"
    and "family \<noteq> DMA_BUF_EXTERNAL_QUEUE_FAMILY"
  shows "\<exists>g'. exec_commands family ds (staged_acquire_commands family p query) g = Some g' \<and>
    acquired family [sap_source_buffer p] (staged_output_images (sap_output p)) query g g'"
proof -
  let ?src = "sap_source_buffer p" and ?os = "staged_output_images (sap_output p)"
  let ?bind = "\<lambda>g. g\<lparr>gp_pipeline := Some (sap_pipeline p), gp_set := Some (sap_pipeline_layout p, sap_descriptor_set p),
      gp_constants := Some (sap_pipeline_layout p)\<rparr>"
  have work: "\<exists>g'. exec_commands family ds [Cmd_bind_pipeline (sap_pipeline p),
        Cmd_bind_descriptor_set (sap_pipeline_layout p) (sap_descriptor_set p),
        Cmd_push_constants (sap_pipeline_layout p) (sap_push_constants p),
        Cmd_dispatch (fst (sap_dispatch p)) (snd (sap_dispatch p))] g = Some g' \<and>
      works ?src ?os COMPUTE_SHADER SHADER_READ SHADER_WRITE g g'"
    if "\<forall>x \<in> set ?os. gp_owner g x = family \<and> gp_layout g x = LAYOUT_GENERAL \<and> gp_ready g x = (COMPUTE_SHADER, {SHADER_WRITE})"
      and "gp_owner g ?src = family" and "gp_ready g ?src = (COMPUTE_SHADER, {SHADER_READ})" for g
  proof -
    let ?g1 = "used [?src] (COMPUTE_SHADER, SHADER_READ) (?bind g)"
    let ?g2 = "used ?os (COMPUTE_SHADER, SHADER_WRITE) ?g1"
    have "exec_use family COMPUTE_SHADER SHADER_READ ?src (?bind g) = Some ?g1"
        "exec_all (exec_image_use family COMPUTE_SHADER SHADER_WRITE LAYOUT_GENERAL) ?os ?g1 = Some ?g2"
      using that by (auto intro!: exec_use_used exec_image_uses)
    moreover have "works ?src ?os COMPUTE_SHADER SHADER_READ SHADER_WRITE g ?g2"
      by (auto simp: works_def used_use split: if_splits)
    ultimately show ?thesis using ds by simp
  qed
  show ?thesis
    unfolding staged_acquire_commands_append
  proof (rule staged_bracket [where r = SHADER_READ and src_layout = LAYOUT_GENERAL, OF assms(1,2) distinct assms(5)], goal_cases)
    case (1 g)
    then show ?case by (rule exec_buffer_opening [OF _ _ distinct])
  next
    case (2 g)
    then show ?case by (intro work)
  next
    case (3 g)
    then show ?case by (rule exec_buffer_closing [OF assms(5)])
  qed
qed

lemma copy_to_image_works:
  assumes "gp_owner g src = family" and "fst (gp_ready g src) = TRANSFER_STAGE" and "TRANSFER_READ \<in> snd (gp_ready g src)"
    and "gp_owner g x = family" and "gp_layout g x = TRANSFER_DST_OPTIMAL" and "gp_ready g x = (TRANSFER_STAGE, {TRANSFER_WRITE})"
    and "x \<in> set os"
  shows "\<exists>g'. exec_command family ds (Cmd_copy_buffer_to_image src x TRANSFER_DST_OPTIMAL regions) g = Some g' \<and>
    works src os TRANSFER_STAGE TRANSFER_READ TRANSFER_WRITE g g'"
proof -
  let ?g1 = "used [src] (TRANSFER_STAGE, TRANSFER_READ) g"
  let ?g2 = "used [x] (TRANSFER_STAGE, TRANSFER_WRITE) ?g1"
  have "exec_use family TRANSFER_STAGE TRANSFER_READ src g = Some ?g1"
      "exec_image_use family TRANSFER_STAGE TRANSFER_WRITE TRANSFER_DST_OPTIMAL x ?g1 = Some ?g2"
    using assms by (simp_all add: exec_image_use_def exec_use_used)
  moreover have "works src os TRANSFER_STAGE TRANSFER_READ TRANSFER_WRITE g ?g2"
    using assms(7) by (auto simp: works_def used_def split: if_splits)
  ultimately show ?thesis by simp
qed

lemma works_trans:
  assumes "works src os stage r w g g'" and "works src os stage r w g' g''"
  shows "works src os stage r w g g''"
proof -
  have "set (gp_use g'' y) \<subseteq> set (gp_use g y) \<union> (if y = src then {(stage, r)} else {}) \<union> (if y \<in> set os then {(stage, w)} else {})" (is "_ \<subseteq> _ \<union> ?S \<union> ?O") for y
  proof -
    have "set (gp_use g'' y) \<subseteq> set (gp_use g' y) \<union> ?S \<union> ?O" "set (gp_use g' y) \<subseteq> set (gp_use g y) \<union> ?S \<union> ?O"
      using assms unfolding works_def by blast+
    then show ?thesis by blast
  qed
  then show ?thesis using assms by (simp add: works_def)
qed

lemma staged_transfer_acquires:
  assumes "with_producer (stp_source_buffer p) g"
    and "\<forall>x \<in> set (staged_output_images (stp_output p)). output_ready family (stp_output_initialized p) x g"
    and distinct: "distinct (stp_source_buffer p # staged_output_images (stp_output p))"
    and "staged_transfer_commands family p query = Ok cs"
    and "family \<noteq> DMA_BUF_EXTERNAL_QUEUE_FAMILY"
  shows "\<exists>g'. exec_commands family ds cs g = Some g' \<and>
    acquired family [stp_source_buffer p] (staged_output_images (stp_output p)) query g g'"
proof -
  let ?src = "stp_source_buffer p" and ?os = "staged_output_images (stp_output p)"
  obtain copies where copies: "transfer_copies p = Ok copies"
      and cs: "cs = begin_timing query @
       [Cmd_pipeline_barrier (output_source_stage (stp_output_initialized p)) TRANSFER_STAGE
          [buffer_acquire family TRANSFER_READ ?src (stp_source_size p)]
          (map (output_acquire (stp_output_initialized p) TRANSFER_WRITE TRANSFER_DST_OPTIMAL) ?os)] @
       copies @
       [Cmd_pipeline_barrier TRANSFER_STAGE FRAGMENT_SHADER []
          (map (output_release TRANSFER_WRITE TRANSFER_DST_OPTIMAL) ?os),
        Cmd_pipeline_barrier TRANSFER_STAGE BOTTOM_OF_PIPE
          [buffer_release family TRANSFER_READ ?src (stp_source_size p)] []] @
       end_timing query 1"
    using assms(4) by (cases "transfer_copies p") (auto simp: staged_transfer_commands_def map_ok_def)
  have work: "\<exists>g'. exec_commands family ds copies g = Some g' \<and> works ?src ?os TRANSFER_STAGE TRANSFER_READ TRANSFER_WRITE g g'"
    if ready: "\<forall>x \<in> set ?os. gp_owner g x = family \<and> gp_layout g x = TRANSFER_DST_OPTIMAL \<and> gp_ready g x = (TRANSFER_STAGE, {TRANSFER_WRITE})"
      "gp_owner g ?src = family" "gp_ready g ?src = (TRANSFER_STAGE, {TRANSFER_READ})" for g
  proof -
    have copy: "\<exists>g'. exec_command family ds (Cmd_copy_buffer_to_image ?src x TRANSFER_DST_OPTIMAL regions) h = Some g' \<and>
        works ?src ?os TRANSFER_STAGE TRANSFER_READ TRANSFER_WRITE g g'"
      if "h = g \<or> works ?src ?os TRANSFER_STAGE TRANSFER_READ TRANSFER_WRITE g h" and "x \<in> set ?os" for h x regions
    proof -
      have "\<exists>g'. exec_command family ds (Cmd_copy_buffer_to_image ?src x TRANSFER_DST_OPTIMAL regions) h = Some g' \<and>
          works ?src ?os TRANSFER_STAGE TRANSFER_READ TRANSFER_WRITE h g'"
        using that ready by (intro copy_to_image_works) (auto simp: works_def)
      then show ?thesis using that(1) works_trans by blast
    qed
    consider img where "stp_output p = Sampled_nv12 img"
      | luma chroma where "stp_output p = Sampled_yuv_planes luma chroma"
      using copies by (cases "stp_output p") (auto simp: transfer_copies_def)
    then show ?thesis
    proof cases
      case 1
      then show ?thesis using copies copy [of g img] by (auto simp: transfer_copies_def)
    next
      case 2
      let ?r = "nv12_separate_transfer_regions p"
      obtain g1 where "exec_command family ds (Cmd_copy_buffer_to_image ?src luma TRANSFER_DST_OPTIMAL [?r ! 0]) g = Some g1"
          "works ?src ?os TRANSFER_STAGE TRANSFER_READ TRANSFER_WRITE g g1"
        using copy [of g luma] 2 by auto
      then show ?thesis using copies copy [of g1 chroma] 2 by (auto simp: transfer_copies_def Let_def)
    qed
  qed
  show ?thesis
    unfolding cs
  proof (rule staged_bracket [where r = TRANSFER_READ and src_layout = LAYOUT_GENERAL, OF assms(1,2) distinct assms(5)], goal_cases)
    case (1 g)
    then show ?case by (rule exec_buffer_opening [OF _ _ distinct])
  next
    case (2 g)
    then show ?case by (intro work)
  next
    case (3 g)
    then show ?case by (rule exec_buffer_closing [OF assms(5)])
  qed
qed

lemma copy_image_works:
  assumes "gp_owner g src = family" and "gp_layout g src = TRANSFER_SRC_OPTIMAL"
    and "gp_ready g src = (TRANSFER_STAGE, {TRANSFER_READ})" and "gp_owner g x = family"
    and "gp_layout g x = TRANSFER_DST_OPTIMAL" and "gp_ready g x = (TRANSFER_STAGE, {TRANSFER_WRITE})" and "x \<in> set os"
  shows "\<exists>g'. exec_command family ds (Cmd_copy_image src TRANSFER_SRC_OPTIMAL x TRANSFER_DST_OPTIMAL regions) g = Some g' \<and>
    works src os TRANSFER_STAGE TRANSFER_READ TRANSFER_WRITE g g'"
proof -
  let ?g1 = "used [src] (TRANSFER_STAGE, TRANSFER_READ) g"
  let ?g2 = "used [x] (TRANSFER_STAGE, TRANSFER_WRITE) ?g1"
  have "exec_image_use family TRANSFER_STAGE TRANSFER_READ TRANSFER_SRC_OPTIMAL src g = Some ?g1"
      "exec_image_use family TRANSFER_STAGE TRANSFER_WRITE TRANSFER_DST_OPTIMAL x ?g1 = Some ?g2"
    using assms by (simp_all add: exec_image_use_def exec_use_used)
  moreover have "works src os TRANSFER_STAGE TRANSFER_READ TRANSFER_WRITE g ?g2"
    using assms(7) by (auto simp: works_def used_def split: if_splits)
  ultimately show ?thesis by simp
qed

lemma exec_image_opening:
  assumes "with_producer src g" and "\<forall>x \<in> set os. output_ready family initialized x g" and "distinct (src # os)"
  shows "exec_command family ds (Cmd_pipeline_barrier (output_source_stage initialized) TRANSFER_STAGE []
      (image_source_acquire family src # map (output_acquire initialized w layout) os)) g =
    Some (barriered os family layout TRANSFER_STAGE {w}
      (after_barrier src family TRANSFER_SRC_OPTIMAL TRANSFER_STAGE {TRANSFER_READ} g))"
proof -
  have "exec_image_barrier family (output_source_stage initialized) TRANSFER_STAGE (image_source_acquire family src) g =
      Some (after_barrier src family TRANSFER_SRC_OPTIMAL TRANSFER_STAGE {TRANSFER_READ} g)"
    using assms(1) by (auto simp: exec_image_barrier_def image_source_acquire_def with_producer_def new_owner_def)
  then show ?thesis
    using exec_output_acquires [OF _ output_ready_others [OF _ assms(2)], of src] assms(3) by simp
qed

lemma exec_image_closing:
  assumes "family \<noteq> DMA_BUF_EXTERNAL_QUEUE_FAMILY" and "gp_owner g src = family"
    and "gp_layout g src = TRANSFER_SRC_OPTIMAL" and "set (gp_use g src) \<subseteq> {(TRANSFER_STAGE, TRANSFER_READ)}"
  shows "exec_command family ds
      (Cmd_pipeline_barrier TRANSFER_STAGE BOTTOM_OF_PIPE [] [image_source_release family src]) g =
    Some (after_barrier src DMA_BUF_EXTERNAL_QUEUE_FAMILY LAYOUT_GENERAL BOTTOM_OF_PIPE {} g)"
proof -
  have "list_all (covers TRANSFER_STAGE {TRANSFER_READ}) (gp_use g src)"
    using assms(4) by (auto simp: list_all_iff covers_def)
  then show ?thesis using assms by (simp add: exec_image_barrier_def image_source_release_def new_owner_def)
qed

lemma image_transfer_acquires:
  assumes "with_producer (itp_source_image p) g"
    and "\<forall>x \<in> set (staged_output_images (itp_output p)). output_ready family (itp_output_initialized p) x g"
    and distinct: "distinct (itp_source_image p # staged_output_images (itp_output p))"
    and "image_transfer_commands family p query = Ok cs"
    and "family \<noteq> DMA_BUF_EXTERNAL_QUEUE_FAMILY"
  shows "\<exists>g'. exec_commands family ds cs g = Some g' \<and>
    acquired family [itp_source_image p] (staged_output_images (itp_output p)) query g g'"
proof -
  let ?src = "itp_source_image p" and ?os = "staged_output_images (itp_output p)"
  obtain width height where dims: "itp_dimensions p = (width, height)" by fastforce
  obtain luma chroma where planes: "itp_output p = Sampled_yuv_planes luma chroma"
    using assms(4) by (cases "itp_output p") (auto simp: image_transfer_commands_def)
  let ?copies = "[Cmd_copy_image ?src TRANSFER_SRC_OPTIMAL luma TRANSFER_DST_OPTIMAL [image_copy_region ASPECT_PLANE_0 width height],
      Cmd_copy_image ?src TRANSFER_SRC_OPTIMAL chroma TRANSFER_DST_OPTIMAL
        [image_copy_region ASPECT_PLANE_1 (width div 2) (height div 2)]]"
  have cs: "cs = begin_timing query @
      [Cmd_pipeline_barrier (output_source_stage (itp_output_initialized p)) TRANSFER_STAGE []
        (image_source_acquire family ?src #
         map (output_acquire (itp_output_initialized p) TRANSFER_WRITE TRANSFER_DST_OPTIMAL) ?os)] @
      ?copies @
      [Cmd_pipeline_barrier TRANSFER_STAGE FRAGMENT_SHADER [] (map (output_release TRANSFER_WRITE TRANSFER_DST_OPTIMAL) ?os),
       Cmd_pipeline_barrier TRANSFER_STAGE BOTTOM_OF_PIPE [] [image_source_release family ?src]] @
      end_timing query 1"
    using assms(4) by (simp add: image_transfer_commands_def planes dims Let_def)
  show ?thesis
    unfolding cs
  proof (rule staged_bracket [where r = TRANSFER_READ and src_layout = TRANSFER_SRC_OPTIMAL, OF assms(1,2) distinct assms(5)],
      goal_cases)
    case (1 g)
    then show ?case by (rule exec_image_opening [OF _ _ distinct])
  next
    case (2 g)
    obtain g1 where g1: "exec_command family ds (?copies ! 0) g = Some g1"
        "works ?src ?os TRANSFER_STAGE TRANSFER_READ TRANSFER_WRITE g g1"
      using copy_image_works [of g ?src family luma ?os ds] 2 planes by auto
    obtain g2 where "exec_command family ds (?copies ! 1) g1 = Some g2"
        "works ?src ?os TRANSFER_STAGE TRANSFER_READ TRANSFER_WRITE g1 g2"
      using copy_image_works [of g1 ?src family chroma ?os ds] 2 g1(2) planes by (auto simp: works_def)
    then show ?case using g1 works_trans by auto
  next
    case (3 g)
    then show ?case by (rule exec_image_closing [OF assms(5)])
  qed
qed

section \<open>The whole cycle\<close>

lemma exec_direct_acquire:
  assumes "with_producer x g" and "family \<noteq> DMA_BUF_EXTERNAL_QUEUE_FAMILY"
  shows "exec_commands family ds (direct_acquire_commands family x) g =
    Some (after_barrier x family SHADER_READ_ONLY_OPTIMAL FRAGMENT_SHADER {SHADER_READ} g)"
  using assms
  by (simp add: direct_acquire_commands_def exec_image_barrier_def with_producer_def new_owner_def)

lemma exec_direct_release:
  assumes "readable family x g" and "family \<noteq> DMA_BUF_EXTERNAL_QUEUE_FAMILY"
  shows "exec_commands family ds (direct_release_commands family x) g =
    Some (after_barrier x DMA_BUF_EXTERNAL_QUEUE_FAMILY LAYOUT_GENERAL BOTTOM_OF_PIPE {} g)"
proof -
  have "list_all (covers ALL_COMMANDS {MEMORY_READ}) (gp_use g x)"
    using assms(1) by (auto simp: readable_def list_all_iff covers_def is_read_def)
  then show ?thesis
    using assms by (simp add: direct_release_commands_def exec_image_barrier_def readable_def new_owner_def)
qed

lemma renderer_samples_readable:
  assumes "\<forall>x \<in> set xs. readable family x g"
  shows "renderer_samples family xs g = Some (used xs (FRAGMENT_SHADER, SHADER_READ) g)"
  using assms unfolding renderer_samples_def by (intro exec_image_uses) (simp add: readable_def)

lemma readable_used:
  "readable family x g \<Longrightarrow> readable family x (used xs (FRAGMENT_SHADER, SHADER_READ) g)"
  by (auto simp: readable_def used_use)

text \<open>The match of \<open>submit_release\<close>: a staged import only marks the end of the renderer's work.\<close>

definition release_commands :: "u32 \<Rightarrow> acquire_work \<Rightarrow> vk_object option \<Rightarrow> vk_command list" where
  "release_commands family plan query =
     (case plan of Plan_direct_image x \<Rightarrow> direct_release_commands family x | _ \<Rightarrow> staged_release_commands query)"

fun plan_direct :: "acquire_work \<Rightarrow> bool" where
  "plan_direct (Plan_direct_image x) \<longleftrightarrow> True"
| "plan_direct p \<longleftrightarrow> False"

text \<open>The descriptor set of a compute plan points at the plan's source and outputs.\<close>

fun descriptors_match :: "descriptors \<Rightarrow> acquire_work \<Rightarrow> bool" where
  "descriptors_match ds (Plan_staged_compute p) \<longleftrightarrow>
     ds (sap_descriptor_set p) = (sap_source_buffer p, staged_output_images (sap_output p))"
| "descriptors_match ds p \<longleftrightarrow> True"

lemma plan_acquires:
  assumes "acquire_commands family plan query = Ok cs" and "plan_ready family (plan_initialized plan) plan g"
    and "distinct (plan_sources plan @ plan_outputs plan)" and "descriptors_match ds plan"
    and "family \<noteq> DMA_BUF_EXTERNAL_QUEUE_FAMILY" and "\<not> plan_direct plan"
  shows "\<exists>g'. exec_commands family ds cs g = Some g' \<and>
    acquired family (plan_sources plan) (plan_outputs plan) query g g'"
proof (cases plan)
  case (Plan_staged_compute p)
  then show ?thesis
    using assms staged_compute_acquires [of p g family ds query]
    by (simp add: acquire_commands_def plan_ready_def list_all_iff)
next
  case (Plan_staged_transfer p)
  then show ?thesis
    using assms staged_transfer_acquires [of p g family query cs ds]
    by (simp add: acquire_commands_def plan_ready_def list_all_iff)
next
  case (Plan_image_transfer p)
  then show ?thesis
    using assms image_transfer_acquires [of p g family query cs ds]
    by (simp add: acquire_commands_def plan_ready_def list_all_iff)
qed (use assms in simp)

lemma staged_release_runs:
  assumes "\<not> plan_direct plan" and "set_option query \<times> {2} \<subseteq> gp_queries g"
  shows "\<exists>g'. exec_commands family ds (release_commands family plan query) g = Some g' \<and> others_kept {} g g'"
proof -
  have "\<forall>pool. query = Some pool \<longrightarrow> (pool, 2) \<in> gp_queries g" using assms(2) by auto
  from exec_end_timing [OF this, of family ds] show ?thesis
    using assms(1) by (cases plan) (simp_all add: release_commands_def staged_release_commands_def others_kept_def)
qed

end
