(* ===== verification/Sync_Lane.thy ===== *)
theory Sync_Lane
  imports Sync_Commands
begin

text \<open>
  \<open>ImportedImageSync\<close> of \<open>vulkan/sync.rs\<close>: the lane that acquires an imported image for the renderer and
  gives it back, over a queue whose submissions finish in order and at any time. A device records the
  submissions that are pending; using a child of a pending one is a misuse.
\<close>

section \<open>The device and its queue\<close>

text \<open>
  A submission has what Vulkan forbids to destroy, reset or record again while it is pending, its
  commands and its fence. \<open>sd_misused\<close> is set by any such use.
\<close>

record submission =
  sub_uses :: "vk_object set"
  sub_commands :: "vk_command list"
  sub_fence :: vk_object

datatype timing_report = Report_ready | Report_unsupported | Report_failed

record sync_device =
  sd_vk :: vk_state
  sd_recorded :: "vk_object \<Rightarrow> vk_command list"
  sd_pending :: "submission list"
  sd_done :: "submission list"
  sd_signaled :: "vk_object set"
  sd_misused :: bool
  sd_lost :: bool
  sd_samples :: nat
  sd_reports :: "timing_report list"

text \<open>
  What the context and the driver answer: the failures of calls and empty lists (\<open>sy_driver\<close>), whether a
  submission that reports a lost device was consumed all the same, the queue family and its timestamp
  bits (\<open>None\<close> out of range), whether the timestamp period is finite and positive, the conversion of
  ticks with it, the policy on timing, the values of queries.
\<close>

record sync_env =
  sy_driver :: vk_driver
  sy_lost_consumes :: "nat \<Rightarrow> bool"
  sy_family :: u32
  sy_valid_bits :: "u32 option"
  sy_period_usable :: bool
  sy_to_ns :: "u64 \<Rightarrow> u64"
  sy_timing_enabled :: bool
  sy_sample_timing :: "nat \<Rightarrow> bool"
  sy_query_values :: "nat \<Rightarrow> u64 \<times> u64 \<times> u64"

definition in_use :: "sync_device \<Rightarrow> vk_object set" where
  "in_use d = \<Union> (sub_uses ` set (sd_pending d))"

definition on_sync :: "(vk_state \<Rightarrow> 'r \<times> vk_state) \<Rightarrow> sync_device \<Rightarrow> 'r \<times> sync_device" where
  "on_sync m d = (case m (sd_vk d) of (r, s) \<Rightarrow> (r, d\<lparr>sd_vk := s\<rparr>))"

definition touch :: "vk_object \<Rightarrow> sync_device \<Rightarrow> sync_device" where
  "touch x d = d\<lparr>sd_misused := sd_misused d \<or> x \<in> in_use d\<rparr>"

definition sync_destroy :: "vk_object \<Rightarrow> sync_device \<Rightarrow> sync_device" where
  "sync_destroy x d = touch x (d\<lparr>sd_vk := vk_destroy x (sd_vk d)\<rparr>)"

definition mark_lost :: "sync_device \<Rightarrow> sync_device" where
  "mark_lost d = d\<lparr>sd_lost := True\<rparr>"

definition report_timing :: "timing_report \<Rightarrow> sync_device \<Rightarrow> sync_device" where
  "report_timing r d = d\<lparr>sd_reports := sd_reports d @ [r]\<rparr>"

text \<open>\<open>reset_fences\<close> of one fence, \<open>reset_command_pool\<close>, \<open>get_fence_status\<close>.\<close>

definition reset_fence :: "sync_env \<Rightarrow> vk_object \<Rightarrow> sync_device \<Rightarrow> (vk_result + unit) \<times> sync_device" where
  "reset_fence env fence =
     io_bind (on_sync (vk_call (sy_driver env)))
       (\<lambda>_ d. (Ok (), touch fence (d\<lparr>sd_signaled := sd_signaled d - {fence}\<rparr>)))"

definition reset_command_pool :: "sync_env \<Rightarrow> vk_object \<Rightarrow> sync_device \<Rightarrow> (vk_result + unit) \<times> sync_device" where
  "reset_command_pool env pool d = on_sync (vk_call (sy_driver env)) (touch pool d)"

definition fence_status :: "sync_env \<Rightarrow> vk_object \<Rightarrow> sync_device \<Rightarrow> (vk_result + bool) \<times> sync_device" where
  "fence_status env fence =
     io_bind (on_sync (vk_call (sy_driver env))) (\<lambda>_ d. (Ok (fence \<in> sd_signaled d), d))"

text \<open>
  \<open>submit_video_queue\<close>: on success the submission is pending. A failure leaves the queue as it was,
  except that a lost device may have consumed the submission.
\<close>

definition submit_video_queue :: "sync_env \<Rightarrow> submission \<Rightarrow> sync_device \<Rightarrow> (vk_result + unit) \<times> sync_device" where
  "submit_video_queue env sub d =
     (let consumed = (\<lambda>d. d\<lparr>sd_pending := sd_pending d @ [sub]\<rparr>) in
      case on_sync (vk_call (sy_driver env)) (touch (sub_fence sub) d) of
        (Inr _, d') \<Rightarrow> (Ok (), consumed d')
      | (Inl ERROR_DEVICE_LOST, d') \<Rightarrow>
          (Err ERROR_DEVICE_LOST, if sy_lost_consumes env (vs_calls (sd_vk d')) then consumed d' else d')
      | (Inl e, d') \<Rightarrow> (Err e, d'))"

text \<open>The queue finishes its oldest submission.\<close>

definition finish_submission :: "sync_device \<Rightarrow> sync_device" where
  "finish_submission d =
     (case sd_pending d of
        [] \<Rightarrow> d
      | sub # subs \<Rightarrow> d\<lparr>sd_pending := subs, sd_done := sd_done d @ [sub],
                        sd_signaled := insert (sub_fence sub) (sd_signaled d)\<rparr>)"

section \<open>Errors and the lane\<close>

datatype sync_error_kind =
    TemporarySemaphoreImport | AcquireSubmit | ReleaseSubmit | ReleaseFenceCreate
  | SourceFencePoll | ReleaseFencePoll | Kind_other

record sync_error =
  se_kind :: sync_error_kind
  se_device_lost :: bool

definition sync_error_new :: "sync_error_kind \<Rightarrow> sync_error" where
  "sync_error_new kind = \<lparr>se_kind = kind, se_device_lost = False\<rparr>"

definition sync_error_lost :: "sync_error_kind \<Rightarrow> sync_error" where
  "sync_error_lost kind = \<lparr>se_kind = kind, se_device_lost = True\<rparr>"

record video_timing =
  vt_conversion_ns :: u64
  vt_composition_ns :: u64
  vt_total_gpu_ns :: u64

record timestamp_query =
  tq_pool :: vk_object
  tq_valid_bits :: u32

record image_sync =
  is_acquire_pool :: vk_object
  is_acquire_command :: vk_object
  is_release_pool :: vk_object
  is_release_command :: vk_object
  is_acquire_fence :: vk_object
  is_release_fence :: vk_object
  is_imported_acquire :: "vk_object option"
  is_ready_semaphore :: "vk_object option"
  is_import_id :: "u64 option"
  is_staged_import :: bool
  is_acquire_submitted :: bool
  is_renderer_accepted :: bool
  is_renderer_rejected :: bool
  is_release_submitted :: bool
  is_timestamp_query :: "timestamp_query option"
  is_timing_active :: bool
  is_timing_collected :: bool
  is_timing :: "video_timing option"

section \<open>Creation\<close>

definition create_command_pool :: "sync_env \<Rightarrow> sync_device \<Rightarrow> (vk_result + vk_object) \<times> sync_device" where
  "create_command_pool env = on_sync (vk_create (sy_driver env) Command_pool Plain)"

text \<open>A command buffer belongs to its pool and is not destroyed by itself.\<close>

definition allocate_command :: "sync_env \<Rightarrow> sync_device \<Rightarrow> (vk_result option + vk_object) \<times> sync_device" where
  "allocate_command env d =
     (case on_sync (vk_call (sy_driver env)) d of
        (Inl e, d') \<Rightarrow> (Err (Some e), d')
      | (Inr _, d') \<Rightarrow>
          if dr_empty (sy_driver env) (vs_calls (sd_vk d)) then (Err None, d')
          else (Ok (Command_buffer (vs_next (sd_vk d'))),
                d'\<lparr>sd_vk := (sd_vk d')\<lparr>vs_next := vs_next (sd_vk d') + 1\<rparr>\<rparr>))"

definition create_fence :: "sync_env \<Rightarrow> sync_device \<Rightarrow> (vk_result + vk_object) \<times> sync_device" where
  "create_fence env = on_sync (vk_create (sy_driver env) Fence Plain)"

definition create_semaphore :: "sync_env \<Rightarrow> sync_device \<Rightarrow> (vk_result + vk_object) \<times> sync_device" where
  "create_semaphore env = on_sync (vk_create (sy_driver env) Semaphore Plain)"

definition create_timestamp_query ::
  "sync_env \<Rightarrow> sync_device \<Rightarrow> (sync_error + timestamp_query option) \<times> sync_device" where
  "create_timestamp_query env d =
     (let valid_bits = (case sy_valid_bits env of Some bits \<Rightarrow> bits | None \<Rightarrow> 0) in
      if valid_bits = 0 \<or> 64 < valid_bits \<or> \<not> sy_period_usable env
      then (Ok None, report_timing Report_unsupported d)
      else case on_sync (vk_create (sy_driver env) Query_pool Plain) d of
        (Inr pool, d') \<Rightarrow>
          (Ok (Some \<lparr>tq_pool = pool, tq_valid_bits = valid_bits\<rparr>), report_timing Report_ready d')
      | (Inl e, d') \<Rightarrow>
          if e \<in> {ERROR_OUT_OF_HOST_MEMORY, ERROR_OUT_OF_DEVICE_MEMORY}
          then (Ok None, report_timing Report_failed d')
          else if e = ERROR_DEVICE_LOST then (Err (sync_error_lost Kind_other), mark_lost d')
          else (Err (sync_error_new Kind_other), d'))"

definition new_lane ::
  "vk_object \<Rightarrow> vk_object \<Rightarrow> vk_object \<Rightarrow> vk_object \<Rightarrow> vk_object \<Rightarrow> vk_object \<Rightarrow>
   timestamp_query option \<Rightarrow> image_sync" where
  "new_lane acquire_pool acquire_command release_pool release_command acquire_fence release_fence query =
     \<lparr>is_acquire_pool = acquire_pool, is_acquire_command = acquire_command,
      is_release_pool = release_pool, is_release_command = release_command,
      is_acquire_fence = acquire_fence, is_release_fence = release_fence,
      is_imported_acquire = None, is_ready_semaphore = None, is_import_id = None,
      is_staged_import = False, is_acquire_submitted = False, is_renderer_accepted = False,
      is_renderer_rejected = False, is_release_submitted = False, is_timestamp_query = query,
      is_timing_active = False, is_timing_collected = False, is_timing = None\<rparr>"

text \<open>The closure of \<open>new\<close>: each step undoes what the closure made before it; the pools are the caller's.\<close>

definition create_query ::
  "sync_env \<Rightarrow> (timestamp_query option \<Rightarrow> image_sync) \<Rightarrow> vk_object \<Rightarrow> vk_object \<Rightarrow> sync_device \<Rightarrow>
   (sync_error + image_sync) \<times> sync_device" where
  "create_query env lane_of acquire_fence release_fence =
     io_bind (io_cleanup (\<lambda>d. sync_destroy acquire_fence (sync_destroy release_fence d))
         (if sy_timing_enabled env then create_timestamp_query env else io_return None))
       (\<lambda>query. io_return (lane_of query))"

definition create_fences ::
  "sync_env \<Rightarrow> (vk_object \<Rightarrow> vk_object \<Rightarrow> timestamp_query option \<Rightarrow> image_sync) \<Rightarrow> sync_device \<Rightarrow>
   (sync_error + image_sync) \<times> sync_device" where
  "create_fences env lane_of =
     io_bind (io_map_err (\<lambda>_. sync_error_new ReleaseFenceCreate) (create_fence env))
       (\<lambda>acquire_fence. io_bind (io_cleanup (sync_destroy acquire_fence)
           (io_map_err (\<lambda>_. sync_error_new ReleaseFenceCreate) (create_fence env)))
       (\<lambda>release_fence. create_query env (lane_of acquire_fence release_fence) acquire_fence release_fence))"

definition image_sync_new :: "sync_env \<Rightarrow> sync_device \<Rightarrow> (sync_error + image_sync) \<times> sync_device" where
  "image_sync_new env =
     io_bind (io_map_err (\<lambda>_. sync_error_new Kind_other) (create_command_pool env))
       (\<lambda>acquire_pool. io_bind (io_cleanup (sync_destroy acquire_pool)
           (io_map_err (\<lambda>_. sync_error_new Kind_other) (create_command_pool env)))
       (\<lambda>release_pool. io_cleanup (\<lambda>d. sync_destroy acquire_pool (sync_destroy release_pool d))
         (io_bind (io_map_err (\<lambda>_. sync_error_new Kind_other) (allocate_command env))
         (\<lambda>acquire_command. io_bind (io_map_err (\<lambda>_. sync_error_new Kind_other) (allocate_command env))
         (\<lambda>release_command. create_fences env
           (new_lane acquire_pool acquire_command release_pool release_command))))))"

section \<open>Acquiring\<close>

datatype temporary_error =
    Invalid_sync_fd | Create_import_semaphore_failed vk_result | Duplicate_sync_fd_failed resource_error
  | Import_sync_fd_failed vk_result

text \<open>
  The new payload takes the duplicate over; a failed import leaves it to be closed. A reused semaphore
  must not be pending.
\<close>

definition import_semaphore_fd ::
  "sync_env \<Rightarrow> vk_object \<Rightarrow> vk_object \<Rightarrow> sync_device \<Rightarrow> (vk_result + unit) \<times> sync_device" where
  "import_semaphore_fd env semaphore fd d =
     (case on_sync (vk_call (sy_driver env)) (touch semaphore d) of
        (Inl e, d') \<Rightarrow> (Err e, d')
      | (Inr _, d') \<Rightarrow> (Ok (), d'\<lparr>sd_vk := vk_destroy fd (sd_vk d')\<rparr>))"

definition import_temporary_sync_fd ::
  "sync_env \<Rightarrow> i32 \<Rightarrow> vk_object option \<Rightarrow> sync_device \<Rightarrow> (temporary_error + vk_object) \<times> sync_device" where
  "import_temporary_sync_fd env source_fd reusable d =
     (if is_negative source_fd then (Err Invalid_sync_fd, d)
      else io_bind (case reusable of
            Some semaphore \<Rightarrow> io_return (semaphore, False)
          | None \<Rightarrow> io_bind (io_map_err Create_import_semaphore_failed (create_semaphore env))
              (\<lambda>semaphore. io_return (semaphore, True)))
        (\<lambda>(semaphore, created).
          let undo = (\<lambda>d. if created then sync_destroy semaphore d else d) in
          io_bind (io_cleanup undo
              (io_map_err Duplicate_sync_fd_failed (on_sync (duplicate_import_fd (sy_driver env)))))
          (\<lambda>fd. io_bind (io_cleanup (\<lambda>d. undo (d\<lparr>sd_vk := vk_destroy fd (sd_vk d)\<rparr>))
              (io_map_err Import_sync_fd_failed (import_semaphore_fd env semaphore fd)))
          (\<lambda>_. io_return semaphore))) d)"

definition active_timestamp_query :: "image_sync \<Rightarrow> vk_object option" where
  "active_timestamp_query lane =
     (if is_timing_active lane then map_option tq_pool (is_timestamp_query lane) else None)"

text \<open>A recorder after its pool was reset: begin, the commands, end.\<close>

definition record_commands ::
  "sync_env \<Rightarrow> vk_object \<Rightarrow> vk_command list \<Rightarrow> sync_device \<Rightarrow> (record_error + unit) \<times> sync_device" where
  "record_commands env command commands =
     io_bind (io_map_err Begin_failed (on_sync (vk_call (sy_driver env))))
       (\<lambda>_ d. io_map_err End_failed (on_sync (vk_call (sy_driver env)))
         (d\<lparr>sd_recorded := (sd_recorded d)(command := commands)\<rparr>))"

text \<open>\<open>record_acquire\<close>; the policy is asked once for each staged acquire of a lane that can time.\<close>

definition choose_timing :: "sync_env \<Rightarrow> acquire_work \<Rightarrow> image_sync \<Rightarrow> sync_device \<Rightarrow> bool \<times> sync_device" where
  "choose_timing env plan lane d =
     (if (\<exists>img. plan = Plan_direct_image img) \<or> is_timestamp_query lane = None then (False, d)
      else (sy_sample_timing env (sd_samples d), d\<lparr>sd_samples := sd_samples d + 1\<rparr>))"

definition record_acquire ::
  "sync_env \<Rightarrow> acquire_work \<Rightarrow> image_sync \<Rightarrow> sync_device \<Rightarrow> (record_error + unit) \<times> image_sync \<times> sync_device" where
  "record_acquire env plan lane d =
     (case choose_timing env plan lane d of
        (timed, d1) \<Rightarrow>
          (let lane' = lane\<lparr>is_timing_active := timed\<rparr> in
           (case reset_command_pool env (is_acquire_pool lane) d1 of
              (Inl e, d2) \<Rightarrow> (Err (Reset_acquire_pool_failed e), lane', d2)
            | (Inr _, d2) \<Rightarrow>
                (case acquire_commands (sy_family env) plan (active_timestamp_query lane') of
                   Inl e \<Rightarrow> (Err e, lane', d2)
                 | Inr commands \<Rightarrow>
                     (case record_commands env (is_acquire_command lane) commands d2 of
                        (result, d3) \<Rightarrow> (result, lane', d3))))))"

text \<open>What a submission of the lane uses.\<close>

definition acquire_submission :: "image_sync \<Rightarrow> vk_object option \<Rightarrow> vk_object \<Rightarrow> sync_device \<Rightarrow> submission" where
  "acquire_submission lane wait ready d =
     \<lparr>sub_uses = {is_acquire_pool lane, is_acquire_fence lane, ready} \<union> set_option wait \<union>
        set_option (active_timestamp_query lane),
      sub_commands = sd_recorded d (is_acquire_command lane), sub_fence = is_acquire_fence lane\<rparr>"

definition release_submission :: "image_sync \<Rightarrow> sync_device \<Rightarrow> submission" where
  "release_submission lane d =
     \<lparr>sub_uses = {is_release_pool lane, is_release_fence lane} \<union> set_option (active_timestamp_query lane),
      sub_commands = sd_recorded d (is_release_command lane), sub_fence = is_release_fence lane\<rparr>"

text \<open>
  \<open>submit_acquire\<close> of an image with its number, kind and plan. The image is told of a submission by the
  caller below. A lost device keeps everything with the lane.
\<close>

definition acquired_lane :: "u64 \<Rightarrow> bool \<Rightarrow> vk_object \<Rightarrow> image_sync \<Rightarrow> image_sync" where
  "acquired_lane import_id staged ready lane =
     lane\<lparr>is_import_id := Some import_id, is_staged_import := staged, is_acquire_submitted := True,
          is_ready_semaphore := Some ready\<rparr>"

definition submit_ready ::
  "sync_env \<Rightarrow> u64 \<Rightarrow> bool \<Rightarrow> acquire_work \<Rightarrow> vk_object option \<Rightarrow> vk_object \<Rightarrow> image_sync \<Rightarrow> sync_device \<Rightarrow>
   (sync_error + vk_object) \<times> image_sync \<times> sync_device" where
  "submit_ready env import_id staged plan wait ready lane d =
     (case reset_fence env (is_acquire_fence lane) d of
        (Inl e, d1) \<Rightarrow> (Err (sync_error_new AcquireSubmit), lane, sync_destroy ready d1)
      | (Inr _, d1) \<Rightarrow>
      (case record_acquire env plan lane d1 of
        (Inl e, lane', d2) \<Rightarrow> (Err (sync_error_new Kind_other), lane', sync_destroy ready d2)
      | (Inr _, lane', d2) \<Rightarrow>
      (case submit_video_queue env (acquire_submission lane' wait ready d2) d2 of
        (Inr _, d3) \<Rightarrow> (Ok ready, acquired_lane import_id staged ready lane', d3)
      | (Inl ERROR_DEVICE_LOST, d3) \<Rightarrow>
          (Err (sync_error_lost AcquireSubmit), acquired_lane import_id staged ready lane', mark_lost d3)
      | (Inl e, d3) \<Rightarrow> (Err (sync_error_new AcquireSubmit), lane', sync_destroy ready d3))))"

definition submit_acquire ::
  "sync_env \<Rightarrow> u64 \<Rightarrow> bool \<Rightarrow> acquire_work \<Rightarrow> i32 option \<Rightarrow> image_sync \<Rightarrow> sync_device \<Rightarrow>
   (sync_error + vk_object) \<times> image_sync \<times> sync_device" where
  "submit_acquire env import_id staged plan sync_fd lane d =
     (if is_acquire_submitted lane \<or> is_release_submitted lane then (Err (sync_error_new Kind_other), lane, d)
      else case (case sync_fd of
          None \<Rightarrow> (Ok None, d)
        | Some fd \<Rightarrow> io_bind (import_temporary_sync_fd env fd (is_imported_acquire lane))
            (\<lambda>semaphore. io_return (Some semaphore)) d) of
        (Inl e, d1) \<Rightarrow> (Err (sync_error_new TemporarySemaphoreImport), lane, d1)
      | (Inr wait, d1) \<Rightarrow>
      (let lane1 = (case wait of None \<Rightarrow> lane | Some s \<Rightarrow> lane\<lparr>is_imported_acquire := Some s\<rparr>) in
      (case create_semaphore env d1 of
        (Inl e, d2) \<Rightarrow> (Err (sync_error_new Kind_other), lane1, d2)
      | (Inr ready, d2) \<Rightarrow> submit_ready env import_id staged plan wait ready lane1 d2)))"

text \<open>
  The acquire of an image of an importer. An image without a plan would reach an \<open>unreachable!\<close> of the
  source, and is not submitted here.
\<close>

definition submit_image ::
  "sync_env \<Rightarrow> imported_image \<Rightarrow> i32 option \<Rightarrow> importer \<Rightarrow> image_sync \<Rightarrow> sync_device \<Rightarrow>
   ((sync_error + vk_object) \<times> importer \<times> image_sync \<times> sync_device) option" where
  "submit_image env img sync_fd im lane d =
     (case acquire_plan img im of
        None \<Rightarrow> None
      | Some plan \<Rightarrow>
          (case submit_acquire env (ii_id img) (is_staged img) plan sync_fd lane d of
             (Inr ready, lane', d') \<Rightarrow> Some (Ok ready, mark_acquire_submitted img im, lane', d')
           | (Inl e, lane', d') \<Rightarrow> Some (Err e, im, lane', d')))"

section \<open>The renderer's answer and the source\<close>

definition source_release_complete ::
  "sync_env \<Rightarrow> image_sync \<Rightarrow> sync_device \<Rightarrow> (sync_error + bool) \<times> sync_device" where
  "source_release_complete env lane d =
     (if \<not> is_acquire_submitted lane then (Err (sync_error_new SourceFencePoll), d)
      else if \<not> is_staged_import lane then (Ok False, d)
      else case fence_status env (is_acquire_fence lane) d of
        (Inr signaled, d') \<Rightarrow> (Ok signaled, d')
      | (Inl ERROR_DEVICE_LOST, d') \<Rightarrow> (Err (sync_error_lost SourceFencePoll), mark_lost d')
      | (Inl e, d') \<Rightarrow> (Err (sync_error_new SourceFencePoll), d'))"

definition ganesh_wait_accepted :: "vk_object \<Rightarrow> image_sync \<Rightarrow> (unit + unit) \<times> image_sync" where
  "ganesh_wait_accepted semaphore lane =
     (if is_ready_semaphore lane \<noteq> Some semaphore then (Err (), lane)
      else (Ok (), lane\<lparr>is_ready_semaphore := None, is_renderer_accepted := True\<rparr>))"

definition ganesh_wait_rejected :: "vk_object \<Rightarrow> image_sync \<Rightarrow> (unit + unit) \<times> image_sync" where
  "ganesh_wait_rejected semaphore lane =
     (if is_ready_semaphore lane \<noteq> Some semaphore then (Err (), lane)
      else (Ok (), lane\<lparr>is_renderer_rejected := True\<rparr>))"


section \<open>Releasing\<close>

definition submit_release ::
  "sync_env \<Rightarrow> u64 \<Rightarrow> bool \<Rightarrow> vk_object \<Rightarrow> image_sync \<Rightarrow> sync_device \<Rightarrow>
   (sync_error + unit) \<times> image_sync \<times> sync_device" where
  "submit_release env import_id staged img lane d =
     (let fail = (\<lambda>d. (Err (sync_error_new ReleaseSubmit), lane, d)) in
      if is_release_submitted lane then fail d
      else if \<not> is_acquire_submitted lane \<or> (\<not> is_renderer_accepted lane \<and> \<not> is_renderer_rejected lane) then fail d
      else if is_import_id lane \<noteq> Some import_id then fail d
      else case reset_fence env (is_release_fence lane) d of
        (Inl e, d1) \<Rightarrow> fail d1
      | (Inr _, d1) \<Rightarrow>
      (case reset_command_pool env (is_release_pool lane) d1 of
        (Inl e, d2) \<Rightarrow> fail d2
      | (Inr _, d2) \<Rightarrow>
      (case record_commands env (is_release_command lane)
          (if staged then staged_release_commands (active_timestamp_query lane)
           else direct_release_commands (sy_family env) img) d2 of
        (Inl e, d3) \<Rightarrow> fail d3
      | (Inr _, d3) \<Rightarrow>
      (case submit_video_queue env (release_submission lane d3) d3 of
        (Inr _, d4) \<Rightarrow> (Ok (), lane\<lparr>is_release_submitted := True\<rparr>, d4)
      | (Inl ERROR_DEVICE_LOST, d4) \<Rightarrow> (Err (sync_error_lost ReleaseSubmit), lane, mark_lost d4)
      | (Inl e, d4) \<Rightarrow> fail d4))))"

text \<open>\<open>timestamp_delta\<close>: the counter has \<open>valid_bits\<close> bits.\<close>

definition timestamp_delta :: "u64 \<Rightarrow> u64 \<Rightarrow> u32 \<Rightarrow> u64" where
  "timestamp_delta start stop valid_bits =
     (if 64 \<le> valid_bits then stop - start
      else (stop - start) AND (push_bit (unat valid_bits) 1 - 1))"

definition timing_sample :: "sync_env \<Rightarrow> u32 \<Rightarrow> u64 \<times> u64 \<times> u64 \<Rightarrow> video_timing" where
  "timing_sample env valid_bits values =
     (case values of (v0, v1, v2) \<Rightarrow>
        let to_ns = (\<lambda>start stop. sy_to_ns env (timestamp_delta start stop valid_bits)) in
        \<lparr>vt_conversion_ns = to_ns v0 v1, vt_composition_ns = to_ns v1 v2, vt_total_gpu_ns = to_ns v0 v2\<rparr>)"

definition collect_timing ::
  "sync_env \<Rightarrow> image_sync \<Rightarrow> sync_device \<Rightarrow> (sync_error + unit) \<times> image_sync \<times> sync_device" where
  "collect_timing env lane d =
     (if \<not> is_timing_active lane \<or> is_timing_collected lane then (Ok (), lane, d)
      else let lane' = lane\<lparr>is_timing_collected := True\<rparr> in
      case is_timestamp_query lane of
        None \<Rightarrow> (Ok (), lane', d)
      | Some query \<Rightarrow>
          (case on_sync (vk_call (sy_driver env)) d of
             (Inr _, d') \<Rightarrow>
               (Ok (), lane'\<lparr>is_timing := Some (timing_sample env (tq_valid_bits query)
                  (sy_query_values env (vs_calls (sd_vk d))))\<rparr>, d')
           | (Inl e, d') \<Rightarrow>
               if e \<in> {VK_NOT_READY, ERROR_OUT_OF_HOST_MEMORY, ERROR_OUT_OF_DEVICE_MEMORY}
               then (Ok (), lane', report_timing Report_failed d')
               else if e = ERROR_DEVICE_LOST then (Err (sync_error_lost ReleaseFencePoll), lane', mark_lost d')
               else (Err (sync_error_new ReleaseFencePoll), lane', d')))"

definition release_complete ::
  "sync_env \<Rightarrow> image_sync \<Rightarrow> sync_device \<Rightarrow> (sync_error + bool) \<times> image_sync \<times> sync_device" where
  "release_complete env lane d =
     (if \<not> is_release_submitted lane then (Ok False, lane, d)
      else case fence_status env (is_release_fence lane) d of
        (Inr True, d') \<Rightarrow>
          (case collect_timing env lane d' of
             (Inl e, lane', d'') \<Rightarrow> (Err e, lane', d'') | (Inr _, lane', d'') \<Rightarrow> (Ok True, lane', d''))
      | (Inr False, d') \<Rightarrow> (Ok False, lane, d')
      | (Inl ERROR_DEVICE_LOST, d') \<Rightarrow> (Err (sync_error_lost ReleaseFencePoll), lane, mark_lost d')
      | (Inl e, d') \<Rightarrow> (Err (sync_error_new ReleaseFencePoll), lane, d'))"

definition take_timing :: "image_sync \<Rightarrow> video_timing option \<times> image_sync" where
  "take_timing lane = (is_timing lane, lane\<lparr>is_timing := None\<rparr>)"

section \<open>Reuse and drop\<close>

datatype reuse_error = Not_released | Idle_unproven vk_result | Not_complete | Ready_unaccepted

definition fresh_lane :: "image_sync \<Rightarrow> image_sync" where
  "fresh_lane lane =
     lane\<lparr>is_import_id := None, is_staged_import := False, is_acquire_submitted := False,
          is_renderer_accepted := False, is_renderer_rejected := False, is_release_submitted := False,
          is_timing_active := False, is_timing_collected := False, is_timing := None\<rparr>"

definition reset_for_reuse ::
  "sync_env \<Rightarrow> image_sync \<Rightarrow> sync_device \<Rightarrow> (reuse_error + unit) \<times> image_sync \<times> sync_device" where
  "reset_for_reuse env lane d =
     (if \<not> is_release_submitted lane then (Err Not_released, lane, d)
      else case fence_status env (is_release_fence lane) d of
        (Inl e, d') \<Rightarrow> (Err (Idle_unproven e), lane, d')
      | (Inr False, d') \<Rightarrow> (Err Not_complete, lane, d')
      | (Inr True, d') \<Rightarrow>
          (case (if is_renderer_rejected lane then is_ready_semaphore lane else None) of
             Some semaphore \<Rightarrow>
               (Ok (), fresh_lane (lane\<lparr>is_ready_semaphore := None\<rparr>), sync_destroy semaphore d')
           | None \<Rightarrow>
               if is_ready_semaphore lane \<noteq> None then (Err Ready_unaccepted, lane, d')
               else (Ok (), fresh_lane lane, d')))"

fun option_destroy :: "vk_object option \<Rightarrow> sync_device \<Rightarrow> sync_device" where
  "option_destroy None d = d"
| "option_destroy (Some x) d = sync_destroy x d"

definition destroy_children :: "image_sync \<Rightarrow> sync_device \<Rightarrow> sync_device" where
  "destroy_children lane =
     sync_destroy (is_acquire_pool lane) \<circ> sync_destroy (is_release_pool lane) \<circ>
     sync_destroy (is_acquire_fence lane) \<circ> sync_destroy (is_release_fence lane) \<circ>
     option_destroy (map_option tq_pool (is_timestamp_query lane)) \<circ>
     option_destroy (is_ready_semaphore lane) \<circ> option_destroy (is_imported_acquire lane)"

text \<open>The drop destroys nothing until completion is proved; then the device is given up as lost.\<close>

definition image_sync_drop :: "sync_env \<Rightarrow> image_sync \<Rightarrow> sync_device \<Rightarrow> sync_device" where
  "image_sync_drop env lane d =
     (if \<not> is_acquire_submitted lane then destroy_children lane d
      else if is_release_submitted lane then
        (case fence_status env (is_release_fence lane) d of
           (Inr True, d') \<Rightarrow> destroy_children lane d'
         | (_, d') \<Rightarrow> mark_lost d')
      else mark_lost d)"

text \<open>\<open>validate_sync_fd_import\<close>, from the answers of the device.\<close>

definition validate_sync_fd_import :: "bool \<Rightarrow> bool \<Rightarrow> unit + unit" where
  "validate_sync_fd_import importable sync_fd_compatible =
     (if \<not> importable \<or> \<not> sync_fd_compatible then Err () else Ok ())"

end
