(* ===== verification/Held_Resources.thy ===== *)
theory Held_Resources
  imports Owned_Resources
begin

text \<open>
  Several handles over one device. \<open>holds\<close> says that a device has, beyond a base state, exactly the
  objects of a family of handles, which share none. Creating a handle adds to the family and dropping
  one removes it, in any order, because no handle refers to the objects of another.
\<close>

section \<open>Handles\<close>

datatype handle =
    Nv12_source_handle nv12_source_allocation
  | Packed_source_handle packed_source_allocation
  | Staged_slot_handle staged_output_slot
  | Packed_slot_handle packed_output_slot
  | Pipeline_handle compute_pipeline
  | Image_handle image_allocation

fun handle_ok :: "handle \<Rightarrow> bool" where
  "handle_ok (Nv12_source_handle x) = nv12_source_ok x"
| "handle_ok (Packed_source_handle x) = packed_source_ok x"
| "handle_ok (Staged_slot_handle x) = staged_slot_ok x"
| "handle_ok (Packed_slot_handle x) = packed_slot_ok x"
| "handle_ok (Pipeline_handle x) = pipeline_ok x"
| "handle_ok (Image_handle x) = image_ok x"

fun handle_objects :: "handle \<Rightarrow> vk_object set" where
  "handle_objects (Nv12_source_handle x) = nv12_source_objects x"
| "handle_objects (Packed_source_handle x) = packed_source_objects x"
| "handle_objects (Staged_slot_handle x) = staged_slot_objects x"
| "handle_objects (Packed_slot_handle x) = packed_slot_objects x"
| "handle_objects (Pipeline_handle x) = pipeline_objects x"
| "handle_objects (Image_handle x) = image_objects x"

fun handle_refs :: "handle \<Rightarrow> (vk_object \<times> vk_object) set" where
  "handle_refs (Nv12_source_handle x) = nv12_source_refs x"
| "handle_refs (Packed_source_handle x) = packed_source_refs x"
| "handle_refs (Staged_slot_handle x) = staged_slot_refs x"
| "handle_refs (Packed_slot_handle x) = packed_slot_refs x"
| "handle_refs (Pipeline_handle x) = {}"
| "handle_refs (Image_handle x) = image_refs x"

fun handle_drop :: "handle \<Rightarrow> vk_state \<Rightarrow> vk_state" where
  "handle_drop (Nv12_source_handle x) s = nv12_source_drop x s"
| "handle_drop (Packed_source_handle x) s = packed_source_drop x s"
| "handle_drop (Staged_slot_handle x) s = staged_output_slot_drop x s"
| "handle_drop (Packed_slot_handle x) s = packed_output_slot_drop x s"
| "handle_drop (Pipeline_handle x) s = compute_pipeline_drop x s"
| "handle_drop (Image_handle x) s = image_allocation_drop x s"

lemma clears_eq: "clears d A D \<Longrightarrow> (\<And>s. d s = e s) \<Longrightarrow> clears e A D"
  by (simp add: clears_def)

interpretation handles: owned_handle handle_drop handle_objects handle_refs handle_ok
proof
  fix h assume ok: "handle_ok h"
  show "clears (handle_drop h) (handle_objects h) (handle_refs h)"
  proof (cases h)
    case (Nv12_source_handle x)
    then show ?thesis using ok clears_eq [OF nv12_sources.dispose_clears [of x]] by simp
  next
    case (Packed_source_handle x)
    then show ?thesis using ok clears_eq [OF packed_sources.dispose_clears [of x]] by simp
  next
    case (Staged_slot_handle x)
    then show ?thesis using ok clears_eq [OF staged_slots.dispose_clears [of x]] by simp
  next
    case (Packed_slot_handle x)
    then show ?thesis using ok clears_eq [OF packed_slots.dispose_clears [of x]] by simp
  next
    case (Pipeline_handle x)
    then show ?thesis using ok clears_eq [OF pipelines.dispose_clears [of x]] by simp
  next
    case (Image_handle x)
    then show ?thesis using ok clears_eq [OF images.dispose_clears [of x]] by simp
  qed
qed

lemma buffer_refs_inside: "buffer_refs b \<subseteq> buffer_objects b \<times> buffer_objects b"
  by (auto simp: allocation_defs)

lemma buffer_inside: "ba_buffer b \<in> buffer_objects b"
  by (simp add: allocation_defs)

lemma handle_refs_inside: "handle_refs h \<subseteq> handle_objects h \<times> handle_objects h"
proof (cases h)
  case (Nv12_source_handle x)
  then show ?thesis
    using image_clearing(2) buffer_refs_inside buffer_inside by (cases x) fastforce+
next
  case (Packed_source_handle x)
  then show ?thesis
    using image_clearing(2) buffer_refs_inside buffer_inside by (cases x) fastforce+
next
  case (Staged_slot_handle x)
  then show ?thesis using slot_images_refs_inside [of "so_images x"] by (auto simp: staged_slot_defs)
next
  case (Packed_slot_handle x)
  then show ?thesis
    using viewed_clearing(2) [of "(po_storage_view x, po_sampled x)"]
    by (auto simp: packed_slot_objects_def packed_slot_refs_def)
next
  case (Pipeline_handle x)
  then show ?thesis by simp
next
  case (Image_handle x)
  then show ?thesis using image_clearing(2) by simp
qed

section \<open>Dropping one of several\<close>

lemma gained_dispose:
  assumes base: "vk_wf s0" and g: "gained s0 (A \<union> B) (D \<union> E) s" and disjoint: "A \<inter> B = {}"
    and inside: "D \<subseteq> A \<times> A" "E \<subseteq> B \<times> B" and d: "clears d A D"
  shows "gained s0 B E (d s)"
proof -
  let ?s = "s\<lparr>vs_live := vs_live s - A\<rparr>"
  have wf: "vk_wf s" using g by (rule gained_wf)
  have live: "vs_live s = vs_live s0 \<union> (A \<union> B)" "vs_live s0 \<inter> (A \<union> B) = {}"
    and edges: "vk_edges s = vk_edges s0 \<union> (D \<union> E)" "vk_edges s0 \<inter> (D \<union> E) = {}"
    and fault: "vs_fault s = vs_fault s0"
    using g by (simp_all add: gained_def)
  have start: "u \<in> vs_live s0" "t \<in> vs_live s0" if "(u, t) \<in> vk_edges s0" for u t
    using that base by (auto simp: vk_edges_def vk_wf_def)
  have cut: "vk_edges ?s = {(u, t) \<in> vk_edges s. u \<notin> A}" by (auto simp: vk_edges_def)
  have rest: "vk_edges ?s = vk_edges s0 \<union> E"
    unfolding cut edges(1) using start live(2) inside disjoint by fastforce
  have targets: "t \<in> vs_live ?s" if "(u, t) \<in> vk_edges ?s" for u t
    using that start [of u t] live inside(2) disjoint unfolding rest by auto
  have "\<forall>t \<in> vs_live s. vk_index t < vs_next s" "\<forall>t u. u \<in> vs_users s t \<longrightarrow> vk_index u < vs_next s"
    using wf by (simp_all add: vk_wf_def)
  then have "vk_wf ?s" using targets unfolding vk_wf_def by simp blast
  moreover have "gained ?s A D s"
    unfolding gained_def rest
  proof (intro conjI)
    show "vk_wf s" by (fact wf)
    show "vs_live s = vs_live ?s \<union> A" using live by auto
    show "vs_live ?s \<inter> A = {}" by auto
    show "vk_edges s = vk_edges s0 \<union> E \<union> D" using edges(1) by auto
    show "(vk_edges s0 \<union> E) \<inter> D = {}" using edges(2) inside disjoint by fastforce
    show "vs_fault s = vs_fault ?s" by simp
  qed
  ultimately have "gained ?s {} {} (d s)" using d unfolding clears_def by blast
  then show ?thesis
    using live edges fault disjoint unfolding gained_def rest by auto
qed

section \<open>Families of handles\<close>

definition holds :: "vk_state \<Rightarrow> 'i set \<Rightarrow> ('i \<Rightarrow> handle) \<Rightarrow> vk_state \<Rightarrow> bool" where
  "holds s0 I f s \<longleftrightarrow>
     (\<forall>i \<in> I. handle_ok (f i)) \<and>
     (\<forall>i \<in> I. \<forall>j \<in> I. i \<noteq> j \<longrightarrow> handle_objects (f i) \<inter> handle_objects (f j) = {}) \<and>
     gained s0 (\<Union>i \<in> I. handle_objects (f i)) (\<Union>i \<in> I. handle_refs (f i)) s"

lemma holds_wf: "holds s0 I f s \<Longrightarrow> vk_wf s"
  using gained_wf by (auto simp: holds_def)

lemma holds_empty: "vk_wf s \<Longrightarrow> holds s {} f s"
  by (simp add: holds_def gained_refl)

lemma holds_cong:
  assumes "holds s0 I f s" and "\<And>i. i \<in> I \<Longrightarrow> f i = g i"
  shows "holds s0 I g s"
proof -
  have "(\<Union>i \<in> I. handle_objects (f i)) = (\<Union>i \<in> I. handle_objects (g i))"
    "(\<Union>i \<in> I. handle_refs (f i)) = (\<Union>i \<in> I. handle_refs (g i))"
    using assms(2) by auto
  then show ?thesis using assms unfolding holds_def by metis
qed

lemma holds_same:
  assumes "holds s0 I f s" and "gained s {} {} s'"
  shows "holds s0 I f s'"
proof -
  have "gained s0 (\<Union>i \<in> I. handle_objects (f i)) (\<Union>i \<in> I. handle_refs (f i)) s"
    using assms(1) by (simp add: holds_def)
  from gained_trans [OF this assms(2)] show ?thesis using assms(1) unfolding holds_def by simp
qed

lemma holds_insert:
  assumes "holds s0 I f s" and "i \<notin> I" and "handle_ok h"
    and "gained s (handle_objects h) (handle_refs h) s'"
  shows "holds s0 (insert i I) (f(i := h)) s'"
proof -
  let ?A = "\<Union>i \<in> I. handle_objects (f i)" and ?D = "\<Union>i \<in> I. handle_refs (f i)"
  have g: "gained s0 ?A ?D s" using assms(1) by (simp add: holds_def)
  note both = gained_trans [OF g assms(4)]
  have "(f(i := h)) j = f j" if "j \<in> I" for j using that assms(2) by auto
  then have same: "(\<Union>j \<in> I. handle_objects ((f(i := h)) j)) = ?A"
      "(\<Union>j \<in> I. handle_refs ((f(i := h)) j)) = ?D"
    by auto
  have objects: "(\<Union>j \<in> insert i I. handle_objects ((f(i := h)) j)) = ?A \<union> handle_objects h"
    unfolding UN_insert same by auto
  have refs: "(\<Union>j \<in> insert i I. handle_refs ((f(i := h)) j)) = ?D \<union> handle_refs h"
    unfolding UN_insert same by auto
  have "handle_objects (f j) \<inter> handle_objects h = {}" if "j \<in> I" for j using that both by blast
  then show ?thesis
    using assms(1-3) both unfolding holds_def objects refs by (auto simp: Int_commute)
qed

lemma holds_dispose:
  assumes base: "vk_wf s0" and h: "holds s0 I f s" and i: "i \<in> I"
  shows "holds s0 (I - {i}) f (handle_drop (f i) s)"
proof -
  let ?A = "handle_objects (f i)" and ?D = "handle_refs (f i)"
  let ?B = "\<Union>j \<in> I - {i}. handle_objects (f j)" and ?E = "\<Union>j \<in> I - {i}. handle_refs (f j)"
  have sets: "(\<Union>j \<in> I. handle_objects (f j)) = ?A \<union> ?B" "(\<Union>j \<in> I. handle_refs (f j)) = ?D \<union> ?E"
    using i by auto
  have disjoint: "?A \<inter> ?B = {}" using h i unfolding holds_def by blast
  have inside: "?E \<subseteq> ?B \<times> ?B" using handle_refs_inside by fastforce
  have "gained s0 ?B ?E (handle_drop (f i) s)"
  proof (rule gained_dispose [where d = "handle_drop (f i)" and s = s, OF base _ disjoint handle_refs_inside inside])
    show "gained s0 (?A \<union> ?B) (?D \<union> ?E) s" using h sets by (simp add: holds_def)
    show "clears (handle_drop (f i)) ?A ?D"
      using h i by (intro handles.dispose_clears) (simp add: holds_def)
  qed
  then show ?thesis using h unfolding holds_def by blast
qed

text \<open>A creation that is exact, beside the handles that are held.\<close>

lemma holds_creation:
  assumes "holds s0 I f s" and "exact_creation ok objs refs d s (r, s')"
    and "\<And>x. ok x \<Longrightarrow> handle_ok (mk x) \<and> handle_objects (mk x) = objs x \<and> handle_refs (mk x) = refs x"
  shows "case r of Inl e \<Rightarrow> holds s0 I f s' | Inr x \<Rightarrow> \<forall>i. i \<notin> I \<longrightarrow> holds s0 (insert i I) (f(i := mk x)) s'"
proof (cases r)
  case (Inl e)
  then show ?thesis using assms(2) holds_same [OF assms(1)] by (simp add: exact_creation_def)
next
  case (Inr x)
  then have "ok x" "gained s (objs x) (refs x) s'" using assms(2) by (simp_all add: exact_creation_def)
  then show ?thesis using Inr holds_insert [OF assms(1)] assms(3) by simp
qed

end
