(* ===== verification/Resource_Ledger.thy ===== *)
theory Resource_Ledger
  imports Source_Cache Output_Pool
begin

text \<open>
  What the caches and pools do to the resources behind them. A ledger says that a world owns exactly
  the resources of a set, each with its value; the locale \<open>resource_ledger\<close> has the laws of creating
  and disposing of one, and shows that claims, evictions and drops keep the ledger equal to what the
  cache or pool refers to: nothing leaks, and nothing is disposed of while it is cached or leased.
\<close>

section \<open>What a cache or pool refers to\<close>

definition cached_resources :: "('t, 'a, 'm) source_cache_scheme \<Rightarrow> nat set" where
  "cached_resources s = snd ` set (sc_entries s)"

definition all_allocated :: "('t, 'a, 'm) source_cache_scheme \<Rightarrow> bool" where
  "all_allocated s \<longleftrightarrow> (\<forall>r \<in> cached_resources s. sc_allocation s r \<noteq> None)"

definition leased_resources :: "lease_table \<Rightarrow> nat set" where
  "leased_resources t = {r. \<exists>l. map_option fst (lt_leases t l) = Some r}"

definition pool_resources :: "('t, 's) output_pool \<Rightarrow> nat set" where
  "pool_resources p = snd ` set (op_slots p) \<union> leased_resources (op_table p)"

lemma leased_resources_claim:
  assumes "table_inv t" and "claim_lease r t = Some (l, t')"
  shows "leased_resources t' = insert r (leased_resources t)"
proof -
  have t': "lt_leases t' = (lt_leases t)(l \<mapsto> (r, Held))" and l: "l = lt_next t"
    using claim_lease_active [OF assms] by simp_all
  have "lt_leases t l = None" using assms(1) l unfolding table_inv_def by blast
  then show ?thesis unfolding leased_resources_def t' by (auto split: if_splits) (metis option.distinct(1) option.map_disc_iff)
qed

lemma drop_lease_leases:
  "map_option fst (lt_leases (drop_lease l t) l') = (if l' = l then None else map_option fst (lt_leases t l'))"
  by (auto simp: drop_lease_def Let_def release_lease_def release_swap_def release_clear_def
      split: option.splits prod.splits lease_phase.splits)

text \<open>The entries that leave a cache, as resources.\<close>

definition removed_resources ::
  "('t, 'a, 'm) source_cache_scheme \<Rightarrow> ('t, 'a, 'm) source_cache_scheme \<Rightarrow> nat list" where
  "removed_resources before after = map snd (filter (\<lambda>e. e \<notin> set (sc_entries after)) (sc_entries before))"

lemma removed_allocations_eq:
  assumes "all_allocated s"
  shows "removed_allocations s t = map (the \<circ> sc_allocation s) (removed_resources s t)"
proof -
  have "List.map_filter (\<lambda>(k, r). if (k, r) \<in> set (sc_entries t) then None else sc_allocation s r) es =
      map (the \<circ> sc_allocation s) (map snd (filter (\<lambda>e. e \<notin> set (sc_entries t)) es))"
    if "\<forall>r \<in> snd ` set es. sc_allocation s r \<noteq> None" for es
    using that by (induction es) (auto simp: List.map_filter_simps)
  then show ?thesis
    using assms unfolding removed_allocations_def removed_resources_def all_allocated_def
      cached_resources_def by blast
qed

lemma removed_resources_set:
  assumes "cache_inv s" and "set (sc_entries t) \<subseteq> set (sc_entries s) \<union> N"
    and "\<forall>e \<in> N. snd e \<notin> cached_resources s"
  shows "set (removed_resources s t) \<subseteq> cached_resources s" and "distinct (removed_resources s t)"
    and "cached_resources s - set (removed_resources s t) = cached_resources t - snd ` N"
proof -
  have distinct: "distinct (map snd (sc_entries s))" using assms(1) by (simp add: cache_inv_def)
  show "set (removed_resources s t) \<subseteq> cached_resources s"
    by (auto simp: removed_resources_def cached_resources_def)
  show "distinct (removed_resources s t)"
    using distinct unfolding removed_resources_def by (simp add: distinct_map_filter)
  have same: "e = e'" if "e \<in> set (sc_entries s)" "e' \<in> set (sc_entries s)" "snd e = snd e'" for e e'
    using that distinct by (metis distinct_map inj_onD)
  show "cached_resources s - set (removed_resources s t) = cached_resources t - snd ` N" (is "?l = ?r")
  proof
    show "?l \<subseteq> ?r"
    proof
      fix r assume "r \<in> ?l"
      then obtain e where e: "e \<in> set (sc_entries s)" "snd e = r" "e \<in> set (sc_entries t)"
        by (auto simp: cached_resources_def removed_resources_def)
      then have "r \<in> cached_resources s" "r \<in> cached_resources t" by (auto simp: cached_resources_def)
      then show "r \<in> ?r" using assms(3) by blast
    qed
    show "?r \<subseteq> ?l"
    proof
      fix r assume r: "r \<in> ?r"
      then obtain e where e: "e \<in> set (sc_entries t)" "snd e = r" by (auto simp: cached_resources_def)
      then have s: "e \<in> set (sc_entries s)" using r assms(2) by auto
      have "r \<notin> set (removed_resources s t)"
        using same [OF s] e by (auto simp: removed_resources_def)
      then show "r \<in> ?l" using s e(2) by (auto simp: cached_resources_def)
    qed
  qed
qed

text \<open>Making room in a pool: what leaves it without a lease.\<close>

lemma make_slot_room_removed:
  assumes inv: "pool_inv p" and room: "make_slot_room tag p = Some p1"
    and some: "\<forall>r \<in> pool_resources p. op_resources p r \<noteq> None"
  shows "\<exists>rs. removed_slots p p1 = map (the \<circ> op_resources p) rs \<and> distinct rs \<and>
    set rs \<subseteq> pool_resources p \<and> pool_resources p1 = pool_resources p - set rs \<and>
    op_resources p1 = op_resources p"
proof -
  define gone where "gone e \<longleftrightarrow> e \<notin> set (op_slots p1) \<and> strong_count (snd e) (op_table p) = 1" for e
  let ?rs = "map snd (filter gone (op_slots p))"
  have distinct: "distinct (map snd (op_slots p))" and table: "table_inv (op_table p)"
    using inv by (simp_all add: pool_inv_def)
  have p1: "op_table p1 = op_table p" "op_resources p1 = op_resources p"
      "set (op_slots p1) \<subseteq> set (op_slots p)"
  proof -
    show "op_table p1 = op_table p" "op_resources p1 = op_resources p"
      using room by (auto simp: make_slot_room_def split: if_splits option.splits)
    show "set (op_slots p1) \<subseteq> set (op_slots p)"
    proof (cases "op_max_slots p \<le> length (op_slots p)")
      case False
      then show ?thesis using room by (simp add: make_slot_room_def)
    next
      case True
      then obtain i where i: "position (\<lambda>(t, r). r \<notin> lt_claimed (op_table p) \<and> t \<noteq> tag) (op_slots p) = Some i"
        and "p1 = p\<lparr>op_slots := swap_remove i (op_slots p)\<rparr>"
        using room by (auto simp: make_slot_room_def split: option.splits)
      then show ?thesis using swap_remove_facts(1) [OF _ distinct] position_Some [OF i] by simp
    qed
  qed
  have leased: "strong_count r (op_table p) = 1 \<longleftrightarrow> r \<notin> leased_resources (op_table p)" for r
    unfolding strong_count_one [OF table] leased_resources_def by blast
  have many: "\<not> 1 < strong_count r (op_table p) \<longleftrightarrow> strong_count r (op_table p) = 1" for r
    by (simp add: strong_count_def)
  have "List.map_filter (\<lambda>(t, r). if (t, r) \<in> set (op_slots p1) \<or> 1 < strong_count r (op_table p) then None
      else op_resources p r) es = map (the \<circ> op_resources p) (map snd (filter gone es))"
    if "\<forall>e \<in> set es. op_resources p (snd e) \<noteq> None" for es
    using that many by (induction es) (auto simp: List.map_filter_simps gone_def)
  then have "removed_slots p p1 = map (the \<circ> op_resources p) ?rs"
    using some unfolding removed_slots_def pool_resources_def by blast
  moreover have "distinct ?rs" using distinct by (simp add: distinct_map_filter)
  moreover have "set ?rs \<subseteq> pool_resources p" by (auto simp: pool_resources_def)
  moreover have "pool_resources p1 = pool_resources p - set ?rs"
  proof -
    have same: "e = e'" if "e \<in> set (op_slots p)" "e' \<in> set (op_slots p)" "snd e = snd e'" for e e'
      using that distinct by (metis distinct_map inj_onD)
    have "r \<in> pool_resources p1 \<longleftrightarrow> r \<in> pool_resources p \<and> r \<notin> set ?rs" for r
    proof (cases "r \<in> leased_resources (op_table p)")
      case True
      then show ?thesis using leased by (auto simp: pool_resources_def p1(1) gone_def)
    next
      case False
      then have "r \<in> set ?rs \<longleftrightarrow> r \<in> snd ` (set (op_slots p) - set (op_slots p1))"
        using leased by (auto simp: gone_def)
      moreover have "r \<in> snd ` set (op_slots p1) \<longleftrightarrow>
          r \<in> snd ` set (op_slots p) \<and> r \<notin> snd ` (set (op_slots p) - set (op_slots p1))"
      proof
        assume "r \<in> snd ` set (op_slots p1)"
        then obtain e where e: "e \<in> set (op_slots p1)" "r = snd e" by blast
        then have "e \<in> set (op_slots p)" using p1(3) by blast
        then show "r \<in> snd ` set (op_slots p) \<and> r \<notin> snd ` (set (op_slots p) - set (op_slots p1))"
          using e same by blast
      qed blast
      ultimately show ?thesis using False by (simp add: pool_resources_def p1(1))
    qed
    then show ?thesis by blast
  qed
  ultimately show ?thesis using p1(2) by blast
qed

section \<open>Ledgers\<close>

locale resource_ledger =
  fixes owns :: "nat set \<Rightarrow> (nat \<Rightarrow> 'a option) \<Rightarrow> 'w \<Rightarrow> bool"
    and dispose :: "'a \<Rightarrow> 'w \<Rightarrow> 'w"
  assumes owns_cong: "owns R f w \<Longrightarrow> \<forall>r \<in> R. f r = g r \<Longrightarrow> owns R g w"
    and owns_dispose: "owns R f w \<Longrightarrow> r \<in> R \<Longrightarrow> f r = Some a \<Longrightarrow> owns (R - {r}) f (dispose a w)"
begin

text \<open>A creation: a failure leaves the world as it was, a success adds one resource.\<close>

definition creates :: "('w \<Rightarrow> ('e + 'a) \<times> 'w) \<Rightarrow> bool" where
  "creates m \<longleftrightarrow> (\<forall>R f w. owns R f w \<longrightarrow>
     (case m w of
        (Inl e, w') \<Rightarrow> owns R f w'
      | (Inr a, w') \<Rightarrow> \<forall>r. r \<notin> R \<longrightarrow> owns (insert r R) (f(r \<mapsto> a)) w'))"

definition keeps :: "('w \<Rightarrow> 'r \<times> 'w) \<Rightarrow> bool" where
  "keeps m \<longleftrightarrow> (\<forall>R f w. owns R f w \<longrightarrow> owns R f (snd (m w)))"

lemma creates_error: "creates m \<Longrightarrow> owns R f w \<Longrightarrow> m w = (Inl e, w') \<Longrightarrow> owns R f w'"
  unfolding creates_def by fastforce

lemma creates_success:
  "creates m \<Longrightarrow> owns R f w \<Longrightarrow> m w = (Inr a, w') \<Longrightarrow> r \<notin> R \<Longrightarrow> owns (insert r R) (f(r \<mapsto> a)) w'"
  unfolding creates_def by fastforce

lemma keepsD: "keeps m \<Longrightarrow> owns R f w \<Longrightarrow> m w = (x, w') \<Longrightarrow> owns R f w'"
  unfolding keeps_def by fastforce

lemma fold_dispose:
  "owns R f w \<Longrightarrow> distinct rs \<Longrightarrow> set rs \<subseteq> R \<Longrightarrow> \<forall>r \<in> set rs. f r \<noteq> None \<Longrightarrow>
   owns (R - set rs) f (fold dispose (map (the \<circ> f) rs) w)"
proof (induction rs arbitrary: R w)
  case Nil
  then show ?case by simp
next
  case (Cons r rs)
  obtain a where a: "f r = Some a" using Cons.prems(4) by auto
  have "owns (R - {r}) f (dispose a w)" using owns_dispose [OF Cons.prems(1) _ a] Cons.prems(3) by simp
  then have "owns (R - {r} - set rs) f (fold dispose (map (the \<circ> f) rs) (dispose a w))"
    using Cons.prems by (intro Cons.IH) auto
  moreover have "R - {r} - set rs = R - set (r # rs)" by auto
  ultimately show ?case by (simp add: a comp_def)
qed

text \<open>Sections that only touch leases, counters and the clock.\<close>

definition tracks :: "('t, 'a, 'm) source_cache_scheme \<Rightarrow> 'w \<Rightarrow> bool" where
  "tracks s w \<longleftrightarrow> all_allocated s \<and> owns (cached_resources s) (sc_allocation s) w"

lemma tracks_same:
  "tracks s w \<Longrightarrow> sc_entries s' = sc_entries s \<Longrightarrow> sc_allocation s' = sc_allocation s \<Longrightarrow> tracks s' w"
  by (simp add: tracks_def all_allocated_def cached_resources_def)

text \<open>The drop of the entries that left the cache.\<close>

lemma tracks_removed:
  assumes "tracks s w" and "cache_inv s" and "set (sc_entries t) \<subseteq> set (sc_entries s)"
    and "sc_allocation t = sc_allocation s"
  shows "tracks t (fold dispose (removed_allocations s t) w)"
proof -
  have alloc: "all_allocated s" and own: "owns (cached_resources s) (sc_allocation s) w"
    using assms(1) by (simp_all add: tracks_def)
  note sets = removed_resources_set [OF assms(2), of t "{}"]
  have "owns (cached_resources s - set (removed_resources s t)) (sc_allocation s)
      (fold dispose (removed_allocations s t) w)"
    unfolding removed_allocations_eq [OF alloc]
    by (rule fold_dispose [OF own])
      (use sets(1,2) assms(3) alloc in \<open>auto simp: all_allocated_def\<close>)
  then have "owns (cached_resources t) (sc_allocation t) (fold dispose (removed_allocations s t) w)"
    using sets(3) assms(3,4) by simp
  moreover have "all_allocated t"
    using alloc assms(3,4) by (auto simp: all_allocated_def cached_resources_def)
  ultimately show ?thesis by (simp add: tracks_def)
qed

lemma tracks_insert_section:
  assumes "owns (insert (sc_next s) (cached_resources s)) ((sc_allocation s)(sc_next s \<mapsto> a)) w"
    and "all_allocated s" and inv: "cache_inv s" and "misses key s"
    and step: "insert_section key generation a s = (result, s')"
  shows "tracks s' (fold dispose (dropped_sources s s' a) w)"
proof -
  let ?n = "sc_next s" and ?f = "(sc_allocation s)(sc_next s \<mapsto> a)" and ?rs = "removed_resources s s'"
  let ?N = "if ?n \<in> cached_resources s' then {(key, ?n)} else {}"
  have fresh: "?n \<notin> cached_resources s"
    using inv unfolding cache_inv_def cached_resources_def by fastforce
  have room: "sc_allocation (make_room s) = sc_allocation s"
      "set (sc_entries (make_room s)) \<subseteq> set (sc_entries s)"
    using make_room_frame [of s] by simp_all
  then have outside: "?n \<notin> snd ` set (sc_entries (make_room s))"
    using fresh unfolding cached_resources_def by blast
  have shape: "set (sc_entries s') \<subseteq> set (sc_entries s) \<union> ?N \<and>
      (?n \<in> cached_resources s' \<longrightarrow> sc_allocation s' = ?f) \<and>
      (?n \<notin> cached_resources s' \<longrightarrow> sc_allocation s' = sc_allocation s)"
    using step room outside unfolding insert_section_miss [OF inv assms(4)]
    by (auto simp: cached_resources_def split: if_splits)
  have news: "\<forall>e \<in> ?N. snd e \<notin> cached_resources s" using fresh by auto
  note sets = removed_resources_set [OF inv conjunct1 [OF shape] news]
  have old: "?f r = sc_allocation s r" if "r \<in> cached_resources s" for r using that fresh by auto
  have "map (the \<circ> sc_allocation s) ?rs = map (the \<circ> ?f) ?rs"
    using sets(1) fresh by (intro map_cong refl) auto
  then have removed: "removed_allocations s s' = map (the \<circ> ?f) ?rs"
    using removed_allocations_eq [OF assms(2)] by simp
  have gone: "owns (insert ?n (cached_resources s) - set ?rs) ?f (fold dispose (removed_allocations s s') w)"
    unfolding removed
    by (rule fold_dispose [OF assms(1) sets(2)]) (use sets(1) old assms(2) in \<open>auto simp: all_allocated_def\<close>)
  have "snd ` set (sc_entries s') \<subseteq> snd ` set (sc_entries s) \<union> snd ` ?N"
    using conjunct1 [OF shape] by blast
  then have bound: "cached_resources s' \<subseteq> insert ?n (cached_resources s)"
    by (auto simp: cached_resources_def split: if_splits)
  have rest: "insert ?n (cached_resources s) - set ?rs = insert ?n (cached_resources s' - snd ` ?N)"
  proof -
    have "?n \<notin> set ?rs" using sets(1) fresh by blast
    then show ?thesis using sets(3) by (simp add: insert_Diff_if)
  qed
  show ?thesis
  proof (cases "?n \<in> cached_resources s'")
    case True
    then have "insert ?n (cached_resources s' - snd ` ?N) = cached_resources s'" by auto
    moreover have "dropped_sources s s' a = removed_allocations s s'"
      using True by (simp add: dropped_sources_def cached_resources_def)
    ultimately have "owns (cached_resources s') (sc_allocation s') (fold dispose (dropped_sources s s' a) w)"
      using gone rest shape True by simp
    moreover have "all_allocated s'"
      using assms(2) bound shape True by (auto simp: all_allocated_def)
    ultimately show ?thesis by (simp add: tracks_def)
  next
    case False
    have "owns (insert ?n (cached_resources s')) ?f (fold dispose (removed_allocations s s') w)"
      using gone rest False by simp
    then have "owns (insert ?n (cached_resources s') - {?n}) ?f
        (dispose a (fold dispose (removed_allocations s s') w))"
      by (rule owns_dispose) simp_all
    then have "owns (cached_resources s') ?f (fold dispose (dropped_sources s s' a) w)"
      using False by (simp add: dropped_sources_def cached_resources_def)
    then have "owns (cached_resources s') (sc_allocation s') (fold dispose (dropped_sources s s' a) w)"
      by (rule owns_cong) (use shape False in auto)
    moreover have "all_allocated s'"
      using assms(2) bound shape False by (auto simp: all_allocated_def)
    ultimately show ?thesis by (simp add: tracks_def)
  qed
qed

text \<open>An undisturbed claim.\<close>

lemma tracks_claim_cached:
  fixes create :: "'w \<Rightarrow> ('e + 'a) \<times> 'w"
  assumes "tracks s w" and inv: "cache_inv s" and "creates create"
    and "claim_cached key create dispose [] [] (s, w) = (result, s', w')"
  shows "tracks s' w'"
proof -
  obtain generation s0 where tick: "tick s = (generation, s0)" by fastforce
  have s0: "s0 = s\<lparr>sc_clock := sc_clock s + 1\<rparr>" using tick by (auto simp: tick_def)
  have track0: "tracks s0 w" by (rule tracks_same [OF assms(1)]) (simp_all add: s0)
  have inv0: "cache_inv s0" using inv by (simp add: s0)
  show ?thesis
  proof (cases "misses key s0")
    case False
    obtain r s1 where look: "lookup_section key generation s0 =
        (r :: ('e cache_error + nat) option, s1)" by fastforce
    have "r \<noteq> None" using False look
      by (auto simp: lookup_section_def misses_def apfst_def map_prod_def split: option.splits if_splits prod.splits)
    then have "s' = s1" "w' = w" using assms(4) look tick by (auto simp: claim_cached_def)
    moreover have "sc_entries s1 = sc_entries s0 \<and> sc_allocation s1 = sc_allocation s0"
      using look by (auto simp: lookup_section_def claim_cached_entry_def claim_source_def apfst_def map_prod_def
          split: option.splits if_splits prod.splits)
    ultimately show ?thesis by (simp add: tracks_same [OF track0])
  next
    case True
    let ?b = "count_miss s0"
    obtain outcome w1 where made: "create w = (outcome, w1)" by fastforce
    have track1: "tracks ?b w" by (rule tracks_same [OF track0]) (simp_all add: count_miss_def)
    have own: "owns (cached_resources ?b) (sc_allocation ?b) w" "all_allocated ?b"
      using track1 by (simp_all add: tracks_def)
    show ?thesis
    proof (cases outcome)
      case (Inl e)
      then have "s' = ?b" "w' = w1"
        using assms(4) tick made by (auto simp: claim_cached_def lookup_section_misses [OF True])
      then show ?thesis
        using creates_error [OF assms(3) own(1)] made Inl own(2) by (simp add: tracks_def)
    next
      case (Inr a)
      obtain res s2 where ins: "insert_section key generation a ?b = (res :: 'e cache_error + nat, s2)" by fastforce
      have inv1: "cache_inv ?b" using inv0 by (rule cache_inv_count_miss)
      have fresh: "sc_next ?b \<notin> cached_resources ?b"
        using inv1 unfolding cache_inv_def cached_resources_def by fastforce
      have "s' = s2" "w' = fold dispose (dropped_sources ?b s2 a) w1"
        using assms(4) tick made Inr ins
        by (auto simp: claim_cached_def lookup_section_misses [OF True] Let_def)
      moreover have "tracks s2 (fold dispose (dropped_sources ?b s2 a) w1)"
      proof (rule tracks_insert_section [OF _ own(2) inv1 _ ins])
        show "owns (insert (sc_next ?b) (cached_resources ?b)) ((sc_allocation ?b)(sc_next ?b \<mapsto> a)) w1"
          using creates_success [OF assms(3) own(1) _ fresh] made Inr by blast
        show "misses key ?b" using True by simp
      qed
      ultimately show ?thesis by simp
    qed
  qed
qed

text \<open>The same for a pool.\<close>

definition pool_tracks :: "('t, 'a) output_pool \<Rightarrow> 'w \<Rightarrow> bool" where
  "pool_tracks p w \<longleftrightarrow>
     (\<forall>r \<in> pool_resources p. op_resources p r \<noteq> None) \<and> owns (pool_resources p) (op_resources p) w"

lemma pool_tracks_same:
  "pool_tracks p w \<Longrightarrow> pool_resources p' = pool_resources p \<Longrightarrow> op_resources p' = op_resources p \<Longrightarrow>
   pool_tracks p' w"
  by (simp add: pool_tracks_def)

lemma pool_tracks_push_slot:
  assumes "owns (insert (op_next p) (pool_resources p)) ((op_resources p)(op_next p \<mapsto> a)) w"
    and "\<forall>r \<in> pool_resources p. op_resources p r \<noteq> None" and inv: "pool_inv p"
    and "push_slot tag a p = (l, p')"
  shows "pool_tracks p' w"
proof -
  obtain t where t: "claim_lease (op_next p) (op_table p) = Some (lt_next (op_table p), t)"
    using fresh_slot_free [OF inv] by blast
  have table: "table_inv (op_table p)" using inv by (simp add: pool_inv_def)
  have p': "p' = p\<lparr>op_table := t, op_slots := op_slots p @ [(tag, op_next p)],
      op_resources := (op_resources p)(op_next p \<mapsto> a), op_next := op_next p + 1\<rparr>"
    using assms(4) by (simp add: push_slot_def t)
  have "pool_resources p' = insert (op_next p) (pool_resources p)"
    using leased_resources_claim [OF table t] by (auto simp: pool_resources_def p')
  then show ?thesis using assms(1,2) by (simp add: pool_tracks_def p')
qed

lemma pool_tracks_claim_new_slot:
  assumes "pool_tracks p w" and inv: "pool_inv p" and "creates create"
    and "claim_new_slot name limit tag create dispose (p, w) = (result, p', w')"
  shows "pool_tracks p' w'"
proof (cases "make_slot_room tag p")
  case None
  then show ?thesis using assms(1,4) by (simp add: claim_new_slot_def)
next
  case (Some p1)
  have own: "owns (pool_resources p) (op_resources p) w"
      "\<forall>r \<in> pool_resources p. op_resources p r \<noteq> None"
    using assms(1) by (simp_all add: pool_tracks_def)
  obtain rs where rs: "removed_slots p p1 = map (the \<circ> op_resources p) rs" "distinct rs"
      "set rs \<subseteq> pool_resources p" "pool_resources p1 = pool_resources p - set rs"
      "op_resources p1 = op_resources p"
    using make_slot_room_removed [OF inv Some own(2)] by blast
  let ?w1 = "fold dispose (removed_slots p p1) w"
  have own1: "owns (pool_resources p1) (op_resources p1) ?w1"
    unfolding rs(1,4,5) by (rule fold_dispose [OF own(1) rs(2,3)]) (use own(2) rs(3) in blast)
  have some1: "\<forall>r \<in> pool_resources p1. op_resources p1 r \<noteq> None" using own(2) rs(4,5) by simp
  note inv1 = make_slot_room_inv [OF inv Some]
  have fresh: "op_next p1 \<notin> pool_resources p1"
    using inv1(1) unfolding pool_inv_def pool_resources_def leased_resources_def by fastforce
  obtain made w2 where made: "create ?w1 = (made, w2)" by fastforce
  show ?thesis
  proof (cases made)
    case (Inl e)
    then have "p' = p1" "w' = w2" using assms(4) Some made by (simp_all add: claim_new_slot_def)
    then show ?thesis
      using creates_error [OF assms(3) own1] made Inl some1 by (simp add: pool_tracks_def)
  next
    case (Inr a)
    obtain l p2 where pushed: "push_slot tag a p1 = (l, p2)" by fastforce
    then have "p' = p2" "w' = w2" using assms(4) Some made Inr by (simp_all add: claim_new_slot_def)
    moreover have "owns (insert (op_next p1) (pool_resources p1)) ((op_resources p1)(op_next p1 \<mapsto> a)) w2"
      using creates_success [OF assms(3) own1 _ fresh] made Inr by blast
    ultimately show ?thesis using pool_tracks_push_slot [OF _ some1 inv1(1) pushed] by simp
  qed
qed

lemma pool_resources_claim:
  assumes "pool_inv p" and "claim_lease r (op_table p) = Some (l, t)" and "r \<in> snd ` set (op_slots p)"
  shows "pool_resources (p\<lparr>op_table := t\<rparr>) = pool_resources p"
    and "pool_resources (p\<lparr>op_table := drop_lease l t\<rparr>) = pool_resources p"
proof -
  have table: "table_inv (op_table p)" using assms(1) by (simp add: pool_inv_def)
  have leases: "lt_leases t = (lt_leases (op_table p))(l \<mapsto> (r, Held))"
    using claim_lease_active(5) [OF table assms(2)] .
  have "lt_leases (op_table p) l = None"
    using table claim_lease_active(6) [OF table assms(2)] unfolding table_inv_def by blast
  then have "map_option fst (lt_leases (drop_lease l t) l') = map_option fst (lt_leases (op_table p) l')" for l'
    unfolding drop_lease_leases leases by simp
  then have "leased_resources (drop_lease l t) = leased_resources (op_table p)"
    by (simp add: leased_resources_def)
  then show "pool_resources (p\<lparr>op_table := drop_lease l t\<rparr>) = pool_resources p"
    by (simp add: pool_resources_def)
  show "pool_resources (p\<lparr>op_table := t\<rparr>) = pool_resources p"
    using leased_resources_claim [OF table assms(2)] assms(3) by (auto simp: pool_resources_def)
qed

lemma pool_tracks_nv12_claim:
  assumes "pool_tracks p w" and inv: "pool_inv p" and "creates create"
    and "\<And>r view. r \<in> pool_resources p \<Longrightarrow> keeps (update r view)"
    and "nv12_pool_claim tag view update create dispose [] (p, w) = (result, p', w')"
  shows "pool_tracks p' w'"
proof (cases "claim_first claim_lease (\<lambda>(t, r). t = tag) snd (op_slots p) (op_table p)")
  case None
  then show ?thesis
    using assms(5) pool_tracks_claim_new_slot [OF assms(1-3)] by (auto simp: nv12_pool_claim_def)
next
  case (Some found)
  obtain t r l table where found: "found = ((t, r), l, table)" by (metis prod.collapse)
  note scan = Some [unfolded found]
  note claimed = claim_first_pool [OF inv scan]
  have slot: "r \<in> snd ` set (op_slots p)" using claimed by force
  note same = pool_resources_claim [OF inv claimed(3) slot]
  have kept: "pool_tracks (p\<lparr>op_table := t'\<rparr>) v"
    if "pool_resources (p\<lparr>op_table := t'\<rparr>) = pool_resources p" "owns (pool_resources p) (op_resources p) v" for t' v
    using assms(1) that by (simp add: pool_tracks_def)
  show ?thesis
  proof (cases view)
    case None
    have "owns (pool_resources p) (op_resources p) w" using assms(1) by (simp add: pool_tracks_def)
    from kept [OF same(1) this] show ?thesis using assms(5) None by (simp add: nv12_pool_claim_def scan)
  next
    case (Some v)
    obtain answer w1 where update: "update r v w = (answer, w1)" by fastforce
    have "owns (pool_resources p) (op_resources p) w1"
      using keepsD [OF assms(4) _ update] slot assms(1) by (simp add: pool_resources_def pool_tracks_def)
    then show ?thesis
      using assms(5) kept same by (cases answer) (auto simp: nv12_pool_claim_def scan Some update)
  qed
qed

lemma pool_tracks_packed_claim:
  assumes "pool_tracks p w" and inv: "pool_inv p" and "creates create"
    and "\<And>r view. r \<in> pool_resources p \<Longrightarrow> keeps (\<lambda>w. ((), update r view w))"
    and "packed_pool_claim tag view update create dispose [] (p, w) = (result, p', w')"
  shows "pool_tracks p' w'"
proof (cases "claim_first claim_lease (\<lambda>(t, r). t = tag) snd (op_slots p) (op_table p)")
  case None
  then show ?thesis
    using assms(5) pool_tracks_claim_new_slot [OF assms(1-3)] by (auto simp: packed_pool_claim_def)
next
  case (Some found)
  obtain t r l table where found: "found = ((t, r), l, table)" by (metis prod.collapse)
  note scan = Some [unfolded found]
  note claimed = claim_first_pool [OF inv scan]
  have slot: "r \<in> snd ` set (op_slots p)" using claimed by force
  have "owns (pool_resources p) (op_resources p) (update r view w)"
    using keepsD [OF assms(4), of r _ _ w] slot assms(1) by (simp add: pool_resources_def pool_tracks_def)
  then show ?thesis
    using assms(1,5) pool_resources_claim(1) [OF inv claimed(3) slot]
    by (auto simp: packed_pool_claim_def scan pool_tracks_def)
qed

end

end
