(* ===== verification/Claim_Effects.thy ===== *)
theory Claim_Effects
  imports Resource_Ledger
begin

text \<open>
  What one claim changes for everybody else: it adds at most one lease, keeps the leases there were
  and the resources behind them, and what it adds to a cache or pool has the type its key asks for.
\<close>

section \<open>Caches\<close>

definition same_leases :: "lease_table \<Rightarrow> lease_table \<Rightarrow> bool" where
  "same_leases t t' \<longleftrightarrow> lt_leases t' = lt_leases t"

definition one_more_lease :: "nat \<Rightarrow> nat \<Rightarrow> lease_table \<Rightarrow> lease_table \<Rightarrow> bool" where
  "one_more_lease l r t t' \<longleftrightarrow> lt_leases t l = None \<and> lt_leases t' = (lt_leases t)(l \<mapsto> (r, Held))"

definition claim_effect ::
  "'t cache_key \<Rightarrow> ('e + nat) \<Rightarrow> ('t, 'a, 'm) source_cache_scheme \<Rightarrow> ('t, 'a, 'm) source_cache_scheme \<Rightarrow> bool"
where
  "claim_effect key result s s' \<longleftrightarrow>
     cache_inv s' \<and> sc_next s \<le> sc_next s' \<and>
     (\<forall>r < sc_next s. sc_allocation s' r = sc_allocation s r) \<and>
     (case result of
        Inl e \<Rightarrow> same_leases (sc_table s) (sc_table s')
      | Inr l \<Rightarrow> \<exists>r. (key, r) \<in> set (sc_entries s') \<and> one_more_lease l r (sc_table s) (sc_table s'))"

definition entries_fit :: "('t cache_key \<Rightarrow> 'a \<Rightarrow> bool) \<Rightarrow> ('t, 'a, 'm) source_cache_scheme \<Rightarrow> bool" where
  "entries_fit fits s \<longleftrightarrow>
     (\<forall>(k, r) \<in> set (sc_entries s). case sc_allocation s r of Some a \<Rightarrow> fits k a | None \<Rightarrow> False)"

lemma entries_fitD: "entries_fit fits s \<Longrightarrow> (k, r) \<in> set (sc_entries s) \<Longrightarrow> \<exists>a. sc_allocation s r = Some a \<and> fits k a"
  unfolding entries_fit_def by (fastforce split: option.splits)

lemma entries_fit_subset:
  assumes "entries_fit fits s" and "set (sc_entries s') \<subseteq> set (sc_entries s)"
    and "sc_allocation s' = sc_allocation s"
  shows "entries_fit fits s'"
  using assms unfolding entries_fit_def by auto

lemma one_more_lease_claim:
  assumes "table_inv t" and "claim_lease r t = Some (l, t')"
  shows "one_more_lease l r t t'"
proof -
  have "lt_leases t l = None"
    using assms(1) claim_lease_active(6) [OF assms] unfolding table_inv_def by blast
  then show ?thesis using claim_lease_active(5) [OF assms] by (simp add: one_more_lease_def)
qed

text \<open>The first section, and the second one after a miss.\<close>

lemma lookup_section_effect:
  assumes inv: "cache_inv s" and step: "lookup_section key generation s = (Some result, s')"
  shows "claim_effect key result s s'"
    and "sc_entries s' = sc_entries s" and "sc_allocation s' = sc_allocation s"
proof -
  have "cache_inv (snd (Some result, s'))" unfolding step [symmetric] by (rule lookup_section_inv [OF inv])
  then have inv': "cache_inv s'" by simp
  have "sc_entries s' = sc_entries s \<and> sc_allocation s' = sc_allocation s \<and> sc_next s' = sc_next s \<and>
    (case result of
        Inl e \<Rightarrow> same_leases (sc_table s) (sc_table s')
      | Inr l \<Rightarrow> \<exists>r. (key, r) \<in> set (sc_entries s) \<and> one_more_lease l r (sc_table s) (sc_table s'))"
  proof (cases "map_of (sc_entries s) key")
    case None
    then show ?thesis using step
      by (auto simp: lookup_section_def same_leases_def split: if_splits)
  next
    case (Some r)
    have entry: "(key, r) \<in> set (sc_entries s)" using Some by (rule map_of_SomeD)
    show ?thesis
    proof (cases "claim_lease r (sc_table s)")
      case None
      then show ?thesis using step Some
        by (auto simp: lookup_section_def claim_cached_entry_def claim_source_def same_leases_def)
    next
      case claimed: (Some c)
      obtain l t where c: "c = (l, t)" by fastforce
      have "one_more_lease l r (sc_table s) t"
        using one_more_lease_claim [OF cache_inv_table_inv [OF inv]] claimed c by simp
      then show ?thesis using step Some claimed c entry
        by (auto simp: lookup_section_def claim_cached_entry_def claim_source_def)
    qed
  qed
  then show "claim_effect key result s s'" and "sc_entries s' = sc_entries s"
    and "sc_allocation s' = sc_allocation s"
    using inv' by (auto simp: claim_effect_def split: sum.split)
qed

lemma insert_section_effect:
  assumes inv: "cache_inv s" and miss: "misses key s"
    and step: "insert_section key generation a s = (result, s')"
  shows "claim_effect key result s s'"
    and "entries_fit fits s \<Longrightarrow> fits key a \<Longrightarrow> entries_fit fits s'"
proof -
  let ?room = "make_room s"
  have room: "sc_table ?room = sc_table s" "sc_next ?room = sc_next s" "sc_allocation ?room = sc_allocation s"
      "set (sc_entries ?room) \<subseteq> set (sc_entries s)"
    using make_room_frame [of s] by simp_all
  have "cache_inv (snd (result, s'))" unfolding step [symmetric] by (rule insert_section_inv [OF inv])
  then have inv': "cache_inv s'" by simp
  obtain t where t: "claim_lease (sc_next s) (sc_table s) = Some (lt_next (sc_table s), t)"
    using claim_new_source [OF inv] by blast
  have lease: "one_more_lease (lt_next (sc_table s)) (sc_next s) (sc_table s) t"
    using one_more_lease_claim [OF cache_inv_table_inv [OF inv] t] .
  show "claim_effect key result s s'"
    using step room inv' lease unfolding insert_section_miss [OF inv miss] claim_effect_def
    by (auto simp: t same_leases_def split: if_splits)
  assume fit: "entries_fit fits s" and a: "fits key a"
  have old: "r \<noteq> sc_next s" if "(k, r) \<in> set (sc_entries s)" for k r
    using that inv unfolding cache_inv_def by fastforce
  have fit': "entries_fit fits ?room" by (rule entries_fit_subset [OF fit room(4,3)])
  show "entries_fit fits s'"
  proof (cases "sc_max_entries s \<le> length (sc_entries ?room)")
    case True
    then show ?thesis using step fit' unfolding insert_section_miss [OF inv miss] by simp
  next
    case False
    then have s': "sc_entries s' = sc_entries ?room @ [(key, sc_next s)]"
        "sc_allocation s' = (sc_allocation s)(sc_next s \<mapsto> a)"
      using step unfolding insert_section_miss [OF inv miss] by auto
    have "(case sc_allocation s' r of Some x \<Rightarrow> fits k x | None \<Rightarrow> False)"
      if "(k, r) \<in> set (sc_entries ?room)" for k r
    proof -
      note kept = entries_fitD [OF fit' that]
      have "r \<noteq> sc_next s" using that room(4) old by blast
      moreover obtain x where "sc_allocation ?room r = Some x" "fits k x"
        using kept by blast
      ultimately show ?thesis by (simp add: s'(2) room(3))
    qed
    then have "\<forall>(k, r) \<in> set (sc_entries ?room). case sc_allocation s' r of Some x \<Rightarrow> fits k x | None \<Rightarrow> False"
      by blast
    moreover have "sc_allocation s' (sc_next s) = Some a" by (simp add: s'(2))
    ultimately show ?thesis using a unfolding entries_fit_def s'(1) by simp
  qed
qed

lemma claim_effect_frame:
  assumes "claim_effect key result s1 s'" and "sc_table s1 = sc_table s" and "sc_next s1 = sc_next s"
    and "sc_allocation s1 = sc_allocation s"
  shows "claim_effect key result s s'"
  using assms by (cases result) (simp_all add: claim_effect_def)

lemma claim_cached_effect:
  fixes create :: "'w \<Rightarrow> ('e + 'a) \<times> 'w"
  assumes inv: "cache_inv s" and step: "claim_cached key create dispose [] [] (s, w) = (result, s', w')"
  shows "claim_effect key result s s'"
    and "entries_fit fits s \<Longrightarrow> (\<And>a v v'. create v = (Inr a, v') \<Longrightarrow> fits key a) \<Longrightarrow> entries_fit fits s'"
proof -
  obtain generation s0 where tick: "tick s = (generation, s0)" by fastforce
  have s0: "s0 = s\<lparr>sc_clock := sc_clock s + 1\<rparr>" using tick by (auto simp: tick_def)
  have inv0: "cache_inv s0" using inv by (simp add: s0)
  have "claim_effect key result s s' \<and>
    (entries_fit fits s \<longrightarrow> (\<forall>a v v'. create v = (Inr a, v') \<longrightarrow> fits key a) \<longrightarrow> entries_fit fits s')"
  proof (cases "misses key s0")
    case False
    obtain r s1 where look: "lookup_section key generation s0 = (Some (r :: 'e cache_error + nat), s1)"
      using False by (cases "lookup_section key generation s0 ::
          ('e cache_error + nat) option \<times> ('b, 'a, 'c) source_cache_scheme")
        (auto simp: lookup_section_def misses_def apfst_def map_prod_def split: option.splits if_splits prod.splits)
    then have "result = r" "s' = s1" using step tick by (auto simp: claim_cached_def)
    then show ?thesis
      using claim_effect_frame [OF lookup_section_effect(1) [OF inv0 look], of s]
        entries_fit_subset [of fits s s1] lookup_section_effect(2,3) [OF inv0 look]
      by (simp add: s0)
  next
    case True
    let ?b = "count_miss s0"
    obtain made w1 where made: "create w = (made, w1)" by fastforce
    have inv1: "cache_inv ?b" using inv0 by (rule cache_inv_count_miss)
    have miss: "misses key ?b" using True by simp
    show ?thesis
    proof (cases made)
      case (Inl e)
      then have "result = Inl (Create_failed e)" "s' = ?b"
        using step tick made by (auto simp: claim_cached_def lookup_section_misses [OF True])
      then show ?thesis
        using inv1 entries_fit_subset [of fits s ?b]
        by (simp add: claim_effect_def same_leases_def count_miss_def s0)
    next
      case (Inr a)
      obtain res s2 where ins: "insert_section key generation a ?b = (res :: 'e cache_error + nat, s2)" by fastforce
      have "result = res" "s' = s2"
        using step tick made Inr ins by (auto simp: claim_cached_def lookup_section_misses [OF True] Let_def)
      then show ?thesis
        using claim_effect_frame [OF insert_section_effect(1) [OF inv1 miss ins], of s] made Inr
          insert_section_effect(2) [OF inv1 miss ins, of fits] entries_fit_subset [of fits s ?b]
        by (auto simp: count_miss_def s0)
    qed
  qed
  then show "claim_effect key result s s'"
    and "entries_fit fits s \<Longrightarrow> (\<And>a v v'. create v = (Inr a, v') \<Longrightarrow> fits key a) \<Longrightarrow> entries_fit fits s'"
    by blast+
qed

section \<open>Pools\<close>

definition pool_effect ::
  "'t \<Rightarrow> ('e + nat) \<Rightarrow> ('t, 's) output_pool \<Rightarrow> ('t, 's) output_pool \<Rightarrow> bool" where
  "pool_effect tag result p p' \<longleftrightarrow>
     pool_inv p' \<and> op_next p \<le> op_next p' \<and>
     (\<forall>r < op_next p. op_resources p' r = op_resources p r) \<and>
     (case result of
        Inl e \<Rightarrow> same_leases (op_table p) (op_table p')
      | Inr l \<Rightarrow> \<exists>r. (tag, r) \<in> set (op_slots p') \<and> one_more_lease l r (op_table p) (op_table p'))"

definition slots_fit :: "('t \<Rightarrow> 's \<Rightarrow> bool) \<Rightarrow> ('t, 's) output_pool \<Rightarrow> bool" where
  "slots_fit fits p \<longleftrightarrow>
     (\<forall>(t, r) \<in> set (op_slots p). case op_resources p r of Some x \<Rightarrow> fits t x | None \<Rightarrow> False)"

lemma slots_fitD: "slots_fit fits p \<Longrightarrow> (t, r) \<in> set (op_slots p) \<Longrightarrow> \<exists>x. op_resources p r = Some x \<and> fits t x"
  unfolding slots_fit_def by (fastforce split: option.splits)

lemma make_slot_room_frame:
  assumes "pool_inv p" and "make_slot_room tag p = Some p1"
  shows "set (op_slots p1) \<subseteq> set (op_slots p)" and "op_resources p1 = op_resources p"
proof -
  show "op_resources p1 = op_resources p"
    using assms(2) by (auto simp: make_slot_room_def split: if_splits option.splits)
  have distinct: "distinct (map snd (op_slots p))" using assms(1) by (simp add: pool_inv_def)
  show "set (op_slots p1) \<subseteq> set (op_slots p)"
  proof (cases "op_max_slots p \<le> length (op_slots p)")
    case False
    then show ?thesis using assms(2) by (simp add: make_slot_room_def)
  next
    case True
    then obtain i where i: "position (\<lambda>(t, r). r \<notin> lt_claimed (op_table p) \<and> t \<noteq> tag) (op_slots p) = Some i"
      and "p1 = p\<lparr>op_slots := swap_remove i (op_slots p)\<rparr>"
      using assms(2) by (auto simp: make_slot_room_def split: option.splits)
    then show ?thesis using swap_remove_facts(1) [OF _ distinct] position_Some [OF i] by simp
  qed
qed

lemma claim_new_slot_effect:
  assumes inv: "pool_inv p" and step: "claim_new_slot name limit tag create dispose (p, w) = (result, p', w')"
  shows "pool_effect tag result p p'"
    and "slots_fit fits p \<Longrightarrow> (\<And>x v v'. create v = (Inr x, v') \<Longrightarrow> fits tag x) \<Longrightarrow> slots_fit fits p'"
proof -
  have inv': "pool_inv p'" using claim_new_slot_inv [OF inv, of name limit tag create dispose w] step by simp
  have "pool_effect tag result p p' \<and>
    (slots_fit fits p \<longrightarrow> (\<forall>x v v'. create v = (Inr x, v') \<longrightarrow> fits tag x) \<longrightarrow> slots_fit fits p')"
  proof (cases "make_slot_room tag p")
    case None
    then have "p' = p" "result = Inl (PoolSaturated name limit)"
      using step by (simp_all add: claim_new_slot_def)
    then show ?thesis using inv by (simp add: pool_effect_def same_leases_def)
  next
    case (Some p1)
    note room = make_slot_room_inv [OF inv Some] make_slot_room_frame [OF inv Some]
    have fit1: "slots_fit fits p \<Longrightarrow> slots_fit fits p1" using room(6,7) unfolding slots_fit_def by auto
    obtain made w1 where made: "create (fold dispose (removed_slots p p1) w) = (made, w1)" by fastforce
    show ?thesis
    proof (cases made)
      case (Inl e)
      then have "p' = p1" "result = Inl (Other e)" using step Some made by (simp_all add: claim_new_slot_def)
      then show ?thesis using inv' room fit1 by (simp add: pool_effect_def same_leases_def)
    next
      case (Inr x)
      obtain t where t: "claim_lease (op_next p1) (op_table p1) = Some (lt_next (op_table p1), t)"
        using fresh_slot_free [OF room(1)] by blast
      have p': "result = Inr (lt_next (op_table p1))" "p' = p1\<lparr>op_table := t, op_slots := op_slots p1 @ [(tag, op_next p1)],
          op_resources := (op_resources p1)(op_next p1 \<mapsto> x), op_next := op_next p1 + 1\<rparr>"
        using step Some made Inr by (simp_all add: claim_new_slot_def push_slot_def t)
      have "table_inv (op_table p1)" using room(1) by (simp add: pool_inv_def)
      from one_more_lease_claim [OF this t]
      have "pool_effect tag result p p'"
        using inv' room by (auto simp: pool_effect_def p')
      moreover have "slots_fit fits p'" if "slots_fit fits p1" "fits tag x"
      proof -
        have "r \<noteq> op_next p1" if "(t, r) \<in> set (op_slots p1)" for t r
          using that room(1) unfolding pool_inv_def by fastforce
        then show ?thesis using that unfolding slots_fit_def p'(2) by fastforce
      qed
      ultimately show ?thesis using fit1 made Inr by blast
    qed
  qed
  then show "pool_effect tag result p p'"
    and "slots_fit fits p \<Longrightarrow> (\<And>x v v'. create v = (Inr x, v') \<Longrightarrow> fits tag x) \<Longrightarrow> slots_fit fits p'"
    by blast+
qed

lemma drop_lease_leases_eq: "lt_leases (drop_lease l t) = (lt_leases t)(l := None)"
  by (rule ext)
    (auto simp: drop_lease_def Let_def release_lease_def release_swap_def release_clear_def
      split: option.splits prod.splits lease_phase.splits)

lemma nv12_pool_claim_effect:
  fixes create :: "'w \<Rightarrow> ('e + 's) \<times> 'w"
  assumes inv: "pool_inv p" and step: "nv12_pool_claim tag view update create dispose [] (p, w) = (result, p', w')"
  shows "pool_effect tag result p p'"
    and "slots_fit fits p \<Longrightarrow> (\<And>x v v'. create v = (Inr x, v') \<Longrightarrow> fits tag x) \<Longrightarrow> slots_fit fits p'"
proof -
  have inv': "pool_inv p'" using nv12_pool_claim_inv [OF inv, of tag view update create dispose "[]" w] step by simp
  have "pool_effect tag result p p' \<and>
    (slots_fit fits p \<longrightarrow> (\<forall>x v v'. create v = (Inr x, v') \<longrightarrow> fits tag x) \<longrightarrow> slots_fit fits p')"
  proof (cases "claim_first claim_lease (\<lambda>(t, r). t = tag) snd (op_slots p) (op_table p)")
    case None
    then have "claim_new_slot Nv12_output (op_max_slots p) tag create dispose (p, w) = (result, p', w')"
      using step by (simp add: nv12_pool_claim_def)
    from claim_new_slot_effect [OF inv this] show ?thesis by blast
  next
    case (Some found)
    obtain t r l table where found: "found = ((t, r), l, table)" by (metis prod.collapse)
    note scan = Some [unfolded found]
    note claimed = claim_first_pool [OF inv scan]
    have lease: "one_more_lease l r (op_table p) table"
      using one_more_lease_claim [OF _ claimed(3)] inv by (simp add: pool_inv_def)
    then have dropped: "lt_leases (drop_lease l table) = lt_leases (op_table p)"
      by (auto simp: drop_lease_leases_eq one_more_lease_def)
    have fit: "slots_fit fits (p\<lparr>op_table := t'\<rparr>) = slots_fit fits p" for t' by (simp add: slots_fit_def)
    have kept: "pool_effect tag (Inr l :: 'e vulkan_import_error + nat) p (p\<lparr>op_table := table\<rparr>)"
      if "pool_inv (p\<lparr>op_table := table\<rparr>)"
      using that claimed(1,2) lease by (auto simp: pool_effect_def)
    show ?thesis
    proof (cases view)
      case None
      then show ?thesis using step inv' kept fit by (auto simp: nv12_pool_claim_def scan)
    next
      case (Some v)
      obtain answer w1 where update: "update r v w = (answer, w1)" by fastforce
      show ?thesis
      proof (cases answer)
        case (Inl e)
        then show ?thesis using step inv' fit dropped
          by (auto simp: nv12_pool_claim_def scan Some update pool_effect_def same_leases_def)
      next
        case (Inr u)
        then show ?thesis using step inv' kept fit by (auto simp: nv12_pool_claim_def scan Some update)
      qed
    qed
  qed
  then show "pool_effect tag result p p'"
    and "slots_fit fits p \<Longrightarrow> (\<And>x v v'. create v = (Inr x, v') \<Longrightarrow> fits tag x) \<Longrightarrow> slots_fit fits p'"
    by blast+
qed

lemma packed_pool_claim_effect:
  assumes inv: "pool_inv p" and step: "packed_pool_claim tag view update create dispose [] (p, w) = (result, p', w')"
  shows "pool_effect tag result p p'"
    and "slots_fit fits p \<Longrightarrow> (\<And>x v v'. create v = (Inr x, v') \<Longrightarrow> fits tag x) \<Longrightarrow> slots_fit fits p'"
proof -
  have "pool_effect tag result p p' \<and>
    (slots_fit fits p \<longrightarrow> (\<forall>x v v'. create v = (Inr x, v') \<longrightarrow> fits tag x) \<longrightarrow> slots_fit fits p')"
  proof (cases "claim_first claim_lease (\<lambda>(t, r). t = tag) snd (op_slots p) (op_table p)")
    case None
    then have "claim_new_slot Packed_output (op_max_slots p) tag create dispose (p, w) = (result, p', w')"
      using step by (simp add: packed_pool_claim_def)
    from claim_new_slot_effect [OF inv this] show ?thesis by blast
  next
    case (Some found)
    obtain t r l table where found: "found = ((t, r), l, table)" by (metis prod.collapse)
    note scan = Some [unfolded found]
    note claimed = claim_first_pool [OF inv scan]
    have "one_more_lease l r (op_table p) table"
      using one_more_lease_claim [OF _ claimed(3)] inv by (simp add: pool_inv_def)
    then show ?thesis using step claimed
      by (auto simp: packed_pool_claim_def scan pool_effect_def slots_fit_def)
  qed
  then show "pool_effect tag result p p'"
    and "slots_fit fits p \<Longrightarrow> (\<And>x v v'. create v = (Inr x, v') \<Longrightarrow> fits tag x) \<Longrightarrow> slots_fit fits p'"
    by blast+
qed

end
