(* ===== verification/Device_Ledger.thy ===== *)
theory Device_Ledger
  imports Importer Held_Resources Resource_Ledger Claim_Effects
begin

text \<open>
  The device of an importer as a ledger. Everything the importer owns has an identity: a pipeline, a
  cached source, a slot of a pool, and, held by the images, scanouts. \<open>device_ok\<close> says that the device
  has exactly the objects behind these identities; each cache and pool is one column of that ledger.
\<close>

section \<open>One column\<close>

definition column ::
  "vk_state \<Rightarrow> 'i set \<Rightarrow> ('i \<Rightarrow> handle) \<Rightarrow> (nat \<Rightarrow> 'i) \<Rightarrow> ('a \<Rightarrow> handle) \<Rightarrow> nat set \<Rightarrow> (nat \<Rightarrow> 'a option) \<Rightarrow>
   'f world \<Rightarrow> bool" where
  "column s0 rest g tag mk R f w \<longleftrightarrow>
     vk_wf s0 \<and> inj tag \<and> rest \<inter> range tag = {} \<and>
     holds s0 (rest \<union> tag ` R) (\<lambda>i. if i \<in> range tag then mk (the (f (inv tag i))) else g i) (w_vk w)"

lemma column_eq:
  assumes "vk_wf s0" and "inj tag" and "rest \<inter> range tag = {}"
    and "\<And>r. r \<in> R \<Longrightarrow> h (tag r) = mk (the (f r))" and "\<And>i. i \<in> rest \<Longrightarrow> h i = g i"
  shows "column s0 rest g tag mk R f w \<longleftrightarrow> holds s0 (rest \<union> tag ` R) h (w_vk w)"
proof -
  have "h i = (if i \<in> range tag then mk (the (f (inv tag i))) else g i)" if "i \<in> rest \<union> tag ` R" for i
    using that assms(3-5) by (cases "i \<in> rest") (auto simp: inv_f_f [OF assms(2)] inj_eq [OF assms(2)])
  then show ?thesis using assms(1-3) unfolding column_def by (auto elim!: holds_cong)
qed

interpretation columns: resource_ledger "column s0 rest g tag mk" "\<lambda>a. vk_drop (handle_drop (mk a))"
  for s0 rest g tag mk
proof
  fix R f f' and w :: "'f world"
  assume column: "column s0 rest g tag mk R f w" and same: "\<forall>r \<in> R. f r = f' r"
  then have "(if i \<in> range tag then mk (the (f (inv tag i))) else g i) =
      (if i \<in> range tag then mk (the (f' (inv tag i))) else g i)" if "i \<in> rest \<union> tag ` R" for i
    using that by (auto simp: column_def inv_f_f)
  then show "column s0 rest g tag mk R f' w"
    using column unfolding column_def by (auto elim!: holds_cong)
next
  fix R f r a and w :: "'f world"
  assume column: "column s0 rest g tag mk R f w" and r: "r \<in> R" "f r = Some a"
  let ?h = "\<lambda>i. if i \<in> range tag then mk (the (f (inv tag i))) else g i"
  have tag: "inj tag" "rest \<inter> range tag = {}" using column by (simp_all add: column_def)
  have "holds s0 (rest \<union> tag ` R - {tag r}) ?h (handle_drop (?h (tag r)) (w_vk w))"
    by (rule holds_dispose) (use column r in \<open>simp_all add: column_def\<close>)
  moreover have "rest \<union> tag ` R - {tag r} = rest \<union> tag ` (R - {r})"
    using tag by (auto dest: injD)
  moreover have "?h (tag r) = mk a" using tag r(2) by (simp add: inv_f_f)
  ultimately show "column s0 rest g tag mk (R - {r}) f (vk_drop (handle_drop (mk a)) w)"
    using column by (simp add: column_def vk_drop_def)
qed

text \<open>A creation on the device that is exact in every state.\<close>

lemma column_creates:
  assumes "\<And>s. vk_wf s \<Longrightarrow> exact_creation ok objs refs d s (m s)"
    and "\<And>x. ok x \<Longrightarrow> handle_ok (mk x) \<and> handle_objects (mk x) = objs x \<and> handle_refs (mk x) = refs x"
  shows "resource_ledger.creates (column s0 rest g tag mk) (on_vk m)"
  unfolding columns.creates_def
proof (intro allI impI)
  fix R f and w :: "'f world"
  assume column: "column s0 rest g tag mk R f w"
  obtain r s' where m: "m (w_vk w) = (r, s')" by fastforce
  let ?h = "\<lambda>i. if i \<in> range tag then mk (the (f (inv tag i))) else g i"
  have tag: "inj tag" "rest \<inter> range tag = {}" and held: "holds s0 (rest \<union> tag ` R) ?h (w_vk w)"
    using column by (simp_all add: column_def)
  have exact: "exact_creation ok objs refs d (w_vk w) (r, s')"
    using assms(1) [OF holds_wf [OF held]] m by simp
  note new = holds_creation [OF held exact assms(2)]
  show "case on_vk m w of
      (Inl e, w') \<Rightarrow> column s0 rest g tag mk R f w'
    | (Inr a, w') \<Rightarrow> \<forall>r. r \<notin> R \<longrightarrow> column s0 rest g tag mk (insert r R) (f(r \<mapsto> a)) w'"
  proof (cases r)
    case (Inl e)
    then show ?thesis using new column by (simp add: on_vk_def m column_def)
  next
    case (Inr a)
    have "column s0 rest g tag mk (insert q R) (f(q \<mapsto> a)) (w\<lparr>w_vk := s'\<rparr>)" if q: "q \<notin> R" for q
    proof -
      have "tag q \<notin> rest \<union> tag ` R" using q tag by (auto dest: injD)
      then have "holds s0 (insert (tag q) (rest \<union> tag ` R)) (?h(tag q := mk a)) s'"
        using new Inr by simp
      then have "holds s0 (insert (tag q) (rest \<union> tag ` R))
          (\<lambda>i. if i \<in> range tag then mk (the ((f(q \<mapsto> a)) (inv tag i))) else g i) s'"
        by (rule holds_cong) (auto simp: inv_f_f [OF tag(1)] inj_eq [OF tag(1)])
      moreover have "insert (tag q) (rest \<union> tag ` R) = rest \<union> tag ` insert q R" by auto
      ultimately have "holds s0 (rest \<union> tag ` insert q R)
          (\<lambda>i. if i \<in> range tag then mk (the ((f(q \<mapsto> a)) (inv tag i))) else g i) s'"
        by (simp only:)
      moreover have "w_vk (w\<lparr>w_vk := s'\<rparr>) = s'" by simp
      ultimately show ?thesis using column unfolding column_def by (simp only: simp_thms)
    qed
    then show ?thesis using Inr by (simp add: on_vk_def m)
  qed
qed

lemma column_same:
  "column s0 rest g tag mk R f w \<Longrightarrow> gained (w_vk w) {} {} (w_vk w') \<Longrightarrow> column s0 rest g tag mk R f w'"
  unfolding column_def by (auto elim!: holds_same)

lemma column_keeps:
  assumes "\<And>w. vk_wf (w_vk w) \<Longrightarrow> gained (w_vk w) {} {} (w_vk (snd (m w)))"
  shows "resource_ledger.keeps (column s0 rest g tag mk) m"
  unfolding columns.keeps_def
  using assms column_same holds_wf unfolding column_def by blast

section \<open>What an importer owns\<close>

datatype resource_id =
    Rgba_pipeline_id
  | Planar_pipeline_id
  | Packed_pipeline_id
  | Nv12_source_id nat
  | Packed_source_id nat
  | Nv12_slot_id nat
  | Packed_slot_id nat
  | Scanout_id image_allocation

definition pipeline_ids :: "importer \<Rightarrow> resource_id set" where
  "pipeline_ids im =
     (if im_rgba_compute im = None then {} else {Rgba_pipeline_id}) \<union>
     (if im_planar_compute im = None then {} else {Planar_pipeline_id}) \<union>
     (if im_packed_compute im = None then {} else {Packed_pipeline_id})"

definition resource_ids :: "importer \<Rightarrow> image_allocation set \<Rightarrow> resource_id set" where
  "resource_ids im scanouts =
     pipeline_ids im \<union> Nv12_source_id ` cached_resources (im_nv12_cache im) \<union>
     Packed_source_id ` cached_resources (im_packed_cache im) \<union>
     Nv12_slot_id ` pool_resources (im_nv12_pool im) \<union>
     Packed_slot_id ` pool_resources (im_packed_pool im) \<union> Scanout_id ` scanouts"

fun resource_handle :: "importer \<Rightarrow> resource_id \<Rightarrow> handle" where
  "resource_handle im Rgba_pipeline_id = Pipeline_handle (the (im_rgba_compute im))"
| "resource_handle im Planar_pipeline_id = Pipeline_handle (the (im_planar_compute im))"
| "resource_handle im Packed_pipeline_id = Pipeline_handle (the (im_packed_compute im))"
| "resource_handle im (Nv12_source_id r) = Nv12_source_handle (the (sc_allocation (im_nv12_cache im) r))"
| "resource_handle im (Packed_source_id r) =
     Packed_source_handle (fst (the (sc_allocation (im_packed_cache im) r)))"
| "resource_handle im (Nv12_slot_id r) = Staged_slot_handle (the (op_resources (im_nv12_pool im) r))"
| "resource_handle im (Packed_slot_id r) = Packed_slot_handle (the (op_resources (im_packed_pool im) r))"
| "resource_handle im (Scanout_id a) = Image_handle a"

definition device_ok :: "vk_state \<Rightarrow> importer \<Rightarrow> image_allocation set \<Rightarrow> 'f world \<Rightarrow> bool" where
  "device_ok s0 im scanouts w \<longleftrightarrow>
     vk_wf s0 \<and> holds s0 (resource_ids im scanouts) (resource_handle im) (w_vk w)"

lemma device_ok_same:
  "device_ok s0 im X w \<Longrightarrow> gained (w_vk w) {} {} (w_vk w') \<Longrightarrow> device_ok s0 im X w'"
  unfolding device_ok_def by (auto elim!: holds_same)

lemma device_ok_frame:
  assumes "device_ok s0 im X w" and "w_vk w' = w_vk w" and "resource_ids im' X = resource_ids im X"
    and "\<And>i. i \<in> resource_ids im X \<Longrightarrow> resource_handle im' i = resource_handle im i"
  shows "device_ok s0 im' X w'"
  using assms unfolding device_ok_def by (auto elim!: holds_cong)

section \<open>Creations\<close>

lemma handle_drops [simp]:
  "handle_drop (Nv12_source_handle x) = nv12_source_drop x"
  "handle_drop (Packed_source_handle y) = packed_source_drop y"
  "handle_drop (Staged_slot_handle z) = staged_output_slot_drop z"
  "handle_drop (Packed_slot_handle p) = packed_output_slot_drop p"
  "handle_drop (Image_handle a) = image_allocation_drop a"
  by (rule ext, simp)+

lemma exact_creation_wrap:
  assumes "exact_creation ok objs refs d s (m s)"
    and "\<And>x. ok x \<Longrightarrow> ok' (F x) \<and> objs' (F x) = objs x \<and> refs' (F x) = refs x"
    and "\<And>x. d' (F x) = d x"
  shows "exact_creation ok' objs' refs' d' s (io_bind m (\<lambda>x. io_return (F x)) s)"
  using assms by (cases "m s") (auto simp: exact_creation_def io_bind_def io_return_def split: sum.splits)

lemma create_direct_image_exact:
  assumes "vk_wf s"
  shows "exact_creation image_ok image_objects image_refs image_allocation_drop s
    (create_direct_image driver dims fd modifier planes fmt usage size_bound s)"
  by (rule images.created [OF create_direct_image_owes assms, of "{}"]) simp

lemma create_direct_nv12_source_exact:
  assumes "vk_wf s"
  shows "exact_creation nv12_source_ok nv12_source_objects nv12_source_refs nv12_source_drop s
    (create_direct_nv12_source env dims fd layout usage s)"
  unfolding create_direct_nv12_source_def
  by (rule exact_creation_wrap, rule create_direct_image_exact [OF assms]) (simp_all add: fun_eq_iff)

lemma create_cached_nv12_source_exact:
  assumes "vk_wf s"
  shows "exact_creation nv12_source_ok nv12_source_objects nv12_source_refs nv12_source_drop s
    (create_cached_nv12_source driver fd span size_bound strategy s)"
  by (rule nv12_sources.created [OF create_cached_nv12_source_owes assms, of "{}"]) simp

lemma create_packed_source_exact:
  assumes "vk_wf s"
  shows "exact_creation (packed_source_ok \<circ> fst) (packed_source_objects \<circ> fst) (packed_source_refs \<circ> fst)
    (packed_source_drop \<circ> fst) s (create_packed_source env request strategy s)"
proof -
  let ?exact = "exact_creation packed_source_ok packed_source_objects packed_source_refs packed_source_drop s"
  have direct: "?exact (io_bind (create_direct_image (env_driver env) (pi_dimensions request)
      (pi_source_fd request) (pi_modifier request) [pi_plane request] (packed_vk_format (pi_format request))
      DIRECT_PACKED_USAGE (Some (pi_source_size request))) (\<lambda>x. io_return (Packed_source_direct x)) s)"
    by (rule exact_creation_wrap, rule create_direct_image_exact [OF assms]) (simp_all add: fun_eq_iff)
  have staged: "?exact (create_cached_packed_staged_source (env_driver env) (pi_source_fd request)
      (pi_source_size request) s)"
    by (rule packed_sources.created [OF create_cached_packed_staged_source_owes assms, of "{}"]) simp
  have "?exact ((case strategy of
      Packed_DirectSampledImage \<Rightarrow> io_bind (create_direct_image (env_driver env) (pi_dimensions request)
        (pi_source_fd request) (pi_modifier request) [pi_plane request] (packed_vk_format (pi_format request))
        DIRECT_PACKED_USAGE (Some (pi_source_size request))) (\<lambda>x. io_return (Packed_source_direct x))
    | LinearBufferToOptimalBgra \<Rightarrow> create_cached_packed_staged_source (env_driver env)
        (pi_source_fd request) (pi_source_size request)) s)"
    using direct staged by (cases strategy) simp_all
  then show ?thesis unfolding create_packed_source_def by (rule exact_creation_wrap) simp_all
qed

lemma create_staged_output_slot_exact:
  assumes "\<And>i. \<not> dr_empty driver i" and "vk_wf s"
  shows "exact_creation staged_slot_ok staged_slot_objects staged_slot_refs staged_output_slot_drop s
    (create_staged_output_slot driver dims strategy pipeline view s)"
  by (rule staged_slots.created [OF create_staged_output_slot_owes [OF assms(1)] assms(2), of "{}"]) simp

lemma create_packed_output_slot_exact:
  assumes "vk_wf s"
  shows "exact_creation packed_slot_ok packed_slot_objects packed_slot_refs packed_output_slot_drop s
    (create_packed_output_slot driver dims pipeline view s)"
  by (rule packed_slots.created [OF create_packed_output_slot_owes assms, of "{}"]) simp

lemma update_staged_keeps:
  "vk_wf s \<Longrightarrow> gained s {} {} (snd (update_staged_descriptor_set slot view s))"
  by (auto simp: update_staged_descriptor_set_def bind_views_def gained_bindings gained_refl
      split: slot_images.split option.split)

lemma update_packed_keeps: "vk_wf s \<Longrightarrow> gained s {} {} (update_packed_descriptor_set slot view s)"
  by (simp add: update_packed_descriptor_set_def bind_views_def gained_bindings gained_refl)

section \<open>The columns of an importer\<close>

lemma device_column:
  assumes "inj tag" and "resource_ids im' X = resource_ids im X - range tag \<union> tag ` R"
    and "\<And>r. resource_handle im' (tag r) = mk (the (f r))"
    and "\<And>i. i \<notin> range tag \<Longrightarrow> resource_handle im' i = resource_handle im i"
  shows "device_ok s0 im' X w = column s0 (resource_ids im X - range tag) (resource_handle im) tag mk R f w"
proof (cases "vk_wf s0")
  case True
  have "column s0 (resource_ids im X - range tag) (resource_handle im) tag mk R f w =
      holds s0 (resource_ids im X - range tag \<union> tag ` R) (resource_handle im') (w_vk w)"
    by (rule column_eq) (use True assms in auto)
  then show ?thesis using True by (simp add: device_ok_def assms(2))
qed (simp add: device_ok_def column_def)

lemma resource_ids_split:
  "resource_ids (im\<lparr>im_nv12_cache := nv12_cache\<rparr>) X =
     resource_ids im X - range Nv12_source_id \<union> Nv12_source_id ` cached_resources nv12_cache"
  "resource_ids (im\<lparr>im_packed_cache := packed_cache\<rparr>) X =
     resource_ids im X - range Packed_source_id \<union> Packed_source_id ` cached_resources packed_cache"
  "resource_ids (im\<lparr>im_nv12_pool := nv12_pool\<rparr>) X =
     resource_ids im X - range Nv12_slot_id \<union> Nv12_slot_id ` pool_resources nv12_pool"
  "resource_ids (im\<lparr>im_packed_pool := packed_pool\<rparr>) X =
     resource_ids im X - range Packed_slot_id \<union> Packed_slot_id ` pool_resources packed_pool"
  by (auto simp: resource_ids_def pipeline_ids_def)

lemma resource_handle_split:
  "i \<notin> range Nv12_source_id \<Longrightarrow> resource_handle (im\<lparr>im_nv12_cache := nv12_cache\<rparr>) i = resource_handle im i"
  "i \<notin> range Packed_source_id \<Longrightarrow>
   resource_handle (im\<lparr>im_packed_cache := packed_cache\<rparr>) i = resource_handle im i"
  "i \<notin> range Nv12_slot_id \<Longrightarrow> resource_handle (im\<lparr>im_nv12_pool := nv12_pool\<rparr>) i = resource_handle im i"
  "i \<notin> range Packed_slot_id \<Longrightarrow>
   resource_handle (im\<lparr>im_packed_pool := packed_pool\<rparr>) i = resource_handle im i"
  by (cases i; simp)+

lemma nv12_source_column:
  "device_ok s0 (im\<lparr>im_nv12_cache := cache\<rparr>) X w =
   column s0 (resource_ids im X - range Nv12_source_id) (resource_handle im) Nv12_source_id
     Nv12_source_handle (cached_resources cache) (sc_allocation cache) w"
  by (rule device_column) (simp_all add: resource_ids_split resource_handle_split inj_on_def)

lemma packed_source_column:
  "device_ok s0 (im\<lparr>im_packed_cache := cache\<rparr>) X w =
   column s0 (resource_ids im X - range Packed_source_id) (resource_handle im) Packed_source_id
     (\<lambda>a. Packed_source_handle (fst a)) (cached_resources cache) (sc_allocation cache) w"
  by (rule device_column) (simp_all add: resource_ids_split resource_handle_split inj_on_def)

lemma nv12_slot_column:
  "device_ok s0 (im\<lparr>im_nv12_pool := pool\<rparr>) X w =
   column s0 (resource_ids im X - range Nv12_slot_id) (resource_handle im) Nv12_slot_id
     Staged_slot_handle (pool_resources pool) (op_resources pool) w"
  by (rule device_column) (simp_all add: resource_ids_split resource_handle_split inj_on_def)

lemma packed_slot_column:
  "device_ok s0 (im\<lparr>im_packed_pool := pool\<rparr>) X w =
   column s0 (resource_ids im X - range Packed_slot_id) (resource_handle im) Packed_slot_id
     Packed_slot_handle (pool_resources pool) (op_resources pool) w"
  by (rule device_column) (simp_all add: resource_ids_split resource_handle_split inj_on_def)

lemmas importer_columns = nv12_source_column packed_source_column nv12_slot_column packed_slot_column

section \<open>Scanouts\<close>

lemma resource_ids_insert: "resource_ids im (insert a X) = insert (Scanout_id a) (resource_ids im X)"
  by (auto simp: resource_ids_def)

lemma resource_ids_remove: "resource_ids im (X - {a}) = resource_ids im X - {Scanout_id a}"
  by (auto simp: resource_ids_def pipeline_ids_def)

lemma device_ok_scanout_created:
  assumes "device_ok s0 im X w"
    and "on_vk (create_direct_image driver dims fd modifier planes fmt usage size_bound) w = (result, w')"
  shows "case result of Inl e \<Rightarrow> device_ok s0 im X w' | Inr a \<Rightarrow> a \<notin> X \<and> device_ok s0 im (insert a X) w'"
proof -
  obtain r s' where m: "create_direct_image driver dims fd modifier planes fmt usage size_bound (w_vk w) = (r, s')"
    by fastforce
  have r: "result = r" "w' = w\<lparr>w_vk := s'\<rparr>" using assms(2) by (simp_all add: on_vk_def m)
  have held: "holds s0 (resource_ids im X) (resource_handle im) (w_vk w)" and wf: "vk_wf s0"
    using assms(1) by (simp_all add: device_ok_def)
  have exact: "exact_creation image_ok image_objects image_refs image_allocation_drop (w_vk w) (r, s')"
    using create_direct_image_exact [OF holds_wf [OF held], of driver dims fd modifier planes fmt usage size_bound] m
    by simp
  note new = holds_creation [OF held exact, of Image_handle]
  show ?thesis
  proof (cases r)
    case (Inl e)
    then show ?thesis using new wf by (simp add: r device_ok_def)
  next
    case (Inr a)
    then have "gained (w_vk w) (image_objects a) (image_refs a) s'"
      using exact by (simp add: exact_creation_def)
    then have "vs_live (w_vk w) \<inter> image_objects a = {}" by (simp add: gained_def)
    moreover have "image_objects a \<subseteq> vs_live (w_vk w)" if "a \<in> X"
    proof -
      have "Scanout_id a \<in> resource_ids im X" using that by (simp add: resource_ids_def)
      then show ?thesis using held unfolding holds_def gained_def by fastforce
    qed
    ultimately have fresh: "a \<notin> X" by (auto simp: image_objects_def)
    then have "Scanout_id a \<notin> resource_ids im X" by (auto simp: resource_ids_def pipeline_ids_def)
    then have "holds s0 (insert (Scanout_id a) (resource_ids im X))
        ((resource_handle im)(Scanout_id a := Image_handle a)) s'"
      using new Inr by simp
    moreover have "(resource_handle im)(Scanout_id a := Image_handle a) = resource_handle im" by (auto simp: fun_eq_iff)
    ultimately show ?thesis
      using Inr fresh wf by (simp add: r device_ok_def resource_ids_insert)
  qed
qed

lemma device_ok_scanout_dropped:
  assumes "device_ok s0 im X w" and "a \<in> X"
  shows "device_ok s0 im (X - {a}) (vk_drop (image_allocation_drop a) w)"
proof -
  have "holds s0 (resource_ids im X - {Scanout_id a}) (resource_handle im)
      (handle_drop (resource_handle im (Scanout_id a)) (w_vk w))"
    by (rule holds_dispose) (use assms in \<open>simp_all add: device_ok_def resource_ids_def\<close>)
  then show ?thesis using assms(1) by (simp add: device_ok_def resource_ids_remove vk_drop_def)
qed

section \<open>What a device has\<close>

definition resource_objects :: "importer \<Rightarrow> image_allocation set \<Rightarrow> vk_object set" where
  "resource_objects im X = (\<Union>i \<in> resource_ids im X. handle_objects (resource_handle im i))"

lemma device_ok_live:
  assumes "device_ok s0 im X w"
  shows "vs_live (w_vk w) = vs_live s0 \<union> resource_objects im X"
    and "vs_live s0 \<inter> resource_objects im X = {}" and "vs_fault (w_vk w) = vs_fault s0"
  using assms by (simp_all add: device_ok_def holds_def gained_def resource_objects_def)

lemma device_ok_disjoint:
  assumes "device_ok s0 im X w" and "i \<in> resource_ids im X" and "j \<in> resource_ids im X" and "i \<noteq> j"
  shows "handle_objects (resource_handle im i) \<inter> handle_objects (resource_handle im j) = {}"
  using assms unfolding device_ok_def holds_def by blast

end
