(* ===== verification/Importer_Safety.thy ===== *)
theory Importer_Safety
  imports Device_Ledger
begin

text \<open>
  What every operation of an importer keeps: its caches and pools are consistent, the leases in them
  are exactly those of the images alive, what a cached entry or slot contains has the type its
  strategy asks for, and the device has exactly the objects the importer and its images own.
\<close>

section \<open>Types of sources and slots\<close>

fun source_fits :: "nv12_import_strategy \<Rightarrow> nv12_source_allocation \<Rightarrow> bool" where
  "source_fits strategy (Source_direct _) \<longleftrightarrow> strategy \<in> {DirectSampledImage, DirectImageToOptimalYuvPlanes}"
| "source_fits strategy (Source_compute _ _) \<longleftrightarrow> strategy \<in> {LinearBufferToYuvPlanes, LinearBufferToRgba}"
| "source_fits strategy (Source_transfer _) \<longleftrightarrow>
     strategy \<in> {LinearBufferToOptimalNv12, LinearBufferToOptimalYuvPlanes}"

fun packed_source_fits :: "packed_import_strategy \<Rightarrow> packed_source_allocation \<Rightarrow> bool" where
  "packed_source_fits strategy (Packed_source_direct _) \<longleftrightarrow> strategy = Packed_DirectSampledImage"
| "packed_source_fits strategy (Packed_source_staged _ _) \<longleftrightarrow> strategy = LinearBufferToOptimalBgra"

fun slot_images_fit :: "nv12_import_strategy \<Rightarrow> slot_images \<Rightarrow> bool" where
  "slot_images_fit strategy (Slot_rgba _ _) \<longleftrightarrow> strategy = LinearBufferToRgba"
| "slot_images_fit strategy (Slot_planes _ _ _ _) \<longleftrightarrow> strategy = LinearBufferToYuvPlanes"
| "slot_images_fit strategy (Slot_nv12 _) \<longleftrightarrow> strategy = LinearBufferToOptimalNv12"
| "slot_images_fit strategy (Slot_transfer_planes _ _) \<longleftrightarrow>
     strategy \<in> {DirectImageToOptimalYuvPlanes, LinearBufferToOptimalYuvPlanes}"

definition slot_fits :: "nv12_import_strategy \<Rightarrow> staged_output_slot \<Rightarrow> bool" where
  "slot_fits strategy slot \<longleftrightarrow> slot_images_fit strategy (so_images slot) \<and>
     (strategy \<in> {LinearBufferToYuvPlanes, LinearBufferToRgba} \<longrightarrow> so_descriptor_set slot \<noteq> None)"

definition nv12_fits :: "(frame_topology \<times> nv12_import_strategy) cache_key \<Rightarrow> nv12_source_allocation \<Rightarrow> bool" where
  "nv12_fits key a \<longleftrightarrow> source_fits (snd (ck_layout key)) a"

definition packed_fits ::
  "packed_source_topology cache_key \<Rightarrow> packed_source_allocation \<times> packed_image_format \<Rightarrow> bool" where
  "packed_fits key a \<longleftrightarrow>
     packed_source_fits (pt_strategy (ck_layout key)) (fst a) \<and> snd a = pt_format (ck_layout key)"

text \<open>What a creation returns fits.\<close>

lemma io_bind_success:
  "io_bind m k s = (Inr b, s') \<Longrightarrow> (\<And>a s1. m s = (Inr a, s1) \<Longrightarrow> k a s1 = (Inr b, s') \<Longrightarrow> thesis) \<Longrightarrow> thesis"
  by (auto simp: io_bind_def split: prod.splits sum.splits)

lemma io_return_success: "io_return a s = (Inr b, s') \<longleftrightarrow> b = a \<and> s' = s"
  by (auto simp: io_return_def)

lemma create_cached_nv12_source_fits:
  assumes "create_cached_nv12_source driver fd span size_bound strategy s = (Inr a, s')"
  shows "source_fits strategy a"
  using assms unfolding create_cached_nv12_source_def
  by (auto split: if_splits elim!: io_bind_success simp: io_return_success)

lemma create_direct_nv12_source_fits:
  assumes "create_direct_nv12_source env dims fd layout usage s = (Inr a, s')"
    and "strategy \<in> {DirectSampledImage, DirectImageToOptimalYuvPlanes}"
  shows "source_fits strategy a"
  using assms unfolding create_direct_nv12_source_def
  by (auto elim!: io_bind_success simp: io_return_success)

lemma create_packed_source_fits:
  assumes "create_packed_source env request strategy s = (Inr a, s')"
  shows "packed_source_fits strategy (fst a) \<and> snd a = pi_format request"
  using assms unfolding create_packed_source_def create_cached_packed_staged_source_def
  by (cases strategy) (auto elim!: io_bind_success simp: io_return_success)

lemma create_transfer_images_fit:
  assumes "create_transfer_images driver dims strategy s = (Inr x, s')"
    and "strategy \<in> {DirectImageToOptimalYuvPlanes, LinearBufferToOptimalNv12, LinearBufferToOptimalYuvPlanes}"
  shows "slot_images_fit strategy x"
  using assms unfolding create_transfer_images_def
  by (auto split: if_splits elim!: io_bind_success simp: io_return_success)

lemma create_compute_images_fit:
  assumes "create_compute_images driver dims which s = (Inr x, s')" and "expected_output strategy = Inr which"
  shows "slot_images_fit strategy x"
  using assms unfolding create_compute_images_def expected_output_def
  by (auto split: nv12_import_strategy.splits compute_output.splits elim!: io_bind_success
      simp: io_return_success)

lemma create_staged_output_slot_fits:
  assumes "create_staged_output_slot driver dims strategy pipeline view s = (Inr slot, s')"
  shows "slot_fits strategy slot"
proof (cases "strategy \<in> {DirectImageToOptimalYuvPlanes, LinearBufferToOptimalNv12, LinearBufferToOptimalYuvPlanes}")
  case True
  then show ?thesis
    using assms unfolding create_staged_output_slot_def slot_fits_def
    by (auto split: if_splits elim!: io_bind_success intro: create_transfer_images_fit simp: io_return_success)
next
  case False
  then show ?thesis
    using assms unfolding create_staged_output_slot_def slot_fits_def Let_def
    by (auto split: if_splits option.splits sum.splits prod.splits elim!: io_bind_success
        intro: create_compute_images_fit simp: io_return_success)
qed

section \<open>The state between operations\<close>

text \<open>
  The leases of a table are those of a list, each once. No lease is inside a release between two
  operations; an output lease is held until it is dropped.
\<close>

definition leases_are :: "lease_table \<Rightarrow> nat list \<Rightarrow> bool" where
  "leases_are t ls \<longleftrightarrow> distinct ls \<and> dom (lt_leases t) = set ls"

definition cache_ok ::
  "('t cache_key \<Rightarrow> 'a \<Rightarrow> bool) \<Rightarrow> ('t, 'a, 'm) source_cache_scheme \<Rightarrow> nat list \<Rightarrow> bool" where
  "cache_ok fits s ls \<longleftrightarrow>
     cache_inv s \<and> entries_fit fits s \<and> leases_are (sc_table s) ls \<and>
     (\<forall>l r q. lt_leases (sc_table s) l = Some (r, q) \<longrightarrow> q \<noteq> Releasing)"

definition output_pool_ok :: "('t \<Rightarrow> 's \<Rightarrow> bool) \<Rightarrow> ('t, 's) output_pool \<Rightarrow> nat list \<Rightarrow> bool" where
  "output_pool_ok fits p ls \<longleftrightarrow>
     pool_inv p \<and> slots_fit fits p \<and> leases_are (op_table p) ls \<and>
     (\<forall>l r q. lt_leases (op_table p) l = Some (r, q) \<longrightarrow> q = Held)"

text \<open>What a set of images holds.\<close>

record holdings =
  hl_nv12_sources :: "nat list"
  hl_packed_sources :: "nat list"
  hl_nv12_outputs :: "nat list"
  hl_packed_outputs :: "nat list"
  hl_scanouts :: "image_allocation list"

definition importer_ok :: "vk_state \<Rightarrow> holdings \<Rightarrow> importer \<Rightarrow> 'f world \<Rightarrow> bool" where
  "importer_ok s0 h im w \<longleftrightarrow>
     cache_ok nv12_fits (im_nv12_cache im) (hl_nv12_sources h) \<and>
     cache_ok packed_fits (im_packed_cache im) (hl_packed_sources h) \<and>
     output_pool_ok (\<lambda>(dims, strategy). slot_fits strategy) (im_nv12_pool im) (hl_nv12_outputs h) \<and>
     output_pool_ok (\<lambda>_ _. True) (im_packed_pool im) (hl_packed_outputs h) \<and>
     distinct (hl_scanouts h) \<and> device_ok s0 im (set (hl_scanouts h)) w"

text \<open>Leases, and what they refer to, that an operation leaves alone.\<close>

definition same_sources ::
  "nat list \<Rightarrow> ('t, 'a, 'm) source_cache_scheme \<Rightarrow> ('t, 'a, 'm) source_cache_scheme \<Rightarrow> bool" where
  "same_sources ls s s' \<longleftrightarrow> (\<forall>l \<in> set ls.
     lt_leases (sc_table s') l = lt_leases (sc_table s) l \<and> leased_source l s' = leased_source l s)"

definition same_slots :: "nat list \<Rightarrow> ('t, 's) output_pool \<Rightarrow> ('t, 's) output_pool \<Rightarrow> bool" where
  "same_slots ls p p' \<longleftrightarrow> (\<forall>l \<in> set ls.
     lt_leases (op_table p') l = lt_leases (op_table p) l \<and> leased_slot l p' = leased_slot l p)"

definition same_pipelines :: "importer \<Rightarrow> importer \<Rightarrow> bool" where
  "same_pipelines im im' \<longleftrightarrow> im_rgba_compute im' = im_rgba_compute im \<and>
     im_planar_compute im' = im_planar_compute im \<and> im_packed_compute im' = im_packed_compute im"

definition undisturbed :: "holdings \<Rightarrow> importer \<Rightarrow> importer \<Rightarrow> bool" where
  "undisturbed h im im' \<longleftrightarrow>
     same_pipelines im im' \<and>
     same_sources (hl_nv12_sources h) (im_nv12_cache im) (im_nv12_cache im') \<and>
     same_sources (hl_packed_sources h) (im_packed_cache im) (im_packed_cache im') \<and>
     same_slots (hl_nv12_outputs h) (im_nv12_pool im) (im_nv12_pool im') \<and>
     same_slots (hl_packed_outputs h) (im_packed_pool im) (im_packed_pool im')"

lemmas undisturbed_defs = undisturbed_def same_pipelines_def same_sources_def same_slots_def

lemma undisturbed_refl: "undisturbed h im im"
  by (simp add: undisturbed_defs)

lemma undisturbed_trans: "undisturbed h im im1 \<Longrightarrow> undisturbed h im1 im2 \<Longrightarrow> undisturbed h im im2"
  by (simp add: undisturbed_defs)

section \<open>Claims and drops of leases\<close>

lemma leases_are_claim:
  "leases_are t ls \<Longrightarrow> one_more_lease l r t t' \<Longrightarrow> leases_are t' (ls @ [l])"
  by (auto simp: leases_are_def one_more_lease_def)

lemma leases_are_drop:
  "leases_are t (A @ l # B) \<Longrightarrow> leases_are (drop_lease l t) (A @ B)"
  by (auto simp: leases_are_def drop_lease_leases_eq)

lemma leases_are_same: "leases_are t ls \<Longrightarrow> same_leases t t' \<Longrightarrow> leases_are t' ls"
  by (simp add: leases_are_def same_leases_def)

text \<open>A claim on a cache.\<close>

lemma cache_ok_claim:
  assumes ok: "cache_ok fits s ls" and effect: "claim_effect key result s s'" and fit: "entries_fit fits s'"
  shows "same_sources ls s s'"
    and "case result of
        Inl e \<Rightarrow> cache_ok fits s' ls
      | Inr l \<Rightarrow> cache_ok fits s' (ls @ [l]) \<and> l \<notin> set ls \<and>
          (\<exists>r a. lt_leases (sc_table s') l = Some (r, Held) \<and> leased_source l s' = Some a \<and> fits key a)"
proof -
  have inv: "cache_inv s" and leases: "leases_are (sc_table s) ls"
    and phases: "\<And>l r q. lt_leases (sc_table s) l = Some (r, q) \<Longrightarrow> q \<noteq> Releasing"
    using ok by (auto simp: cache_ok_def)
  have inv': "cache_inv s'" and old: "\<And>r. r < sc_next s \<Longrightarrow> sc_allocation s' r = sc_allocation s r"
    using effect by (simp_all add: claim_effect_def)
  have range: "r < sc_next s" if "lt_leases (sc_table s) l = Some (r, q)" for l r q
    using that inv unfolding cache_inv_def by fastforce
  have known: "lt_leases (sc_table s) l \<noteq> None" if "l \<in> set ls" for l
    using leases that unfolding leases_are_def by blast
  have kept: "same_sources ls s s'" if "\<And>l. l \<in> set ls \<Longrightarrow> lt_leases (sc_table s') l = lt_leases (sc_table s) l"
    unfolding same_sources_def leased_source_def lease_resource_def
  proof (intro ballI conjI that)
    fix l assume l: "l \<in> set ls"
    then obtain r q where "lt_leases (sc_table s) l = Some (r, q)" using known by fastforce
    then show "Option.bind (map_option fst (lt_leases (sc_table s') l)) (sc_allocation s') =
        Option.bind (map_option fst (lt_leases (sc_table s) l)) (sc_allocation s)"
      using that [OF l] old range by simp
  qed
  have both: "same_sources ls s s' \<and> (case result of
        Inl e \<Rightarrow> cache_ok fits s' ls
      | Inr l \<Rightarrow> cache_ok fits s' (ls @ [l]) \<and> l \<notin> set ls \<and>
          (\<exists>r a. lt_leases (sc_table s') l = Some (r, Held) \<and> leased_source l s' = Some a \<and> fits key a))"
  proof (cases result)
    case (Inl e)
    then have same: "lt_leases (sc_table s') = lt_leases (sc_table s)"
      using effect by (simp add: claim_effect_def same_leases_def)
    then have "cache_ok fits s' ls"
      using inv' fit leases phases by (auto simp: cache_ok_def leases_are_def)
    then show ?thesis using kept same Inl by simp
  next
    case (Inr l)
    then obtain r where r: "(key, r) \<in> set (sc_entries s')" "one_more_lease l r (sc_table s) (sc_table s')"
      using effect by (auto simp: claim_effect_def)
    then have new: "lt_leases (sc_table s) l = None" "lt_leases (sc_table s') = (lt_leases (sc_table s))(l \<mapsto> (r, Held))"
      by (simp_all add: one_more_lease_def)
    then have fresh: "l \<notin> set ls" using known by blast
    obtain a where a: "sc_allocation s' r = Some a" "fits key a" using entries_fitD [OF fit r(1)] by blast
    have "cache_ok fits s' (ls @ [l])"
      using inv' fit leases_are_claim [OF leases r(2)] phases by (auto simp: cache_ok_def new(2))
    moreover have "same_sources ls s s'" using fresh by (intro kept) (auto simp: new(2))
    ultimately show ?thesis using Inr fresh a by (simp add: new(2) leased_source_def lease_resource_def)
  qed
  then show "same_sources ls s s'" by (rule conjunct1)
  show "case result of
        Inl e \<Rightarrow> cache_ok fits s' ls
      | Inr l \<Rightarrow> cache_ok fits s' (ls @ [l]) \<and> l \<notin> set ls \<and>
          (\<exists>r a. lt_leases (sc_table s') l = Some (r, Held) \<and> leased_source l s' = Some a \<and> fits key a)"
    using both by (rule conjunct2)
qed

text \<open>A claim on a pool.\<close>

lemma pool_ok_claim:
  assumes ok: "output_pool_ok fits p ls" and effect: "pool_effect tag result p p'" and fit: "slots_fit fits p'"
  shows "same_slots ls p p'"
    and "case result of
        Inl e \<Rightarrow> output_pool_ok fits p' ls
      | Inr l \<Rightarrow> output_pool_ok fits p' (ls @ [l]) \<and> l \<notin> set ls \<and>
          (\<exists>x. leased_slot l p' = Some x \<and> fits tag x)"
proof -
  have inv: "pool_inv p" and leases: "leases_are (op_table p) ls"
    and phases: "\<And>l r q. lt_leases (op_table p) l = Some (r, q) \<Longrightarrow> q = Held"
    using ok by (auto simp: output_pool_ok_def)
  have inv': "pool_inv p'" and old: "\<And>r. r < op_next p \<Longrightarrow> op_resources p' r = op_resources p r"
    using effect by (simp_all add: pool_effect_def)
  have range: "r < op_next p" if "lt_leases (op_table p) l = Some (r, q)" for l r q
    using that inv unfolding pool_inv_def by blast
  have known: "lt_leases (op_table p) l \<noteq> None" if "l \<in> set ls" for l
    using leases that unfolding leases_are_def by blast
  have kept: "same_slots ls p p'" if "\<And>l. l \<in> set ls \<Longrightarrow> lt_leases (op_table p') l = lt_leases (op_table p) l"
    unfolding same_slots_def leased_slot_def lease_resource_def
  proof (intro ballI conjI that)
    fix l assume l: "l \<in> set ls"
    then obtain r q where "lt_leases (op_table p) l = Some (r, q)" using known by fastforce
    then show "Option.bind (map_option fst (lt_leases (op_table p') l)) (op_resources p') =
        Option.bind (map_option fst (lt_leases (op_table p) l)) (op_resources p)"
      using that [OF l] old range by simp
  qed
  have both: "same_slots ls p p' \<and> (case result of
        Inl e \<Rightarrow> output_pool_ok fits p' ls
      | Inr l \<Rightarrow> output_pool_ok fits p' (ls @ [l]) \<and> l \<notin> set ls \<and> (\<exists>x. leased_slot l p' = Some x \<and> fits tag x))"
  proof (cases result)
    case (Inl e)
    then have same: "lt_leases (op_table p') = lt_leases (op_table p)"
      using effect by (simp add: pool_effect_def same_leases_def)
    then have "output_pool_ok fits p' ls"
      using inv' fit leases phases by (auto simp: output_pool_ok_def leases_are_def)
    then show ?thesis using kept same Inl by simp
  next
    case (Inr l)
    then obtain r where r: "(tag, r) \<in> set (op_slots p')" "one_more_lease l r (op_table p) (op_table p')"
      using effect by (auto simp: pool_effect_def)
    then have new: "lt_leases (op_table p) l = None" "lt_leases (op_table p') = (lt_leases (op_table p))(l \<mapsto> (r, Held))"
      by (simp_all add: one_more_lease_def)
    then have fresh: "l \<notin> set ls" using known by blast
    obtain x where x: "op_resources p' r = Some x" "fits tag x" using slots_fitD [OF fit r(1)] by blast
    have "output_pool_ok fits p' (ls @ [l])"
      using inv' fit leases_are_claim [OF leases r(2)] phases by (auto simp: output_pool_ok_def new(2))
    moreover have "same_slots ls p p'" using fresh by (intro kept) (auto simp: new(2))
    ultimately show ?thesis using Inr fresh x by (simp add: new(2) leased_slot_def lease_resource_def)
  qed
  then show "same_slots ls p p'" by (rule conjunct1)
  show "case result of
        Inl e \<Rightarrow> output_pool_ok fits p' ls
      | Inr l \<Rightarrow> output_pool_ok fits p' (ls @ [l]) \<and> l \<notin> set ls \<and> (\<exists>x. leased_slot l p' = Some x \<and> fits tag x)"
    using both by (rule conjunct2)
qed

text \<open>The drop of a lease.\<close>

lemma leases_are_phase: "leases_are t ls \<Longrightarrow> l \<in> set ls \<Longrightarrow> \<exists>r q. lt_leases t l = Some (r, q)"
  unfolding leases_are_def by fastforce

lemma leases_are_middle: "leases_are t (A @ l # B) \<Longrightarrow> l \<notin> set (A @ B)"
  by (auto simp: leases_are_def)

lemma cache_ok_drop:
  assumes ok: "cache_ok fits s (A @ l # B)"
  shows "cache_ok fits (drop_source l s) (A @ B)" and "same_sources (A @ B) s (drop_source l s)"
proof -
  have leases: "leases_are (sc_table s) (A @ l # B)" and inv: "cache_inv s"
    and phases: "\<And>l r q. lt_leases (sc_table s) l = Some (r, q) \<Longrightarrow> q \<noteq> Releasing"
    using ok by (auto simp: cache_ok_def)
  have settled: "map_option snd (lt_leases (sc_table s) l) \<noteq> Some Releasing" using phases by auto
  have "cache_inv (s\<lparr>sc_table := drop_lease l (sc_table s)\<rparr>)"
    using cache_inv_lease_step [OF inv, of "Drop_lease l"] settled by simp
  then show "cache_ok fits (drop_source l s) (A @ B)"
    using ok leases_are_drop [OF leases] phases
    by (auto simp: cache_ok_def drop_source_def drop_lease_leases_eq entries_fit_def split: if_splits)
  show "same_sources (A @ B) s (drop_source l s)"
    using leases_are_middle [OF leases]
    by (auto simp: same_sources_def drop_source_def drop_lease_leases_eq leased_source_def lease_resource_def)
qed

lemma drop_output_pool: "fst (drop_output dispose l p w) = p\<lparr>op_table := drop_lease l (op_table p)\<rparr>"
  by (simp add: drop_output_def Let_def)

lemma pool_ok_drop:
  assumes ok: "output_pool_ok fits p (A @ l # B)" and step: "drop_output dispose l p w = (p', w')"
  shows "output_pool_ok fits p' (A @ B)" and "same_slots (A @ B) p p'" and "w' = w"
    and "pool_resources p' = pool_resources p" and "op_resources p' = op_resources p"
proof -
  have p': "p' = p\<lparr>op_table := drop_lease l (op_table p)\<rparr>" using drop_output_pool [of dispose l p w] step by simp
  have leases: "leases_are (op_table p) (A @ l # B)" and inv: "pool_inv p"
    and phases: "\<And>l r q. lt_leases (op_table p) l = Some (r, q) \<Longrightarrow> q = Held"
    using ok by (auto simp: output_pool_ok_def)
  have settled: "map_option snd (lt_leases (op_table p) l) \<noteq> Some Releasing" using phases by auto
  have "pool_inv p'"
    using pool_inv_lease_step [OF inv, of "Drop_lease l"] settled by (simp add: p')
  then show "output_pool_ok fits p' (A @ B)"
    using ok leases_are_drop [OF leases] phases
    by (auto simp: output_pool_ok_def p' drop_lease_leases_eq slots_fit_def split: if_splits)
  show "same_slots (A @ B) p p'"
    using leases_are_middle [OF leases]
    by (auto simp: same_slots_def p' drop_lease_leases_eq leased_slot_def lease_resource_def)
  have inside: "leased_resources (op_table p) \<subseteq> snd ` set (op_slots p)"
    using inv phases unfolding pool_inv_def leased_resources_def by fastforce
  obtain r q where r: "lt_leases (op_table p) l = Some (r, q)" using leases_are_phase [OF leases, of l] by auto
  then have "r \<in> snd ` set (op_slots p)" using inside by (auto simp: leased_resources_def)
  then show "w' = w" using step r by (auto simp: drop_output_def Let_def lease_resource_def)
  have "leased_resources (op_table p') \<subseteq> leased_resources (op_table p)"
    by (auto simp: p' leased_resources_def drop_lease_leases_eq)
  then show "pool_resources p' = pool_resources p" using inside by (auto simp: pool_resources_def p')
  show "op_resources p' = op_resources p" by (simp add: p')
qed

text \<open>The release of a source before its image is dropped.\<close>

lemma release_lease_leases:
  "lt_leases (snd (release_lease l t)) =
     (case lt_leases t l of Some (r, Held) \<Rightarrow> (lt_leases t)(l \<mapsto> (r, Released)) | _ \<Rightarrow> lt_leases t)"
  by (auto simp: release_lease_def release_swap_def release_clear_def split: option.split lease_phase.split)

lemma cache_ok_release:
  assumes ok: "cache_ok fits s ls" and step: "release_source l s = (done, s')"
  shows "cache_ok fits s' ls" and "same_sources (removeAll l ls) s s'"
    and "leased_source k s' = leased_source k s" and "cached_resources s' = cached_resources s"
    and "sc_allocation s' = sc_allocation s"
proof -
  let ?t = "snd (release_lease l (sc_table s))"
  have s': "s' = s\<lparr>sc_table := ?t\<rparr>" using step by (auto simp: release_source_def split: prod.splits)
  have inv: "cache_inv s" and leases: "leases_are (sc_table s) ls"
    and phases: "\<And>l r q. lt_leases (sc_table s) l = Some (r, q) \<Longrightarrow> q \<noteq> Releasing"
    using ok by (auto simp: cache_ok_def)
  have "cache_inv (s\<lparr>sc_table := snd (lease_step op (sc_table s))\<rparr>)" for op
    by (rule cache_inv_lease_step [OF inv])
  note swap = this [of "Release_swap l"]
  have "cache_inv (s\<lparr>sc_table := snd (release_clear l (snd (release_swap l (sc_table s))))\<rparr>)"
    using cache_inv_lease_step [OF swap, of "Release_clear l"] by simp
  then have inv': "cache_inv s'"
    using inv by (auto simp: s' release_lease_def release_swap_def split: prod.splits option.splits lease_phase.splits bool.splits)
  show "cache_ok fits s' ls"
    using ok inv' phases
    by (auto simp: cache_ok_def s' release_lease_leases entries_fit_def leases_are_def
        split: option.splits lease_phase.splits if_splits)
  show "same_sources (removeAll l ls) s s'"
    by (auto simp: same_sources_def s' release_lease_leases leased_source_def lease_resource_def
        split: option.splits lease_phase.splits)
  show "leased_source k s' = leased_source k s"
    by (auto simp: s' release_lease_leases leased_source_def lease_resource_def
        split: option.splits lease_phase.splits)
  show "cached_resources s' = cached_resources s" and "sc_allocation s' = sc_allocation s"
    by (simp_all add: s' cached_resources_def)
qed

text \<open>The eviction of a stream.\<close>

lemma cache_ok_evict:
  assumes ok: "cache_ok fits s ls" and step: "evict_nv12_stream stream s = (result, s')"
  shows "cache_ok fits s' ls" and "same_sources ls s s'" and "set (sc_entries s') \<subseteq> set (sc_entries s)"
    and "sc_allocation s' = sc_allocation s"
proof -
  have "cache_inv (snd (evict_nv12_stream stream s))"
    using ok by (intro evict_nv12_stream_inv) (simp add: cache_ok_def)
  then have inv: "cache_inv s'" by (simp add: step)
  have frame: "sc_table s' = sc_table s" "sc_allocation s' = sc_allocation s" "set (sc_entries s') \<subseteq> set (sc_entries s)"
    using step by (auto simp: evict_nv12_stream_def evict_stream_def Let_def)
  then show "cache_ok fits s' ls"
    using ok inv entries_fit_subset [OF _ frame(3,2)] by (auto simp: cache_ok_def)
  show "same_sources ls s s'" by (simp add: same_sources_def frame leased_source_def)
  show "set (sc_entries s') \<subseteq> set (sc_entries s)" and "sc_allocation s' = sc_allocation s" by (fact frame)+
qed

section \<open>Claims of an importer\<close>

definition add_nv12_source :: "nat \<Rightarrow> holdings \<Rightarrow> holdings" where
  "add_nv12_source l h = h\<lparr>hl_nv12_sources := hl_nv12_sources h @ [l]\<rparr>"

definition add_packed_source :: "nat \<Rightarrow> holdings \<Rightarrow> holdings" where
  "add_packed_source l h = h\<lparr>hl_packed_sources := hl_packed_sources h @ [l]\<rparr>"

definition add_nv12_output :: "nat \<Rightarrow> holdings \<Rightarrow> holdings" where
  "add_nv12_output l h = h\<lparr>hl_nv12_outputs := hl_nv12_outputs h @ [l]\<rparr>"

definition add_packed_output :: "nat \<Rightarrow> holdings \<Rightarrow> holdings" where
  "add_packed_output l h = h\<lparr>hl_packed_outputs := hl_packed_outputs h @ [l]\<rparr>"

lemmas holdings_defs = add_nv12_source_def add_packed_source_def add_nv12_output_def add_packed_output_def

text \<open>What a lease refers to, by type; a source can be released while its image lives.\<close>

definition nv12_source_is :: "lease_phase set \<Rightarrow> nv12_import_strategy \<Rightarrow> nat \<Rightarrow> importer \<Rightarrow> bool" where
  "nv12_source_is phases strategy l im \<longleftrightarrow> (\<exists>r q a. lt_leases (sc_table (im_nv12_cache im)) l = Some (r, q) \<and>
     q \<in> phases \<and> leased_source l (im_nv12_cache im) = Some a \<and> source_fits strategy a)"

definition packed_source_is :: "lease_phase set \<Rightarrow> packed_import_strategy \<Rightarrow> nat \<Rightarrow> importer \<Rightarrow> bool" where
  "packed_source_is phases strategy l im \<longleftrightarrow> (\<exists>r q a. lt_leases (sc_table (im_packed_cache im)) l = Some (r, q) \<and>
     q \<in> phases \<and> leased_source l (im_packed_cache im) = Some a \<and> packed_source_fits strategy (fst a))"

definition nv12_output_is :: "nv12_import_strategy \<Rightarrow> nat \<Rightarrow> importer \<Rightarrow> bool" where
  "nv12_output_is strategy l im \<longleftrightarrow> (\<exists>x. leased_slot l (im_nv12_pool im) = Some x \<and> slot_fits strategy x)"

definition packed_output_is :: "nat \<Rightarrow> importer \<Rightarrow> bool" where
  "packed_output_is l im \<longleftrightarrow> leased_slot l (im_packed_pool im) \<noteq> None"

lemmas lease_kinds = nv12_source_is_def packed_source_is_def nv12_output_is_def packed_output_is_def

text \<open>The outcome of a claim: an error changes nothing that is held, a success adds one lease.\<close>

definition claim_ok ::
  "vk_state \<Rightarrow> holdings \<Rightarrow> importer \<Rightarrow> (nat \<Rightarrow> holdings \<Rightarrow> holdings) \<Rightarrow> (nat \<Rightarrow> importer \<Rightarrow> bool) \<Rightarrow>
   ('e + nat) \<Rightarrow> importer \<Rightarrow> 'f world \<Rightarrow> bool" where
  "claim_ok s0 h im add kind result im' w' \<longleftrightarrow>
     undisturbed h im im' \<and>
     (case result of
        Inl e \<Rightarrow> importer_ok s0 h im' w'
      | Inr l \<Rightarrow> importer_ok s0 (add l h) im' w' \<and> kind l im')"

lemma claim_ok_error: "importer_ok s0 h im w' \<Longrightarrow> claim_ok s0 h im add kind (Inl e) im w'"
  by (simp add: claim_ok_def undisturbed_refl)

lemma claim_ok_map_err [simp]: "claim_ok s0 h im add kind (map_err f result) = claim_ok s0 h im add kind result"
  by (cases result) (simp_all add: claim_ok_def fun_eq_iff)

lemma entries_fit_allocated: "entries_fit fits s \<Longrightarrow> all_allocated s"
  unfolding all_allocated_def cached_resources_def using entries_fitD by fastforce

lemma verified_identity_device:
  assumes "verified_dmabuf_identity (\<lambda>fd. on_files (probe fd)) fd size_bound w = (r, w')"
  shows "w_vk w' = w_vk w"
  using assms by (auto simp: verified_dmabuf_identity_def on_files_def split: if_splits prod.splits sum.splits)

lemma importer_ok_files: "importer_ok s0 h im w \<Longrightarrow> w_vk w' = w_vk w \<Longrightarrow> importer_ok s0 h im w'"
  by (simp add: importer_ok_def device_ok_def)

lemma claim_cached_nv12_ok:
  assumes ok: "importer_ok s0 h im w"
    and exact: "\<And>s. vk_wf s \<Longrightarrow>
      exact_creation nv12_source_ok nv12_source_objects nv12_source_refs nv12_source_drop s (create s)"
    and fits: "\<And>s a s'. create s = (Inr a, s') \<Longrightarrow> source_fits (snd (ck_layout key)) a"
    and step: "claim_cached key (on_vk create) (\<lambda>a. vk_drop (nv12_source_drop a)) [] [] (im_nv12_cache im, w) =
      (result, cache, w')"
  shows "claim_ok s0 h im add_nv12_source (nv12_source_is {Held} (snd (ck_layout key))) result
    (im\<lparr>im_nv12_cache := cache\<rparr>) w'"
proof -
  let ?im = "im\<lparr>im_nv12_cache := cache\<rparr>" and ?X = "set (hl_scanouts h)"
  let ?owns = "column s0 (resource_ids im ?X - range Nv12_source_id) (resource_handle im) Nv12_source_id Nv12_source_handle
    :: nat set \<Rightarrow> (nat \<Rightarrow> nv12_source_allocation option) \<Rightarrow> 'a world \<Rightarrow> bool"
  have cache: "cache_ok nv12_fits (im_nv12_cache im) (hl_nv12_sources h)" using ok by (simp add: importer_ok_def)
  then have inv: "cache_inv (im_nv12_cache im)" and fit: "entries_fit nv12_fits (im_nv12_cache im)"
    by (simp_all add: cache_ok_def)
  note effect = claim_cached_effect [OF inv step]
  have fit': "entries_fit nv12_fits cache"
    by (rule effect(2) [OF fit]) (auto simp: on_vk_def nv12_fits_def split: prod.splits dest: fits)
  note claim = cache_ok_claim [OF cache effect(1) fit']
  have calm: "undisturbed h im ?im" using claim(1) by (auto simp: undisturbed_defs)
  have "device_ok s0 (im\<lparr>im_nv12_cache := im_nv12_cache im\<rparr>) ?X w" using ok by (simp add: importer_ok_def)
  then have "resource_ledger.tracks ?owns (im_nv12_cache im) w"
    unfolding columns.tracks_def nv12_source_column using entries_fit_allocated [OF fit] by blast
  moreover have "resource_ledger.creates ?owns (on_vk create)"
    by (rule column_creates [OF exact]) simp_all
  ultimately have "resource_ledger.tracks ?owns cache w'"
    by (rule columns.tracks_claim_cached [OF _ inv]) (use step in simp)
  then have "device_ok s0 ?im ?X w'"
    unfolding columns.tracks_def nv12_source_column by blast
  then show ?thesis
    using ok claim(2) calm
    by (cases result) (auto simp: importer_ok_def claim_ok_def nv12_source_is_def nv12_fits_def add_nv12_source_def)
qed

lemma claim_nv12_source_ok:
  assumes ok: "importer_ok s0 h im w"
    and exact: "\<And>s. vk_wf s \<Longrightarrow>
      exact_creation nv12_source_ok nv12_source_objects nv12_source_refs nv12_source_drop s (create s)"
    and fits: "\<And>s a s'. create s = (Inr a, s') \<Longrightarrow> source_fits strategy a"
    and step: "claim_nv12_source env stream source_fd topology strategy create im w = (result, im', w')"
  shows "claim_ok s0 h im add_nv12_source (nv12_source_is {Held} strategy) result im' w'"
proof -
  obtain answer w1 where id: "verified_dmabuf_identity (\<lambda>fd. on_files (env_probe env fd)) source_fd
      (ft_object_size topology) w = (answer, w1)" by fastforce
  have ok1: "importer_ok s0 h im w1" by (rule importer_ok_files [OF ok verified_identity_device [OF id]])
  show ?thesis
  proof (cases answer)
    case (Inl e)
    then have "im' = im" "w' = w1" "\<exists>e. result = Inl e"
      using step id by (auto simp: claim_nv12_source_def claim_cached_source_def)
    then show ?thesis using claim_ok_error [OF ok1] by auto
  next
    case (Inr identity)
    let ?key = "\<lparr>ck_stream = stream, ck_device = id_device identity, ck_inode = id_inode identity,
      ck_layout = (topology, strategy)\<rparr>"
    obtain claimed cache w2 where claim: "claim_cached ?key (on_vk create)
        (\<lambda>a. vk_drop (nv12_source_drop a)) [] [] (im_nv12_cache im, w1) = (claimed, cache, w2)"
      by (metis prod.collapse)
    have r: "result = map_err Nv12_source_failed (map_err Nv12_cache claimed)"
        "im' = im\<lparr>im_nv12_cache := cache\<rparr>" "w' = w2"
      using step id Inr claim by (simp_all add: claim_nv12_source_def claim_cached_source_def)
    have "claim_ok s0 h im add_nv12_source (nv12_source_is {Held} (snd (ck_layout ?key))) claimed
        (im\<lparr>im_nv12_cache := cache\<rparr>) w2"
      by (rule claim_cached_nv12_ok [OF ok1 exact _ claim]) (simp_all add: fits)
    then show ?thesis by (simp add: r)
  qed
qed

text \<open>The packed cache; a rejected allocation size is only counted.\<close>

lemma claim_cached_packed_ok:
  assumes ok: "importer_ok s0 h im w"
    and key: "pt_strategy (ck_layout key) = strategy" "pt_format (ck_layout key) = pi_format request"
    and step: "claim_cached key (on_vk (create_packed_source env request strategy))
      (\<lambda>a. vk_drop (packed_source_drop (fst a))) [] [] (im_packed_cache im, w) = (result, cache, w')"
  shows "claim_ok s0 h im add_packed_source (packed_source_is {Held} strategy) result
    (im\<lparr>im_packed_cache := cache\<rparr>) w'"
proof -
  let ?im = "im\<lparr>im_packed_cache := cache\<rparr>" and ?X = "set (hl_scanouts h)"
  let ?create = "create_packed_source env request strategy"
  let ?mk = "\<lambda>a :: packed_source_allocation \<times> packed_image_format. Packed_source_handle (fst a)"
  let ?owns = "column s0 (resource_ids im ?X - range Packed_source_id) (resource_handle im) Packed_source_id ?mk
    :: nat set \<Rightarrow> (nat \<Rightarrow> (packed_source_allocation \<times> packed_image_format) option) \<Rightarrow> 'a world \<Rightarrow> bool"
  have cache: "cache_ok packed_fits (im_packed_cache im) (hl_packed_sources h)" using ok by (simp add: importer_ok_def)
  then have inv: "cache_inv (im_packed_cache im)" and fit: "entries_fit packed_fits (im_packed_cache im)"
    by (simp_all add: cache_ok_def)
  note effect = claim_cached_effect [OF inv step]
  have "packed_fits key a" if "?create s = (Inr a, s')" for s a s'
    using create_packed_source_fits [OF that] key by (simp add: packed_fits_def)
  then have fit': "entries_fit packed_fits cache"
    by (intro effect(2) [OF fit]) (auto simp: on_vk_def split: prod.splits)
  note claim = cache_ok_claim [OF cache effect(1) fit']
  have calm: "undisturbed h im ?im" using claim(1) by (auto simp: undisturbed_defs)
  have "device_ok s0 (im\<lparr>im_packed_cache := im_packed_cache im\<rparr>) ?X w" using ok by (simp add: importer_ok_def)
  then have "resource_ledger.tracks ?owns (im_packed_cache im) w"
    unfolding columns.tracks_def packed_source_column using entries_fit_allocated [OF fit] by blast
  moreover have "resource_ledger.creates ?owns (on_vk ?create)"
    by (rule column_creates [OF create_packed_source_exact]) simp_all
  ultimately have "resource_ledger.tracks ?owns cache w'"
    by (rule columns.tracks_claim_cached [OF _ inv]) (use step in simp)
  then have "device_ok s0 ?im ?X w'"
    unfolding columns.tracks_def packed_source_column by blast
  then show ?thesis
    using ok claim(2) calm key(1)
    by (cases result)
      (auto simp: importer_ok_def claim_ok_def packed_source_is_def packed_fits_def add_packed_source_def)
qed

lemma importer_ok_rejected:
  assumes "importer_ok s0 h im w"
  shows "importer_ok s0 h (im\<lparr>im_packed_cache := reject_allocation_size (im_packed_cache im)\<rparr>) w"
proof -
  let ?cache = "reject_allocation_size (im_packed_cache im)"
  have same: "sc_entries ?cache = sc_entries (im_packed_cache im)" "sc_allocation ?cache = sc_allocation (im_packed_cache im)"
      "sc_table ?cache = sc_table (im_packed_cache im)" "cache_inv ?cache = cache_inv (im_packed_cache im)"
    by (simp_all add: reject_allocation_size_def cache_inv_def)
  have "device_ok s0 (im\<lparr>im_packed_cache := im_packed_cache im\<rparr>) (set (hl_scanouts h)) w"
    using assms by (simp add: importer_ok_def)
  then have "device_ok s0 (im\<lparr>im_packed_cache := ?cache\<rparr>) (set (hl_scanouts h)) w"
    unfolding packed_source_column by (simp add: cached_resources_def same)
  then show ?thesis using assms by (auto simp: importer_ok_def cache_ok_def same entries_fit_def)
qed

lemma undisturbed_rejected:
  "undisturbed h im (im\<lparr>im_packed_cache := reject_allocation_size (im_packed_cache im)\<rparr>)"
  by (auto simp: undisturbed_defs reject_allocation_size_def leased_source_def)

lemma claim_ok_rejected:
  assumes "claim_ok s0 h im add kind (Inl e) (im\<lparr>im_packed_cache := cache\<rparr>) w"
  shows "claim_ok s0 h im add kind (Inl e') (im\<lparr>im_packed_cache := reject_allocation_size cache\<rparr>) w"
  using assms importer_ok_rejected [of s0 h "im\<lparr>im_packed_cache := cache\<rparr>" w]
    undisturbed_trans [OF _ undisturbed_rejected, of h im "im\<lparr>im_packed_cache := cache\<rparr>"]
  by (simp add: claim_ok_def)

lemma claim_ok_unclaimed:
  "importer_ok s0 h im w \<Longrightarrow> w_vk w1 = w_vk w \<Longrightarrow> claim_ok s0 h im add kind (Inl e) im w1"
  by (rule claim_ok_error [OF importer_ok_files])

lemma claim_ok_counted:
  assumes "importer_ok s0 h im w" and "w_vk w1 = w_vk w"
  shows "claim_ok s0 h im add kind (Inl e)
    (im\<lparr>im_packed_cache := reject_allocation_size (im_packed_cache im)\<rparr>) w1"
  unfolding claim_ok_def sum.case
  by (intro conjI undisturbed_rejected importer_ok_rejected [OF importer_ok_files [OF assms]])

lemma claim_ok_other_error: "claim_ok s0 h im add kind (Inl e) im' w' \<Longrightarrow> claim_ok s0 h im add kind (Inl e') im' w'"
  by (simp add: claim_ok_def)

definition packed_claim_ok ::
  "vk_state \<Rightarrow> holdings \<Rightarrow> importer \<Rightarrow> packed_import_strategy \<Rightarrow> ('e + nat) \<times> packed_cache \<times> 'f world \<Rightarrow> bool"
where
  "packed_claim_ok s0 h im strategy claimed \<longleftrightarrow> (case claimed of (result, cache, w) \<Rightarrow>
     claim_ok s0 h im add_packed_source (packed_source_is {Held} strategy) result (im\<lparr>im_packed_cache := cache\<rparr>) w)"

lemma packed_claim_ok_error:
  assumes "importer_ok s0 h im w" and "w_vk w1 = w_vk w"
  shows "packed_claim_ok s0 h im strategy (Inl e, im_packed_cache im, w1)"
    and "packed_claim_ok s0 h im strategy (Inl e, reject_allocation_size (im_packed_cache im), w1)"
  using claim_ok_unclaimed [OF assms, of add_packed_source "packed_source_is {Held} strategy" e]
    claim_ok_counted [OF assms, of add_packed_source "packed_source_is {Held} strategy" e]
  by (simp_all add: packed_claim_ok_def)

lemma packed_claim_ok_cached:
  assumes "importer_ok s0 h im w" and "pt_strategy (ck_layout key) = strategy"
    and "pt_format (ck_layout key) = pi_format request"
  shows "packed_claim_ok s0 h im strategy (count_creation_failure
    (claim_cached key (on_vk (create_packed_source env request strategy))
      (\<lambda>a. vk_drop (packed_source_drop (fst a))) [] [] (im_packed_cache im, w)))"
proof -
  obtain claimed cache w' where claim: "claim_cached key (on_vk (create_packed_source env request strategy))
      (\<lambda>a. vk_drop (packed_source_drop (fst a))) [] [] (im_packed_cache im, w) = (claimed, cache, w')"
    by (metis prod.collapse)
  note claimed = claim_cached_packed_ok [OF assms claim]
  show ?thesis
  proof (cases "\<exists>e. claimed = Inl (Create_failed e)")
    case True
    then obtain e where e: "claimed = Inl (Create_failed e)" by blast
    show ?thesis
      unfolding claim packed_claim_ok_def count_creation_failure_def e sum.case prod.case cache_error.case
      by (cases "is_allocation_size e"; simp only: if_True if_False)
        (rule claim_ok_rejected [OF claimed [unfolded e]], rule claim_ok_other_error [OF claimed [unfolded e]])
  next
    case False
    show ?thesis
    proof (cases claimed)
      case (Inl e)
      then have "\<nexists>e'. e = Create_failed e'" using False by blast
      then show ?thesis using claim_ok_other_error [OF claimed [unfolded Inl]]
        unfolding claim packed_claim_ok_def count_creation_failure_def Inl by (cases e) simp_all
    next
      case (Inr l)
      then show ?thesis using claimed
        unfolding claim packed_claim_ok_def count_creation_failure_def by (simp add: claim_ok_def)
    qed
  qed
qed

lemma claim_packed_source_ok:
  assumes ok: "importer_ok s0 h im w" and step: "claim_packed_source env request strategy im w = (result, im', w')"
  shows "claim_ok s0 h im add_packed_source (packed_source_is {Held} strategy) result im' w'"
proof -
  obtain checked w2 where id: "verified_dmabuf_identity (\<lambda>fd. on_files (env_probe env fd)) (pi_source_fd request)
      (pi_source_size request) w = (checked, w2)" by fastforce
  have same: "w_vk w2 = w_vk w" by (rule verified_identity_device [OF id])
  note rules = packed_claim_ok_error [OF ok refl] packed_claim_ok_error [OF ok same]
    packed_claim_ok_cached [OF importer_ok_files [OF ok same]]
  have "packed_claim_ok s0 h im strategy (claim_cached_packed_source (env_device env)
      (\<lambda>fd. on_files (env_probe env fd)) request strategy (on_vk (create_packed_source env request strategy))
      (\<lambda>a. vk_drop (packed_source_drop (fst a))) [] [] (im_packed_cache im, w))"
    unfolding claim_cached_packed_source_def prod.case id
    by (intro conjI impI rules | simp add: rules
        split: sum.split packed_claim_error.split)+
  then show ?thesis
    using step by (auto simp: claim_packed_source_def packed_claim_ok_def split: prod.splits)
qed

text \<open>The outputs.\<close>

lemma slots_fit_allocated:
  assumes "output_pool_ok fits p ls"
  shows "\<forall>r \<in> pool_resources p. op_resources p r \<noteq> None"
proof -
  have "r \<in> snd ` set (op_slots p)" if "r \<in> leased_resources (op_table p)" for r
    using that assms unfolding output_pool_ok_def pool_inv_def leased_resources_def by fastforce
  then show ?thesis
    using assms unfolding pool_resources_def output_pool_ok_def by (fastforce dest: slots_fitD)
qed

lemma resource_handle_counters:
  "resource_handle (im\<lparr>im_output_busy_rejections := n\<rparr>) i = resource_handle im i"
  "resource_handle (im\<lparr>im_packed_output_busy_rejections := n\<rparr>) i = resource_handle im i"
  by (cases i; simp)+

lemma counters_device [simp]:
  "resource_handle (im\<lparr>im_output_busy_rejections := n\<rparr>) = resource_handle im"
  "resource_handle (im\<lparr>im_packed_output_busy_rejections := n\<rparr>) = resource_handle im"
  "resource_ids (im\<lparr>im_output_busy_rejections := n\<rparr>) X = resource_ids im X"
  "resource_ids (im\<lparr>im_packed_output_busy_rejections := n\<rparr>) X = resource_ids im X"
  by (simp_all add: fun_eq_iff resource_handle_counters resource_ids_def pipeline_ids_def)

lemma importer_ok_counters [simp]:
  "importer_ok s0 h (im\<lparr>im_output_busy_rejections := n\<rparr>) w = importer_ok s0 h im w"
  "importer_ok s0 h (im\<lparr>im_packed_output_busy_rejections := n\<rparr>) w = importer_ok s0 h im w"
  by (simp_all add: importer_ok_def device_ok_def)

lemma undisturbed_counters [simp]:
  "undisturbed h im (im'\<lparr>im_output_busy_rejections := n\<rparr>) = undisturbed h im im'"
  "undisturbed h im (im'\<lparr>im_packed_output_busy_rejections := n\<rparr>) = undisturbed h im im'"
  by (simp_all add: undisturbed_def same_pipelines_def)

lemma claim_nv12_pool_ok:
  assumes ok: "importer_ok s0 h im w" and driver: "\<And>i. \<not> dr_empty (env_driver env) i"
    and step: "nv12_pool_claim (dims, strategy) source_view
        (\<lambda>r view. on_vk (update_staged_descriptor_set (the (op_resources (im_nv12_pool im) r)) view))
        (on_vk (create_staged_output_slot (env_driver env) dims strategy pipeline source_view))
        (\<lambda>slot. vk_drop (staged_output_slot_drop slot)) [] (im_nv12_pool im, w) = (result, pool, w')"
  shows "claim_ok s0 h im add_nv12_output (nv12_output_is strategy) result (im\<lparr>im_nv12_pool := pool\<rparr>) w'"
proof -
  let ?im = "im\<lparr>im_nv12_pool := pool\<rparr>" and ?X = "set (hl_scanouts h)"
  let ?create = "create_staged_output_slot (env_driver env) dims strategy pipeline source_view"
  let ?owns = "column s0 (resource_ids im ?X - range Nv12_slot_id) (resource_handle im) Nv12_slot_id Staged_slot_handle
    :: nat set \<Rightarrow> (nat \<Rightarrow> staged_output_slot option) \<Rightarrow> 'a world \<Rightarrow> bool"
  let ?fits = "\<lambda>(dims :: dimensions, strategy). slot_fits strategy"
  have pool: "output_pool_ok ?fits (im_nv12_pool im) (hl_nv12_outputs h)" using ok by (simp add: importer_ok_def)
  then have inv: "pool_inv (im_nv12_pool im)" and fit: "slots_fit ?fits (im_nv12_pool im)"
    by (simp_all add: output_pool_ok_def)
  note effect = nv12_pool_claim_effect [OF inv step]
  have fit': "slots_fit ?fits pool"
    by (rule effect(2) [OF fit])
      (auto simp: on_vk_def split: prod.splits dest: create_staged_output_slot_fits)
  note claim = pool_ok_claim [OF pool effect(1) fit']
  have calm: "undisturbed h im ?im" using claim(1) by (auto simp: undisturbed_defs)
  have "device_ok s0 (im\<lparr>im_nv12_pool := im_nv12_pool im\<rparr>) ?X w" using ok by (simp add: importer_ok_def)
  then have "resource_ledger.pool_tracks ?owns (im_nv12_pool im) w"
    unfolding columns.pool_tracks_def nv12_slot_column using slots_fit_allocated [OF pool] by blast
  moreover have "resource_ledger.creates ?owns (on_vk ?create)"
    by (rule column_creates [OF create_staged_output_slot_exact [OF driver]]) simp_all
  moreover have "resource_ledger.keeps ?owns (on_vk (update_staged_descriptor_set slot view))" for slot view
    by (rule column_keeps) (simp add: on_vk_def split_beta update_staged_keeps)
  ultimately have "resource_ledger.pool_tracks ?owns pool w'"
    by (rule columns.pool_tracks_nv12_claim [OF _ inv]) (use step in simp)
  then have "device_ok s0 ?im ?X w'"
    unfolding columns.pool_tracks_def nv12_slot_column by blast
  then show ?thesis
    using ok claim(2) calm
    by (cases result) (auto simp: importer_ok_def claim_ok_def nv12_output_is_def add_nv12_output_def)
qed

lemma claim_nv12_output_ok:
  assumes "importer_ok s0 h im w" and "\<And>i. \<not> dr_empty (env_driver env) i"
    and "claim_nv12_output env dims strategy pipeline source_view im w = (result, im', w')"
  shows "claim_ok s0 h im add_nv12_output (nv12_output_is strategy) result im' w'"
proof -
  obtain claimed pool w1 where claim: "nv12_pool_claim (dims, strategy) source_view
        (\<lambda>r view. on_vk (update_staged_descriptor_set (the (op_resources (im_nv12_pool im) r)) view))
        (on_vk (create_staged_output_slot (env_driver env) dims strategy pipeline source_view))
        (\<lambda>slot. vk_drop (staged_output_slot_drop slot)) [] (im_nv12_pool im, w) = (claimed, pool, w1)"
    by (metis prod.collapse)
  note claimed = claim_nv12_pool_ok [OF assms(1,2) claim]
  show ?thesis
    using assms(3) claimed
    by (auto simp: claim_nv12_output_def claim claim_ok_def split: sum.splits vulkan_import_error.splits)
qed

lemma claim_packed_pool_ok:
  assumes ok: "importer_ok s0 h im w"
    and step: "packed_pool_claim dims source_view
        (\<lambda>r view. vk_drop (update_packed_descriptor_set (the (op_resources (im_packed_pool im) r)) view))
        (on_vk (create_packed_output_slot (env_driver env) dims pipeline source_view))
        (\<lambda>slot. vk_drop (packed_output_slot_drop slot)) [] (im_packed_pool im, w) = (result, pool, w')"
  shows "claim_ok s0 h im add_packed_output packed_output_is result (im\<lparr>im_packed_pool := pool\<rparr>) w'"
proof -
  let ?im = "im\<lparr>im_packed_pool := pool\<rparr>" and ?X = "set (hl_scanouts h)"
  let ?create = "create_packed_output_slot (env_driver env) dims pipeline source_view"
  let ?owns = "column s0 (resource_ids im ?X - range Packed_slot_id) (resource_handle im) Packed_slot_id Packed_slot_handle
    :: nat set \<Rightarrow> (nat \<Rightarrow> packed_output_slot option) \<Rightarrow> 'a world \<Rightarrow> bool"
  let ?fits = "\<lambda>(_ :: dimensions) (_ :: packed_output_slot). True"
  have pool: "output_pool_ok ?fits (im_packed_pool im) (hl_packed_outputs h)" using ok by (simp add: importer_ok_def)
  then have inv: "pool_inv (im_packed_pool im)" and fit: "slots_fit ?fits (im_packed_pool im)"
    by (simp_all add: output_pool_ok_def)
  note effect = packed_pool_claim_effect [OF inv step]
  have fit': "slots_fit ?fits pool" by (rule effect(2) [OF fit]) simp
  note claim = pool_ok_claim [OF pool effect(1) fit']
  have calm: "undisturbed h im ?im" using claim(1) by (auto simp: undisturbed_defs)
  have "device_ok s0 (im\<lparr>im_packed_pool := im_packed_pool im\<rparr>) ?X w" using ok by (simp add: importer_ok_def)
  then have "resource_ledger.pool_tracks ?owns (im_packed_pool im) w"
    unfolding columns.pool_tracks_def packed_slot_column using slots_fit_allocated [OF pool] by blast
  moreover have "resource_ledger.creates ?owns (on_vk ?create)"
    by (rule column_creates [OF create_packed_output_slot_exact]) simp_all
  moreover have "resource_ledger.keeps ?owns (\<lambda>w. ((), vk_drop (update_packed_descriptor_set slot view) w))" for slot view
    by (rule column_keeps) (simp add: vk_drop_def update_packed_keeps)
  ultimately have "resource_ledger.pool_tracks ?owns pool w'"
    by (rule columns.pool_tracks_packed_claim [OF _ inv]) (use step in simp)
  then have "device_ok s0 ?im ?X w'"
    unfolding columns.pool_tracks_def packed_slot_column by blast
  then show ?thesis
    using ok claim(2) calm
    by (cases result) (auto simp: importer_ok_def claim_ok_def packed_output_is_def add_packed_output_def)
qed

lemma claim_packed_output_ok:
  assumes "importer_ok s0 h im w"
    and "claim_packed_output env dims pipeline source_view im w = (result, im', w')"
  shows "claim_ok s0 h im add_packed_output packed_output_is result im' w'"
proof -
  obtain claimed pool w1 where claim: "packed_pool_claim dims source_view
        (\<lambda>r view. vk_drop (update_packed_descriptor_set (the (op_resources (im_packed_pool im) r)) view))
        (on_vk (create_packed_output_slot (env_driver env) dims pipeline source_view))
        (\<lambda>slot. vk_drop (packed_output_slot_drop slot)) [] (im_packed_pool im, w) = (claimed, pool, w1)"
    by (metis prod.collapse)
  note claimed = claim_packed_pool_ok [OF assms(1) claim]
  show ?thesis
    using assms(2) claimed
    by (auto simp: claim_packed_output_def claim claim_ok_def split: sum.splits vulkan_import_error.splits)
qed

end
