(* ===== verification/Importer_Life.thy ===== *)
theory Importer_Life
  imports Importer_Safety
begin

text \<open>
  The life of an importer: every import, and every operation on the images it returned, keeps the
  invariant of \<open>Importer_Safety\<close>. The properties of a whole client follow: the device has exactly what
  is owned, images stay usable, and distinct images share nothing they write or show.
\<close>

section \<open>Dropping leases\<close>

lemma drop_nv12_source_ok:
  assumes ok: "importer_ok s0 h im w" and l: "hl_nv12_sources h = A @ l # B"
  shows "importer_ok s0 (h\<lparr>hl_nv12_sources := A @ B\<rparr>) (drop_nv12_source l im) w"
    and "undisturbed (h\<lparr>hl_nv12_sources := A @ B\<rparr>) im (drop_nv12_source l im)"
proof -
  have cache: "cache_ok nv12_fits (im_nv12_cache im) (A @ l # B)" using ok l by (simp add: importer_ok_def)
  note dropped = cache_ok_drop [OF cache]
  have "device_ok s0 (im\<lparr>im_nv12_cache := im_nv12_cache im\<rparr>) (set (hl_scanouts h)) w"
    using ok by (simp add: importer_ok_def)
  then have "device_ok s0 (drop_nv12_source l im) (set (hl_scanouts h)) w"
    unfolding drop_nv12_source_def nv12_source_column by (simp add: drop_source_def cached_resources_def)
  then show "importer_ok s0 (h\<lparr>hl_nv12_sources := A @ B\<rparr>) (drop_nv12_source l im) w"
    using ok dropped(1) by (simp add: importer_ok_def drop_nv12_source_def)
  show "undisturbed (h\<lparr>hl_nv12_sources := A @ B\<rparr>) im (drop_nv12_source l im)"
    using dropped(2) by (simp add: undisturbed_defs drop_nv12_source_def)
qed

lemma drop_packed_source_ok:
  assumes ok: "importer_ok s0 h im w" and l: "hl_packed_sources h = A @ l # B"
  shows "importer_ok s0 (h\<lparr>hl_packed_sources := A @ B\<rparr>) (drop_packed_source l im) w"
    and "undisturbed (h\<lparr>hl_packed_sources := A @ B\<rparr>) im (drop_packed_source l im)"
proof -
  have cache: "cache_ok packed_fits (im_packed_cache im) (A @ l # B)" using ok l by (simp add: importer_ok_def)
  note dropped = cache_ok_drop [OF cache]
  have "device_ok s0 (im\<lparr>im_packed_cache := im_packed_cache im\<rparr>) (set (hl_scanouts h)) w"
    using ok by (simp add: importer_ok_def)
  then have "device_ok s0 (drop_packed_source l im) (set (hl_scanouts h)) w"
    unfolding drop_packed_source_def packed_source_column by (simp add: drop_source_def cached_resources_def)
  then show "importer_ok s0 (h\<lparr>hl_packed_sources := A @ B\<rparr>) (drop_packed_source l im) w"
    using ok dropped(1) by (simp add: importer_ok_def drop_packed_source_def)
  show "undisturbed (h\<lparr>hl_packed_sources := A @ B\<rparr>) im (drop_packed_source l im)"
    using dropped(2) by (simp add: undisturbed_defs drop_packed_source_def)
qed

lemma drop_nv12_output_ok:
  assumes ok: "importer_ok s0 h im w" and l: "hl_nv12_outputs h = A @ l # B"
    and step: "drop_nv12_output l im w = (im', w')"
  shows "importer_ok s0 (h\<lparr>hl_nv12_outputs := A @ B\<rparr>) im' w'"
    and "undisturbed (h\<lparr>hl_nv12_outputs := A @ B\<rparr>) im im'"
proof -
  have pool: "output_pool_ok (\<lambda>(dims, strategy). slot_fits strategy) (im_nv12_pool im) (A @ l # B)"
    using ok l by (simp add: importer_ok_def)
  obtain p w1 where p: "drop_output staged_output_slot_drop l (im_nv12_pool im) w = (p, w1)" by fastforce
  note dropped = pool_ok_drop [OF pool p]
  have r: "im' = im\<lparr>im_nv12_pool := p\<rparr>" "w' = w" using step p dropped(3) by (simp_all add: drop_nv12_output_def)
  have "device_ok s0 (im\<lparr>im_nv12_pool := im_nv12_pool im\<rparr>) (set (hl_scanouts h)) w"
    using ok by (simp add: importer_ok_def)
  then have "device_ok s0 im' (set (hl_scanouts h)) w"
    unfolding r nv12_slot_column by (simp add: dropped(4,5))
  then show "importer_ok s0 (h\<lparr>hl_nv12_outputs := A @ B\<rparr>) im' w'"
    using ok dropped(1) by (simp add: importer_ok_def r)
  show "undisturbed (h\<lparr>hl_nv12_outputs := A @ B\<rparr>) im im'"
    using dropped(2) by (simp add: undisturbed_defs r)
qed

lemma drop_packed_output_ok:
  assumes ok: "importer_ok s0 h im w" and l: "hl_packed_outputs h = A @ l # B"
    and step: "drop_packed_output l im w = (im', w')"
  shows "importer_ok s0 (h\<lparr>hl_packed_outputs := A @ B\<rparr>) im' w'"
    and "undisturbed (h\<lparr>hl_packed_outputs := A @ B\<rparr>) im im'"
proof -
  have pool: "output_pool_ok (\<lambda>_ _. True) (im_packed_pool im) (A @ l # B)"
    using ok l by (simp add: importer_ok_def)
  obtain p w1 where p: "drop_output packed_output_slot_drop l (im_packed_pool im) w = (p, w1)" by fastforce
  note dropped = pool_ok_drop [OF pool p]
  have r: "im' = im\<lparr>im_packed_pool := p\<rparr>" "w' = w" using step p dropped(3) by (simp_all add: drop_packed_output_def)
  have "device_ok s0 (im\<lparr>im_packed_pool := im_packed_pool im\<rparr>) (set (hl_scanouts h)) w"
    using ok by (simp add: importer_ok_def)
  then have "device_ok s0 im' (set (hl_scanouts h)) w"
    unfolding r packed_slot_column by (simp add: dropped(4,5))
  then show "importer_ok s0 (h\<lparr>hl_packed_outputs := A @ B\<rparr>) im' w'"
    using ok dropped(1) by (simp add: importer_ok_def r)
  show "undisturbed (h\<lparr>hl_packed_outputs := A @ B\<rparr>) im im'"
    using dropped(2) by (simp add: undisturbed_defs r)
qed

text \<open>Giving back the lease that was claimed last.\<close>

lemma take_back_nv12_source:
  assumes "importer_ok s0 (add_nv12_source l h) im w"
  shows "importer_ok s0 h (drop_nv12_source l im) w" and "undisturbed h im (drop_nv12_source l im)"
  using drop_nv12_source_ok [OF assms, of "hl_nv12_sources h" l "[]"] by (simp_all add: add_nv12_source_def)

lemma take_back_packed_source:
  assumes "importer_ok s0 (add_packed_source l h) im w"
  shows "importer_ok s0 h (drop_packed_source l im) w" and "undisturbed h im (drop_packed_source l im)"
  using drop_packed_source_ok [OF assms, of "hl_packed_sources h" l "[]"] by (simp_all add: add_packed_source_def)

lemma take_back_nv12_output:
  assumes "importer_ok s0 (add_nv12_output l h) im w" and "drop_nv12_output l im w = (im', w')"
  shows "importer_ok s0 h im' w'" and "undisturbed h im im'"
  using drop_nv12_output_ok [OF assms(1) _ assms(2), of "hl_nv12_outputs h" "[]"] by (simp_all add: add_nv12_output_def)

lemma take_back_packed_output:
  assumes "importer_ok s0 (add_packed_output l h) im w" and "drop_packed_output l im w = (im', w')"
  shows "importer_ok s0 h im' w'" and "undisturbed h im im'"
  using drop_packed_output_ok [OF assms(1) _ assms(2), of "hl_packed_outputs h" "[]"]
  by (simp_all add: add_packed_output_def)

lemma undisturbed_add:
  "undisturbed (add_nv12_source l h) im im' \<Longrightarrow> undisturbed h im im'"
  "undisturbed (add_packed_source l h) im im' \<Longrightarrow> undisturbed h im im'"
  "undisturbed (add_nv12_output l h) im im' \<Longrightarrow> undisturbed h im im'"
  "undisturbed (add_packed_output l h) im im' \<Longrightarrow> undisturbed h im im'"
  by (auto simp: undisturbed_defs holdings_defs)

section \<open>What an image holds\<close>

fun nv12_sources_of :: "imported_kind \<Rightarrow> nat list" where
  "nv12_sources_of (Direct_nv12 l _) = [l]"
| "nv12_sources_of (Staged_nv12 staged) = [sn_source staged]"
| "nv12_sources_of _ = []"

fun packed_sources_of :: "imported_kind \<Rightarrow> nat list" where
  "packed_sources_of (Direct_packed l) = [l]"
| "packed_sources_of (Staged_packed staged) = [sp_source staged]"
| "packed_sources_of _ = []"

fun nv12_outputs_of :: "imported_kind \<Rightarrow> nat list" where
  "nv12_outputs_of (Staged_nv12 staged) = [sn_output staged]"
| "nv12_outputs_of _ = []"

fun packed_outputs_of :: "imported_kind \<Rightarrow> nat list" where
  "packed_outputs_of (Staged_packed staged) = [sp_output staged]"
| "packed_outputs_of _ = []"

fun scanouts_of :: "imported_kind \<Rightarrow> image_allocation list" where
  "scanouts_of (Direct_bgra_scanout sampled) = [sampled]"
| "scanouts_of _ = []"

definition image_holdings :: "imported_image list \<Rightarrow> holdings" where
  "image_holdings imgs =
     \<lparr>hl_nv12_sources = concat (map (nv12_sources_of \<circ> ii_kind) imgs),
      hl_packed_sources = concat (map (packed_sources_of \<circ> ii_kind) imgs),
      hl_nv12_outputs = concat (map (nv12_outputs_of \<circ> ii_kind) imgs),
      hl_packed_outputs = concat (map (packed_outputs_of \<circ> ii_kind) imgs),
      hl_scanouts = concat (map (scanouts_of \<circ> ii_kind) imgs)\<rparr>"

definition add_kind :: "imported_kind \<Rightarrow> holdings \<Rightarrow> holdings" where
  "add_kind k h =
     \<lparr>hl_nv12_sources = hl_nv12_sources h @ nv12_sources_of k,
      hl_packed_sources = hl_packed_sources h @ packed_sources_of k,
      hl_nv12_outputs = hl_nv12_outputs h @ nv12_outputs_of k,
      hl_packed_outputs = hl_packed_outputs h @ packed_outputs_of k,
      hl_scanouts = hl_scanouts h @ scanouts_of k\<rparr>"

lemma image_holdings_snoc: "image_holdings (imgs @ [img]) = add_kind (ii_kind img) (image_holdings imgs)"
  by (simp add: image_holdings_def add_kind_def)

lemma add_kind_cases:
  "add_kind (Direct_packed l) h = add_packed_source l h"
  "add_kind (Direct_nv12 l m) h = add_nv12_source l h"
  "add_kind (Staged_packed p) h = add_packed_output (sp_output p) (add_packed_source (sp_source p) h)"
  "add_kind (Staged_nv12 n) h = add_nv12_output (sn_output n) (add_nv12_source (sn_source n) h)"
  "add_kind (Direct_bgra_scanout a) h = h\<lparr>hl_scanouts := hl_scanouts h @ [a]\<rparr>"
  by (simp_all add: add_kind_def holdings_defs)

text \<open>An image whose leases refer to what its kind needs.\<close>

fun operation_fits :: "importer \<Rightarrow> nv12_import_strategy \<Rightarrow> staged_operation \<Rightarrow> bool" where
  "operation_fits im strategy (Compute p _) \<longleftrightarrow>
     strategy = LinearBufferToRgba \<and> im_rgba_compute im = Some p \<or>
     strategy = LinearBufferToYuvPlanes \<and> im_planar_compute im = Some p"
| "operation_fits im strategy (Buffer_transfer _) \<longleftrightarrow>
     strategy \<in> {LinearBufferToOptimalNv12, LinearBufferToOptimalYuvPlanes}"
| "operation_fits im strategy Image_transfer \<longleftrightarrow> strategy = DirectImageToOptimalYuvPlanes"

fun kind_fits :: "importer \<Rightarrow> imported_kind \<Rightarrow> bool" where
  "kind_fits im (Direct_packed l) \<longleftrightarrow> packed_source_is {Held} Packed_DirectSampledImage l im"
| "kind_fits im (Direct_bgra_scanout _) \<longleftrightarrow> True"
| "kind_fits im (Direct_nv12 l _) \<longleftrightarrow> nv12_source_is {Held} DirectSampledImage l im"
| "kind_fits im (Staged_packed p) \<longleftrightarrow>
     packed_source_is UNIV LinearBufferToOptimalBgra (sp_source p) im \<and>
     packed_output_is (sp_output p) im \<and> im_packed_compute im = Some (sp_pipeline p)"
| "kind_fits im (Staged_nv12 n) \<longleftrightarrow>
     (\<exists>strategy. nv12_source_is UNIV strategy (sn_source n) im \<and> nv12_output_is strategy (sn_output n) im \<and>
        operation_fits im strategy (sn_operation n))"

definition holds_kind :: "imported_kind \<Rightarrow> holdings \<Rightarrow> bool" where
  "holds_kind k h \<longleftrightarrow> set (nv12_sources_of k) \<subseteq> set (hl_nv12_sources h) \<and>
     set (packed_sources_of k) \<subseteq> set (hl_packed_sources h) \<and>
     set (nv12_outputs_of k) \<subseteq> set (hl_nv12_outputs h) \<and>
     set (packed_outputs_of k) \<subseteq> set (hl_packed_outputs h)"

lemma holds_kind_image: "img \<in> set imgs \<Longrightarrow> holds_kind (ii_kind img) (image_holdings imgs)"
  by (auto simp: holds_kind_def image_holdings_def)

lemma kind_fits_undisturbed:
  assumes "kind_fits im k" and "undisturbed h im im'" and "holds_kind k h"
  shows "kind_fits im' k"
proof (cases k)
  case (Staged_nv12 n)
  obtain strategy where fit: "nv12_source_is UNIV strategy (sn_source n) im" "nv12_output_is strategy (sn_output n) im"
      "operation_fits im strategy (sn_operation n)"
    using assms(1) Staged_nv12 by auto
  have "operation_fits im' strategy (sn_operation n)"
    using fit(3) assms(2) by (cases "sn_operation n") (auto simp: undisturbed_def same_pipelines_def)
  then have "nv12_source_is UNIV strategy (sn_source n) im' \<and> nv12_output_is strategy (sn_output n) im' \<and>
      operation_fits im' strategy (sn_operation n)"
    using fit assms(2,3) unfolding Staged_nv12 by (auto simp: undisturbed_defs holds_kind_def lease_kinds)
  then show ?thesis unfolding Staged_nv12 by auto
qed (use assms in \<open>auto simp: undisturbed_defs holds_kind_def lease_kinds\<close>)

section \<open>Imports\<close>

definition import_ok ::
  "vk_state \<Rightarrow> holdings \<Rightarrow> importer \<Rightarrow> ('e + imported_image) \<times> importer \<times> 'f world \<Rightarrow> bool" where
  "import_ok s0 h im imported \<longleftrightarrow> (case imported of (result, im', w') \<Rightarrow>
     undisturbed h im im' \<and>
     (case result of
        Inl e \<Rightarrow> importer_ok s0 h im' w'
      | Inr img \<Rightarrow> importer_ok s0 (add_kind (ii_kind img) h) im' w' \<and> kind_fits im' (ii_kind img)))"

lemma import_ok_error:
  "importer_ok s0 h im' w' \<Longrightarrow> undisturbed h im im' \<Longrightarrow> import_ok s0 h im (Inl e, im', w')"
  by (simp add: import_ok_def)

lemma next_import_id_device: "next_import_id w = (n, w') \<Longrightarrow> w_vk w' = w_vk w"
  by (auto simp: next_import_id_def Let_def split: if_splits)

lemma from_direct_nv12_source_ok:
  assumes ok: "importer_ok s0 (add_nv12_source l h) im1 w1" and calm: "undisturbed h im im1"
    and kind: "nv12_source_is {Held} DirectSampledImage l im1"
  shows "import_ok s0 h im (from_direct_nv12_source dims layout conversion capability l im1 w1)"
proof -
  obtain a where a: "leased_source l (im_nv12_cache im1) = Some (Source_direct a)"
    using kind unfolding nv12_source_is_def by (metis source_fits.simps(2,3) nv12_source_allocation.exhaust
        insertE nv12_import_strategy.distinct singletonD)
  obtain n w2 where n: "next_import_id w1 = (n, w2)" by fastforce
  have "importer_ok s0 (add_nv12_source l h) im1 w2"
    by (rule importer_ok_files [OF ok next_import_id_device [OF n]])
  then show ?thesis
    using calm kind by (simp add: from_direct_nv12_source_def a n import_ok_def add_kind_cases)
qed

lemma from_direct_packed_source_ok:
  assumes ok: "importer_ok s0 (add_packed_source l h) im1 w1" and calm: "undisturbed h im im1"
    and kind: "packed_source_is {Held} Packed_DirectSampledImage l im1"
  shows "import_ok s0 h im (from_direct_packed_source dims modifier l im1 w1)"
proof -
  obtain a fmt where a: "leased_source l (im_packed_cache im1) = Some (Packed_source_direct a, fmt)"
    using kind unfolding packed_source_is_def
    by (metis packed_source_fits.simps(2) packed_source_allocation.exhaust packed_import_strategy.distinct(1) prod.collapse)
  obtain n w2 where n: "next_import_id w1 = (n, w2)" by fastforce
  have "importer_ok s0 (add_packed_source l h) im1 w2"
    by (rule importer_ok_files [OF ok next_import_id_device [OF n]])
  then show ?thesis
    using calm kind by (simp add: from_direct_packed_source_def a n import_ok_def add_kind_cases)
qed

text \<open>The pipeline a strategy is staged with.\<close>

definition staged_with :: "importer \<Rightarrow> nv12_import_strategy \<Rightarrow> compute_pipeline option \<Rightarrow> bool" where
  "staged_with im strategy pipeline \<longleftrightarrow>
     strategy \<in> {LinearBufferToOptimalNv12, LinearBufferToOptimalYuvPlanes} \<and> pipeline = None \<or>
     strategy = LinearBufferToRgba \<and> pipeline \<noteq> None \<and> pipeline = im_rgba_compute im \<or>
     strategy = LinearBufferToYuvPlanes \<and> pipeline \<noteq> None \<and> pipeline = im_planar_compute im"

lemma staged_operation_fits:
  assumes "staged_operation_of dims layout conversion pipeline strategy = Inr op"
    and "staged_with im strategy pipeline"
  shows "operation_fits im strategy op"
  using assms unfolding staged_operation_of_def staged_with_def
  by (auto simp: rust_result ok_or_def split: if_splits sum.splits option.splits)

lemma staged_with_undisturbed:
  "staged_with im strategy pipeline \<Longrightarrow> undisturbed h im im' \<Longrightarrow> staged_with im' strategy pipeline"
  by (simp add: staged_with_def undisturbed_def same_pipelines_def)

text \<open>An import that has claimed its source, and one that has claimed its output too.\<close>

definition has_source :: "vk_state \<Rightarrow> holdings \<Rightarrow> importer \<Rightarrow> nv12_import_strategy \<Rightarrow> nat \<Rightarrow> importer \<Rightarrow> 'f world \<Rightarrow> bool"
where
  "has_source s0 h im strategy source im' w' \<longleftrightarrow>
     importer_ok s0 (add_nv12_source source h) im' w' \<and> undisturbed h im im' \<and>
     nv12_source_is {Held} strategy source im'"

definition has_output ::
  "vk_state \<Rightarrow> holdings \<Rightarrow> importer \<Rightarrow> nv12_import_strategy \<Rightarrow> nat \<Rightarrow> nat \<Rightarrow> importer \<Rightarrow> 'f world \<Rightarrow> bool" where
  "has_output s0 h im strategy source out im' w' \<longleftrightarrow>
     importer_ok s0 (add_nv12_output out (add_nv12_source source h)) im' w' \<and> undisturbed h im im' \<and>
     nv12_source_is {Held} strategy source im' \<and> nv12_output_is strategy out im'"

lemma nv12_source_is_undisturbed:
  "nv12_source_is phases strategy l im \<Longrightarrow> undisturbed (add_nv12_source l h) im im' \<Longrightarrow>
   nv12_source_is phases strategy l im'"
  by (auto simp: undisturbed_defs add_nv12_source_def nv12_source_is_def)

lemma packed_source_is_undisturbed:
  "packed_source_is phases strategy l im \<Longrightarrow> undisturbed (add_packed_source l h) im im' \<Longrightarrow>
   packed_source_is phases strategy l im'"
  by (auto simp: undisturbed_defs add_packed_source_def packed_source_is_def)

lemma output_after_source:
  assumes source: "has_source s0 h im strategy source im1 w1" and driver: "\<And>i. \<not> dr_empty (env_driver env) i"
    and step: "claim_nv12_output env dims strategy pipeline view im1 w1 = (result, im2, w2)"
  shows "case result of
      Inl e \<Rightarrow> importer_ok s0 h (drop_nv12_source source im2) w2 \<and> undisturbed h im (drop_nv12_source source im2)
    | Inr out \<Rightarrow> has_output s0 h im strategy source out im2 w2"
proof -
  have "importer_ok s0 (add_nv12_source source h) im1 w1" using source by (simp add: has_source_def)
  note claim = claim_nv12_output_ok [OF this driver step]
  then have calm: "undisturbed (add_nv12_source source h) im1 im2" by (simp add: claim_ok_def)
  have calm': "undisturbed h im im2"
    using source undisturbed_trans [OF _ undisturbed_add(1) [OF calm]] by (simp add: has_source_def)
  show ?thesis
  proof (cases result)
    case (Inl e)
    then have "importer_ok s0 (add_nv12_source source h) im2 w2" using claim by (simp add: claim_ok_def)
    from take_back_nv12_source [OF this] show ?thesis using Inl undisturbed_trans [OF calm'] by simp
  next
    case (Inr out)
    then show ?thesis
      using claim source calm' nv12_source_is_undisturbed [OF _ calm] by (simp add: claim_ok_def has_output_def has_source_def)
  qed
qed

lemma nv12_source_is_mono: "nv12_source_is phases strategy l im \<Longrightarrow> nv12_source_is UNIV strategy l im"
  by (auto simp: nv12_source_is_def)

lemma packed_source_is_mono: "packed_source_is phases strategy l im \<Longrightarrow> packed_source_is UNIV strategy l im"
  by (auto simp: packed_source_is_def)

lemma staged_import_ok:
  assumes held: "has_output s0 h im strategy source out im' w1" and "w_vk w' = w_vk w1"
    and kind: "ii_kind img = Staged_nv12 n" "sn_source n = source" "sn_output n = out"
    and op: "operation_fits im' strategy (sn_operation n)"
  shows "import_ok s0 h im (Inr img, im', w')"
  using held importer_ok_files [OF _ assms(2)] op nv12_source_is_mono
  by (fastforce simp: import_ok_def has_output_def kind add_kind_cases)

lemma finish_staged_nv12_ok:
  assumes held: "has_output s0 h im strategy source out im2 w2" and pipeline: "staged_with im2 strategy pipeline"
  shows "import_ok s0 h im (finish_staged_nv12 dims layout conversion strategy features pipeline source out im2 w2
    :: ('io import_error + imported_image) \<times> importer \<times> 'f world)"
proof (cases "staged_operation_of dims layout conversion pipeline strategy :: 'io import_error + staged_operation")
  case (Inl e)
  obtain im3 w3 where drop: "drop_nv12_output out im2 w2 = (im3, w3)" by fastforce
  have "importer_ok s0 (add_nv12_output out (add_nv12_source source h)) im2 w2" using held by (simp add: has_output_def)
  note undo = take_back_nv12_output [OF this drop]
  note undo2 = take_back_nv12_source [OF undo(1)]
  have "undisturbed h im im3"
    using held undisturbed_trans [OF _ undisturbed_add(1) [OF undo(2)]] by (simp add: has_output_def)
  then have "undisturbed h im (drop_nv12_source source im3)" by (rule undisturbed_trans) (rule undo2(2))
  then show ?thesis using undo2(1) by (simp add: finish_staged_nv12_def Inl drop import_ok_def)
next
  case (Inr op)
  obtain n w3 where n: "next_import_id w2 = (n, w3)" by fastforce
  show ?thesis
    unfolding finish_staged_nv12_def Inr sum.case n prod.case
    by (rule staged_import_ok [OF held next_import_id_device [OF n]])
      (simp, simp_all add: staged_operation_fits [OF Inr pipeline])
qed

text \<open>The staged import from its first claim on.\<close>

lemma create_staged_nv12_ok:
  assumes ok: "importer_ok s0 h im w" and driver: "\<And>i. \<not> dr_empty (env_driver env) i"
    and pipeline: "staged_with im strategy pipeline"
  shows "import_ok s0 h im
    (create_staged_nv12 env stream dims source_fd layout conversion strategy features pipeline im w)"
proof (cases "staged_layout_check env dims layout strategy")
  case (Inl e)
  then show ?thesis using import_ok_error [OF ok undisturbed_refl] by (simp add: create_staged_nv12_def)
next
  case (Inr span)
  let ?topology = "layout_frame_topology layout dims"
  obtain claimed im1 w1 where source: "claim_nv12_source env stream source_fd ?topology strategy
      (create_cached_nv12_source (env_driver env) source_fd span (ft_object_size ?topology) strategy) im w =
      (claimed, im1, w1)" by (metis prod.collapse)
  have claim: "claim_ok s0 h im add_nv12_source (nv12_source_is {Held} strategy) claimed im1 w1"
    by (rule claim_nv12_source_ok [OF ok create_cached_nv12_source_exact create_cached_nv12_source_fits source])
  show ?thesis
  proof (cases claimed)
    case (Inl e)
    then show ?thesis using claim
      by (simp add: create_staged_nv12_def Inr Let_def source import_ok_def claim_ok_def)
  next
    case held: (Inr l)
    then have first: "has_source s0 h im strategy l im1 w1" using claim by (simp add: claim_ok_def has_source_def)
    obtain answer im2 w2 where out: "claim_nv12_output env dims strategy pipeline
        (Option.bind (leased_source l (im_nv12_cache im1)) compute_view) im1 w1 = (answer, im2, w2)"
      by (metis prod.collapse)
    note second = output_after_source [OF first driver out]
    show ?thesis
    proof (cases answer)
      case (Inl e)
      then show ?thesis using second
        by (simp add: create_staged_nv12_def Inr Let_def source held out import_ok_def)
    next
      case both: (Inr k)
      then have "has_output s0 h im strategy l k im2 w2" using second by simp
      moreover from this have "staged_with im2 strategy pipeline"
        unfolding has_output_def using staged_with_undisturbed [OF pipeline] by blast
      ultimately show ?thesis
        using finish_staged_nv12_ok by (simp add: create_staged_nv12_def Inr Let_def source held out both)
    qed
  qed
qed

text \<open>The direct imports.\<close>

lemma claim_direct_nv12_ok:
  assumes ok: "importer_ok s0 h im w" and direct: "strategy \<in> {DirectSampledImage, DirectImageToOptimalYuvPlanes}"
    and step: "claim_nv12_source env stream source_fd topology strategy
      (create_direct_nv12_source env dims source_fd layout usage) im w = (result, im', w')"
  shows "claim_ok s0 h im add_nv12_source (nv12_source_is {Held} strategy) result im' w'"
  by (rule claim_nv12_source_ok [OF ok create_direct_nv12_source_exact create_direct_nv12_source_fits [OF _ direct] step])

lemma image_transfer_ok:
  assumes source: "has_source s0 h im DirectImageToOptimalYuvPlanes l im1 w1"
    and driver: "\<And>i. \<not> dr_empty (env_driver env) i"
  shows "import_ok s0 h im
    (case claim_nv12_output env dims DirectImageToOptimalYuvPlanes None None im1 w1 of
       (Inl e, im2, w2) \<Rightarrow> (Err e, drop_nv12_source l im2, w2)
     | (Inr out, im2, w2) \<Rightarrow>
         (case next_import_id w2 of (import_id, w3) \<Rightarrow>
           (Ok \<lparr>ii_id = import_id, ii_kind = Staged_nv12 \<lparr>sn_source = l, sn_output = out,
                sn_operation = Image_transfer, sn_conversion = conversion, sn_format_features = features\<rparr>,
              ii_dimensions = dims, ii_modifier = modifier, ii_sampled_usage = usage,
              ii_sampled_tiling = tiling\<rparr>, im2, w3)))"
proof -
  obtain answer im2 w2 where out: "claim_nv12_output env dims DirectImageToOptimalYuvPlanes None None im1 w1 =
      (answer, im2, w2)" by (metis prod.collapse)
  note second = output_after_source [OF source driver out]
  show ?thesis
  proof (cases answer)
    case (Inl e)
    then show ?thesis using second by (simp add: out import_ok_def)
  next
    case (Inr k)
    obtain n w3 where n: "next_import_id w2 = (n, w3)" by fastforce
    have "has_output s0 h im DirectImageToOptimalYuvPlanes l k im2 w2" using second Inr by simp
    then show ?thesis
      unfolding out Inr prod.case sum.case n
      by (rule staged_import_ok [OF _ next_import_id_device [OF n]]) (simp, simp_all)
  qed
qed

lemma import_nv12_ok:
  assumes ok: "importer_ok s0 h im w" and driver: "\<And>i. \<not> dr_empty (env_driver env) i"
  shows "import_ok s0 h im
    (import_nv12_shared_object env stream dims source_fd layout conversion capability im w)"
proof -
  let ?strategy = "cap_strategy capability" and ?topology = "layout_frame_topology layout dims"
  let ?claim = "\<lambda>usage. claim_nv12_source env stream source_fd ?topology ?strategy
    (create_direct_nv12_source env dims source_fd layout usage) im w"
  note fail = import_ok_error [OF ok undisturbed_refl]
  note staged = create_staged_nv12_ok [OF ok driver]
  have direct: "import_ok s0 h im (case ?claim DIRECT_NV12_USAGE of
      (Inl e, im1, w1) \<Rightarrow> (Err e, im1, w1)
    | (Inr source, im1, w1) \<Rightarrow> from_direct_nv12_source dims layout conversion capability source im1 w1)"
    if "?strategy = DirectSampledImage"
  proof -
    obtain claimed im1 w1 where claim: "?claim DIRECT_NV12_USAGE = (claimed, im1, w1)" by (metis prod.collapse)
    have claimed: "claim_ok s0 h im add_nv12_source (nv12_source_is {Held} ?strategy) claimed im1 w1"
      by (rule claim_direct_nv12_ok [OF ok _ claim]) (simp add: that)
    show ?thesis
    proof (cases claimed)
      case (Inl e)
      then show ?thesis using claimed by (simp add: claim claim_ok_def import_ok_error)
    next
      case (Inr l)
      then show ?thesis
        unfolding claim Inr prod.case sum.case using claimed that Inr
        by (intro from_direct_nv12_source_ok) (simp_all add: claim_ok_def)
    qed
  qed
  have transfer: "import_ok s0 h im (case ?claim DIRECT_NV12_PLANE_TRANSFER_USAGE of
      (Inl e, im1, w1) \<Rightarrow> (Err e, im1, w1)
    | (Inr source, im1, w1) \<Rightarrow>
        (case claim_nv12_output env dims ?strategy None None im1 w1 of
           (Inl e, im2, w2) \<Rightarrow> (Err e, drop_nv12_source source im2, w2)
         | (Inr out, im2, w2) \<Rightarrow>
           (case next_import_id w2 of (import_id, w3) \<Rightarrow>
             (Ok \<lparr>ii_id = import_id, ii_kind = Staged_nv12 \<lparr>sn_source = source, sn_output = out,
                  sn_operation = Image_transfer, sn_conversion = conversion,
                  sn_format_features = cap_sampled_features capability\<rparr>,
                ii_dimensions = dims, ii_modifier = sl_modifier layout,
                ii_sampled_usage = TRANSFER_NV12_OUTPUT_USAGE, ii_sampled_tiling = Tiling_optimal\<rparr>, im2, w3))))"
    if "?strategy = DirectImageToOptimalYuvPlanes"
  proof -
    obtain claimed im1 w1 where claim: "?claim DIRECT_NV12_PLANE_TRANSFER_USAGE = (claimed, im1, w1)"
      by (metis prod.collapse)
    have claimed: "claim_ok s0 h im add_nv12_source (nv12_source_is {Held} ?strategy) claimed im1 w1"
      by (rule claim_direct_nv12_ok [OF ok _ claim]) (simp add: that)
    show ?thesis
    proof (cases claimed)
      case (Inl e)
      then show ?thesis using claimed by (simp add: claim claim_ok_def import_ok_error)
    next
      case (Inr l)
      note here = claim [unfolded that Inr]
      have "has_source s0 h im DirectImageToOptimalYuvPlanes l im1 w1"
        using claimed that Inr by (simp add: claim_ok_def has_source_def)
      then show ?thesis unfolding that here prod.case sum.case by (rule image_transfer_ok [OF _ driver])
    qed
  qed
  show ?thesis
  proof (cases ?strategy)
    case DirectSampledImage
    show ?thesis
      using direct [OF DirectSampledImage] unfolding import_nv12_shared_object_def Let_def DirectSampledImage
      by (auto intro!: fail split: sum.split)
  next
    case DirectImageToOptimalYuvPlanes
    show ?thesis
      using transfer [OF DirectImageToOptimalYuvPlanes]
      unfolding import_nv12_shared_object_def Let_def DirectImageToOptimalYuvPlanes
      by (auto intro!: fail split: sum.split)
  qed (auto intro!: fail staged simp: import_nv12_shared_object_def Let_def staged_with_def
      split: sum.split option.split)
qed

text \<open>The packed imports.\<close>

lemma create_staged_packed_ok:
  assumes ok: "importer_ok s0 (add_packed_output k (add_packed_source l h)) im2 w2" and calm: "undisturbed h im im2"
    and kind: "packed_source_is {Held} LinearBufferToOptimalBgra l im2" "packed_output_is k im2"
      "im_packed_compute im2 = Some pipeline"
  shows "import_ok s0 h im (create_staged_packed request l k pipeline im2 w2)"
proof (cases "packed_push_constants_of request")
  case (Inl e)
  obtain im3 w3 where drop: "drop_packed_output k im2 w2 = (im3, w3)" by fastforce
  note undo = take_back_packed_output [OF ok drop]
  note undo2 = take_back_packed_source [OF undo(1)]
  have "undisturbed h im im3" using undisturbed_trans [OF calm undisturbed_add(2) [OF undo(2)]] .
  then have "undisturbed h im (drop_packed_source l im3)" by (rule undisturbed_trans) (rule undo2(2))
  then show ?thesis using undo2(1) by (simp add: create_staged_packed_def Inl drop import_ok_def)
next
  case (Inr constants)
  obtain n w3 where n: "next_import_id w2 = (n, w3)" by fastforce
  show ?thesis
    using importer_ok_files [OF ok next_import_id_device [OF n]] calm kind packed_source_is_mono
    by (fastforce simp: create_staged_packed_def Inr n import_ok_def add_kind_cases)
qed

lemma import_packed_ok:
  assumes ok: "importer_ok s0 h im w"
  shows "import_ok s0 h im (import_packed_with_strategy env request strategy im w)"
proof -
  obtain claimed im1 w1 where claim: "claim_packed_source env request strategy im w = (claimed, im1, w1)"
    by (metis prod.collapse)
  note claimed = claim_packed_source_ok [OF ok claim]
  show ?thesis
  proof (cases claimed)
    case (Inl e)
    then show ?thesis using claimed by (simp add: import_packed_with_strategy_def claim claim_ok_def import_ok_error)
  next
    case (Inr l)
    have held: "importer_ok s0 (add_packed_source l h) im1 w1" "undisturbed h im im1"
        "packed_source_is {Held} strategy l im1"
      using claimed Inr by (simp_all add: claim_ok_def)
    show ?thesis
    proof (cases strategy)
      case Packed_DirectSampledImage
      then show ?thesis
        using from_direct_packed_source_ok [OF held(1,2)] held(3) claim [unfolded Packed_DirectSampledImage]
        by (simp add: import_packed_with_strategy_def Inr)
    next
      case LinearBufferToOptimalBgra
      note fails = take_back_packed_source [OF held(1)]
      note here = claim [unfolded LinearBufferToOptimalBgra Inr]
      obtain view b fmt where source: "leased_source l (im_packed_cache im1) = Some (Packed_source_staged view b, fmt)"
        using held(3) LinearBufferToOptimalBgra unfolding packed_source_is_def
        by (metis packed_source_fits.simps(1) packed_source_allocation.exhaust packed_import_strategy.distinct(1) prod.collapse)
      show ?thesis
      proof (cases "im_packed_compute im1")
        case None
        then show ?thesis
          using import_ok_error [OF fails(1) undisturbed_trans [OF held(2) fails(2)]]
          by (simp add: import_packed_with_strategy_def here LinearBufferToOptimalBgra source)
      next
        case (Some pipeline)
        obtain answer im2 w2 where out: "claim_packed_output env (pi_dimensions request) pipeline view im1 w1 =
            (answer, im2, w2)" by (metis prod.collapse)
        note second = claim_packed_output_ok [OF held(1) out]
        then have calm: "undisturbed (add_packed_source l h) im1 im2" by (simp add: claim_ok_def)
        note calm' = undisturbed_trans [OF held(2) undisturbed_add(2) [OF calm]]
        show ?thesis
        proof (cases answer)
          case (Inl e)
          then have "importer_ok s0 (add_packed_source l h) im2 w2" using second by (simp add: claim_ok_def)
          note undo = take_back_packed_source [OF this]
          show ?thesis
            using import_ok_error [OF undo(1) undisturbed_trans [OF calm' undo(2)]]
            by (simp add: import_packed_with_strategy_def here LinearBufferToOptimalBgra source Some out Inl)
        next
          case both: (Inr k)
          have "import_ok s0 h im (create_staged_packed request l k pipeline im2 w2)"
          proof (rule create_staged_packed_ok [OF _ calm'])
            show "packed_source_is {Held} LinearBufferToOptimalBgra l im2"
              using held(3) packed_source_is_undisturbed [OF _ calm] LinearBufferToOptimalBgra by simp
            show "im_packed_compute im2 = Some pipeline"
              using calm Some by (simp add: undisturbed_def same_pipelines_def)
          qed (use second both in \<open>simp_all add: claim_ok_def\<close>)
          then show ?thesis
            by (simp add: import_packed_with_strategy_def here LinearBufferToOptimalBgra source Some out both)
        qed
      qed
    qed
  qed
qed

lemma new_bgra_scanout_ok:
  assumes ok: "importer_ok s0 h im w"
    and step: "new_bgra_scanout env dims source_fd object_size modifier plane usage w = (result, w')"
  shows "import_ok s0 h im (result, im, w')"
proof (cases "\<exists>checked w1. verified_dmabuf_identity (\<lambda>fd. on_files (env_probe env fd)) source_fd object_size w = (Inr checked, w1)")
  case False
  have "w_vk w' = w_vk w \<and> (\<exists>e. result = Inl e)"
    using step False unfolding new_bgra_scanout_def
    by (auto split: sum.splits if_splits prod.splits dest: verified_identity_device)
  then show ?thesis using import_ok_error [OF importer_ok_files [OF ok] undisturbed_refl] by auto
next
  case True
  then obtain checked w1 where id: "verified_dmabuf_identity (\<lambda>fd. on_files (env_probe env fd)) source_fd object_size w =
      (Inr checked, w1)" by blast
  have ok1: "importer_ok s0 h im w1" by (rule importer_ok_files [OF ok verified_identity_device [OF id]])
  let ?create = "create_direct_image (env_driver env) dims source_fd modifier [plane] IMPORTED_SCANOUT_BGRA_FORMAT
    usage (Some object_size)"
  obtain made w2 where made: "on_vk ?create w1 = (made, w2)" by fastforce
  have device: "device_ok s0 im (set (hl_scanouts h)) w1" using ok1 by (simp add: importer_ok_def)
  note new = device_ok_scanout_created [OF device made]
  have early: "import_ok s0 h im (Inl e, im, w)" for e :: "'b import_error"
    by (rule import_ok_error [OF ok undisturbed_refl])
  show ?thesis
  proof (cases made)
    case (Inl e)
    then have "importer_ok s0 h im w2" using new ok1 by (simp add: importer_ok_def)
    then show ?thesis
      using step early import_ok_error [OF _ undisturbed_refl]
      by (auto simp: new_bgra_scanout_def id made Inl split: sum.splits if_splits)
  next
    case (Inr a)
    obtain n w3 where n: "next_import_id w2 = (n, w3)" by fastforce
    have "importer_ok s0 (h\<lparr>hl_scanouts := hl_scanouts h @ [a]\<rparr>) im w2"
      using new ok1 Inr by (simp add: importer_ok_def)
    then have "importer_ok s0 (h\<lparr>hl_scanouts := hl_scanouts h @ [a]\<rparr>) im w3"
      by (rule importer_ok_files) (rule next_import_id_device [OF n])
    then show ?thesis
      using step early undisturbed_refl
      by (auto simp: new_bgra_scanout_def id made Inr n import_ok_def add_kind_cases split: sum.splits if_splits)
  qed
qed

section \<open>Operations on images\<close>

definition client_ok :: "vk_state \<Rightarrow> 'f client \<Rightarrow> bool" where
  "client_ok s0 c \<longleftrightarrow>
     importer_ok s0 (image_holdings (cl_images c)) (cl_importer c) (cl_world c) \<and>
     (\<forall>img \<in> set (cl_images c). kind_fits (cl_importer c) (ii_kind img))"

lemma client_ok_undisturbed:
  assumes "client_ok s0 c" and "undisturbed (image_holdings (cl_images c)) (cl_importer c) im"
    and "importer_ok s0 (image_holdings (cl_images c)) im w"
  shows "client_ok s0 (c\<lparr>cl_importer := im, cl_world := w\<rparr>)"
  using assms kind_fits_undisturbed [OF _ assms(2) holds_kind_image] by (simp add: client_ok_def)

lemma client_ok_import:
  assumes ok: "client_ok s0 c" and imported: "import_ok s0 (image_holdings (cl_images c)) (cl_importer c) outcome'"
  shows "client_ok s0 (keep_image c outcome')"
proof -
  obtain result im w where o: "outcome' = (result, im, w)" by (metis prod.collapse)
  have calm: "undisturbed (image_holdings (cl_images c)) (cl_importer c) im" using imported by (simp add: o import_ok_def)
  show ?thesis
  proof (cases result)
    case (Inl e)
    then show ?thesis
      using client_ok_undisturbed [OF ok calm] imported by (simp add: o keep_image_def import_ok_def)
  next
    case (Inr img)
    have "kind_fits im (ii_kind i)" if "i \<in> set (cl_images c)" for i
      using ok that kind_fits_undisturbed [OF _ calm holds_kind_image] by (simp add: client_ok_def)
    then show ?thesis
      using imported Inr by (auto simp: o keep_image_def import_ok_def client_ok_def image_holdings_snoc)
  qed
qed

text \<open>Recording that the acquire work of an image was submitted.\<close>

lemma submitted_frame:
  "lt_leases (op_table (initialize_slot l p)) = lt_leases (op_table p)"
  "leased_slot k (initialize_slot l p) = leased_slot k p"
  "output_pool_ok fits (initialize_slot l p) ls = output_pool_ok fits p ls"
  "pool_resources (initialize_slot l p) = pool_resources p"
  "op_resources (initialize_slot l p) = op_resources p"
  by (simp_all add: initialize_slot_def leased_slot_def output_pool_ok_def pool_inv_def slots_fit_def pool_resources_def)

lemma mark_acquire_submitted_ok:
  assumes ok: "importer_ok s0 h im w"
  shows "importer_ok s0 h (mark_acquire_submitted img im) w" and "undisturbed h im (mark_acquire_submitted img im)"
proof -
  have device: "device_ok s0 im (set (hl_scanouts h)) w" using ok by (simp add: importer_ok_def)
  have "device_ok s0 (im\<lparr>im_nv12_pool := im_nv12_pool im\<rparr>) (set (hl_scanouts h)) w"
    and "device_ok s0 (im\<lparr>im_packed_pool := im_packed_pool im\<rparr>) (set (hl_scanouts h)) w"
    using device by simp_all
  then have "device_ok s0 (im\<lparr>im_nv12_pool := initialize_slot l (im_nv12_pool im)\<rparr>) (set (hl_scanouts h)) w"
    and "device_ok s0 (im\<lparr>im_packed_pool := initialize_slot l (im_packed_pool im)\<rparr>) (set (hl_scanouts h)) w" for l
    unfolding nv12_slot_column packed_slot_column by (simp_all add: submitted_frame)
  then show "importer_ok s0 h (mark_acquire_submitted img im) w"
    using ok by (cases "ii_kind img") (auto simp: mark_acquire_submitted_def importer_ok_def submitted_frame)
  show "undisturbed h im (mark_acquire_submitted img im)"
    by (cases "ii_kind img") (auto simp: mark_acquire_submitted_def undisturbed_defs submitted_frame)
qed

text \<open>Evictions.\<close>

lemma importer_evict_nv12_ok:
  assumes ok: "importer_ok s0 h im w" and step: "importer_evict_nv12 stream im w = (result, im', w')"
  shows "importer_ok s0 h im' w'" and "undisturbed h im im'"
proof -
  obtain r cache where evict: "evict_nv12_stream stream (im_nv12_cache im) = (r, cache)" by fastforce
  have cache: "cache_ok nv12_fits (im_nv12_cache im) (hl_nv12_sources h)" using ok by (simp add: importer_ok_def)
  note gone = cache_ok_evict [OF cache evict]
  have im': "im' = im\<lparr>im_nv12_cache := cache\<rparr>"
      "w' = fold (\<lambda>a. vk_drop (nv12_source_drop a)) (removed_allocations (im_nv12_cache im) cache) w"
    using step evict by (simp_all add: importer_evict_nv12_def)
  let ?X = "set (hl_scanouts h)"
  let ?owns = "column s0 (resource_ids im ?X - range Nv12_source_id) (resource_handle im) Nv12_source_id Nv12_source_handle
    :: nat set \<Rightarrow> (nat \<Rightarrow> nv12_source_allocation option) \<Rightarrow> 'a world \<Rightarrow> bool"
  have fit: "entries_fit nv12_fits (im_nv12_cache im)" and inv: "cache_inv (im_nv12_cache im)"
    using cache by (simp_all add: cache_ok_def)
  have "device_ok s0 (im\<lparr>im_nv12_cache := im_nv12_cache im\<rparr>) ?X w" using ok by (simp add: importer_ok_def)
  then have "resource_ledger.tracks ?owns (im_nv12_cache im) w"
    unfolding columns.tracks_def nv12_source_column using entries_fit_allocated [OF fit] by blast
  from columns.tracks_removed [OF this inv gone(3,4)]
  have "resource_ledger.tracks ?owns cache w'" by (simp add: im'(2))
  then have "device_ok s0 im' ?X w'" unfolding im'(1) columns.tracks_def nv12_source_column by blast
  then show "importer_ok s0 h im' w'" using ok gone(1) by (simp add: importer_ok_def im'(1))
  show "undisturbed h im im'" using gone(2) by (simp add: undisturbed_defs im'(1))
qed

lemma importer_evict_packed_ok:
  assumes ok: "importer_ok s0 h im w" and step: "importer_evict_packed stream im w = (result, im', w')"
  shows "importer_ok s0 h im' w'" and "undisturbed h im im'"
proof -
  obtain r cache where evict: "evict_nv12_stream stream (im_packed_cache im) = (r, cache)" by fastforce
  have cache: "cache_ok packed_fits (im_packed_cache im) (hl_packed_sources h)" using ok by (simp add: importer_ok_def)
  note gone = cache_ok_evict [OF cache evict]
  have im': "im' = im\<lparr>im_packed_cache := cache\<rparr>"
      "w' = fold (\<lambda>a. vk_drop (packed_source_drop (fst a))) (removed_allocations (im_packed_cache im) cache) w"
    using step evict by (simp_all add: importer_evict_packed_def evict_packed_stream_def)
  let ?X = "set (hl_scanouts h)"
  let ?mk = "\<lambda>a :: packed_source_allocation \<times> packed_image_format. Packed_source_handle (fst a)"
  let ?owns = "column s0 (resource_ids im ?X - range Packed_source_id) (resource_handle im) Packed_source_id ?mk
    :: nat set \<Rightarrow> (nat \<Rightarrow> (packed_source_allocation \<times> packed_image_format) option) \<Rightarrow> 'a world \<Rightarrow> bool"
  have fit: "entries_fit packed_fits (im_packed_cache im)" and inv: "cache_inv (im_packed_cache im)"
    using cache by (simp_all add: cache_ok_def)
  have "device_ok s0 (im\<lparr>im_packed_cache := im_packed_cache im\<rparr>) ?X w" using ok by (simp add: importer_ok_def)
  then have "resource_ledger.tracks ?owns (im_packed_cache im) w"
    unfolding columns.tracks_def packed_source_column using entries_fit_allocated [OF fit] by blast
  from columns.tracks_removed [OF this inv gone(3,4)]
  have "resource_ledger.tracks ?owns cache w'" by (simp add: im'(2))
  then have "device_ok s0 im' ?X w'" unfolding im'(1) columns.tracks_def packed_source_column by blast
  then show "importer_ok s0 h im' w'" using ok gone(1) by (simp add: importer_ok_def im'(1))
  show "undisturbed h im im'" using gone(2) by (simp add: undisturbed_defs im'(1))
qed

text \<open>Releasing a staged source early. Another image cannot hold its lease.\<close>

lemma device_ok_released:
  assumes "device_ok s0 im X w"
  shows "release_source l (im_nv12_cache im) = (done, cache) \<Longrightarrow> device_ok s0 (im\<lparr>im_nv12_cache := cache\<rparr>) X w"
    and "release_source l (im_packed_cache im) = (done, packed) \<Longrightarrow> device_ok s0 (im\<lparr>im_packed_cache := packed\<rparr>) X w"
proof -
  have both: "device_ok s0 (im\<lparr>im_nv12_cache := im_nv12_cache im\<rparr>) X w"
      "device_ok s0 (im\<lparr>im_packed_cache := im_packed_cache im\<rparr>) X w"
    using assms by simp_all
  show "release_source l (im_nv12_cache im) = (done, cache) \<Longrightarrow> device_ok s0 (im\<lparr>im_nv12_cache := cache\<rparr>) X w"
    using both(1) unfolding nv12_source_column
    by (auto simp: release_source_def cached_resources_def split: prod.splits)
  show "release_source l (im_packed_cache im) = (done, packed) \<Longrightarrow> device_ok s0 (im\<lparr>im_packed_cache := packed\<rparr>) X w"
    using both(2) unfolding packed_source_column
    by (auto simp: release_source_def cached_resources_def split: prod.splits)
qed

lemma release_source_lease:
  assumes "release_source l s = (done, s')" and "lt_leases (sc_table s) l = Some (r, q)"
  shows "\<exists>q'. lt_leases (sc_table s') l = Some (r, q')"
proof -
  have "sc_table s' = snd (release_lease l (sc_table s))"
    using assms(1) by (auto simp: release_source_def split: prod.splits)
  then show ?thesis using assms(2) by (cases q) (simp_all add: release_lease_leases)
qed

lemma release_staged_source_ok:
  assumes ok: "importer_ok s0 h im w" and step: "release_staged_source img im = (done, im')"
  shows "importer_ok s0 h im' w"
    and "\<And>k. kind_fits im k \<Longrightarrow> holds_kind k h \<Longrightarrow>
      set (nv12_sources_of k) \<inter> set (nv12_sources_of (ii_kind img)) = {} \<and>
      set (packed_sources_of k) \<inter> set (packed_sources_of (ii_kind img)) = {} \<or> k = ii_kind img \<Longrightarrow> kind_fits im' k"
proof -
  have nv12: "cache_ok nv12_fits (im_nv12_cache im) (hl_nv12_sources h)"
    and packed: "cache_ok packed_fits (im_packed_cache im) (hl_packed_sources h)"
    and device: "device_ok s0 im (set (hl_scanouts h)) w"
    using ok by (simp_all add: importer_ok_def)
  have "importer_ok s0 h im' w \<and> (\<forall>k. kind_fits im k \<longrightarrow> holds_kind k h \<longrightarrow>
      set (nv12_sources_of k) \<inter> set (nv12_sources_of (ii_kind img)) = {} \<and>
      set (packed_sources_of k) \<inter> set (packed_sources_of (ii_kind img)) = {} \<or> k = ii_kind img \<longrightarrow> kind_fits im' k)"
  proof (cases "ii_kind img")
    case (Staged_packed p)
    obtain d cache where r: "release_source (sp_source p) (im_packed_cache im) = (d, cache)" by fastforce
    have im': "im' = im\<lparr>im_packed_cache := cache\<rparr>" using step by (simp add: release_staged_source_def Staged_packed r)
    note released = cache_ok_release [OF packed r]
    have "importer_ok s0 h im' w"
      using ok released(1) device_ok_released(2) [OF device r] by (simp add: importer_ok_def im')
    moreover have "kind_fits im' k"
      if "kind_fits im k" "holds_kind k h" "sp_source p \<notin> set (packed_sources_of k) \<or> k = Staged_packed p" for k
    proof (cases "k = Staged_packed p")
      case True
      note fit = that(1) [unfolded True]
      obtain q r' where "lt_leases (sc_table (im_packed_cache im)) (sp_source p) = Some (r', q)"
        using fit by (auto simp: packed_source_is_def)
      then have "\<exists>r q. lt_leases (sc_table cache) (sp_source p) = Some (r, q)"
        using release_source_lease [OF r] by blast
      then show ?thesis using that(1) True released(3) by (auto simp: im' lease_kinds)
    next
      case False
      then have "undisturbed (h\<lparr>hl_packed_sources := removeAll (sp_source p) (hl_packed_sources h)\<rparr>) im im'"
        using released(2) by (simp add: undisturbed_defs im')
      then show ?thesis
        by (rule kind_fits_undisturbed [OF that(1)]) (use that(2,3) False in \<open>auto simp: holds_kind_def\<close>)
    qed
    ultimately show ?thesis by (auto simp: Staged_packed)
  next
    case (Staged_nv12 n)
    obtain d cache where r: "release_source (sn_source n) (im_nv12_cache im) = (d, cache)" by fastforce
    have im': "im' = im\<lparr>im_nv12_cache := cache\<rparr>" using step by (simp add: release_staged_source_def Staged_nv12 r)
    note released = cache_ok_release [OF nv12 r]
    have "importer_ok s0 h im' w"
      using ok released(1) device_ok_released(1) [OF device r] by (simp add: importer_ok_def im')
    moreover have "kind_fits im' k"
      if "kind_fits im k" "holds_kind k h" "sn_source n \<notin> set (nv12_sources_of k) \<or> k = Staged_nv12 n" for k
    proof (cases "k = Staged_nv12 n")
      case True
      note whole = that(1) [unfolded True]
      obtain strategy where fit: "nv12_source_is UNIV strategy (sn_source n) im"
          "nv12_output_is strategy (sn_output n) im" "operation_fits im strategy (sn_operation n)"
        using whole by auto
      obtain q r' where "lt_leases (sc_table (im_nv12_cache im)) (sn_source n) = Some (r', q)"
        using fit(1) by (auto simp: nv12_source_is_def)
      then have "\<exists>r q. lt_leases (sc_table cache) (sn_source n) = Some (r, q)"
        using release_source_lease [OF r] by blast
      then have "nv12_source_is UNIV strategy (sn_source n) im'" using fit(1) released(3) by (auto simp: im' lease_kinds)
      moreover have "operation_fits im' strategy (sn_operation n)" using fit(3) by (cases "sn_operation n") (simp_all add: im')
      ultimately show ?thesis using fit(2) True by (auto simp: im' nv12_output_is_def)
    next
      case False
      then have "undisturbed (h\<lparr>hl_nv12_sources := removeAll (sn_source n) (hl_nv12_sources h)\<rparr>) im im'"
        using released(2) by (simp add: undisturbed_defs im')
      then show ?thesis
        by (rule kind_fits_undisturbed [OF that(1)]) (use that(2,3) False in \<open>auto simp: holds_kind_def\<close>)
    qed
    ultimately show ?thesis by (auto simp: Staged_nv12)
  qed (use ok step in \<open>auto simp: release_staged_source_def\<close>)
  then show "importer_ok s0 h im' w"
    and "\<And>k. kind_fits im k \<Longrightarrow> holds_kind k h \<Longrightarrow>
      set (nv12_sources_of k) \<inter> set (nv12_sources_of (ii_kind img)) = {} \<and>
      set (packed_sources_of k) \<inter> set (packed_sources_of (ii_kind img)) = {} \<or> k = ii_kind img \<Longrightarrow> kind_fits im' k"
    by blast+
qed

text \<open>Dropping an image.\<close>

definition remove_kind :: "holdings \<Rightarrow> imported_kind \<Rightarrow> holdings \<Rightarrow> bool" where
  "remove_kind h k h' \<longleftrightarrow>
     (\<exists>A B. hl_nv12_sources h = A @ nv12_sources_of k @ B \<and> hl_nv12_sources h' = A @ B) \<and>
     (\<exists>A B. hl_packed_sources h = A @ packed_sources_of k @ B \<and> hl_packed_sources h' = A @ B) \<and>
     (\<exists>A B. hl_nv12_outputs h = A @ nv12_outputs_of k @ B \<and> hl_nv12_outputs h' = A @ B) \<and>
     (\<exists>A B. hl_packed_outputs h = A @ packed_outputs_of k @ B \<and> hl_packed_outputs h' = A @ B) \<and>
     (\<exists>A B. hl_scanouts h = A @ scanouts_of k @ B \<and> hl_scanouts h' = A @ B)"

lemma remove_kind_nth:
  assumes "i < length imgs"
  shows "remove_kind (image_holdings imgs) (ii_kind (imgs ! i)) (image_holdings (drop_nth i imgs))"
proof -
  have imgs: "imgs = take i imgs @ imgs ! i # drop (Suc i) imgs" using assms by (rule id_take_nth_drop)
  have whole: "concat (map f imgs) = concat (map f (take i imgs)) @ f (imgs ! i) @ concat (map f (drop (Suc i) imgs))"
    for f :: "imported_image \<Rightarrow> 'x list" by (subst imgs) simp
  have rest: "concat (map f (drop_nth i imgs)) = concat (map f (take i imgs)) @ concat (map f (drop (Suc i) imgs))"
    for f :: "imported_image \<Rightarrow> 'x list" by (simp add: drop_nth_def)
  show ?thesis
    unfolding remove_kind_def image_holdings_def holdings.simps whole rest comp_apply
    by (intro conjI) blast+
qed

lemma image_drop_ok:
  assumes ok: "importer_ok s0 h im w" and less: "remove_kind h (ii_kind img) h'"
    and step: "image_drop img im w = (im', w')"
  shows "importer_ok s0 h' im' w'" and "undisturbed h' im im'"
proof -
  have "importer_ok s0 h' im' w' \<and> undisturbed h' im im'"
  proof (cases "ii_kind img")
    case (Direct_packed l)
    then obtain A B where l: "hl_packed_sources h = A @ l # B" "h' = h\<lparr>hl_packed_sources := A @ B\<rparr>"
      using less by (cases h, cases h') (auto simp: remove_kind_def)
    then show ?thesis using drop_packed_source_ok [OF ok l(1)] step by (simp add: image_drop_def Direct_packed)
  next
    case (Direct_nv12 l m)
    then obtain A B where l: "hl_nv12_sources h = A @ l # B" "h' = h\<lparr>hl_nv12_sources := A @ B\<rparr>"
      using less by (cases h, cases h') (auto simp: remove_kind_def)
    then show ?thesis using drop_nv12_source_ok [OF ok l(1)] step by (simp add: image_drop_def Direct_nv12)
  next
    case (Direct_bgra_scanout a)
    then obtain A B where l: "hl_scanouts h = A @ a # B" "h' = h\<lparr>hl_scanouts := A @ B\<rparr>"
      using less by (cases h, cases h') (auto simp: remove_kind_def)
    have "a \<in> set (hl_scanouts h)" and rest: "set (hl_scanouts h') = set (hl_scanouts h) - {a}"
      using ok l by (auto simp: importer_ok_def)
    then have "device_ok s0 im (set (hl_scanouts h')) w'"
      using ok step device_ok_scanout_dropped [of s0 im "set (hl_scanouts h)" w a]
      by (simp add: importer_ok_def image_drop_def Direct_bgra_scanout)
    then show ?thesis using ok step l
      by (auto simp: importer_ok_def image_drop_def Direct_bgra_scanout undisturbed_refl)
  next
    case (Staged_packed p)
    then obtain A B C D where l: "hl_packed_sources h = A @ sp_source p # B" "hl_packed_outputs h = C @ sp_output p # D"
        "h' = h\<lparr>hl_packed_sources := A @ B, hl_packed_outputs := C @ D\<rparr>"
      using less by (cases h, cases h') (auto simp: remove_kind_def)
    note first = drop_packed_source_ok [OF ok l(1)]
    have "drop_packed_output (sp_output p) (drop_packed_source (sp_source p) im) w = (im', w')"
      using step by (simp add: image_drop_def Staged_packed)
    note second = drop_packed_output_ok [OF first(1) _ this, of C D]
    have "undisturbed h' im (drop_packed_source (sp_source p) im)"
      using first(2) l by (auto simp: undisturbed_defs drop_packed_source_def)
    then show ?thesis using second l undisturbed_trans by auto
  next
    case (Staged_nv12 n)
    then obtain A B C D where l: "hl_nv12_sources h = A @ sn_source n # B" "hl_nv12_outputs h = C @ sn_output n # D"
        "h' = h\<lparr>hl_nv12_sources := A @ B, hl_nv12_outputs := C @ D\<rparr>"
      using less by (cases h, cases h') (auto simp: remove_kind_def)
    note first = drop_nv12_source_ok [OF ok l(1)]
    have "drop_nv12_output (sn_output n) (drop_nv12_source (sn_source n) im) w = (im', w')"
      using step by (simp add: image_drop_def Staged_nv12)
    note second = drop_nv12_output_ok [OF first(1) _ this, of C D]
    have "undisturbed h' im (drop_nv12_source (sn_source n) im)"
      using first(2) l by (auto simp: undisturbed_defs drop_nv12_source_def)
    then show ?thesis using second l undisturbed_trans by auto
  qed
  then show "importer_ok s0 h' im' w'" and "undisturbed h' im im'" by blast+
qed

section \<open>Every step of a client\<close>

lemma distinct_concat_nth:
  assumes "distinct (concat (map f xs))" and "i < length xs" and "j < length xs" and "i \<noteq> j"
  shows "set (f (xs ! i)) \<inter> set (f (xs ! j)) = {}"
  using assms
proof (induction xs arbitrary: i j)
  case (Cons x xs)
  have inside: "set (f (xs ! k)) \<subseteq> set (concat (map f xs))" if "k < length xs" for k
    using that by force
  show ?case
  proof (cases i)
    case 0
    then show ?thesis using Cons.prems inside [of "j - 1"] by (cases j) fastforce+
  next
    case (Suc i')
    then show ?thesis using Cons.prems Cons.IH [of i' "j - 1"] inside [of i'] by (cases j) fastforce+
  qed
qed simp

lemma client_ok_release:
  assumes ok: "client_ok s0 c" and i: "i < length (cl_images c)"
  shows "client_ok s0 (c\<lparr>cl_importer := snd (release_staged_source (cl_images c ! i) (cl_importer c))\<rparr>)"
proof -
  let ?imgs = "cl_images c" and ?h = "image_holdings (cl_images c)"
  obtain d im where step: "release_staged_source (?imgs ! i) (cl_importer c) = (d, im)" by fastforce
  have ok': "importer_ok s0 ?h (cl_importer c) (cl_world c)" using ok by (simp add: client_ok_def)
  note released = release_staged_source_ok [OF ok' step]
  have "distinct (hl_nv12_sources ?h)" "distinct (hl_packed_sources ?h)"
    using ok' by (simp_all add: importer_ok_def cache_ok_def leases_are_def)
  then have distinct: "distinct (concat (map (nv12_sources_of \<circ> ii_kind) ?imgs))"
      "distinct (concat (map (packed_sources_of \<circ> ii_kind) ?imgs))"
    by (simp_all add: image_holdings_def)
  have "kind_fits im (ii_kind img)" if "img \<in> set ?imgs" for img
  proof -
    note inside = that
    obtain j where j: "j < length ?imgs" "img = ?imgs ! j" using inside by (metis in_set_conv_nth)
    have "kind_fits (cl_importer c) (ii_kind img)" using ok that by (simp add: client_ok_def)
    then show ?thesis
      using released(2) [OF _ holds_kind_image [OF that]] j
        distinct_concat_nth [OF distinct(1) j(1) i] distinct_concat_nth [OF distinct(2) j(1) i]
      by (cases "j = i") auto
  qed
  then show ?thesis using released(1) by (simp add: client_ok_def step)
qed

lemma client_ok_drop:
  assumes ok: "client_ok s0 c" and i: "i < length (cl_images c)"
    and step: "image_drop (cl_images c ! i) (cl_importer c) (cl_world c) = (im, w)"
  shows "client_ok s0 (c\<lparr>cl_importer := im, cl_world := w, cl_images := drop_nth i (cl_images c)\<rparr>)"
proof -
  have "importer_ok s0 (image_holdings (cl_images c)) (cl_importer c) (cl_world c)" using ok by (simp add: client_ok_def)
  note dropped = image_drop_ok [OF this remove_kind_nth [OF i] step]
  have "set (drop_nth i (cl_images c)) \<subseteq> set (cl_images c)"
    by (auto simp: drop_nth_def dest: in_set_takeD in_set_dropD)
  then have "kind_fits im (ii_kind img)" if "img \<in> set (drop_nth i (cl_images c))" for img
    using ok that kind_fits_undisturbed [OF _ dropped(2) holds_kind_image [OF that]] by (auto simp: client_ok_def)
  then show ?thesis using dropped(1) by (simp add: client_ok_def)
qed

lemma importer_step_ok:
  assumes ok: "client_ok s0 c" and driver: "\<And>i. \<not> dr_empty (env_driver env) i"
  shows "client_ok s0 (importer_step env op c)"
proof -
  have im: "importer_ok s0 (image_holdings (cl_images c)) (cl_importer c) (cl_world c)" using ok by (simp add: client_ok_def)
  show ?thesis
  proof (cases op)
    case (Import_nv12 stream dims fd layout conversion capability)
    then show ?thesis using client_ok_import [OF ok import_nv12_ok [OF im driver]] by simp
  next
    case (Import_packed request strategy)
    then show ?thesis using client_ok_import [OF ok import_packed_ok [OF im]] by simp
  next
    case (Import_scanout dims fd object_size modifier plane usage)
    obtain result w where step: "new_bgra_scanout env dims fd object_size modifier plane usage (cl_world c) = (result, w)"
      by fastforce
    show ?thesis
      using client_ok_import [OF ok new_bgra_scanout_ok [OF im step]] by (simp add: Import_scanout step)
  next
    case (Release_source i)
    then show ?thesis using client_ok_release [OF ok] ok by simp
  next
    case (Submit_acquire i)
    note marked = mark_acquire_submitted_ok [OF im]
    show ?thesis using client_ok_undisturbed [OF ok marked(2,1)] ok by (simp add: Submit_acquire)
  next
    case (Drop_image i)
    obtain im' w' where "image_drop (cl_images c ! i) (cl_importer c) (cl_world c) = (im', w')" by fastforce
    then show ?thesis using client_ok_drop [OF ok] ok by (simp add: Drop_image)
  next
    case (Evict_nv12 stream)
    obtain r im' w' where step: "importer_evict_nv12 stream (cl_importer c) (cl_world c) = (r, im', w')"
      by (metis prod.collapse)
    note evicted = importer_evict_nv12_ok [OF im step]
    show ?thesis using client_ok_undisturbed [OF ok evicted(2,1)] by (simp add: Evict_nv12 step)
  next
    case (Evict_packed stream)
    obtain r im' w' where step: "importer_evict_packed stream (cl_importer c) (cl_world c) = (r, im', w')"
      by (metis prod.collapse)
    note evicted = importer_evict_packed_ok [OF im step]
    show ?thesis using client_ok_undisturbed [OF ok evicted(2,1)] by (simp add: Evict_packed step)
  qed
qed

lemma importer_run_ok:
  "client_ok s0 c \<Longrightarrow> (\<And>i. \<not> dr_empty (env_driver env) i) \<Longrightarrow> client_ok s0 (importer_run env ops c)"
  by (induction ops arbitrary: c) (simp_all add: importer_step_ok)

end
