(* ===== verification/Importer_Start.thy ===== *)
theory Importer_Start
  imports Importer_Life
begin

text \<open>
  The creation of an importer: its pipelines are those its strategies need, a failure leaves nothing
  on the device, and a new importer satisfies the invariant that its life keeps.
\<close>

section \<open>Optional pipelines\<close>

definition option_ids :: "'i \<Rightarrow> 'x option \<Rightarrow> 'i set" where
  "option_ids i x = (if x = None then {} else {i})"

lemma compute_pipeline_new_exact:
  assumes "vk_wf s"
  shows "exact_creation pipeline_ok pipeline_objects (\<lambda>_. {}) compute_pipeline_drop s (compute_pipeline_new driver bytes which s)"
    and "exact_creation pipeline_ok pipeline_objects (\<lambda>_. {}) compute_pipeline_drop s (packed_compute_pipeline_new driver shader s)"
  unfolding compute_pipeline_new_def packed_compute_pipeline_new_def
  by (intro pipelines.created [OF pipeline_new_owes assms, of "{}"], simp)+

lemma pipeline_if_holds:
  assumes held: "holds s0 I f s" and i: "i \<notin> I"
    and exact: "\<And>s. vk_wf s \<Longrightarrow>
      exact_creation pipeline_ok pipeline_objects (\<lambda>_. {}) compute_pipeline_drop s (m s)"
    and step: "pipeline_if needed m s = (r, s')"
  shows "case r of
      Inl e \<Rightarrow> holds s0 I f s'
    | Inr x \<Rightarrow> holds s0 (I \<union> option_ids i x) (f(i := Pipeline_handle (the x))) s' \<and> (x \<noteq> None \<longleftrightarrow> needed)"
proof (cases needed)
  case False
  then have "r = Inr None" "s' = s" using step by (simp_all add: pipeline_if_def io_return_def)
  moreover have "holds s0 I (f(i := Pipeline_handle (the None))) s" by (rule holds_cong [OF held]) (use i in auto)
  ultimately show ?thesis using False by (simp add: option_ids_def)
next
  case True
  obtain q s1 where m: "m s = (q, s1)" by fastforce
  have "exact_creation pipeline_ok pipeline_objects (\<lambda>_. {}) compute_pipeline_drop s (q, s1)"
    using exact [OF holds_wf [OF held]] m by simp
  note made = holds_creation [OF held this, of Pipeline_handle]
  show ?thesis
    using made step True i
    by (cases q) (auto simp: pipeline_if_def io_bind_def io_return_def m option_ids_def)
qed

lemma option_drop_holds:
  assumes wf: "vk_wf s0" and held: "holds s0 (I \<union> option_ids i x) f s" and i: "i \<notin> I"
    and f: "x \<noteq> None \<Longrightarrow> f i = Pipeline_handle (the x)"
  shows "holds s0 I f (option_drop compute_pipeline_drop x s)"
proof (cases x)
  case None
  then show ?thesis using held by (simp add: option_drop_def option_ids_def)
next
  case (Some p)
  have "holds s0 (I \<union> {i} - {i}) f (handle_drop (f i) s)"
    by (rule holds_dispose [OF wf]) (use held Some in \<open>simp_all add: option_ids_def\<close>)
  then show ?thesis using i f Some by (simp add: option_drop_def Diff_insert_absorb)
qed

section \<open>The creation\<close>

lemma three_pipelines:
  fixes K :: "compute_pipeline option \<Rightarrow> compute_pipeline option \<Rightarrow> compute_pipeline option \<Rightarrow> 'k"
  assumes wf: "vk_wf s0"
    and exact: "\<And>s. vk_wf s \<Longrightarrow> exact_creation pipeline_ok pipeline_objects (\<lambda>_. {}) compute_pipeline_drop s (m1 s)"
      "\<And>s. vk_wf s \<Longrightarrow> exact_creation pipeline_ok pipeline_objects (\<lambda>_. {}) compute_pipeline_drop s (m2 s)"
      "\<And>s. vk_wf s \<Longrightarrow> exact_creation pipeline_ok pipeline_objects (\<lambda>_. {}) compute_pipeline_drop s (m3 s)"
    and step: "io_bind (pipeline_if n1 m1)
        (\<lambda>a. io_bind (io_cleanup (option_drop compute_pipeline_drop a) (pipeline_if n2 m2))
        (\<lambda>b. io_bind (io_cleanup
            (\<lambda>s. option_drop compute_pipeline_drop a (option_drop compute_pipeline_drop b s)) (pipeline_if n3 m3))
        (\<lambda>c. io_return (K a b c)))) s0 = (result, s)"
  shows "case result of
      Inl e \<Rightarrow> gained s0 {} {} s
    | Inr k \<Rightarrow> \<exists>a b c. k = K a b c \<and> (a \<noteq> None \<longleftrightarrow> n1) \<and> (b \<noteq> None \<longleftrightarrow> n2) \<and> (c \<noteq> None \<longleftrightarrow> n3) \<and>
        holds s0 (option_ids Rgba_pipeline_id a \<union> option_ids Planar_pipeline_id b \<union> option_ids Packed_pipeline_id c)
          (\<lambda>i. Pipeline_handle (the (if i = Rgba_pipeline_id then a else if i = Planar_pipeline_id then b else c))) s"
proof -
  let ?f0 = "\<lambda>_ :: resource_id. Image_handle undefined"
  obtain r1 s1 where one: "pipeline_if n1 m1 s0 = (r1, s1)" by fastforce
  note first = pipeline_if_holds [OF holds_empty [OF wf, of ?f0] _ exact(1) one, of Rgba_pipeline_id]
  show ?thesis
  proof (cases r1)
    case (Inl e)
    then show ?thesis using step first by (auto simp: io_bind_def one holds_def)
  next
    case a: (Inr a)
    let ?f1 = "?f0(Rgba_pipeline_id := Pipeline_handle (the a))"
    have held1: "holds s0 ({} \<union> option_ids Rgba_pipeline_id a) ?f1 s1" and n1: "a \<noteq> None \<longleftrightarrow> n1" using first a by simp_all
    obtain r2 s2 where two: "pipeline_if n2 m2 s1 = (r2, s2)" by fastforce
    note second = pipeline_if_holds [OF held1 _ exact(2) two, of Planar_pipeline_id]
    show ?thesis
    proof (cases r2)
      case (Inl e)
      then have "holds s0 ({} \<union> option_ids Rgba_pipeline_id a) ?f1 s2" using second by (simp add: option_ids_def)
      from option_drop_holds [OF wf this] have "holds s0 {} ?f1 (option_drop compute_pipeline_drop a s2)" by simp
      then show ?thesis using step Inl by (auto simp: io_bind_def io_cleanup_def one a two holds_def)
    next
      case b: (Inr b)
      let ?f2 = "?f1(Planar_pipeline_id := Pipeline_handle (the b))"
      have held2: "holds s0 ({} \<union> option_ids Rgba_pipeline_id a \<union> option_ids Planar_pipeline_id b) ?f2 s2" and n2: "b \<noteq> None \<longleftrightarrow> n2"
        using second b by (auto simp: option_ids_def)
      obtain r3 s3 where three: "pipeline_if n3 m3 s2 = (r3, s3)" by fastforce
      note third = pipeline_if_holds [OF held2 _ exact(3) three, of Packed_pipeline_id]
      show ?thesis
      proof (cases r3)
        case (Inl e)
        then have "holds s0 ({} \<union> option_ids Rgba_pipeline_id a \<union> option_ids Planar_pipeline_id b) ?f2 s3" using third by (simp add: option_ids_def)
        from option_drop_holds [OF wf this]
        have "holds s0 ({} \<union> option_ids Rgba_pipeline_id a) ?f2 (option_drop compute_pipeline_drop b s3)" by (simp add: option_ids_def)
        from option_drop_holds [OF wf this]
        have "holds s0 {} ?f2 (option_drop compute_pipeline_drop a (option_drop compute_pipeline_drop b s3))" by simp
        then show ?thesis using step Inl by (auto simp: io_bind_def io_cleanup_def one a two b three holds_def)
      next
        case c: (Inr c)
        have "holds s0 ({} \<union> option_ids Rgba_pipeline_id a \<union> option_ids Planar_pipeline_id b \<union> option_ids Packed_pipeline_id c)
            (?f2(Packed_pipeline_id := Pipeline_handle (the c))) s3" and n3: "c \<noteq> None \<longleftrightarrow> n3"
          using third c by (auto simp: option_ids_def)
        then have "holds s0 (option_ids Rgba_pipeline_id a \<union> option_ids Planar_pipeline_id b \<union> option_ids Packed_pipeline_id c)
            (\<lambda>i. Pipeline_handle (the (if i = Rgba_pipeline_id then a else if i = Planar_pipeline_id then b else c))) s3"
          by (simp, elim holds_cong) (auto simp: option_ids_def split: if_splits)
        moreover have "result = Inr (K a b c)" "s = s3"
          using step c by (simp_all add: io_bind_def io_cleanup_def io_return_def one a two b three)
        ultimately show ?thesis using n1 n2 n3 by auto
      qed
    qed
  qed
qed

lemma new_ok:
  "cache_ok fits (source_cache_new k) []" "cache_ok fits' (packed_source_cache_new k) []"
  "output_pool_ok slots (output_pool_new k) []"
proof -
  have "cache_inv (packed_source_cache_new k :: 'x packed_source_cache)"
    by (simp add: cache_inv_def packed_source_cache_new_def source_cache_new_def table_inv_empty
        source_cache.defs packed_source_cache.defs) (simp add: empty_table_def)
  then show "cache_ok fits' (packed_source_cache_new k) []"
    by (simp add: cache_ok_def entries_fit_def leases_are_def)
      (simp add: packed_source_cache_new_def source_cache_new_def empty_table_def
        source_cache.defs packed_source_cache.defs)
  show "cache_ok fits (source_cache_new k) []"
    using cache_inv_new [of k] by (simp add: cache_ok_def entries_fit_def leases_are_def)
      (simp add: source_cache_new_def empty_table_def)
  show "output_pool_ok slots (output_pool_new k) []"
    using pool_inv_new [of k] by (simp add: output_pool_ok_def slots_fit_def leases_are_def)
      (simp add: output_pool_new_def empty_table_def)
qed

lemma importer_new_exact:
  assumes wf: "vk_wf s0" and step: "importer_new env limits preference s0 = (result, s)"
  shows "case result of
      Inl e \<Rightarrow> gained s0 {} {} s
    | Inr im \<Rightarrow> importer_ok s0 (image_holdings []) im \<lparr>w_vk = s, w_files = files, w_next_import_id = n\<rparr> \<and>
        resource_ids im {} = pipeline_ids im \<and>
        (im_rgba_compute im \<noteq> None \<longleftrightarrow> list_ex (\<lambda>c. cap_strategy c = LinearBufferToRgba) (im_capabilities im)) \<and>
        (im_planar_compute im \<noteq> None \<longleftrightarrow> list_ex (\<lambda>c. cap_strategy c = LinearBufferToYuvPlanes) (im_capabilities im)) \<and>
        (im_packed_compute im \<noteq> None \<longleftrightarrow> im_packed_staging_error im = None)"
proof (cases "lim_nv12_source_cache_entries limits = 0 \<or> lim_nv12_output_slots limits = 0 \<or>
         lim_packed_source_cache_entries limits = 0 \<or> lim_packed_output_slots limits = 0")
  case True
  then show ?thesis using step gained_refl [OF wf] by (auto simp: importer_new_def)
next
  case False
  let ?capabilities = "inventory_nv12 (env_device env) preference"
  let ?uses = "\<lambda>strategy. list_ex (\<lambda>c. cap_strategy c = strategy) ?capabilities"
  let ?packed = "validate_packed_staging_support (env_device env) Packed_Bgra8888 DRM_FORMAT_MOD_LINEAR"
  let ?im = "\<lambda>rgba planar packed. \<lparr>im_capabilities = ?capabilities, im_preference = preference,
             im_nv12_pool = output_pool_new (lim_nv12_output_slots limits),
             im_nv12_cache = source_cache_new (lim_nv12_source_cache_entries limits),
             im_packed_pool = output_pool_new (lim_packed_output_slots limits),
             im_packed_cache = packed_source_cache_new (lim_packed_source_cache_entries limits),
             im_rgba_compute = rgba, im_planar_compute = planar, im_packed_compute = packed,
             im_packed_staging_error = (case ?packed of Inl e \<Rightarrow> Some e | Inr _ \<Rightarrow> None),
             im_output_busy_rejections = 0, im_packed_output_busy_rejections = 0\<rparr>"
  obtain r s' where made: "io_bind (pipeline_if (?uses LinearBufferToRgba)
        (compute_pipeline_new (env_driver env) (env_nv12_shader env) Output_rgba))
      (\<lambda>rgba. io_bind (io_cleanup (option_drop compute_pipeline_drop rgba)
        (pipeline_if (?uses LinearBufferToYuvPlanes)
          (compute_pipeline_new (env_driver env) (env_nv12_shader env) Output_yuv_planes)))
      (\<lambda>planar. io_bind (io_cleanup
          (\<lambda>s. option_drop compute_pipeline_drop rgba (option_drop compute_pipeline_drop planar s))
          (pipeline_if (is_ok ?packed) (packed_compute_pipeline_new (env_driver env) (env_packed_shader env))))
      (\<lambda>packed. io_return (?im rgba planar packed)))) s0 = (r, s')" by fastforce
  have r: "result = map_err Pipeline_failed r" "s = s'"
    using step False made by (auto simp: importer_new_def Let_def io_map_err_def)
  note three = three_pipelines [OF wf compute_pipeline_new_exact(1) compute_pipeline_new_exact(1)
      compute_pipeline_new_exact(2) made]
  show ?thesis
  proof (cases r)
    case (Inl e)
    then show ?thesis using three by (simp add: r)
  next
    case (Inr im)
    then obtain a b c where im: "im = ?im a b c"
      and needed: "a \<noteq> None \<longleftrightarrow> ?uses LinearBufferToRgba" "b \<noteq> None \<longleftrightarrow> ?uses LinearBufferToYuvPlanes"
        "c \<noteq> None \<longleftrightarrow> is_ok ?packed"
      and held: "holds s0 (option_ids Rgba_pipeline_id a \<union> option_ids Planar_pipeline_id b \<union> option_ids Packed_pipeline_id c)
          (\<lambda>i. Pipeline_handle (the (if i = Rgba_pipeline_id then a else if i = Planar_pipeline_id then b else c))) s'"
      using three by auto
    have ids: "resource_ids im {} = option_ids Rgba_pipeline_id a \<union> option_ids Planar_pipeline_id b \<union> option_ids Packed_pipeline_id c"
      by (auto simp: im resource_ids_def pipeline_ids_def option_ids_def cached_resources_def pool_resources_def
          leased_resources_def source_cache_new_def output_pool_new_def packed_source_cache_new_def empty_table_def
          source_cache.defs packed_source_cache.defs)
    have "holds s0 (resource_ids im {}) (resource_handle im) s'"
      unfolding ids by (rule holds_cong [OF held]) (auto simp: option_ids_def im split: if_splits)
    then have "device_ok s0 im {} \<lparr>w_vk = s', w_files = files, w_next_import_id = n\<rparr>"
      using wf by (simp add: device_ok_def)
    moreover have "im_nv12_cache im = source_cache_new (lim_nv12_source_cache_entries limits)"
      "im_packed_cache im = packed_source_cache_new (lim_packed_source_cache_entries limits)"
      "im_nv12_pool im = output_pool_new (lim_nv12_output_slots limits)"
      "im_packed_pool im = output_pool_new (lim_packed_output_slots limits)"
      by (simp_all add: im)
    ultimately have "importer_ok s0 (image_holdings []) im \<lparr>w_vk = s', w_files = files, w_next_import_id = n\<rparr>"
      by (simp add: importer_ok_def image_holdings_def new_ok)
    moreover have "resource_ids im {} = pipeline_ids im"
      unfolding ids by (auto simp: im pipeline_ids_def option_ids_def)
    ultimately show ?thesis using needed Inr r by (auto simp: im is_ok_def split: sum.splits)
  qed
qed

end
