(* ===== verification/Importer_Properties.thy ===== *)
theory Importer_Properties
  imports Importer_Start
begin

text \<open>
  The properties of a whole importer: created on some device, then used by a client in any way the
  operations of \<open>Importer\<close> allow. The device, the leases and the images of such a client.
\<close>

section \<open>Clients of a new importer\<close>

text \<open>A client after some operations on an importer made from a well-formed device.\<close>

definition client_of ::
  "('f, 'io) importer_env \<Rightarrow> pool_limits \<Rightarrow> nv12_staging_preference \<Rightarrow> vk_state \<Rightarrow> 'f \<Rightarrow> u64 \<Rightarrow>
   importer_op list \<Rightarrow> 'f client option" where
  "client_of env limits preference s0 files n ops =
     (case importer_new env limits preference s0 of
        (Inl e, s) \<Rightarrow> None
      | (Inr im, s) \<Rightarrow> Some (importer_run env ops (client_start im s files n)))"

lemma client_of_ok:
  assumes "vk_wf s0" and "\<And>i. \<not> dr_empty (env_driver env) i"
    and "client_of env limits preference s0 files n ops = Some c"
  shows "client_ok s0 c"
proof -
  obtain im s where new: "importer_new env limits preference s0 = (Inr im, s)"
      and c: "c = importer_run env ops (client_start im s files n)"
    using assms(3) by (auto simp: client_of_def split: prod.splits sum.splits)
  have "client_ok s0 (client_start im s files n)"
    using importer_new_exact [OF assms(1) new, of files n] by (simp add: client_ok_def client_start_def)
  then show ?thesis unfolding c by (rule importer_run_ok) (rule assms(2))
qed

section \<open>Objects of images\<close>

fun sampled_objects :: "sampled_images \<Rightarrow> vk_object set" where
  "sampled_objects (Sampled_rgba x) = {x}"
| "sampled_objects (Sampled_bgra x) = {x}"
| "sampled_objects (Sampled_nv12 x) = {x}"
| "sampled_objects (Sampled_yuv_planes x y) = {x, y}"

text \<open>What the acquire work of a plan uses, and the images it makes readable.\<close>

fun plan_objects :: "acquire_work \<Rightarrow> vk_object set" where
  "plan_objects (Plan_direct_image x) = {x}"
| "plan_objects (Plan_staged_compute p) =
     {sap_source_buffer p, sap_pipeline p, sap_pipeline_layout p} \<union> sampled_objects (sap_output p)"
| "plan_objects (Plan_staged_transfer p) = insert (stp_source_buffer p) (sampled_objects (stp_output p))"
| "plan_objects (Plan_image_transfer p) = insert (itp_source_image p) (sampled_objects (itp_output p))"

fun plan_images :: "acquire_work \<Rightarrow> vk_object set" where
  "plan_images (Plan_direct_image x) = {x}"
| "plan_images (Plan_staged_compute p) = sampled_objects (sap_output p)"
| "plan_images (Plan_staged_transfer p) = sampled_objects (stp_output p)"
| "plan_images (Plan_image_transfer p) = sampled_objects (itp_output p)"

text \<open>Where the objects of a kind of image come from.\<close>

definition shown_by :: "importer \<Rightarrow> imported_kind \<Rightarrow> resource_id option" where
  "shown_by im k =
     (case k of
        Direct_packed l \<Rightarrow> map_option Packed_source_id (lease_resource l (sc_table (im_packed_cache im)))
      | Direct_bgra_scanout a \<Rightarrow> Some (Scanout_id a)
      | Direct_nv12 l _ \<Rightarrow> map_option Nv12_source_id (lease_resource l (sc_table (im_nv12_cache im)))
      | Staged_packed p \<Rightarrow> map_option Packed_slot_id (lease_resource (sp_output p) (op_table (im_packed_pool im)))
      | Staged_nv12 n \<Rightarrow> map_option Nv12_slot_id (lease_resource (sn_output n) (op_table (im_nv12_pool im))))"

lemma slot_sampled_inside: "sampled_objects (slot_sampled_images x) \<subseteq> slot_images_objects x"
  by (cases x) (auto simp: viewed_objects_def image_objects_def)

lemma leased_source_resource:
  assumes "leased_source l s = Some a" and "cache_inv s"
  shows "\<exists>r. lease_resource l (sc_table s) = Some r \<and> r \<in> cached_resources s \<and> sc_allocation s r = Some a"
proof -
  obtain r q where l: "lt_leases (sc_table s) l = Some (r, q)" "sc_allocation s r = Some a"
    using assms(1) by (auto simp: leased_source_def lease_resource_def Option.bind_eq_Some_conv)
  then show ?thesis
    using cache_inv_leases [OF assms(2) l(1)] by (simp add: lease_resource_def cached_resources_def)
qed

lemma leased_slot_resource:
  assumes "leased_slot l p = Some x" and "output_pool_ok fits p ls"
  shows "\<exists>r. lease_resource l (op_table p) = Some r \<and> r \<in> pool_resources p \<and> op_resources p r = Some x \<and>
    (\<exists>t. (t, r) \<in> set (op_slots p))"
proof -
  obtain r q where l: "lt_leases (op_table p) l = Some (r, q)" "op_resources p r = Some x"
    using assms(1) by (auto simp: leased_slot_def lease_resource_def Option.bind_eq_Some_conv)
  then have "r \<in> snd ` set (op_slots p)"
    using assms(2) unfolding output_pool_ok_def pool_inv_def by blast
  then show ?thesis using l by (auto simp: lease_resource_def pool_resources_def)
qed

lemma owned_inside: "i \<in> resource_ids im X \<Longrightarrow> handle_objects (resource_handle im i) \<subseteq> resource_objects im X"
  by (auto simp: resource_objects_def)

lemma pipeline_inside:
  "im_rgba_compute im = Some p \<Longrightarrow> {cp_pipeline p, cp_pipeline_layout p} \<subseteq> resource_objects im X"
  "im_planar_compute im = Some p \<Longrightarrow> {cp_pipeline p, cp_pipeline_layout p} \<subseteq> resource_objects im X"
  "im_packed_compute im = Some p \<Longrightarrow> {cp_pipeline p, cp_pipeline_layout p} \<subseteq> resource_objects im X"
  using owned_inside [of Rgba_pipeline_id im X] owned_inside [of Planar_pipeline_id im X]
    owned_inside [of Packed_pipeline_id im X]
  by (auto simp: resource_ids_def pipeline_ids_def pipeline_objects_def)

text \<open>An image that fits has a plan; what it shows belongs to one resource of the importer.\<close>

definition shows_resource :: "importer \<Rightarrow> image_allocation set \<Rightarrow> imported_image \<Rightarrow> bool" where
  "shows_resource im X img \<longleftrightarrow> (\<exists>plan x fmt i.
     acquire_plan img im = Some plan \<and> imported_image_handle img im = Some x \<and> sampled_format img im = Some fmt \<and>
     x \<in> plan_images plan \<and> shown_by im (ii_kind img) = Some i \<and> i \<in> resource_ids im X \<and>
     plan_images plan \<subseteq> handle_objects (resource_handle im i) \<and> plan_objects plan \<subseteq> resource_objects im X)"

lemma shows_resourceI:
  assumes "acquire_plan img im = Some plan" and "imported_image_handle img im = Some x"
    and "sampled_format img im = Some fmt" and "x \<in> plan_images plan" and "shown_by im (ii_kind img) = Some i"
    and "i \<in> resource_ids im X" and "plan_images plan \<subseteq> handle_objects (resource_handle im i)"
    and "plan_objects plan \<subseteq> plan_images plan \<union> resource_objects im X"
  shows "shows_resource im X img"
  using assms owned_inside [OF assms(6)] unfolding shows_resource_def by blast

lemma packed_source_shown:
  assumes inv: "cache_inv (im_packed_cache im)" and l: "leased_source l (im_packed_cache im) = Some (a, fmt)"
  shows "\<exists>r. lease_resource l (sc_table (im_packed_cache im)) = Some r \<and>
    Packed_source_id r \<in> resource_ids im X \<and> resource_handle im (Packed_source_id r) = Packed_source_handle a"
  using leased_source_resource [OF l inv] by (auto simp: resource_ids_def)

lemma nv12_source_shown:
  assumes inv: "cache_inv (im_nv12_cache im)" and l: "leased_source l (im_nv12_cache im) = Some a"
  shows "\<exists>r. lease_resource l (sc_table (im_nv12_cache im)) = Some r \<and>
    Nv12_source_id r \<in> resource_ids im X \<and> resource_handle im (Nv12_source_id r) = Nv12_source_handle a"
  using leased_source_resource [OF l inv] by (auto simp: resource_ids_def)

lemma packed_slot_shown:
  assumes ok: "output_pool_ok fits (im_packed_pool im) ls" and l: "leased_slot l (im_packed_pool im) = Some x"
  shows "\<exists>r. lease_resource l (op_table (im_packed_pool im)) = Some r \<and>
    Packed_slot_id r \<in> resource_ids im X \<and> resource_handle im (Packed_slot_id r) = Packed_slot_handle x"
  using leased_slot_resource [OF l ok] by (auto simp: resource_ids_def)

lemma nv12_slot_shown:
  assumes ok: "output_pool_ok fits (im_nv12_pool im) ls" and l: "leased_slot l (im_nv12_pool im) = Some x"
  shows "\<exists>r. lease_resource l (op_table (im_nv12_pool im)) = Some r \<and>
    Nv12_slot_id r \<in> resource_ids im X \<and> resource_handle im (Nv12_slot_id r) = Staged_slot_handle x"
  using leased_slot_resource [OF l ok] by (auto simp: resource_ids_def)

lemma nv12_source_buffer_inside:
  assumes "cache_inv (im_nv12_cache im)" and "leased_source l (im_nv12_cache im) = Some a"
  shows "handle_objects (Nv12_source_handle a) \<subseteq> resource_objects im X"
proof -
  obtain r where "Nv12_source_id r \<in> resource_ids im X" "resource_handle im (Nv12_source_id r) = Nv12_source_handle a"
    using nv12_source_shown [OF assms] by blast
  then show ?thesis using owned_inside [of "Nv12_source_id r" im X] by simp
qed

lemma staged_packed_shown:
  assumes caches: "cache_inv (im_packed_cache im)" and pool: "output_pool_ok fits (im_packed_pool im) ls"
    and k: "ii_kind img = Staged_packed p" and fit: "kind_fits im (Staged_packed p)"
  shows "shows_resource im X img"
proof -
  obtain v b fmt where source: "leased_source (sp_source p) (im_packed_cache im) = Some (Packed_source_staged v b, fmt)"
  proof -
    obtain a where "leased_source (sp_source p) (im_packed_cache im) = Some a"
        "packed_source_fits LinearBufferToOptimalBgra (fst a)"
      using fit by (auto simp: packed_source_is_def)
    then show ?thesis using that by (cases a; cases "fst a") auto
  qed
  obtain slot where slot: "leased_slot (sp_output p) (im_packed_pool im) = Some slot"
    using fit by (auto simp: packed_output_is_def)
  have compute: "im_packed_compute im = Some (sp_pipeline p)" using fit by simp
  obtain r where r: "Packed_source_id r \<in> resource_ids im X"
      "resource_handle im (Packed_source_id r) = Packed_source_handle (Packed_source_staged v b)"
    using packed_source_shown [OF caches source] by blast
  have "ba_buffer b \<in> resource_objects im X"
    using owned_inside [OF r(1)] r(2) buffer_inside [of b] by auto
  moreover obtain q where q: "lease_resource (sp_output p) (op_table (im_packed_pool im)) = Some q"
      "Packed_slot_id q \<in> resource_ids im X" "resource_handle im (Packed_slot_id q) = Packed_slot_handle slot"
    using packed_slot_shown [OF pool slot] by blast
  ultimately show ?thesis
    using pipeline_inside(3) [OF compute, of X]
    by (intro shows_resourceI [where i = "Packed_slot_id q"])
      (auto simp: acquire_plan_def packed_plan_def k source slot imported_image_handle_def sampled_format_def
        shown_by_def packed_slot_objects_def viewed_objects_def image_objects_def)
qed

lemma staged_nv12_shown:
  assumes caches: "cache_inv (im_nv12_cache im)" and pool: "output_pool_ok fits (im_nv12_pool im) ls"
    and k: "ii_kind img = Staged_nv12 n" and fit: "kind_fits im (Staged_nv12 n)"
  shows "shows_resource im X img"
proof -
  obtain strategy a slot where source: "leased_source (sn_source n) (im_nv12_cache im) = Some a" "source_fits strategy a"
      and slot: "leased_slot (sn_output n) (im_nv12_pool im) = Some slot" "slot_fits strategy slot"
      and op: "operation_fits im strategy (sn_operation n)"
    using fit by (auto simp: nv12_source_is_def nv12_output_is_def)
  note inside = nv12_source_buffer_inside [OF caches source(1), of X]
  obtain q where q: "lease_resource (sn_output n) (op_table (im_nv12_pool im)) = Some q"
      "Nv12_slot_id q \<in> resource_ids im X" "resource_handle im (Nv12_slot_id q) = Staged_slot_handle slot"
    using nv12_slot_shown [OF pool slot(1)] by blast
  let ?shown = "slot_sampled_images (so_images slot)"
  obtain x where x: "imported_image_handle img im = Some x" "x \<in> sampled_objects ?shown"
    by (cases "so_images slot") (auto simp: imported_image_handle_def k output_images_def slot)
  obtain fmt where fmt: "sampled_format img im = Some fmt"
    by (simp add: sampled_format_def k output_images_def slot)
  have "\<exists>plan. acquire_plan img im = Some plan \<and> plan_images plan = sampled_objects ?shown \<and>
      plan_objects plan \<subseteq> plan_images plan \<union> resource_objects im X"
  proof (cases "sn_operation n")
    case (Compute p constants)
    then have "strategy \<in> {LinearBufferToYuvPlanes, LinearBufferToRgba}"
        and pipeline: "im_rgba_compute im = Some p \<or> im_planar_compute im = Some p" using op by auto
    then obtain v b d where a: "a = Source_compute v b" and d: "so_descriptor_set slot = Some d"
      using source(2) slot(2) by (cases a) (auto simp: slot_fits_def)
    have "{cp_pipeline p, cp_pipeline_layout p} \<subseteq> resource_objects im X"
      using pipeline pipeline_inside(1,2) by metis
    moreover have "ba_buffer b \<in> resource_objects im X" using inside buffer_inside [of b] by (auto simp: a)
    ultimately show ?thesis
      by (simp add: acquire_plan_def nv12_plan_def k Let_def source slot Compute a d)
  next
    case (Buffer_transfer layout)
    then obtain b where a: "a = Source_transfer b" using op source(2) by (cases a) auto
    have "ba_buffer b \<in> resource_objects im X" using inside buffer_inside [of b] by (auto simp: a)
    then show ?thesis
      by (simp add: acquire_plan_def nv12_plan_def k Let_def source slot Buffer_transfer a)
  next
    case Image_transfer
    then obtain s where a: "a = Source_direct s" using op source(2) by (cases a) auto
    have "ia_image s \<in> resource_objects im X" using inside by (auto simp: a image_objects_def)
    then show ?thesis
      by (simp add: acquire_plan_def nv12_plan_def k Let_def source slot Image_transfer a)
  qed
  then show ?thesis
    using x fmt q slot_sampled_inside [of "so_images slot"]
    by (elim exE conjE, intro shows_resourceI [where i = "Nv12_slot_id q"])
      (auto simp: shown_by_def k staged_slot_objects_def)
qed

lemma image_shown:
  assumes ok: "importer_ok s0 h im w" and fit: "kind_fits im (ii_kind img)"
    and scan: "set (scanouts_of (ii_kind img)) \<subseteq> set (hl_scanouts h)"
  shows "shows_resource im (set (hl_scanouts h)) img"
proof -
  have packed: "cache_inv (im_packed_cache im)" and nv12: "cache_inv (im_nv12_cache im)"
    and packed_pool: "output_pool_ok (\<lambda>_ _. True) (im_packed_pool im) (hl_packed_outputs h)"
    and nv12_pool: "output_pool_ok (\<lambda>(dims, strategy). slot_fits strategy) (im_nv12_pool im) (hl_nv12_outputs h)"
    using ok by (simp_all add: importer_ok_def cache_ok_def)
  let ?X = "set (hl_scanouts h)"
  show ?thesis
  proof (cases "ii_kind img")
    case (Direct_packed l)
    obtain a fmt where a: "leased_source l (im_packed_cache im) = Some (Packed_source_direct a, fmt)"
    proof -
      obtain a where "leased_source l (im_packed_cache im) = Some a" "packed_source_fits Packed_DirectSampledImage (fst a)"
        using fit Direct_packed by (auto simp: packed_source_is_def)
      then show ?thesis using that by (cases a; cases "fst a") auto
    qed
    obtain r where "lease_resource l (sc_table (im_packed_cache im)) = Some r" "Packed_source_id r \<in> resource_ids im ?X"
        "resource_handle im (Packed_source_id r) = Packed_source_handle (Packed_source_direct a)"
      using packed_source_shown [OF packed a] by blast
    then show ?thesis
      by (intro shows_resourceI [where i = "Packed_source_id r"])
        (auto simp: acquire_plan_def Direct_packed packed_source_image_def a imported_image_handle_def
          sampled_format_def shown_by_def image_objects_def)
  next
    case (Direct_nv12 l m)
    obtain a where a: "leased_source l (im_nv12_cache im) = Some (Source_direct a)"
    proof -
      obtain a where "leased_source l (im_nv12_cache im) = Some a" "source_fits DirectSampledImage a"
        using fit Direct_nv12 by (auto simp: nv12_source_is_def)
      then show ?thesis using that by (cases a) auto
    qed
    obtain r where "lease_resource l (sc_table (im_nv12_cache im)) = Some r" "Nv12_source_id r \<in> resource_ids im ?X"
        "resource_handle im (Nv12_source_id r) = Nv12_source_handle (Source_direct a)"
      using nv12_source_shown [OF nv12 a] by blast
    then show ?thesis
      by (intro shows_resourceI [where i = "Nv12_source_id r"])
        (auto simp: acquire_plan_def Direct_nv12 nv12_source_image_def a imported_image_handle_def
          sampled_format_def shown_by_def image_objects_def)
  next
    case (Direct_bgra_scanout a)
    then have "a \<in> ?X" using scan by simp
    then show ?thesis
      by (intro shows_resourceI [where i = "Scanout_id a"])
        (auto simp: acquire_plan_def Direct_bgra_scanout imported_image_handle_def sampled_format_def shown_by_def
          resource_ids_def image_objects_def)
  next
    case (Staged_packed p)
    then show ?thesis using staged_packed_shown [OF packed packed_pool] fit by simp
  next
    case (Staged_nv12 n)
    then show ?thesis using staged_nv12_shown [OF nv12 nv12_pool] fit by simp
  qed
qed

text \<open>Two images never show the same resource.\<close>

lemma held_exclusive:
  assumes "table_inv t" and "lt_leases t l = Some (r, Held)" and "lt_leases t l' = Some (r, Held)"
  shows "l = l'"
proof -
  have "l \<in> active t r" "l' \<in> active t r" using assms(2,3) by (simp_all add: active_def)
  then show ?thesis using assms(1) unfolding table_inv_def by blast
qed

lemma held_resource_exclusive:
  assumes "table_inv t" and "lease_resource l t = Some r" and "lease_resource l' t = Some r"
    and "\<exists>r. lt_leases t l = Some (r, Held)" and "\<exists>r. lt_leases t l' = Some (r, Held)"
  shows "l = l'"
  using assms held_exclusive [OF assms(1)] by (auto simp: lease_resource_def)

lemma pool_lease_held:
  assumes "output_pool_ok fits p ls" and "lease_resource l (op_table p) = Some r"
  shows "\<exists>r. lt_leases (op_table p) l = Some (r, Held)"
  using assms by (auto simp: output_pool_ok_def lease_resource_def)

lemma shown_exclusive:
  assumes ok: "client_ok s0 c" and i: "i < length (cl_images c)" and j: "j < length (cl_images c)" and "i \<noteq> j"
    and a: "shown_by (cl_importer c) (ii_kind (cl_images c ! i)) = Some r"
    and b: "shown_by (cl_importer c) (ii_kind (cl_images c ! j)) = Some r'"
  shows "r \<noteq> r'"
proof
  assume same: "r = r'"
  let ?im = "cl_importer c" and ?h = "image_holdings (cl_images c)"
  let ?k = "ii_kind (cl_images c ! i)" and ?k' = "ii_kind (cl_images c ! j)"
  have im: "importer_ok s0 ?h ?im (cl_world c)" using ok by (simp add: client_ok_def)
  have pools: "output_pool_ok (\<lambda>_ _. True) (im_packed_pool ?im) (hl_packed_outputs ?h)"
      "output_pool_ok (\<lambda>(dims, strategy). slot_fits strategy) (im_nv12_pool ?im) (hl_nv12_outputs ?h)"
    and tables: "table_inv (sc_table (im_packed_cache ?im))" "table_inv (sc_table (im_nv12_cache ?im))"
      "table_inv (op_table (im_packed_pool ?im))" "table_inv (op_table (im_nv12_pool ?im))"
    using im by (simp_all add: importer_ok_def cache_ok_def output_pool_ok_def pool_inv_def cache_inv_def)
  have lists: "distinct (hl_nv12_sources ?h)" "distinct (hl_packed_sources ?h)" "distinct (hl_nv12_outputs ?h)"
      "distinct (hl_packed_outputs ?h)" "distinct (hl_scanouts ?h)"
    using im by (simp_all add: importer_ok_def cache_ok_def output_pool_ok_def leases_are_def)
  then have disjoint: "set (nv12_sources_of ?k) \<inter> set (nv12_sources_of ?k') = {}"
      "set (packed_sources_of ?k) \<inter> set (packed_sources_of ?k') = {}"
      "set (nv12_outputs_of ?k) \<inter> set (nv12_outputs_of ?k') = {}"
      "set (packed_outputs_of ?k) \<inter> set (packed_outputs_of ?k') = {}"
      "set (scanouts_of ?k) \<inter> set (scanouts_of ?k') = {}"
    using distinct_concat_nth [OF _ i j \<open>i \<noteq> j\<close>, of "nv12_sources_of \<circ> ii_kind"]
      distinct_concat_nth [OF _ i j \<open>i \<noteq> j\<close>, of "packed_sources_of \<circ> ii_kind"]
      distinct_concat_nth [OF _ i j \<open>i \<noteq> j\<close>, of "nv12_outputs_of \<circ> ii_kind"]
      distinct_concat_nth [OF _ i j \<open>i \<noteq> j\<close>, of "packed_outputs_of \<circ> ii_kind"]
      distinct_concat_nth [OF _ i j \<open>i \<noteq> j\<close>, of "scanouts_of \<circ> ii_kind"]
    by (simp_all add: image_holdings_def)
  have fit: "kind_fits ?im ?k" "kind_fits ?im ?k'" using ok i j by (simp_all add: client_ok_def)
  show False
  proof (cases ?k)
    case (Direct_packed l)
    then obtain l' where k': "?k' = Direct_packed l'" using a b same by (cases ?k') (auto simp: shown_by_def)
    show ?thesis
      using held_resource_exclusive [OF tables(1), of l _ l'] a b same fit disjoint(2) Direct_packed k'
      by (auto simp: shown_by_def packed_source_is_def)
  next
    case (Direct_nv12 l m)
    then obtain l' m' where k': "?k' = Direct_nv12 l' m'" using a b same by (cases ?k') (auto simp: shown_by_def)
    show ?thesis
      using held_resource_exclusive [OF tables(2), of l _ l'] a b same fit disjoint(1) Direct_nv12 k'
      by (auto simp: shown_by_def nv12_source_is_def)
  next
    case (Direct_bgra_scanout x)
    then show ?thesis using a b same disjoint(5) by (cases ?k') (auto simp: shown_by_def)
  next
    case (Staged_packed p)
    then obtain p' where k': "?k' = Staged_packed p'" using a b same by (cases ?k') (auto simp: shown_by_def)
    show ?thesis
      using held_resource_exclusive [OF tables(3), of "sp_output p" _ "sp_output p'"] pool_lease_held [OF pools(1)]
        a b same disjoint(4) Staged_packed k'
      by (auto simp: shown_by_def)
  next
    case (Staged_nv12 n)
    then obtain n' where k': "?k' = Staged_nv12 n'" using a b same by (cases ?k') (auto simp: shown_by_def)
    show ?thesis
      using held_resource_exclusive [OF tables(4), of "sn_output n" _ "sn_output n'"] pool_lease_held [OF pools(2)]
        a b same disjoint(3) Staged_nv12 k'
      by (auto simp: shown_by_def)
  qed
qed

lemma client_ok_device:
  "client_ok s0 c \<Longrightarrow>
   device_ok s0 (cl_importer c) (set (hl_scanouts (image_holdings (cl_images c)))) (cl_world c)"
  by (simp add: client_ok_def importer_ok_def)

lemma client_image_shown:
  assumes ok: "client_ok s0 c" and img: "img \<in> set (cl_images c)"
  shows "shows_resource (cl_importer c) (set (hl_scanouts (image_holdings (cl_images c)))) img"
  using ok img by (intro image_shown) (auto simp: client_ok_def image_holdings_def)

lemma evict_unclaimed:
  "(\<And>r. r \<notin> lt_claimed (sc_table s) \<and> strong_count r (sc_table s) = 1) \<Longrightarrow>
   fst (evict_nv12_stream stream s) = Ok ()"
  by (auto simp: evict_nv12_stream_def evict_stream_def Let_def filter_empty_conv)

section \<open>An example\<close>

definition example_importer_device :: vk_device where
  "example_importer_device =
     (let external = \<lparr>em_features = {E_IMPORTABLE}, em_handle_types = {H_DMA_BUF_EXT}\<rparr>;
          extent = \<lparr>ex_width = 4096, ex_height = 4096, ex_depth = 1\<rparr> in
      \<lparr>vd_buffer_features = (\<lambda>_. {}), vd_optimal_features = (\<lambda>_. {}),
       vd_modifier_count = (\<lambda>_. 1),
       vd_modifiers = (\<lambda>_.
         [\<lparr>mp_modifier = 7, mp_plane_count = 1, mp_tiling_features =
            {F_SAMPLED_IMAGE, F_TRANSFER_SRC, F_TRANSFER_DST, F_COLOR_ATTACHMENT}\<rparr>]),
       vd_optimal_image = (\<lambda>_ _ _. Inr extent),
       vd_modifier_image = (\<lambda>_ _ _. Inr (extent, external)),
       vd_external_buffer = (\<lambda>_. external),
       vd_queue_families = [\<lparr>qf_count = 1, qf_flags = {Q_GRAPHICS}\<rparr>],
       vd_queue_family_index = 0, vd_max_texel_buffer_elements = 0\<rparr>)"

definition example_env :: "(unit, unit) importer_env" where
  "example_env = \<lparr>env_device = example_importer_device, env_driver = example_driver,
     env_probe = (\<lambda>fd f. (Inr \<lparr>probe_device = 1, probe_inode = 9, probe_allocation_size = 16384\<rparr>, f)),
     env_nv12_shader = (\<lambda>_. []), env_packed_shader = []\<rparr>"

lemma example_importer_modifiers:
  "format_modifiers example_importer_device fmt =
     [\<lparr>mp_modifier = 7, mp_plane_count = 1, mp_tiling_features =
        {F_SAMPLED_IMAGE, F_TRANSFER_SRC, F_TRANSFER_DST, F_COLOR_ATTACHMENT}\<rparr>]"
  by (simp add: format_modifiers_def example_importer_device_def Let_def)

lemma example_importer_inventory: "inventory_nv12 example_importer_device PreferPlanar = []"
  by (auto simp: inventory_nv12_def Let_def example_importer_modifiers DRM_FORMAT_MOD_LINEAR_def map_filter_def
    direct_image_candidate_def split: option.splits)

lemma example_scanout_support: "validate_bgra_scanout_import_support example_importer_device 7 usage = Ok ()"
  by (simp add: validate_bgra_scanout_import_support_def validate_direct_modifier_def example_importer_modifiers
   query_external_modifier_capability_def validate_external_import_def)
   (simp add: example_importer_device_def Let_def result_bind_def map_err_def)

lemma example_packed_support: "validate_packed_import_support example_importer_device fmt 7 = Ok ()"
  by (simp add: validate_packed_import_support_def validate_direct_modifier_def example_importer_modifiers
   query_external_modifier_capability_def validate_external_import_def)
   (simp add: example_importer_device_def Let_def result_bind_def map_err_def)

lemma example_no_compute: "\<exists>e. validate_packed_staging_support example_importer_device Packed_Bgra8888 DRM_FORMAT_MOD_LINEAR = Inl e"
  by (simp add: validate_packed_staging_support_def selected_queue_supports_compute_def selected_queue_flags_def
    example_importer_device_def Let_def)

lemma example_direct_image:
  "\<exists>s'. create_direct_image example_driver dims 3 modifier planes fmt usage (Some 16384) s =
     (Inr \<lparr>ia_image = Image (vs_next s), ia_memory = Memory (vs_next s + 2)\<rparr>, s')"
  by (simp add: create_direct_image_def import_image_memory_def buffer_run_defs Let_def is_negative_def)


definition example_scanout :: importer_op where
  "example_scanout = Import_scanout (64, 64) 3 16384 7 \<lparr>ip_offset = 0, ip_pitch = 256\<rparr> {U_TRANSFER_SRC}"

definition example_request :: packed_image_import where
  "example_request = \<lparr>pi_stream_incarnation = 5, pi_dimensions = (64, 64), pi_source_fd = 3,
     pi_source_size = 16384, pi_modifier = 7, pi_plane = \<lparr>ip_offset = 0, ip_pitch = 256\<rparr>, pi_format = Packed_Bgra8888\<rparr>"

definition example_client :: "importer_op list \<Rightarrow> unit client option" where
  "example_client ops = client_of example_env pool_limits_default PreferPlanar vk_start () 1 ops"

lemma example_importer:
  "\<exists>im. importer_new example_env pool_limits_default PreferPlanar vk_start = (Inr im, vk_start) \<and>
     im_packed_cache im = packed_source_cache_new 32"
proof -
  obtain e where "validate_packed_staging_support example_importer_device Packed_Bgra8888 DRM_FORMAT_MOD_LINEAR = Inl e"
    using example_no_compute by blast
  then show ?thesis
    by (simp add: importer_new_def example_env_def example_importer_inventory pool_limits_default_def pipeline_if_def
        io_bind_def io_cleanup_def io_return_def io_map_err_def Let_def is_ok_def)
qed

lemma example_identity:
  "verified_dmabuf_identity (\<lambda>fd. on_files (env_probe example_env fd)) 3 16384 w =
     (Inr \<lparr>id_device = 1, id_inode = 9, id_allocation_size = 16384\<rparr>, w)"
  by (simp add: verified_dmabuf_identity_def on_files_def example_env_def is_negative_def)

lemma example_scanout_run:
  "\<exists>img w'. new_bgra_scanout example_env (64, 64) 3 16384 7 \<lparr>ip_offset = 0, ip_pitch = 256\<rparr> {U_TRANSFER_SRC} w = (Inr img, w')"
proof -
  obtain s' where made: "create_direct_image example_driver (64, 64) 3 7 [\<lparr>ip_offset = 0, ip_pitch = 256\<rparr>]
      IMPORTED_SCANOUT_BGRA_FORMAT {U_TRANSFER_SRC} (Some 16384) (w_vk w) =
     (Inr \<lparr>ia_image = Image (vs_next (w_vk w)), ia_memory = Memory (vs_next (w_vk w) + 2)\<rparr>, s')"
    using example_direct_image by blast
  have "env_device example_env = example_importer_device" "env_driver example_env = example_driver"
    by (simp_all add: example_env_def)
  then show ?thesis
    by (simp add: new_bgra_scanout_def validate_image_inputs_def is_negative_def example_scanout_support example_identity
        on_vk_def made split: prod.split)
qed

lemma example_packed_run:
  assumes "im_packed_cache im = packed_source_cache_new 32"
  shows "\<exists>img im' w'. import_packed_with_strategy example_env example_request Packed_DirectSampledImage im w = (Inr img, im', w')"
proof -
  obtain s' where made: "create_direct_image example_driver (64, 64) 3 7 [\<lparr>ip_offset = 0, ip_pitch = 256\<rparr>]
      IMPORTED_SCANOUT_BGRA_FORMAT DIRECT_PACKED_USAGE (Some 16384) (w_vk w) =
     (Inr \<lparr>ia_image = Image (vs_next (w_vk w)), ia_memory = Memory (vs_next (w_vk w) + 2)\<rparr>, s')"
    using example_direct_image by blast
  have env: "env_device example_env = example_importer_device" "env_driver example_env = example_driver"
    by (simp_all add: example_env_def)
  have layout: "validate_packed_layout (64, 64) 16384 \<lparr>ip_offset = 0, ip_pitch = 256\<rparr> = Ok ()"
    by (simp add: validate_packed_layout_def checked_mul_def checked_add_def saturating_sub_def ok_or_def result_bind_def
        u64_of_u32_def)
  have "\<exists>l cache w1. claim_cached_packed_source (env_device example_env) (\<lambda>fd. on_files (env_probe example_env fd)) example_request
      Packed_DirectSampledImage (on_vk (create_packed_source example_env example_request Packed_DirectSampledImage))
         (\<lambda>a. vk_drop (packed_source_drop (fst a))) [] [] (im_packed_cache im, w) = (Inr l, cache, w1) \<and>
     leased_source l cache = Some (Packed_source_direct \<lparr>ia_image = Image (vs_next (w_vk w)), ia_memory = Memory (vs_next (w_vk w) + 2)\<rparr>, Packed_Bgra8888)"
    by (simp add: claim_cached_packed_source_def example_request_def validate_image_inputs_def is_negative_def layout env
        example_packed_support example_identity claim_cached_def tick_def assms lookup_section_def packed_source_cache_new_def
        source_cache.defs packed_source_cache.defs source_cache_new_def collides_def count_miss_def on_vk_def create_packed_source_def
        io_bind_def io_return_def made insert_section_def make_room_def claim_source_def claim_lease_def empty_table_def Let_def
        count_creation_failure_def leased_source_def lease_resource_def)
  then show ?thesis
    by (auto simp: import_packed_with_strategy_def claim_packed_source_def from_direct_packed_source_def split: prod.split)
qed

lemma example_drop:
  "i < length (cl_images c) \<Longrightarrow> cl_images (importer_step env (Drop_image i) c) = drop_nth i (cl_images c)"
  by (simp split: prod.split)

text \<open>A scanout and a packed image are imported, then the given operations are run.\<close>

definition example_ops :: "importer_op list \<Rightarrow> importer_op list" where
  "example_ops ops = example_scanout # Import_packed example_request Packed_DirectSampledImage # ops"

lemma example_images:
  "\<exists>c. length (cl_images c) = 2 \<and> (\<forall>ops. example_client (example_ops ops) = Some (importer_run example_env ops c))"
proof -
  obtain im where im: "importer_new example_env pool_limits_default PreferPlanar vk_start = (Inr im, vk_start)"
      "im_packed_cache im = packed_source_cache_new 32"
    using example_importer by blast
  let ?c = "client_start im vk_start () 1"
  obtain img w where first: "new_bgra_scanout example_env (64, 64) 3 16384 7 \<lparr>ip_offset = 0, ip_pitch = 256\<rparr>
      {U_TRANSFER_SRC} (cl_world ?c) = (Inr img, w)"
    using example_scanout_run by blast
  obtain img' im' w' where second: "import_packed_with_strategy example_env example_request Packed_DirectSampledImage im w =
      (Inr img', im', w')"
    using example_packed_run [OF im(2)] by blast
  let ?d = "importer_step example_env (Import_packed example_request Packed_DirectSampledImage)
      (importer_step example_env example_scanout ?c)"
  have "cl_images ?d = [img, img']"
    using first second by (simp add: example_scanout_def keep_image_def client_start_def)
  moreover have "example_client (example_ops ops) = Some (importer_run example_env ops ?d)" for ops
    by (simp add: example_client_def client_of_def example_ops_def im)
  ultimately show ?thesis by (intro exI [of _ ?d]) simp
qed

lemma example_env_driver: "\<not> dr_empty (env_driver example_env) i"
  by (simp add: example_env_def)

lemma example_client_of:
  "example_client ops = Some c \<Longrightarrow> client_of example_env pool_limits_default PreferPlanar vk_start () 1 ops = Some c"
  by (simp add: example_client_def)

section \<open>Properties\<close>

text \<open>C12: an importer and the images it returned own exactly what is on the device. After any sequence of
  imports, releases, submissions, drops and evictions, successful or not, the live objects are those the
  device started with, plus the pipelines, cached sources, pool slots and scanouts, and no destruction
  ever hit a dead object or one still in use.\<close>

theorem importer_device_exact:
  assumes "vk_wf s0" and "\<And>i. \<not> dr_empty (env_driver env) i"
    and "client_of env limits preference s0 files n ops = Some c"
  shows "vs_live (w_vk (cl_world c)) =
      vs_live s0 \<union> resource_objects (cl_importer c) (set (hl_scanouts (image_holdings (cl_images c)))) \<and>
    vs_live s0 \<inter> resource_objects (cl_importer c) (set (hl_scanouts (image_holdings (cl_images c)))) = {} \<and>
    vs_fault (w_vk (cl_world c)) = vs_fault s0"
  using device_ok_live [OF client_ok_device [OF client_of_ok [OF assms]]] by blast

theorem importer_device_exact_witness:
  "\<exists>c. example_client (example_ops [Drop_image 0, Evict_packed 5]) = Some c \<and> length (cl_images c) = 1 \<and>
     vs_live (w_vk (cl_world c)) =
       resource_objects (cl_importer c) (set (hl_scanouts (image_holdings (cl_images c)))) \<and>
     \<not> vs_fault (w_vk (cl_world c))"
proof -
  obtain d where d: "length (cl_images d) = 2"
      "\<And>ops. example_client (example_ops ops) = Some (importer_run example_env ops d)"
    using example_images by blast
  let ?ops = "[Drop_image 0, Evict_packed 5]" and ?c = "importer_run example_env [Drop_image 0, Evict_packed 5] d"
  have "length (cl_images ?c) = 1"
    using d(1) example_drop [of 0 d example_env] by (simp add: drop_nth_def split: prod.split del: importer_step.simps(6))
  then show ?thesis
    using importer_device_exact [OF vk_wf_start example_env_driver example_client_of [OF d(2) [of ?ops]]] d(2) [of ?ops]
    by (intro exI [of _ ?c]) (simp add: vk_start_def)
qed

text \<open>C13: images never go stale. Every image a client holds has an acquire plan, an image handle and a
  format, so no \<open>unreachable!\<close> of the source is reached, and every buffer, image, pipeline and layout its
  acquire work uses is alive on the device, whatever was evicted, released or imported since.\<close>

theorem live_images_usable:
  assumes "vk_wf s0" and "\<And>i. \<not> dr_empty (env_driver env) i"
    and "client_of env limits preference s0 files n ops = Some c" and "img \<in> set (cl_images c)"
  shows "\<exists>plan x fmt. acquire_plan img (cl_importer c) = Some plan \<and>
    imported_image_handle img (cl_importer c) = Some x \<and> x \<in> plan_images plan \<and>
    sampled_format img (cl_importer c) = Some fmt \<and> plan_objects plan \<subseteq> vs_live (w_vk (cl_world c))"
proof -
  have ok: "client_ok s0 c" by (rule client_of_ok [OF assms(1-3)])
  show ?thesis
    using client_image_shown [OF ok assms(4)] device_ok_live(1) [OF client_ok_device [OF ok]] unfolding shows_resource_def by blast
qed

theorem live_images_usable_witness:
  "\<exists>c img. example_client (example_ops [Evict_packed 5, Drop_image 0]) = Some c \<and> cl_images c = [img] \<and>
     (\<exists>plan x fmt. acquire_plan img (cl_importer c) = Some plan \<and>
        imported_image_handle img (cl_importer c) = Some x \<and> x \<in> plan_images plan \<and>
        sampled_format img (cl_importer c) = Some fmt \<and> plan_objects plan \<subseteq> vs_live (w_vk (cl_world c)))"
proof -
  obtain d where d: "length (cl_images d) = 2"
      "\<And>ops. example_client (example_ops ops) = Some (importer_run example_env ops d)"
    using example_images by blast
  let ?ops = "[Evict_packed 5, Drop_image 0]" and ?c = "importer_run example_env [Evict_packed 5, Drop_image 0] d"
  let ?e = "importer_step example_env (Evict_packed 5) d"
  have "length (cl_images ?e) = 2" using d(1) by (simp split: prod.split)
  then have "length (cl_images ?c) = 1"
    using example_drop [of 0 ?e example_env] by (simp add: drop_nth_def del: importer_step.simps)
  then obtain img where img: "cl_images ?c = [img]" by (auto simp: length_Suc_conv)
  then have "img \<in> set (cl_images ?c)" by simp
  from live_images_usable [OF vk_wf_start example_env_driver example_client_of [OF d(2) [of ?ops]] this] show ?thesis
    using d(2) [of ?ops] img by blast
qed

text \<open>C16: two images of a client show different objects. No image is written or sampled through another:
  the plans of distinct images make disjoint sets of images readable.\<close>

theorem images_show_disjoint_objects:
  assumes "vk_wf s0" and "\<And>i. \<not> dr_empty (env_driver env) i"
    and "client_of env limits preference s0 files n ops = Some c"
    and "i < length (cl_images c)" and "j < length (cl_images c)" and "i \<noteq> j"
    and "acquire_plan (cl_images c ! i) (cl_importer c) = Some p"
    and "acquire_plan (cl_images c ! j) (cl_importer c) = Some q"
  shows "plan_images p \<inter> plan_images q = {}"
proof -
  let ?X = "set (hl_scanouts (image_holdings (cl_images c)))"
  have ok: "client_ok s0 c" by (rule client_of_ok [OF assms(1-3)])
  note device = client_ok_device [OF ok]
  obtain r r' where r: "shown_by (cl_importer c) (ii_kind (cl_images c ! i)) = Some r" "r \<in> resource_ids (cl_importer c) ?X"
      "plan_images p \<subseteq> handle_objects (resource_handle (cl_importer c) r)"
    and r': "shown_by (cl_importer c) (ii_kind (cl_images c ! j)) = Some r'" "r' \<in> resource_ids (cl_importer c) ?X"
      "plan_images q \<subseteq> handle_objects (resource_handle (cl_importer c) r')"
    using client_image_shown [OF ok nth_mem [OF assms(4)]] client_image_shown [OF ok nth_mem [OF assms(5)]] assms(7,8)
    unfolding shows_resource_def by auto
  then show ?thesis
    using device_ok_disjoint [OF device r(2) r'(2)] shown_exclusive [OF ok assms(4-6) r(1) r'(1)] by blast
qed

theorem images_show_disjoint_objects_witness:
  "\<exists>c p q. example_client (example_ops []) = Some c \<and>
     acquire_plan (cl_images c ! 0) (cl_importer c) = Some p \<and>
     acquire_plan (cl_images c ! 1) (cl_importer c) = Some q \<and> plan_images p \<inter> plan_images q = {}"
proof -
  obtain d where d: "length (cl_images d) = 2" "example_client (example_ops []) = Some d"
    using example_images by fastforce
  note ok = client_of_ok [OF vk_wf_start example_env_driver example_client_of [OF d(2)]]
  obtain p q where plans: "acquire_plan (cl_images d ! 0) (cl_importer d) = Some p"
      "acquire_plan (cl_images d ! 1) (cl_importer d) = Some q"
    using client_image_shown [OF ok, of "cl_images d ! 0"] client_image_shown [OF ok, of "cl_images d ! 1"] d(1)
    unfolding shows_resource_def by auto
  have "plan_images p \<inter> plan_images q = {}"
    by (rule images_show_disjoint_objects [OF vk_wf_start example_env_driver example_client_of [OF d(2)] _ _ _ plans])
      (simp_all add: d(1))
  then show ?thesis using d(2) plans by blast
qed

text \<open>C17: the leases of an importer are exactly those of the images its client holds, each held once. So an
  import that fails keeps none, a dropped image gives all of its own back, and once every image is
  dropped nothing is claimed any more and a stream can be evicted at once.\<close>

theorem leases_match_images:
  assumes "vk_wf s0" and "\<And>i. \<not> dr_empty (env_driver env) i"
    and "client_of env limits preference s0 files n ops = Some c"
  shows "leases_are (sc_table (im_nv12_cache (cl_importer c))) (concat (map (nv12_sources_of \<circ> ii_kind) (cl_images c))) \<and>
    leases_are (sc_table (im_packed_cache (cl_importer c))) (concat (map (packed_sources_of \<circ> ii_kind) (cl_images c))) \<and>
    leases_are (op_table (im_nv12_pool (cl_importer c))) (concat (map (nv12_outputs_of \<circ> ii_kind) (cl_images c))) \<and>
    leases_are (op_table (im_packed_pool (cl_importer c))) (concat (map (packed_outputs_of \<circ> ii_kind) (cl_images c)))"
  using client_of_ok [OF assms]
  by (simp add: client_ok_def importer_ok_def cache_ok_def output_pool_ok_def image_holdings_def)

theorem leases_match_images_witness:
  "\<exists>c. example_client (example_ops []) = Some c \<and> length (cl_images c) = 2 \<and>
     leases_are (sc_table (im_packed_cache (cl_importer c))) (concat (map (packed_sources_of \<circ> ii_kind) (cl_images c)))"
proof -
  obtain d where d: "length (cl_images d) = 2" "example_client (example_ops []) = Some d"
    using example_images by fastforce
  show ?thesis
    using leases_match_images [OF vk_wf_start example_env_driver example_client_of [OF d(2)]] d by blast
qed

text \<open>Once a client has dropped every image, no source or output is in use and evicting any stream
  succeeds, in both caches.\<close>

lemma dropped_images_free_everything:
  assumes "vk_wf s0" and "\<And>i. \<not> dr_empty (env_driver env) i"
    and "client_of env limits preference s0 files n ops = Some c" and "cl_images c = []"
  shows "st_active_sources (nv12_cache_stats (cl_importer c)) = 0 \<and>
    st_active_outputs (nv12_cache_stats (cl_importer c)) = 0 \<and>
    st_active_sources (packed_cache_stats_of (cl_importer c)) = 0 \<and>
    st_active_outputs (packed_cache_stats_of (cl_importer c)) = 0 \<and>
    fst (importer_evict_nv12 stream (cl_importer c) (cl_world c)) = Ok () \<and>
    fst (importer_evict_packed stream (cl_importer c) (cl_world c)) = Ok ()"
proof -
  let ?im = "cl_importer c"
  have free: "r \<notin> lt_claimed t \<and> strong_count r t = 1" if "table_inv t" "leases_are t []" for r t
  proof -
    have none: "lt_leases t l = None" for l using that(2) by (simp add: leases_are_def)
    then have "active t r = {}" by (simp add: active_def)
    then show ?thesis using that(1) none strong_count_one [OF that(1)] by (auto simp: table_inv_def)
  qed
  have ok: "importer_ok s0 (image_holdings []) ?im (cl_world c)"
    using client_of_ok [OF assms(1-3)] assms(4) by (simp add: client_ok_def)
  then have free_in: "r \<notin> lt_claimed t \<and> strong_count r t = 1"
    if "t \<in> {sc_table (im_nv12_cache ?im), sc_table (im_packed_cache ?im), op_table (im_nv12_pool ?im), op_table (im_packed_pool ?im)}"
    for r t
    using that free by (auto simp: importer_ok_def cache_ok_def cache_inv_def output_pool_ok_def pool_inv_def image_holdings_def)
  show ?thesis
    using free_in
    by (auto intro!: evict_unclaimed simp: nv12_cache_stats_def packed_cache_stats_of_def stats_of_def filter_empty_conv importer_evict_nv12_def
        importer_evict_packed_def evict_packed_stream_def cache_stats.defs packed_cache_stats.defs split_def)
qed

lemma dropped_images_free_everything_witness:
  "\<exists>c. example_client (example_ops [Drop_image 0, Drop_image 0]) = Some c \<and>
     fst (importer_evict_packed 5 (cl_importer c) (cl_world c)) = Ok ()"
proof -
  obtain d where d: "length (cl_images d) = 2"
      "\<And>ops. example_client (example_ops ops) = Some (importer_run example_env ops d)"
    using example_images by blast
  let ?ops = "[Drop_image 0, Drop_image 0]" and ?c = "importer_run example_env [Drop_image 0, Drop_image 0] d"
  have "length (cl_images (importer_step example_env (Drop_image 0) d)) = 1"
    using d(1) example_drop [of 0 d example_env] by (simp add: drop_nth_def del: importer_step.simps)
  then have "cl_images ?c = []"
    using example_drop [of 0 "importer_step example_env (Drop_image 0) d" example_env]
    by (simp add: drop_nth_def del: importer_step.simps)
  then show ?thesis
    using dropped_images_free_everything [OF vk_wf_start example_env_driver example_client_of [OF d(2) [of ?ops]]]
      d(2) [of ?ops] by blast
qed

text \<open>C25: an importer is created exactly. A zero limit or a failed pipeline leaves nothing on the device and
  no fault; otherwise its pipelines are exactly those its strategies need, and they are all that it adds
  to the device.\<close>

theorem importer_created_exactly:
  assumes "vk_wf s0" and "importer_new env limits preference s0 = (result, s)"
  shows "case result of
      Inl e \<Rightarrow> vs_live s = vs_live s0 \<and> vk_edges s = vk_edges s0 \<and> vs_fault s = vs_fault s0
    | Inr im \<Rightarrow> vs_live s = vs_live s0 \<union> resource_objects im {} \<and> vs_live s0 \<inter> resource_objects im {} = {} \<and>
        resource_ids im {} = pipeline_ids im \<and>
        (im_rgba_compute im \<noteq> None \<longleftrightarrow> list_ex (\<lambda>c. cap_strategy c = LinearBufferToRgba) (im_capabilities im)) \<and>
        (im_planar_compute im \<noteq> None \<longleftrightarrow> list_ex (\<lambda>c. cap_strategy c = LinearBufferToYuvPlanes) (im_capabilities im)) \<and>
        (im_packed_compute im \<noteq> None \<longleftrightarrow> im_packed_staging_error im = None)"
proof (cases result)
  case (Inl e)
  then show ?thesis using importer_new_exact [OF assms] by (simp add: gained_def)
next
  case (Inr im)
  note new = importer_new_exact [OF assms, of "()" 0]
  then have "device_ok s0 im {} \<lparr>w_vk = s, w_files = (), w_next_import_id = 0\<rparr>"
    using Inr by (simp add: importer_ok_def image_holdings_def)
  from device_ok_live [OF this] show ?thesis using new Inr by simp
qed

theorem importer_created_exactly_witness:
  "\<exists>im. importer_new example_env pool_limits_default PreferPlanar vk_start = (Inr im, vk_start) \<and>
     resource_ids im {} = pipeline_ids im \<and> vs_live vk_start = resource_objects im {}"
proof -
  obtain im where im: "importer_new example_env pool_limits_default PreferPlanar vk_start = (Inr im, vk_start)"
    using example_importer by blast
  show ?thesis using importer_created_exactly [OF vk_wf_start im] im by (simp add: vk_start_def)
qed

end
