(* ===== verification/Frame_Cycle.thy ===== *)
theory Frame_Cycle
  imports Sync_Lane Importer_Properties
begin

text \<open>
  A frame on the GPU from the producer to the renderer and back, the bytes its copies read, and the
  times its queries measure; the plans of an importer's images can be recorded.
\<close>

section \<open>One cycle\<close>

lemma renderable_after_acquire:
  assumes "plan_ready family (plan_initialized plan) plan g" and "distinct (plan_sources plan @ plan_outputs plan)"
    and "descriptors_match ds plan" and "family \<noteq> DMA_BUF_EXTERNAL_QUEUE_FAMILY"
    and "acquire_commands family plan query = Ok cs"
  shows "\<exists>g'. exec_commands family ds cs g = Some g' \<and>
    (\<forall>x \<in> set (plan_shown plan). readable family x g') \<and>
    others_kept (set (plan_sources plan) \<union> set (plan_outputs plan)) g g' \<and>
    (\<not> plan_direct plan \<longrightarrow> acquired family (plan_sources plan) (plan_outputs plan) query g g')"
proof (cases "plan_direct plan")
  case True
  then obtain x where plan: "plan = Plan_direct_image x" by (cases plan) auto
  have cs: "cs = direct_acquire_commands family x" using assms(5) by (simp add: plan acquire_commands_def)
  have "with_producer x g" using assms(1) by (simp add: plan plan_ready_def)
  then show ?thesis
    using exec_direct_acquire [OF _ assms(4), of x g ds] by (simp add: plan cs readable_def others_kept_def)
next
  case False
  then have "plan_shown plan = plan_outputs plan" by (cases plan) simp_all
  then show ?thesis
    using plan_acquires [OF assms(5,1-4) False] False by (auto simp: acquired_def)
qed

lemma others_kept_trans: "others_kept xs g g' \<Longrightarrow> others_kept xs g' g'' \<Longrightarrow> others_kept xs g g''"
  by (simp add: others_kept_def)

lemma others_kept_used: "set xs \<subseteq> ys \<Longrightarrow> others_kept ys g (used xs u g)"
proof -
  assume sub: "set xs \<subseteq> ys"
  have "gp_use (used xs u g) x = gp_use g x" if "x \<notin> ys" for x using sub that by (intro used_other) blast
  then show ?thesis by (simp add: others_kept_def)
qed

lemma staged_cycle_end:
  assumes staged: "\<not> plan_direct plan" and acquired: "acquired family (plan_sources plan) (plan_outputs plan) query g g1"
    and "distinct (plan_sources plan @ plan_outputs plan)" and "set sampled \<subseteq> set (plan_shown plan)"
  shows "\<exists>g3. exec_commands family ds (release_commands family plan query) (used sampled (FRAGMENT_SHADER, SHADER_READ) g1) = Some g3 \<and>
    plan_ready family True plan g3 \<and> others_kept {} (used sampled (FRAGMENT_SHADER, SHADER_READ) g1) g3"
proof -
  let ?g2 = "used sampled (FRAGMENT_SHADER, SHADER_READ) g1"
  have "set_option query \<times> {2} \<subseteq> gp_queries ?g2" using acquired by (simp add: acquired_def)
  from staged_release_runs [OF staged this, of family ds]
  obtain g3 where g3: "exec_commands family ds (release_commands family plan query) ?g2 = Some g3" "others_kept {} ?g2 g3"
    by blast
  have "plan_ready family True plan g3"
    unfolding plan_ready_def list_all_iff
  proof (intro conjI ballI)
    fix x assume x: "x \<in> set (plan_sources plan)"
    have "x \<notin> set sampled" using x assms(3,4) staged by (cases plan) auto
    then show "with_producer x g3"
      using acquired g3(2) x by (simp add: acquired_def with_producer_def others_kept_def)
  next
    fix x assume "x \<in> set (plan_outputs plan)"
    then have "readable family x ?g2" using acquired by (intro readable_used) (simp add: acquired_def)
    then show "output_ready family True x g3"
      using g3(2) by (simp add: output_ready_def readable_def others_kept_def)
  qed
  then show ?thesis using g3 by blast
qed

text \<open>C9: a frame goes to the renderer and back. From a state where the producer has the sources of a
  plan and its outputs are ready, every command of the acquire is allowed, the renderer may sample
  anything the plan shows, and every command of the release is allowed. Afterwards the sources are with
  the producer again, the outputs are ready for the next frame, and nothing else has changed.\<close>

theorem frame_cycle_returns_memory:
  assumes "family \<noteq> DMA_BUF_EXTERNAL_QUEUE_FAMILY" and "plan_ready family (plan_initialized plan) plan g"
    and "distinct (plan_sources plan @ plan_outputs plan)" and "descriptors_match ds plan"
    and "acquire_commands family plan query = Ok cs" and "set sampled \<subseteq> set (plan_shown plan)"
  shows "\<exists>g1 g2 g3. exec_commands family ds cs g = Some g1 \<and> renderer_samples family sampled g1 = Some g2 \<and>
    exec_commands family ds (release_commands family plan query) g2 = Some g3 \<and>
    plan_ready family True plan g3 \<and> others_kept (set (plan_sources plan) \<union> set (plan_outputs plan)) g g3"
proof -
  let ?all = "set (plan_sources plan) \<union> set (plan_outputs plan)"
  obtain g1 where g1: "exec_commands family ds cs g = Some g1" "\<forall>x \<in> set (plan_shown plan). readable family x g1"
      "others_kept ?all g g1" "\<not> plan_direct plan \<longrightarrow> acquired family (plan_sources plan) (plan_outputs plan) query g g1"
    using renderable_after_acquire [OF assms(2-4,1,5)] by blast
  let ?g2 = "used sampled (FRAGMENT_SHADER, SHADER_READ) g1"
  have sample: "renderer_samples family sampled g1 = Some ?g2"
    using g1(2) assms(6) by (intro renderer_samples_readable) blast
  have shown: "set (plan_shown plan) \<subseteq> ?all" by (cases plan) auto
  then have kept2: "others_kept ?all g ?g2"
    using others_kept_trans [OF g1(3) others_kept_used] assms(6) by blast
  show ?thesis
  proof (cases "plan_direct plan")
    case True
    then obtain x where plan: "plan = Plan_direct_image x" by (cases plan) auto
    have "readable family x ?g2" using g1(2) by (intro readable_used) (simp add: plan)
    from exec_direct_release [OF this assms(1), of ds] show ?thesis
      using g1(1) sample kept2
      by (simp add: plan release_commands_def plan_ready_def with_producer_def others_kept_def)
  next
    case False
    then have "acquired family (plan_sources plan) (plan_outputs plan) query g g1" using g1(4) by simp
    from staged_cycle_end [OF False this assms(3,6), of ds]
    obtain g3 where g3: "exec_commands family ds (release_commands family plan query) ?g2 = Some g3"
        "plan_ready family True plan g3" "others_kept {} ?g2 g3" by blast
    then have "others_kept ?all ?g2 g3" by (simp add: others_kept_def)
    then show ?thesis using g1(1) sample g3(1,2) others_kept_trans [OF kept2] by blast
  qed
qed

definition example_transfer :: staged_transfer_plan where
  "example_transfer = \<lparr>stp_source_buffer = Buffer 0, stp_source_size = 12,
     stp_output = Sampled_yuv_planes (Image 1) (Image 2), stp_output_initialized = False, stp_dimensions = (4, 2),
     stp_planes = (\<lparr>ip_offset = 0, ip_pitch = 4\<rparr>, \<lparr>ip_offset = 8, ip_pitch = 4\<rparr>)\<rparr>"

theorem frame_cycle_returns_memory_witness:
  "\<exists>cs g1 g2 g3. acquire_commands 0 (Plan_staged_transfer example_transfer) (Some (Query_pool 3)) = Ok cs \<and>
     exec_commands 0 (\<lambda>_. (Buffer 0, [])) cs
       \<lparr>gp_owner = (\<lambda>x. if x = Buffer 0 then DMA_BUF_EXTERNAL_QUEUE_FAMILY else 0), gp_layout = (\<lambda>_. LAYOUT_GENERAL),
        gp_use = (\<lambda>_. []), gp_ready = (\<lambda>_. (TOP_OF_PIPE, {})), gp_queries = {}, gp_pipeline = None, gp_set = None,
        gp_constants = None\<rparr> = Some g1 \<and>
     renderer_samples 0 [Image 2, Image 1] g1 = Some g2 \<and>
     exec_commands 0 (\<lambda>_. (Buffer 0, []))
       (release_commands 0 (Plan_staged_transfer example_transfer) (Some (Query_pool 3))) g2 = Some g3 \<and>
     plan_ready 0 True (Plan_staged_transfer example_transfer) g3"
proof -
  let ?plan = "Plan_staged_transfer example_transfer"
  let ?g = "\<lparr>gp_owner = (\<lambda>x. if x = Buffer 0 then DMA_BUF_EXTERNAL_QUEUE_FAMILY else 0), gp_layout = (\<lambda>_. LAYOUT_GENERAL),
      gp_use = (\<lambda>_. []), gp_ready = (\<lambda>_. (TOP_OF_PIPE, {})), gp_queries = {}, gp_pipeline = None, gp_set = None,
      gp_constants = None\<rparr>"
  have family: "(0 :: u32) \<noteq> DMA_BUF_EXTERNAL_QUEUE_FAMILY" by (simp add: DMA_BUF_EXTERNAL_QUEUE_FAMILY_def)
  have ready: "plan_ready 0 (plan_initialized ?plan) ?plan ?g"
    by (simp add: plan_ready_def with_producer_def output_ready_def example_transfer_def)
  obtain cs where cs: "acquire_commands 0 ?plan (Some (Query_pool 3)) = Ok cs"
    by (simp add: acquire_commands_def staged_transfer_commands_def transfer_copies_def example_transfer_def map_ok_def Let_def)
  have "distinct (plan_sources ?plan @ plan_outputs ?plan)" "set [Image 2, Image 1] \<subseteq> set (plan_shown ?plan)"
    by (simp_all add: example_transfer_def)
  from frame_cycle_returns_memory [OF family ready this(1) _ cs this(2), of "\<lambda>_. (Buffer 0, [])"] cs show ?thesis by auto
qed

section \<open>The bytes of a transfer\<close>

text \<open>
  What Vulkan reads for a region whose texels have \<open>texel\<close> bytes: \<open>bufferRowLength\<close> counts texels.
\<close>

definition region_bytes :: "nat \<Rightarrow> buffer_image_copy \<Rightarrow> nat set" where
  "region_bytes texel r =
     {unat (bic_buffer_offset r) + (y * unat (bic_buffer_row_length r) + x) * texel + b | x y b.
        x < unat (fst (bic_extent r)) \<and> y < unat (snd (bic_extent r)) \<and> b < texel}"

lemma region_bytes_plane:
  assumes "texel * unat row_length = unat (ip_pitch plane)" and "0 < texel"
    and "unat width * texel = columns" and "unat height = rows"
  shows "region_bytes texel (nv12_transfer_region aspect (ip_offset plane) row_length width height) =
    plane_bytes columns plane rows"
proof -
  have at: "(y * unat row_length + x) * texel + b = unat (ip_pitch plane) * y + (x * texel + b)" for x y b
    by (simp add: assms(1) [symmetric] algebra_simps)
  have inside: "x * texel + b < columns" if "x < unat width" "b < texel" for x b
  proof -
    have "x * texel + b < Suc x * texel" using that(2) by simp
    also have "\<dots> \<le> unat width * texel" using that(1) by (intro mult_le_mono1) simp
    finally show ?thesis using assms(3) by simp
  qed
  have column: "\<exists>x b. k = x * texel + b \<and> x < unat width \<and> b < texel" if "k < columns" for k
    using that assms(2,3)
    by (intro exI [of _ "k div texel"] exI [of _ "k mod texel"]) (simp add: div_less_iff_less_mult)
  have "region_bytes texel (nv12_transfer_region aspect (ip_offset plane) row_length width height) =
      {unat (ip_offset plane) + (unat (ip_pitch plane) * y + (x * texel + b)) | x y b.
         x < unat width \<and> y < rows \<and> b < texel}"
    using at assms(4) by (simp add: region_bytes_def nv12_transfer_region_def add.assoc)
  also have "\<dots> = plane_bytes columns plane rows"
  proof (intro equalityI subsetI)
    fix k assume "k \<in> plane_bytes columns plane rows"
    then obtain x y where k: "k = unat (ip_offset plane) + unat (ip_pitch plane) * y + x" "x < columns" "y < rows"
      by (auto simp: plane_bytes_def)
    obtain x' b where x': "x = x' * texel + b" "x' < unat width" "b < texel" using column [OF k(2)] by blast
    then have "k = unat (ip_offset plane) + (unat (ip_pitch plane) * y + (x' * texel + b))" using k(1) by simp
    then show "k \<in> {unat (ip_offset plane) + (unat (ip_pitch plane) * y + (x * texel + b)) | x y b.
        x < unat width \<and> y < rows \<and> b < texel}" using x'(2,3) k(3) by blast
  next
    fix k assume "k \<in> {unat (ip_offset plane) + (unat (ip_pitch plane) * y + (x * texel + b)) | x y b.
        x < unat width \<and> y < rows \<and> b < texel}"
    then obtain x y b where k: "k = unat (ip_offset plane) + unat (ip_pitch plane) * y + (x * texel + b)"
        "x < unat width" "y < rows" "b < texel" by (auto simp: add.assoc)
    then show "k \<in> plane_bytes columns plane rows" using inside [OF k(2,4)] unfolding plane_bytes_def by blast
  qed
  finally show ?thesis .
qed

text \<open>C24: a transfer copies exactly the two planes. For a layout that passes the transfer validation, the
  regions of both kinds of output read exactly the bytes of the luma and the chroma plane; they are
  disjoint and inside the source's span, the rows are at least as long as the copied width, and the
  offsets are aligned as Vulkan requires.\<close>

theorem transfer_copies_exact:
  assumes "nv12_transfer_source_span (stp_dimensions plan) layout = Ok span" and "stp_planes plan = sl_planes layout"
    and "regions \<in> {nv12_multiplanar_transfer_regions plan, nv12_separate_transfer_regions plan}"
  shows "\<exists>luma chroma. regions = [luma, chroma] \<and>
    region_bytes 1 luma = plane_bytes (unat (fst (stp_dimensions plan))) (fst (stp_planes plan)) (unat (snd (stp_dimensions plan))) \<and>
    region_bytes 2 chroma =
      plane_bytes (unat (fst (stp_dimensions plan))) (snd (stp_planes plan)) (unat (snd (stp_dimensions plan)) div 2) \<and>
    region_bytes 1 luma \<inter> region_bytes 2 chroma = {} \<and> region_bytes 1 luma \<union> region_bytes 2 chroma \<subseteq> {..<unat span} \<and>
    fst (bic_extent luma) \<le> bic_buffer_row_length luma \<and> fst (bic_extent chroma) \<le> bic_buffer_row_length chroma \<and>
    4 dvd unat (bic_buffer_offset luma) \<and> 4 dvd unat (bic_buffer_offset chroma)"
proof -
  obtain width height where dims: "stp_dimensions plan = (width, height)" by (cases "stp_dimensions plan")
  obtain luma chroma where planes: "stp_planes plan = (luma, chroma)" by (cases "stp_planes plan")
  have ok: "nv12_layout_ok (width, height) layout" and dvd: "4 dvd unat (ip_offset luma)" "4 dvd unat (ip_offset chroma)"
    and span: "unat span = max (luma_extent (width, height) layout) (chroma_extent (width, height) layout)"
    using assms(1) by (simp_all add: transfer_span_Ok_iff dims assms(2) [symmetric] planes)
  have sl: "sl_planes layout = (luma, chroma)" using assms(2) planes by simp
  have even: "even (unat width)" "even (unat height)" "even (unat (ip_pitch chroma))"
      "unat width \<le> unat (ip_pitch luma)" "unat width \<le> unat (ip_pitch chroma)"
    using ok by (simp_all add: nv12_layout_ok_def sl)
  obtain a b where regions: "regions = [nv12_transfer_region a (ip_offset luma) (ip_pitch luma) width height,
      nv12_transfer_region b (ip_offset chroma) (ip_pitch chroma div 2) (width div 2) (height div 2)]"
    using assms(3) by (auto simp: nv12_multiplanar_transfer_regions_def nv12_separate_transfer_regions_def planes dims)
  let ?l = "nv12_transfer_region a (ip_offset luma) (ip_pitch luma) width height"
  let ?c = "nv12_transfer_region b (ip_offset chroma) (ip_pitch chroma div 2) (width div 2) (height div 2)"
  have l: "region_bytes 1 ?l = plane_bytes (unat width) luma (unat height)"
    by (rule region_bytes_plane) simp_all
  have c: "region_bytes 2 ?c = plane_bytes (unat width) chroma (unat height div 2)"
    by (rule region_bytes_plane) (use even in \<open>simp_all add: unat_div\<close>)
  have "region_bytes 1 ?l \<inter> region_bytes 2 ?c = {}"
    using nv12_planes_disjoint [OF ok] unfolding l c by (simp add: sl)
  moreover have "region_bytes 1 ?l \<union> region_bytes 2 ?c \<subseteq> {..<unat span}"
    using plane_bytes_bounds(2) [of _ "unat width" luma] plane_bytes_bounds(2) [of _ "unat width" chroma]
    unfolding l c span luma_extent_def chroma_extent_def by (fastforce simp: sl)
  moreover have "width \<le> ip_pitch luma" "width div 2 \<le> ip_pitch chroma div 2"
    using even(4,5) by (simp_all add: word_le_nat_alt unat_div div_le_mono)
  moreover have "bic_extent ?l = (width, height)" "bic_extent ?c = (width div 2, height div 2)"
      "bic_buffer_row_length ?l = ip_pitch luma" "bic_buffer_row_length ?c = ip_pitch chroma div 2"
      "bic_buffer_offset ?l = ip_offset luma" "bic_buffer_offset ?c = ip_offset chroma"
    by (simp_all add: nv12_transfer_region_def)
  ultimately show ?thesis
    unfolding regions dims planes fst_conv snd_conv using l c dvd
    by (intro exI [of _ ?l] exI [of _ ?c]) (simp del: One_nat_def)
qed

theorem transfer_copies_exact_witness:
  "region_bytes 2 (nv12_separate_transfer_regions example_transfer ! 1) = plane_bytes 4 \<lparr>ip_offset = 8, ip_pitch = 4\<rparr> 1"
proof -
  define layout where "layout = \<lparr>sl_modifier = 0 :: u64, sl_object_size = 16,
      sl_planes = (\<lparr>ip_offset = 0, ip_pitch = 4\<rparr>, \<lparr>ip_offset = 8, ip_pitch = 4\<rparr>)\<rparr>"
  have span: "nv12_transfer_source_span (stp_dimensions example_transfer) layout = Ok 12"
    by (simp add: transfer_span_Ok_iff nv12_layout_ok_def layout_def luma_extent_def chroma_extent_def plane_extent_def
        example_transfer_def)
  have "stp_planes example_transfer = sl_planes layout" by (simp add: example_transfer_def layout_def)
  from transfer_copies_exact [OF span this, of "nv12_separate_transfer_regions example_transfer"] show ?thesis
    by (auto simp: example_transfer_def)
qed

section \<open>Times\<close>

lemma take_bit_word_diff:
  "take_bit n (take_bit n a - take_bit n b) = take_bit n (a - b)" for a b :: "'a::len word"
  by (transfer fixing: n) (simp add: take_bit_diff min_def)

lemma timestamp_delta_take_bit:
  assumes "unat valid_bits \<le> 64"
  shows "timestamp_delta start stop valid_bits = take_bit (unat valid_bits) (stop - start)"
proof (cases "64 \<le> valid_bits")
  case True
  then have "unat valid_bits = 64" using assms by (simp add: word_le_nat_alt)
  then show ?thesis using True by (simp add: timestamp_delta_def take_bit_word_eq_self)
next
  case False
  then show ?thesis by (simp add: timestamp_delta_def take_bit_eq_mask mask_eq_exp_minus_1 push_bit_eq_mult)
qed

text \<open>Elapsed times survive the wrap-around of the counter. For a counter of any width up to 64 bits,
  the difference of two of its readings is the number of ticks between them, as long as it is below
  the period of the counter.\<close>

lemma timestamp_delta_exact:
  assumes "unat valid_bits \<le> 64" and "ticks < 2 ^ unat valid_bits"
    and "start = word_of_nat (t mod 2 ^ unat valid_bits)" and "stop = word_of_nat ((t + ticks) mod 2 ^ unat valid_bits)"
  shows "unat (timestamp_delta start stop valid_bits) = ticks"
proof -
  let ?n = "unat valid_bits"
  have "take_bit ?n (stop - start) = take_bit ?n (word_of_nat (t + ticks) - word_of_nat t :: u64)"
    unfolding assms(3,4) take_bit_eq_mod [symmetric] of_nat_take_bit by (rule take_bit_word_diff)
  also have "\<dots> = word_of_nat (take_bit ?n ticks)" by (simp add: of_nat_take_bit)
  also have "\<dots> = word_of_nat ticks" using assms(2) by (simp add: take_bit_nat_eq_self)
  finally have "timestamp_delta start stop valid_bits = word_of_nat ticks"
    using timestamp_delta_take_bit [OF assms(1)] by simp
  moreover have "ticks < 2 ^ 64"
    using assms(1,2) by (meson less_le_trans one_le_numeral power_increasing)
  ultimately show ?thesis by (simp add: unsigned_of_nat take_bit_nat_eq_self)
qed

lemma timestamp_delta_exact_witness:
  "unat (timestamp_delta (word_of_nat (250 mod 2 ^ unat (8 :: u32))) (word_of_nat ((250 + 10) mod 2 ^ unat (8 :: u32))) 8) = 10"
  by (rule timestamp_delta_exact [where t = 250]) simp_all

section \<open>The images of a client\<close>

lemma staged_outputs_distinct:
  "slot_images_ok x \<Longrightarrow> distinct (staged_output_images (slot_sampled_images x))"
  by (cases x) (auto simp: viewed_objects_def image_objects_def)

lemma staged_outputs_objects: "set (staged_output_images x) = sampled_objects x"
  by (cases x) auto

text \<open>The work of an image of a kind that fits its leases.\<close>

definition recordable :: "imported_image \<Rightarrow> importer \<Rightarrow> bool" where
  "recordable img im \<longleftrightarrow> (\<exists>plan. acquire_plan img im = Some plan \<and> plan_planar plan \<and>
     distinct (plan_sources plan @ plan_outputs plan))"

lemma planar_recorded: "plan_planar plan \<Longrightarrow> \<exists>cs. acquire_commands family plan query = Ok cs"
  by (cases plan)
    (auto simp: acquire_commands_def staged_transfer_commands_def transfer_copies_def image_transfer_commands_def
      Let_def map_ok_def split: sampled_images.splits prod.split)

lemma held_ok: "device_ok s0 im X w \<Longrightarrow> i \<in> resource_ids im X \<Longrightarrow> handle_ok (resource_handle im i)"
  by (simp add: device_ok_def holds_def)

lemma staged_packed_recordable:
  assumes device: "device_ok s0 im X w" and cache: "cache_inv (im_packed_cache im)"
    and pool: "output_pool_ok fits (im_packed_pool im) ls"
    and k: "ii_kind img = Staged_packed p" and fit: "kind_fits im (Staged_packed p)"
  shows "recordable img im"
proof -
  obtain v b fmt where source: "leased_source (sp_source p) (im_packed_cache im) = Some (Packed_source_staged v b, fmt)"
  proof -
    obtain a where "leased_source (sp_source p) (im_packed_cache im) = Some a"
        "packed_source_fits LinearBufferToOptimalBgra (fst a)"
      using fit by (auto simp: packed_source_is_def)
    then show ?thesis using that by (cases a; cases "fst a") auto
  qed
  obtain slot where slot: "leased_slot (sp_output p) (im_packed_pool im) = Some slot"
    using fit by (auto simp: packed_output_is_def)
  obtain r where r: "Packed_source_id r \<in> resource_ids im X"
      "resource_handle im (Packed_source_id r) = Packed_source_handle (Packed_source_staged v b)"
    using packed_source_shown [OF cache source] by blast
  obtain q where q: "Packed_slot_id q \<in> resource_ids im X" "resource_handle im (Packed_slot_id q) = Packed_slot_handle slot"
    using packed_slot_shown [OF pool slot] by blast
  have "ba_buffer b \<noteq> ia_image (po_sampled slot)"
    using device_ok_disjoint [OF device r(1) q(1)] r(2) q(2) buffer_inside [of b]
    by (auto simp: packed_slot_objects_def viewed_objects_def image_objects_def)
  then show ?thesis by (simp add: recordable_def acquire_plan_def packed_plan_def k source slot)
qed

lemma staged_nv12_recordable:
  assumes device: "device_ok s0 im X w" and cache: "cache_inv (im_nv12_cache im)"
    and pool: "output_pool_ok fits (im_nv12_pool im) ls"
    and k: "ii_kind img = Staged_nv12 n" and fit: "kind_fits im (Staged_nv12 n)"
  shows "recordable img im"
proof -
  obtain strategy a slot where source: "leased_source (sn_source n) (im_nv12_cache im) = Some a" "source_fits strategy a"
      and slot: "leased_slot (sn_output n) (im_nv12_pool im) = Some slot" "slot_fits strategy slot"
      and op: "operation_fits im strategy (sn_operation n)"
    using fit by (auto simp: nv12_source_is_def nv12_output_is_def)
  obtain r where r: "Nv12_source_id r \<in> resource_ids im X" "resource_handle im (Nv12_source_id r) = Nv12_source_handle a"
    using nv12_source_shown [OF cache source(1)] by blast
  obtain q where q: "Nv12_slot_id q \<in> resource_ids im X" "resource_handle im (Nv12_slot_id q) = Staged_slot_handle slot"
    using nv12_slot_shown [OF pool slot(1)] by blast
  let ?shown = "slot_sampled_images (so_images slot)"
  have ok: "slot_images_ok (so_images slot)" using held_ok [OF device q(1)] q(2) by (simp add: staged_slot_ok_def)
  have fresh: "x \<notin> sampled_objects ?shown" if "x \<in> handle_objects (Nv12_source_handle a)" for x
    using device_ok_disjoint [OF device r(1) q(1)] r(2) q(2) slot_sampled_inside [of "so_images slot"] that
    by (auto simp: staged_slot_objects_def)
  note outputs = staged_outputs_distinct [OF ok] staged_outputs_objects [of ?shown]
  show ?thesis
  proof (cases "sn_operation n")
    case (Compute p constants)
    then obtain v b d where a: "a = Source_compute v b" and d: "so_descriptor_set slot = Some d"
      using source(2) slot(2) op by (cases a) (auto simp: slot_fits_def)
    have "ba_buffer b \<notin> sampled_objects ?shown" using fresh buffer_inside [of b] by (auto simp: a)
    then show ?thesis
      using outputs by (simp add: recordable_def acquire_plan_def nv12_plan_def k Let_def source slot Compute a d)
  next
    case (Buffer_transfer layout)
    then obtain b where a: "a = Source_transfer b" using op source(2) by (cases a) auto
    have "ba_buffer b \<notin> sampled_objects ?shown" using fresh buffer_inside [of b] by (auto simp: a)
    moreover have "case ?shown of Sampled_nv12 _ \<Rightarrow> True | Sampled_yuv_planes _ _ \<Rightarrow> True | _ \<Rightarrow> False"
      using op slot(2) by (cases "so_images slot") (auto simp: slot_fits_def Buffer_transfer)
    ultimately show ?thesis
      using outputs by (simp add: recordable_def acquire_plan_def nv12_plan_def k Let_def source slot Buffer_transfer a)
  next
    case Image_transfer
    then obtain s where a: "a = Source_direct s" using op source(2) by (cases a) auto
    have "ia_image s \<notin> sampled_objects ?shown" using fresh by (auto simp: a image_objects_def)
    moreover have "case ?shown of Sampled_yuv_planes _ _ \<Rightarrow> True | _ \<Rightarrow> False"
      using op slot(2) by (cases "so_images slot") (auto simp: slot_fits_def Image_transfer)
    ultimately show ?thesis
      using outputs by (simp add: recordable_def acquire_plan_def nv12_plan_def k Let_def source slot Image_transfer a)
  qed
qed

lemma image_recordable:
  assumes ok: "importer_ok s0 h im w" and fit: "kind_fits im (ii_kind img)"
  shows "recordable img im"
proof -
  have packed: "cache_inv (im_packed_cache im)" and nv12: "cache_inv (im_nv12_cache im)"
    and packed_pool: "output_pool_ok (\<lambda>_ _. True) (im_packed_pool im) (hl_packed_outputs h)"
    and nv12_pool: "output_pool_ok (\<lambda>(dims, strategy). slot_fits strategy) (im_nv12_pool im) (hl_nv12_outputs h)"
    and device: "device_ok s0 im (set (hl_scanouts h)) w"
    using ok by (simp_all add: importer_ok_def cache_ok_def)
  show ?thesis
  proof (cases "ii_kind img")
    case (Direct_packed l)
    obtain a where "leased_source l (im_packed_cache im) = Some a" "packed_source_fits Packed_DirectSampledImage (fst a)"
      using fit Direct_packed by (auto simp: packed_source_is_def)
    then show ?thesis
      by (cases a; cases "fst a") (auto simp: recordable_def acquire_plan_def Direct_packed packed_source_image_def)
  next
    case (Direct_nv12 l m)
    obtain a where "leased_source l (im_nv12_cache im) = Some a" "source_fits DirectSampledImage a"
      using fit Direct_nv12 by (auto simp: nv12_source_is_def)
    then show ?thesis by (cases a) (auto simp: recordable_def acquire_plan_def Direct_nv12 nv12_source_image_def)
  next
    case (Direct_bgra_scanout a)
    then show ?thesis by (simp add: recordable_def acquire_plan_def)
  next
    case (Staged_packed p)
    then show ?thesis using staged_packed_recordable [OF device packed packed_pool] fit by simp
  next
    case (Staged_nv12 n)
    then show ?thesis using staged_nv12_recordable [OF device nv12 nv12_pool] fit by simp
  qed
qed

text \<open>C15: every image a client holds can be submitted. Whatever the client did, the image has a plan whose
  outputs are distinct from each other and from its source, and recording its acquire work meets none
  of the error branches of the recorders, with or without timestamps.\<close>

theorem client_images_recordable:
  assumes "vk_wf s0" and "\<And>i. \<not> dr_empty (env_driver env) i"
    and "client_of env limits preference s0 files n ops = Some c" and "img \<in> set (cl_images c)"
  shows "\<exists>plan cs. acquire_plan img (cl_importer c) = Some plan \<and> distinct (plan_sources plan @ plan_outputs plan) \<and>
    acquire_commands family plan query = Ok cs"
proof -
  have ok: "client_ok s0 c" by (rule client_of_ok [OF assms(1-3)])
  have "recordable img (cl_importer c)"
    using ok assms(4) by (intro image_recordable) (auto simp: client_ok_def)
  then show ?thesis using planar_recorded unfolding recordable_def by blast
qed

theorem client_images_recordable_witness:
  "\<exists>c plan cs. example_client (example_ops [Evict_packed 5]) = Some c \<and>
     acquire_plan (cl_images c ! 0) (cl_importer c) = Some plan \<and> acquire_commands 0 plan (Some (Query_pool 9)) = Ok cs"
proof -
  obtain d where d: "length (cl_images d) = 2" "\<And>ops. example_client (example_ops ops) = Some (importer_run example_env ops d)"
    using example_images by blast
  let ?c = "importer_run example_env [Evict_packed 5] d"
  have "length (cl_images ?c) = 2" using d(1) by (simp split: prod.split)
  then have "cl_images ?c ! 0 \<in> set (cl_images ?c)" by (intro nth_mem) simp
  from client_images_recordable [OF vk_wf_start example_env_driver example_client_of [OF d(2)] this] show ?thesis
    using d(2) [of "[Evict_packed 5]"] by blast
qed

end
