(* ===== verification/Sync_Safety.thy ===== *)
theory Sync_Safety
  imports Sync_Lane Owned_Resources
begin

text \<open>
  What the operations of \<open>Sync_Lane\<close> own and give back, and that none uses what is pending. The
  judgements follow those of \<open>Resource_Safety\<close>, on a device whose queue stays as it is.
\<close>

section \<open>Judgements\<close>

text \<open>
  \<open>d\<close> holds \<open>A\<close> beyond \<open>s0\<close>, with the queue of \<open>q\<close>, no fence signaled and no misuse since. What is in use was made before.
\<close>

definition quiet :: "vk_state \<Rightarrow> sync_device \<Rightarrow> vk_object set \<Rightarrow> sync_device \<Rightarrow> bool" where
  "quiet s0 q A d \<longleftrightarrow> vk_wf s0 \<and> gained s0 A {} (sd_vk d) \<and> sd_pending d = sd_pending q \<and> sd_done d = sd_done q \<and>
     sd_signaled d \<subseteq> sd_signaled q \<and> sd_misused d = sd_misused q \<and> (sd_lost q \<longrightarrow> sd_lost d) \<and>
     (\<forall>x \<in> in_use q. vk_index x < vs_next (sd_vk d))"

definition keeps ::
  "vk_state \<Rightarrow> sync_device \<Rightarrow> vk_object set \<Rightarrow> vk_object set \<Rightarrow> (sync_device \<Rightarrow> ('e + 'a) \<times> sync_device) \<Rightarrow>
   ('a \<Rightarrow> bool) \<Rightarrow> ('a \<Rightarrow> vk_object set) \<Rightarrow> bool" where
  "keeps s0 q A A' m valid objs \<longleftrightarrow> (\<forall>d. quiet s0 q A d \<longrightarrow>
     (case m d of (Inl e, d') \<Rightarrow> quiet s0 q A' d' | (Inr x, d') \<Rightarrow> valid x \<and> quiet s0 q (objs x) d'))"

lemma keeps_result:
  assumes "keeps s0 q A A' m valid objs" and "quiet s0 q A d" and "m d = (r, d')"
  shows "case r of Inl e \<Rightarrow> quiet s0 q A' d' | Inr x \<Rightarrow> valid x \<and> quiet s0 q (objs x) d'"
  using assms unfolding keeps_def by (cases r) fastforce+

lemma keeps_bind:
  assumes m: "keeps s0 q A A' m valid objs"
    and f: "\<And>x. valid x \<Longrightarrow> keeps s0 q (objs x) A' (f x) valid' objs'"
  shows "keeps s0 q A A' (io_bind m f) valid' objs'"
  unfolding keeps_def
proof (intro allI impI)
  fix d assume d: "quiet s0 q A d"
  obtain r d1 where run: "m d = (r, d1)" by fastforce
  note first = keeps_result [OF m d run]
  show "case io_bind m f d of (Inl e, d') \<Rightarrow> quiet s0 q A' d' | (Inr x, d') \<Rightarrow> valid' x \<and> quiet s0 q (objs' x) d'"
  proof (cases r)
    case (Inr x)
    then have x: "valid x" "quiet s0 q (objs x) d1" using first by simp_all
    show ?thesis using f [OF x(1)] x(2) unfolding keeps_def by (simp add: io_bind_def run Inr)
  qed (use first in \<open>simp add: io_bind_def run\<close>)
qed

lemma keeps_return: "valid x \<Longrightarrow> keeps s0 q (objs x) A' (io_return x) valid objs"
  by (simp add: keeps_def io_return_def)

lemma keeps_map_err:
  assumes "keeps s0 q A A' m valid objs"
  shows "keeps s0 q A A' (io_map_err g m) valid objs"
  unfolding keeps_def
proof (intro allI impI)
  fix d assume d: "quiet s0 q A d"
  obtain r d1 where run: "m d = (r, d1)" by fastforce
  show "case io_map_err g m d of (Inl e, d') \<Rightarrow> quiet s0 q A' d' | (Inr x, d') \<Rightarrow> valid x \<and> quiet s0 q (objs x) d'"
    using keeps_result [OF assms d run] by (cases r) (simp_all add: io_map_err_def run)
qed

lemma keeps_cleanup:
  assumes "keeps s0 q A A m valid objs" and "\<And>d. quiet s0 q A d \<Longrightarrow> quiet s0 q A' (clean d)"
  shows "keeps s0 q A A' (io_cleanup clean m) valid objs"
  unfolding keeps_def
proof (intro allI impI)
  fix d assume d: "quiet s0 q A d"
  obtain r d1 where run: "m d = (r, d1)" by fastforce
  show "case io_cleanup clean m d of (Inl e, d') \<Rightarrow> quiet s0 q A' d' | (Inr x, d') \<Rightarrow> valid x \<and> quiet s0 q (objs x) d'"
    using keeps_result [OF assms(1) d run] assms(2) by (cases r) (simp_all add: io_cleanup_def run)
qed

lemma keeps_weaken:
  assumes "keeps s0 q A A' m valid objs" and "\<And>x. valid x \<Longrightarrow> valid' x \<and> objs x = objs' x"
  shows "keeps s0 q A A' m valid' objs'"
  unfolding keeps_def
proof (intro allI impI)
  fix d assume d: "quiet s0 q A d"
  obtain r d1 where run: "m d = (r, d1)" by fastforce
  show "case m d of (Inl e, d') \<Rightarrow> quiet s0 q A' d' | (Inr x, d') \<Rightarrow> valid' x \<and> quiet s0 q (objs' x) d'"
    using keeps_result [OF assms(1) d run] assms(2) by (cases r) (auto simp: run)
qed

section \<open>The calls\<close>

lemma quiet_calls:
  "quiet s0 q A d \<Longrightarrow> quiet s0 q A (d\<lparr>sd_vk := (sd_vk d)\<lparr>vs_calls := n\<rparr>\<rparr>)"
  by (simp add: quiet_def gained_call)

lemma keeps_call: "keeps s0 q A A (on_sync (vk_call driver)) (\<lambda>_. True) (\<lambda>_. A)"
  by (auto simp: keeps_def on_sync_def vk_call_def quiet_calls split: option.split)

lemma keeps_create:
  assumes "\<And>n. vk_index (mk n) = n"
  shows "keeps s0 q A A (on_sync (vk_create driver mk info))
    (\<lambda>x. (\<exists>n. x = mk n) \<and> x \<notin> A \<and> x \<notin> in_use q) (\<lambda>x. insert x A)"
  unfolding keeps_def
proof (intro allI impI)
  fix d assume d: "quiet s0 q A d"
  let ?s = "(sd_vk d)\<lparr>vs_calls := vs_calls (sd_vk d) + 1\<rparr>"
  have called: "quiet s0 q A (d\<lparr>sd_vk := ?s\<rparr>)" using d by (rule quiet_calls)
  then have wf: "vk_wf s0" and held: "gained s0 A {} ?s" by (simp_all add: quiet_def)
  have fresh: "mk (vs_next ?s) \<notin> in_use q"
    using d assms by (auto simp: quiet_def)
  have "quiet s0 q (insert (mk (vs_next ?s)) A) (d\<lparr>sd_vk := snd (vk_new mk info ?s)\<rparr>)"
    using called gained_new(2) [OF wf held, of mk info] assms by (fastforce simp: quiet_def vk_new_def)
  then show "case on_sync (vk_create driver mk info) d of (Inl e, d') \<Rightarrow> quiet s0 q A d'
      | (Inr x, d') \<Rightarrow> ((\<exists>n. x = mk n) \<and> x \<notin> A \<and> x \<notin> in_use q) \<and> quiet s0 q (insert x A) d'"
    using called fresh gained_new(1) [OF wf held, of mk] assms
    by (auto simp: on_sync_def vk_create_def vk_call_def vk_new_def split: option.split)
qed

lemma quiet_destroy:
  assumes "quiet s0 q A d" and "x \<in> A" and "x \<notin> in_use q"
  shows "quiet s0 q (A - {x}) (sync_destroy x d)"
proof -
  have "in_use (d\<lparr>sd_vk := vk_destroy x (sd_vk d)\<rparr>) = in_use q" using assms(1) by (simp add: in_use_def quiet_def)
  then have d: "sync_destroy x d = d\<lparr>sd_vk := vk_destroy x (sd_vk d)\<rparr>"
    using assms(3) by (simp add: sync_destroy_def touch_def)
  have "gained s0 (A - {x}) {} (vk_destroy x (sd_vk d))"
    using assms(1,2) gained_destroy [of s0 A "{}" "sd_vk d" x] by (simp add: quiet_def)
  then show ?thesis using assms(1) by (simp add: quiet_def d vk_destroy_def)
qed

lemma quiet_drop:
  "x \<notin> A \<Longrightarrow> x \<notin> in_use q \<Longrightarrow> quiet s0 q (insert x A) d \<Longrightarrow> quiet s0 q A (sync_destroy x d)"
  using quiet_destroy [of s0 q "insert x A" d x] by simp

lemma quiet_touch: "quiet s0 q A d \<Longrightarrow> x \<notin> in_use q \<Longrightarrow> touch x d = d"
  by (simp add: touch_def in_use_def quiet_def)

lemma quiet_report: "quiet s0 q A d \<Longrightarrow> quiet s0 q A (report_timing r d)"
  by (simp add: quiet_def report_timing_def)

lemma quiet_lost: "quiet s0 q A d \<Longrightarrow> quiet s0 q A (mark_lost d)"
  by (simp add: quiet_def mark_lost_def)

lemma quiet_recorded: "quiet s0 q A d \<Longrightarrow> quiet s0 q A (d\<lparr>sd_recorded := f\<rparr>)"
  by (simp add: quiet_def)

lemma quiet_samples: "quiet s0 q A d \<Longrightarrow> quiet s0 q A (d\<lparr>sd_samples := n\<rparr>)"
  by (simp add: quiet_def)

lemma quiet_refl:
  "vk_wf s0 \<Longrightarrow> gained s0 A {} (sd_vk d) \<Longrightarrow> \<forall>x \<in> in_use d. vk_index x < vs_next (sd_vk d) \<Longrightarrow> quiet s0 d A d"
  by (simp add: quiet_def)

lemma keeps_allocate_command:
  "keeps s0 q A A (allocate_command env) (\<lambda>_. True) (\<lambda>_. A)"
  unfolding keeps_def
proof (intro allI impI)
  fix d assume d: "quiet s0 q A d"
  let ?d = "d\<lparr>sd_vk := (sd_vk d)\<lparr>vs_calls := vs_calls (sd_vk d) + 1\<rparr>\<rparr>"
  have called: "quiet s0 q A ?d" using d by (rule quiet_calls)
  then have "gained s0 A {} ((sd_vk ?d)\<lparr>vs_next := vs_next (sd_vk ?d) + 1\<rparr>)"
    using gained_next [of s0 A "{}" "sd_vk ?d"] by (simp add: quiet_def)
  then have "quiet s0 q A (?d\<lparr>sd_vk := (sd_vk ?d)\<lparr>vs_next := vs_next (sd_vk ?d) + 1\<rparr>\<rparr>)"
    using called by (auto simp: quiet_def)
  then show "case allocate_command env d of (Inl e, d') \<Rightarrow> quiet s0 q A d' | (Inr x, d') \<Rightarrow> True \<and> quiet s0 q A d'"
    using called by (auto simp: allocate_command_def on_sync_def vk_call_def split: option.split)
qed


section \<open>The children of a lane\<close>

fun option_list :: "'a option \<Rightarrow> 'a list" where
  "option_list None = []"
| "option_list (Some x) = [x]"

definition lane_children :: "image_sync \<Rightarrow> vk_object list" where
  "lane_children lane =
     [is_acquire_pool lane, is_release_pool lane, is_acquire_fence lane, is_release_fence lane] @
     option_list (is_imported_acquire lane) @ option_list (is_ready_semaphore lane) @
     option_list (map_option tq_pool (is_timestamp_query lane))"

lemma keeps_timestamp_query:
  "keeps s0 q A A (create_timestamp_query env)
     (\<lambda>query. distinct (option_list (map_option tq_pool query)) \<and>
        set (option_list (map_option tq_pool query)) \<inter> (A \<union> in_use q) = {})
     (\<lambda>query. set (option_list (map_option tq_pool query)) \<union> A)"
  unfolding keeps_def
proof (intro allI impI)
  fix d assume d: "quiet s0 q A d"
  obtain r d' where run: "on_sync (vk_create (sy_driver env) Query_pool Plain) d = (r, d')" by fastforce
  have "\<And>n. vk_index (Query_pool n) = n" by simp
  from keeps_result [OF keeps_create [OF this] d run]
  show "case create_timestamp_query env d of (Inl e, d') \<Rightarrow> quiet s0 q A d'
      | (Inr query, d') \<Rightarrow> (distinct (option_list (map_option tq_pool query)) \<and>
          set (option_list (map_option tq_pool query)) \<inter> (A \<union> in_use q) = {}) \<and>
        quiet s0 q (set (option_list (map_option tq_pool query)) \<union> A) d'"
    using d by (cases r) (auto simp: create_timestamp_query_def Let_def run intro: quiet_report quiet_lost)
qed

text \<open>A lane that was not submitted to.\<close>

definition unused_lane :: "image_sync \<Rightarrow> bool" where
  "unused_lane lane \<longleftrightarrow> is_ready_semaphore lane = None \<and> \<not> is_acquire_submitted lane \<and>
     \<not> is_release_submitted lane \<and> \<not> is_renderer_accepted lane \<and> \<not> is_renderer_rejected lane"

lemma keeps_timing:
  "keeps s0 q A A (if b then create_timestamp_query env else io_return None)
     (\<lambda>query. distinct (option_list (map_option tq_pool query)) \<and>
        set (option_list (map_option tq_pool query)) \<inter> (A \<union> in_use q) = {})
     (\<lambda>query. set (option_list (map_option tq_pool query)) \<union> A)"
  using keeps_timestamp_query by (auto simp: keeps_def io_return_def)

lemma create_query_keeps:
  assumes idle: "in_use q = {}" and distinct: "distinct [rf, af, r, a]"
  shows "keeps s0 q {rf, af, r, a} {r, a} (create_query env (new_lane a ac r rc af rf) af rf)
    (\<lambda>lane. distinct (lane_children lane) \<and> unused_lane lane) (\<lambda>lane. set (lane_children lane))"
  unfolding create_query_def
proof (rule keeps_bind)
  show "keeps s0 q {rf, af, r, a} {r, a} (io_cleanup (\<lambda>d. sync_destroy af (sync_destroy rf d))
        (if sy_timing_enabled env then create_timestamp_query env else io_return None))
      (\<lambda>query. distinct (option_list (map_option tq_pool query)) \<and>
        set (option_list (map_option tq_pool query)) \<inter> ({rf, af, r, a} \<union> in_use q) = {})
      (\<lambda>query. set (option_list (map_option tq_pool query)) \<union> {rf, af, r, a})"
    using distinct idle by (intro keeps_cleanup keeps_timing quiet_drop) simp_all
qed (use distinct in \<open>auto simp: keeps_def io_return_def lane_children_def unused_lane_def new_lane_def insert_commute\<close>)

lemma create_fences_keeps:
  assumes idle: "in_use q = {}" and distinct: "r \<noteq> a"
  shows "keeps s0 q {r, a} {r, a} (create_fences env (new_lane a ac r rc))
    (\<lambda>lane. distinct (lane_children lane) \<and> unused_lane lane) (\<lambda>lane. set (lane_children lane))"
  unfolding create_fences_def create_fence_def
proof (rule keeps_bind [OF keeps_map_err [OF keeps_create]])
  fix af assume af: "(\<exists>n. af = Fence n) \<and> af \<notin> {r, a} \<and> af \<notin> in_use q"
  show "keeps s0 q (insert af {r, a}) {r, a}
      (io_bind (io_cleanup (sync_destroy af) (io_map_err (\<lambda>_. sync_error_new ReleaseFenceCreate)
          (on_sync (vk_create (sy_driver env) Fence Plain))))
        (\<lambda>rf. create_query env (new_lane a ac r rc af rf) af rf))
      (\<lambda>lane. distinct (lane_children lane) \<and> unused_lane lane) (\<lambda>lane. set (lane_children lane))"
  proof (rule keeps_bind)
    show "keeps s0 q {af, r, a} {r, a} (io_cleanup (sync_destroy af) (io_map_err (\<lambda>_. sync_error_new ReleaseFenceCreate)
          (on_sync (vk_create (sy_driver env) Fence Plain))))
        (\<lambda>x. (\<exists>n. x = Fence n) \<and> x \<notin> {af, r, a} \<and> x \<notin> in_use q) (\<lambda>x. insert x {af, r, a})"
      using af idle by (intro keeps_cleanup keeps_map_err keeps_create quiet_drop) simp_all
  next
    fix rf assume "(\<exists>n. rf = Fence n) \<and> rf \<notin> {af, r, a} \<and> rf \<notin> in_use q"
    then show "keeps s0 q (insert rf {af, r, a}) {r, a} (create_query env (new_lane a ac r rc af rf) af rf)
        (\<lambda>lane. distinct (lane_children lane) \<and> unused_lane lane) (\<lambda>lane. set (lane_children lane))"
      using af distinct by (intro create_query_keeps idle) simp
  qed
qed simp

lemma image_sync_new_keeps:
  assumes idle: "in_use q = {}"
  shows "keeps s0 q {} {} (image_sync_new env) (\<lambda>lane. distinct (lane_children lane) \<and> unused_lane lane)
    (\<lambda>lane. set (lane_children lane))"
  unfolding image_sync_new_def create_command_pool_def
proof (rule keeps_bind [OF keeps_map_err [OF keeps_create]])
  fix a
  show "keeps s0 q {a} {}
      (io_bind (io_cleanup (sync_destroy a) (io_map_err (\<lambda>_. sync_error_new Kind_other)
          (on_sync (vk_create (sy_driver env) Command_pool Plain))))
       (\<lambda>r. io_cleanup (\<lambda>d. sync_destroy a (sync_destroy r d))
         (io_bind (io_map_err (\<lambda>_. sync_error_new Kind_other) (allocate_command env))
         (\<lambda>ac. io_bind (io_map_err (\<lambda>_. sync_error_new Kind_other) (allocate_command env))
         (\<lambda>rc. create_fences env (new_lane a ac r rc))))))
      (\<lambda>lane. distinct (lane_children lane) \<and> unused_lane lane) (\<lambda>lane. set (lane_children lane))"
  proof (rule keeps_bind)
    show "keeps s0 q {a} {} (io_cleanup (sync_destroy a) (io_map_err (\<lambda>_. sync_error_new Kind_other)
          (on_sync (vk_create (sy_driver env) Command_pool Plain))))
        (\<lambda>x. (\<exists>n. x = Command_pool n) \<and> x \<notin> {a} \<and> x \<notin> in_use q) (\<lambda>x. {x, a})"
      using idle by (intro keeps_cleanup keeps_map_err keeps_create quiet_drop) simp_all
  next
    fix r assume "(\<exists>n. r = Command_pool n) \<and> r \<notin> {a} \<and> r \<notin> in_use q"
    then show "keeps s0 q {r, a} {} (io_cleanup (\<lambda>d. sync_destroy a (sync_destroy r d))
         (io_bind (io_map_err (\<lambda>_. sync_error_new Kind_other) (allocate_command env))
         (\<lambda>ac. io_bind (io_map_err (\<lambda>_. sync_error_new Kind_other) (allocate_command env))
         (\<lambda>rc. create_fences env (new_lane a ac r rc)))))
        (\<lambda>lane. distinct (lane_children lane) \<and> unused_lane lane) (\<lambda>lane. set (lane_children lane))"
      using idle
      by (intro keeps_cleanup keeps_bind [OF keeps_map_err [OF keeps_allocate_command]] create_fences_keeps quiet_drop) simp_all
  qed
qed simp

section \<open>Temporary payloads\<close>

lemma quiet_consumed_fd:
  "fd \<notin> A \<Longrightarrow> quiet s0 q (insert fd A) d \<Longrightarrow> quiet s0 q A (d\<lparr>sd_vk := vk_destroy fd (sd_vk d)\<rparr>)"
  using gained_destroy [of s0 "insert fd A" "{}" "sd_vk d" fd] by (simp add: quiet_def vk_destroy_def)

lemma duplicate_fd_keeps:
  "keeps s0 q A A (on_sync (duplicate_import_fd driver)) (\<lambda>fd. fd \<notin> A \<and> fd \<notin> in_use q) (\<lambda>fd. insert fd A)"
proof -
  have "on_sync (duplicate_import_fd driver) =
      io_map_err Duplicate_fd_failed (on_sync (vk_create driver Raw_fd Plain))"
    by (auto simp: duplicate_import_fd_def on_sync_def io_map_err_def fun_eq_iff split_def apfst_def map_prod_def)
  moreover have "keeps s0 q A A (on_sync (vk_create driver Raw_fd Plain))
      (\<lambda>fd. (\<exists>n. fd = Raw_fd n) \<and> fd \<notin> A \<and> fd \<notin> in_use q) (\<lambda>fd. insert fd A)"
    by (intro keeps_create) simp
  ultimately show ?thesis
    by (auto intro!: keeps_weaken [OF keeps_map_err])
qed

lemma import_semaphore_keeps:
  assumes "fd \<notin> A" and "semaphore \<notin> in_use q"
  shows "keeps s0 q (insert fd A) (insert fd A) (import_semaphore_fd env semaphore fd) (\<lambda>_. True) (\<lambda>_. A)"
  unfolding keeps_def
proof (intro allI impI)
  fix d assume d: "quiet s0 q (insert fd A) d"
  obtain r d' where run: "on_sync (vk_call (sy_driver env)) d = (r, d')" by fastforce
  show "case import_semaphore_fd env semaphore fd d of (Inl e, d') \<Rightarrow> quiet s0 q (insert fd A) d'
      | (Inr x, d') \<Rightarrow> True \<and> quiet s0 q A d'"
    using keeps_result [OF keeps_call d run] quiet_touch [OF d assms(2)] quiet_consumed_fd [OF assms(1)]
    by (cases r) (simp_all add: import_semaphore_fd_def run)
qed

lemma import_temporary_keeps:
  assumes reusable: "\<And>x. reusable = Some x \<Longrightarrow> x \<in> A \<and> x \<notin> in_use q"
  shows "keeps s0 q A A (import_temporary_sync_fd env source_fd reusable)
    (\<lambda>x. x \<notin> in_use q \<and> (case reusable of Some y \<Rightarrow> x = y | None \<Rightarrow> x \<notin> A)) (\<lambda>x. insert x A)"
proof -
  let ?start = "case reusable of Some semaphore \<Rightarrow> io_return (semaphore, False)
      | None \<Rightarrow> io_bind (io_map_err Create_import_semaphore_failed (create_semaphore env))
          (\<lambda>semaphore. io_return (semaphore, True))"
  let ?fits = "\<lambda>x. x \<notin> in_use q \<and> (case reusable of Some y \<Rightarrow> x = y | None \<Rightarrow> x \<notin> A)"
  have start: "keeps s0 q A A ?start (\<lambda>(x, created). ?fits x \<and> (created \<longleftrightarrow> x \<notin> A)) (\<lambda>(x, created). insert x A)"
  proof (cases reusable)
    case None
    have "keeps s0 q A A (io_map_err Create_import_semaphore_failed (create_semaphore env))
        (\<lambda>x. (\<exists>n. x = Semaphore n) \<and> x \<notin> A \<and> x \<notin> in_use q) (\<lambda>x. insert x A)"
      unfolding create_semaphore_def by (intro keeps_map_err keeps_create) simp
    then have "keeps s0 q A A (io_bind (io_map_err Create_import_semaphore_failed (create_semaphore env))
        (\<lambda>semaphore. io_return (semaphore, True))) (\<lambda>(x, created). x \<notin> in_use q \<and> x \<notin> A \<and> created)
        (\<lambda>(x, created). insert x A)"
      by (rule keeps_bind) (auto simp: keeps_def io_return_def)
    then show ?thesis unfolding None option.case by (rule keeps_weaken) auto
  next
    case (Some y)
    then show ?thesis using reusable [OF Some] by (simp add: keeps_def io_return_def insert_absorb)
  qed
  have rest: "keeps s0 q (insert x A) A
      (let undo = (\<lambda>d. if created then sync_destroy x d else d) in
       io_bind (io_cleanup undo (io_map_err Duplicate_sync_fd_failed (on_sync (duplicate_import_fd (sy_driver env)))))
       (\<lambda>fd. io_bind (io_cleanup (\<lambda>d. undo (d\<lparr>sd_vk := vk_destroy fd (sd_vk d)\<rparr>))
           (io_map_err Import_sync_fd_failed (import_semaphore_fd env x fd)))
         (\<lambda>_. io_return x))) ?fits (\<lambda>x. insert x A)"
    if x: "?fits x" "created \<longleftrightarrow> x \<notin> A" for x created
  proof -
    have undo: "quiet s0 q A (if created then sync_destroy x d else d)" if "quiet s0 q (insert x A) d" for d
      using that x quiet_drop [of x A q s0 d] by (auto simp: insert_absorb)
    show ?thesis
      unfolding Let_def
    proof (rule keeps_bind)
      show "keeps s0 q (insert x A) A (io_cleanup (\<lambda>d. if created then sync_destroy x d else d)
          (io_map_err Duplicate_sync_fd_failed (on_sync (duplicate_import_fd (sy_driver env)))))
          (\<lambda>fd. fd \<notin> insert x A \<and> fd \<notin> in_use q) (\<lambda>fd. insert fd (insert x A))"
        by (intro keeps_cleanup keeps_map_err duplicate_fd_keeps undo)
    next
      fix fd assume fd: "fd \<notin> insert x A \<and> fd \<notin> in_use q"
      have "keeps s0 q (insert fd (insert x A)) A (io_cleanup
            (\<lambda>d. if created then sync_destroy x (d\<lparr>sd_vk := vk_destroy fd (sd_vk d)\<rparr>) else d\<lparr>sd_vk := vk_destroy fd (sd_vk d)\<rparr>)
            (io_map_err Import_sync_fd_failed (import_semaphore_fd env x fd))) (\<lambda>_. True) (\<lambda>_. insert x A)"
        using fd x(1) undo quiet_consumed_fd [of fd "insert x A"]
        by (intro keeps_cleanup keeps_map_err import_semaphore_keeps) auto
      then show "keeps s0 q (insert fd (insert x A)) A
          (io_bind (io_cleanup
            (\<lambda>d. if created then sync_destroy x (d\<lparr>sd_vk := vk_destroy fd (sd_vk d)\<rparr>) else d\<lparr>sd_vk := vk_destroy fd (sd_vk d)\<rparr>)
            (io_map_err Import_sync_fd_failed (import_semaphore_fd env x fd))) (\<lambda>_. io_return x)) ?fits (\<lambda>x. insert x A)"
        by (rule keeps_bind) (use x(1) in \<open>simp add: keeps_def io_return_def\<close>)
    qed
  qed
  have bound: "keeps s0 q A A (io_bind ?start
      (\<lambda>(x, created). let undo = (\<lambda>d. if created then sync_destroy x d else d) in
       io_bind (io_cleanup undo (io_map_err Duplicate_sync_fd_failed (on_sync (duplicate_import_fd (sy_driver env)))))
       (\<lambda>fd. io_bind (io_cleanup (\<lambda>d. undo (d\<lparr>sd_vk := vk_destroy fd (sd_vk d)\<rparr>))
           (io_map_err Import_sync_fd_failed (import_semaphore_fd env x fd)))
         (\<lambda>_. io_return x)))) ?fits (\<lambda>x. insert x A)"
    by (rule keeps_bind [OF start]) (use rest in \<open>auto split: prod.split\<close>)
  show ?thesis
    unfolding keeps_def
  proof (intro allI impI)
    fix d assume d: "quiet s0 q A d"
    show "case import_temporary_sync_fd env source_fd reusable d of (Inl e, d') \<Rightarrow> quiet s0 q A d'
        | (Inr x, d') \<Rightarrow> ?fits x \<and> quiet s0 q (insert x A) d'"
      using bound d unfolding keeps_def by (simp add: import_temporary_sync_fd_def)
  qed
qed

end
