(* ===== verification/Sync_System.thy ===== *)
theory Sync_System
  imports Sync_Safety
begin

text \<open>
  A lane with its client, its renderer and the queue, as steps in any order: the operations of the
  lane, the queue finishing a submission, submissions of others, the renderer destroying a semaphore it
  accepted. The invariant says that the device holds exactly the children of the lane and the
  renderer's semaphores, and that nothing is destroyed, reset or recorded again while it is in use.
\<close>

section \<open>The system\<close>

text \<open>
  \<open>ly_plan\<close> and \<open>ly_mark\<close> remember what was last submitted and at which place of the queue's history. A
  lane that was dropped is \<open>None\<close>. \<open>ly_release_lost\<close> remembers that a release submission lost the device, and
  \<open>ly_retried\<close> that \<open>submit_release\<close> was called again after that; no operation reads either of them.
\<close>

record lane_system =
  ly_lane :: "image_sync option"
  ly_device :: sync_device
  ly_renderer :: "vk_object set"
  ly_plan :: "acquire_work option"
  ly_mark :: nat
  ly_release_lost :: bool
  ly_retried :: bool

datatype lane_op =
    Do_acquire u64 bool acquire_work "i32 option"
  | Do_accept vk_object
  | Do_reject vk_object
  | Do_release u64 bool vk_object
  | Poll_source
  | Poll_release
  | Take_timing
  | Do_reuse
  | Do_drop
  | Queue_finishes
  | Others_submit submission
  | Renderer_destroys vk_object

definition history :: "sync_device \<Rightarrow> submission list" where
  "history d = sd_done d @ sd_pending d"

text \<open>
  The client calls the operations of the lane as it likes, also on a lost device: none of them looks at
  the flag. Others submit objects that exist, none of them a child of the lane; the renderer destroys a
  semaphore once it is not in use.
\<close>

fun lane_step :: "sync_env \<Rightarrow> lane_op \<Rightarrow> lane_system \<Rightarrow> lane_system" where
  "lane_step env (Do_acquire import_id staged plan sync_fd) y =
     (case ly_lane y of
        Some lane \<Rightarrow>
          (case submit_acquire env import_id staged plan sync_fd lane (ly_device y) of
            (_, lane', d') \<Rightarrow>
              if is_acquire_submitted lane' \<and> \<not> is_acquire_submitted lane
              then y\<lparr>ly_lane := Some lane', ly_device := d', ly_plan := Some plan,
                     ly_mark := length (history (ly_device y))\<rparr>
              else y\<lparr>ly_lane := Some lane', ly_device := d'\<rparr>)
      | None \<Rightarrow> y)"
| "lane_step env (Do_accept semaphore) y =
     (case ly_lane y of
        Some lane \<Rightarrow>
          (case ganesh_wait_accepted semaphore lane of
             (Inr _, lane') \<Rightarrow> y\<lparr>ly_lane := Some lane', ly_renderer := insert semaphore (ly_renderer y)\<rparr>
           | (Inl _, lane') \<Rightarrow> y\<lparr>ly_lane := Some lane'\<rparr>)
      | None \<Rightarrow> y)"
| "lane_step env (Do_reject semaphore) y =
     y\<lparr>ly_lane := map_option (\<lambda>lane. snd (ganesh_wait_rejected semaphore lane)) (ly_lane y)\<rparr>"
| "lane_step env (Do_release import_id staged img) y =
     (case ly_lane y of
        Some lane \<Rightarrow>
          (case submit_release env import_id staged img lane (ly_device y) of
            (r, lane', d') \<Rightarrow>
              y\<lparr>ly_lane := Some lane', ly_device := d',
                ly_release_lost := ly_release_lost y \<or> r = Err (sync_error_lost ReleaseSubmit),
                ly_retried := ly_retried y \<or> ly_release_lost y\<rparr>)
      | None \<Rightarrow> y)"
| "lane_step env Poll_source y =
     (case ly_lane y of
        Some lane \<Rightarrow> y\<lparr>ly_device := snd (source_release_complete env lane (ly_device y))\<rparr> | None \<Rightarrow> y)"
| "lane_step env Poll_release y =
     (case ly_lane y of
        Some lane \<Rightarrow>
          (case release_complete env lane (ly_device y) of
             (_, lane', d') \<Rightarrow> y\<lparr>ly_lane := Some lane', ly_device := d'\<rparr>)
      | None \<Rightarrow> y)"
| "lane_step env Take_timing y = y\<lparr>ly_lane := map_option (\<lambda>lane. snd (take_timing lane)) (ly_lane y)\<rparr>"
| "lane_step env Do_reuse y =
     (case ly_lane y of
        Some lane \<Rightarrow>
          (case reset_for_reuse env lane (ly_device y) of
             (_, lane', d') \<Rightarrow> y\<lparr>ly_lane := Some lane', ly_device := d'\<rparr>)
      | None \<Rightarrow> y)"
| "lane_step env Do_drop y =
     (case ly_lane y of
        Some lane \<Rightarrow> y\<lparr>ly_lane := None, ly_device := image_sync_drop env lane (ly_device y)\<rparr> | None \<Rightarrow> y)"
| "lane_step env Queue_finishes y = y\<lparr>ly_device := finish_submission (ly_device y)\<rparr>"
| "lane_step env (Others_submit sub) y =
     (let d = ly_device y; children = (case ly_lane y of Some lane \<Rightarrow> set (lane_children lane) | None \<Rightarrow> {}) in
      if (\<forall>x \<in> sub_uses sub. vk_index x < vs_next (sd_vk d) \<and> x \<notin> children) \<and> sub_fence sub \<in> sub_uses sub
      then y\<lparr>ly_device := d\<lparr>sd_pending := sd_pending d @ [sub]\<rparr>\<rparr> else y)"
| "lane_step env (Renderer_destroys semaphore) y =
     (if semaphore \<in> ly_renderer y \<and> semaphore \<notin> in_use (ly_device y)
      then y\<lparr>ly_device := sync_destroy semaphore (ly_device y), ly_renderer := ly_renderer y - {semaphore}\<rparr>
      else y)"

fun lane_run :: "sync_env \<Rightarrow> lane_op list \<Rightarrow> lane_system \<Rightarrow> lane_system" where
  "lane_run env [] y = y"
| "lane_run env (op # ops) y = lane_run env ops (lane_step env op y)"

section \<open>The invariant\<close>

text \<open>
  The only submission that can still signal the fence is the one at place \<open>m\<close>; once the fence is
  signaled, that one is done.
\<close>

definition fence_at :: "vk_object \<Rightarrow> nat \<Rightarrow> sync_device \<Rightarrow> bool" where
  "fence_at f m d \<longleftrightarrow>
     (\<forall>i. length (sd_done d) \<le> i \<longrightarrow> i < length (history d) \<longrightarrow> sub_fence (history d ! i) = f \<longrightarrow> i = m) \<and>
     (f \<in> sd_signaled d \<longrightarrow> m < length (sd_done d) \<and> sub_fence (history d ! m) = f)"

definition unused_after :: "vk_object set \<Rightarrow> nat \<Rightarrow> sync_device \<Rightarrow> bool" where
  "unused_after K m d \<longleftrightarrow>
     (\<forall>i. m < i \<longrightarrow> length (sd_done d) \<le> i \<longrightarrow> i < length (history d) \<longrightarrow> sub_uses (history d ! i) \<inter> K = {})"

text \<open>What was recorded for the plan is what the submission at the mark executes.\<close>

definition plan_at :: "sync_env \<Rightarrow> vk_object \<Rightarrow> acquire_work option \<Rightarrow> nat \<Rightarrow> sync_device \<Rightarrow> bool" where
  "plan_at env f plan m d \<longleftrightarrow> (m < length (history d) \<longrightarrow> sub_fence (history d ! m) = f \<longrightarrow>
     (\<exists>p query. plan = Some p \<and> acquire_commands (sy_family env) p query = Ok (sub_commands (history d ! m))))"

definition phase_ok :: "sync_env \<Rightarrow> bool \<Rightarrow> image_sync \<Rightarrow> acquire_work option \<Rightarrow> nat \<Rightarrow> sync_device \<Rightarrow> bool" where
  "phase_ok env lost lane plan mark d \<longleftrightarrow>
     (\<not> is_acquire_submitted lane \<longrightarrow> unused_lane lane \<and> set (lane_children lane) \<inter> in_use d = {}) \<and>
     (is_acquire_submitted lane \<longrightarrow> fence_at (is_acquire_fence lane) mark d \<and>
        plan_at env (is_acquire_fence lane) plan mark d) \<and>
     (is_acquire_submitted lane \<and> \<not> is_release_submitted lane \<and> \<not> lost \<longrightarrow>
        is_release_pool lane \<notin> in_use d \<and> is_release_fence lane \<notin> in_use d) \<and>
     (is_renderer_accepted lane \<longrightarrow> is_ready_semaphore lane = None) \<and>
     (is_release_submitted lane \<longrightarrow> is_acquire_submitted lane \<and>
        (is_ready_semaphore lane = None \<or> is_renderer_rejected lane) \<and>
        (\<exists>m. fence_at (is_release_fence lane) m d \<and> unused_after (set (lane_children lane)) m d))"

definition device_inv :: "vk_state \<Rightarrow> vk_object set \<Rightarrow> sync_device \<Rightarrow> bool" where
  "device_inv s0 A d \<longleftrightarrow> vk_wf s0 \<and> gained s0 A {} (sd_vk d) \<and> \<not> sd_misused d \<and>
     (\<forall>x \<in> in_use d. vk_index x < vs_next (sd_vk d)) \<and> (\<forall>s \<in> set (sd_pending d). sub_fence s \<in> sub_uses s)"

definition lane_inv :: "sync_env \<Rightarrow> vk_state \<Rightarrow> lane_system \<Rightarrow> bool" where
  "lane_inv env s0 y \<longleftrightarrow>
     (case ly_lane y of
        Some lane \<Rightarrow> device_inv s0 (set (lane_children lane) \<union> ly_renderer y) (ly_device y) \<and>
          distinct (lane_children lane) \<and> set (lane_children lane) \<inter> ly_renderer y = {} \<and>
          phase_ok env (ly_release_lost y) lane (ly_plan y) (ly_mark y) (ly_device y)
      | None \<Rightarrow> \<exists>A. device_inv s0 (A \<union> ly_renderer y) (ly_device y) \<and> A \<inter> ly_renderer y = {} \<and>
          (A = {} \<or> sd_lost (ly_device y)))"

section \<open>Steps that leave the queue alone\<close>

lemma device_inv_quiet:
  assumes "device_inv s0 A d" and "quiet s0 d A' d'"
  shows "device_inv s0 A' d'"
proof -
  have "in_use d' = in_use d" using assms(2) by (simp add: quiet_def in_use_def)
  then show ?thesis using assms by (simp add: device_inv_def quiet_def)
qed

lemma quiet_start: "device_inv s0 A d \<Longrightarrow> quiet s0 d A d"
  by (simp add: device_inv_def quiet_def)

lemma history_quiet:
  "quiet s0 q A d \<Longrightarrow> history d = history q" "quiet s0 q A d \<Longrightarrow> in_use d = in_use q"
  by (simp_all add: quiet_def history_def in_use_def)

lemma fence_at_quiet: "quiet s0 q A d \<Longrightarrow> fence_at f m q \<Longrightarrow> fence_at f m d"
  using history_quiet [of s0 q A d] by (auto simp: fence_at_def quiet_def)

lemma unused_after_quiet: "quiet s0 q A d \<Longrightarrow> unused_after K m q \<Longrightarrow> unused_after K m d"
  using history_quiet [of s0 q A d] by (auto simp: unused_after_def quiet_def)

lemma phase_ok_quiet:
  assumes "quiet s0 q A d" and "phase_ok env lost lane plan mark q"
  shows "phase_ok env lost lane plan mark d"
proof -
  have "\<exists>m. fence_at (is_release_fence lane) m d \<and> unused_after (set (lane_children lane)) m d"
    if "\<exists>m. fence_at (is_release_fence lane) m q \<and> unused_after (set (lane_children lane)) m q"
    using that fence_at_quiet [OF assms(1)] unused_after_quiet [OF assms(1)] by blast
  then show ?thesis
    using assms(2) fence_at_quiet [OF assms(1)] unfolding phase_ok_def plan_at_def history_quiet [OF assms(1)] by blast
qed

lemma quiet_trans: "quiet s0 q A d \<Longrightarrow> quiet s0 d A' d' \<Longrightarrow> quiet s0 q A' d'"
  using history_quiet(2) [of s0 q A d] by (auto simp: quiet_def)

definition retimed :: "image_sync \<Rightarrow> image_sync \<Rightarrow> bool" where
  "retimed lane lane' \<longleftrightarrow>
     (\<exists>a c t. lane' = lane\<lparr>is_timing_active := a, is_timing_collected := c, is_timing := t\<rparr>)"

lemma retimed_refl [simp]: "retimed lane lane"
  unfolding retimed_def
  by (rule exI [of _ "is_timing_active lane"], rule exI [of _ "is_timing_collected lane"], rule exI [of _ "is_timing lane"]) simp

lemma retimed_children: "retimed lane lane' \<Longrightarrow> lane_children lane' = lane_children lane"
  by (auto simp: retimed_def lane_children_def)

lemma retimed_fields:
  assumes "retimed lane lane'"
  shows "is_acquire_submitted lane' = is_acquire_submitted lane" "is_release_submitted lane' = is_release_submitted lane"
    "is_renderer_accepted lane' = is_renderer_accepted lane" "is_renderer_rejected lane' = is_renderer_rejected lane"
    "is_ready_semaphore lane' = is_ready_semaphore lane" "is_acquire_fence lane' = is_acquire_fence lane"
    "is_release_fence lane' = is_release_fence lane" "is_release_pool lane' = is_release_pool lane"
    "is_imported_acquire lane' = is_imported_acquire lane"
  using assms unfolding retimed_def by (elim exE, simp)+

lemma retimed_phase: "retimed lane lane' \<Longrightarrow> phase_ok env lost lane plan mark d \<Longrightarrow> phase_ok env lost lane' plan mark d"
  by (simp only: phase_ok_def unused_lane_def retimed_fields [of lane lane'] retimed_children [of lane lane'])

lemma lane_invD:
  assumes "lane_inv env s0 y" and "ly_lane y = Some lane"
  shows "device_inv s0 (set (lane_children lane) \<union> ly_renderer y) (ly_device y)"
    and "distinct (lane_children lane)" and "set (lane_children lane) \<inter> ly_renderer y = {}"
    and "phase_ok env (ly_release_lost y) lane (ly_plan y) (ly_mark y) (ly_device y)"
  using assms by (simp_all add: lane_inv_def)

lemma lane_inv_retimed:
  assumes inv: "lane_inv env s0 y" and lane: "ly_lane y = Some lane" and "retimed lane lane'"
    and quiet: "quiet s0 (ly_device y) (set (lane_children lane) \<union> ly_renderer y) d"
  shows "lane_inv env s0 (y\<lparr>ly_lane := Some lane', ly_device := d\<rparr>)"
  using lane_invD [OF inv lane] device_inv_quiet [OF lane_invD(1) [OF inv lane] quiet] retimed_children [OF assms(3)]
    retimed_phase [OF assms(3) phase_ok_quiet [OF quiet lane_invD(4) [OF inv lane]]]
  by (simp add: lane_inv_def)

text \<open>A lost release is one way to lose what is known of the release's pool and fence.\<close>

lemma phase_ok_lost: "phase_ok env b lane plan mark d \<Longrightarrow> phase_ok env (b \<or> lost) lane plan mark d"
  by (simp add: phase_ok_def)

lemma lane_inv_release_lost:
  "lane_inv env s0 y \<Longrightarrow> lane_inv env s0 (y\<lparr>ly_release_lost := ly_release_lost y \<or> lost, ly_retried := retried\<rparr>)"
  by (auto simp: lane_inv_def phase_ok_lost split: option.splits)

section \<open>The queue\<close>

lemma in_use_history: "x \<in> in_use d \<longleftrightarrow> (\<exists>i. length (sd_done d) \<le> i \<and> i < length (history d) \<and> x \<in> sub_uses (history d ! i))"
proof -
  have "x \<in> in_use d \<longleftrightarrow> (\<exists>j < length (sd_pending d). x \<in> sub_uses (sd_pending d ! j))"
    by (auto simp: in_use_def set_conv_nth)
  also have "\<dots> \<longleftrightarrow> (\<exists>i. length (sd_done d) \<le> i \<and> i < length (history d) \<and> x \<in> sub_uses (history d ! i))"
  proof
    assume "\<exists>j < length (sd_pending d). x \<in> sub_uses (sd_pending d ! j)"
    then obtain j where "j < length (sd_pending d)" "x \<in> sub_uses (sd_pending d ! j)" by blast
    then show "\<exists>i. length (sd_done d) \<le> i \<and> i < length (history d) \<and> x \<in> sub_uses (history d ! i)"
      by (intro exI [of _ "length (sd_done d) + j"]) (simp add: history_def)
  next
    assume "\<exists>i. length (sd_done d) \<le> i \<and> i < length (history d) \<and> x \<in> sub_uses (history d ! i)"
    then obtain i where "length (sd_done d) \<le> i" "i < length (history d)" "x \<in> sub_uses (history d ! i)" by blast
    then show "\<exists>j < length (sd_pending d). x \<in> sub_uses (sd_pending d ! j)"
      by (intro exI [of _ "i - length (sd_done d)"]) (auto simp: history_def nth_append)
  qed
  finally show ?thesis .
qed

text \<open>Once the fence of the last submission that uses them is signaled, nothing is in use any more.\<close>

lemma signaled_unused:
  assumes "fence_at f m d" and "unused_after K m d" and "f \<in> sd_signaled d"
  shows "K \<inter> in_use d = {}"
proof -
  have m: "m < length (sd_done d)" using assms(1,3) by (simp add: fence_at_def)
  have False if "x \<in> K" "x \<in> in_use d" for x
  proof -
    obtain i where i: "length (sd_done d) \<le> i" "i < length (history d)" "x \<in> sub_uses (history d ! i)"
      using \<open>x \<in> in_use d\<close> unfolding in_use_history by blast
    then have "sub_uses (history d ! i) \<inter> K = {}" using assms(2) m by (simp add: unused_after_def)
    then show False using i(3) \<open>x \<in> K\<close> by blast
  qed
  then show ?thesis by blast
qed

lemma finish_history: "history (finish_submission d) = history d"
  by (simp add: finish_submission_def history_def split: list.split)

lemma finish_in_use: "in_use (finish_submission d) \<subseteq> in_use d"
  by (auto simp: finish_submission_def in_use_def split: list.split)

lemma fence_at_finish: "fence_at f m d \<Longrightarrow> fence_at f m (finish_submission d)"
proof (cases "sd_pending d")
  case (Cons sub subs)
  assume at: "fence_at f m d"
  have head: "history d ! length (sd_done d) = sub" "length (sd_done d) < length (history d)"
    by (simp_all add: history_def Cons)
  then have "sub_fence sub = f \<Longrightarrow> m = length (sd_done d)" using at by (auto simp: fence_at_def)
  then show ?thesis
    using at head unfolding fence_at_def finish_history by (auto simp: finish_submission_def Cons)
qed (simp add: finish_submission_def)

lemma unused_after_finish: "unused_after K m d \<Longrightarrow> unused_after K m (finish_submission d)"
  unfolding unused_after_def finish_history by (simp add: finish_submission_def split: list.split)

lemma phase_ok_finish: "phase_ok env lost lane plan mark d \<Longrightarrow> phase_ok env lost lane plan mark (finish_submission d)"
proof -
  assume ok: "phase_ok env lost lane plan mark d"
  have "\<exists>m. fence_at (is_release_fence lane) m (finish_submission d) \<and>
      unused_after (set (lane_children lane)) m (finish_submission d)"
    if "\<exists>m. fence_at (is_release_fence lane) m d \<and> unused_after (set (lane_children lane)) m d"
    using that fence_at_finish unused_after_finish by blast
  then show ?thesis
    using ok fence_at_finish finish_in_use [of d] unfolding phase_ok_def plan_at_def finish_history by blast
qed

lemma device_inv_finish: "device_inv s0 A d \<Longrightarrow> device_inv s0 A (finish_submission d)"
proof -
  assume inv: "device_inv s0 A d"
  have "set (sd_pending (finish_submission d)) \<subseteq> set (sd_pending d)" "sd_vk (finish_submission d) = sd_vk d"
      "sd_misused (finish_submission d) = sd_misused d"
    by (auto simp: finish_submission_def split: list.split)
  then show ?thesis using inv finish_in_use [of d] by (auto simp: device_inv_def)
qed

text \<open>A submission of others, and in general one behind those that are pending.\<close>

definition submitted :: "submission \<Rightarrow> sync_device \<Rightarrow> sync_device" where
  "submitted sub d = d\<lparr>sd_pending := sd_pending d @ [sub]\<rparr>"

lemma submitted_simps [simp]:
  "history (submitted sub d) = history d @ [sub]" "sd_done (submitted sub d) = sd_done d"
  "sd_signaled (submitted sub d) = sd_signaled d" "sd_lost (submitted sub d) = sd_lost d"
  "in_use (submitted sub d) = in_use d \<union> sub_uses sub" "sd_vk (submitted sub d) = sd_vk d"
  by (auto simp: submitted_def history_def in_use_def)

lemma done_inside: "length (sd_done d) \<le> length (history d)"
  by (simp add: history_def)

lemma fence_at_submitted:
  assumes "fence_at f m d" and "sub_fence sub \<noteq> f"
  shows "fence_at f m (submitted sub d)"
  using assms done_inside [of d] by (auto simp: fence_at_def nth_append less_Suc_eq)

lemma fence_at_new:
  assumes "\<forall>s \<in> set (sd_pending d). sub_fence s \<noteq> f" and "f \<notin> sd_signaled d"
  shows "fence_at f (length (history d)) (submitted sub d)"
proof -
  have "sub_fence (history d ! i) \<noteq> f" if "length (sd_done d) \<le> i" "i < length (history d)" for i
    using assms(1) that by (auto simp: history_def nth_append)
  then show ?thesis using assms(2) by (auto simp: fence_at_def nth_append less_Suc_eq)
qed

lemma unused_after_submitted:
  assumes "unused_after K m d" and "sub_uses sub \<inter> K = {} \<or> length (history d) \<le> m"
  shows "unused_after K m (submitted sub d)"
  using assms by (auto simp: unused_after_def nth_append less_Suc_eq)

lemma device_inv_submitted:
  assumes "device_inv s0 A d" and "\<forall>x \<in> sub_uses sub. vk_index x < vs_next (sd_vk d)" and "sub_fence sub \<in> sub_uses sub"
  shows "device_inv s0 A (submitted sub d)"
  using assms by (auto simp: device_inv_def in_use_def submitted_def)

lemma phase_ok_others:
  assumes ok: "phase_ok env lost lane plan mark d" and sub: "sub_uses sub \<inter> set (lane_children lane) = {}"
    and fence: "sub_fence sub \<in> sub_uses sub"
  shows "phase_ok env lost lane plan mark (submitted sub d)"
proof -
  have fences: "sub_fence sub \<noteq> is_acquire_fence lane" "sub_fence sub \<noteq> is_release_fence lane"
    and free: "is_release_pool lane \<notin> sub_uses sub" "is_release_fence lane \<notin> sub_uses sub"
    using sub fence by (auto simp: lane_children_def)
  have "\<exists>m. fence_at (is_release_fence lane) m (submitted sub d) \<and>
      unused_after (set (lane_children lane)) m (submitted sub d)"
    if "\<exists>m. fence_at (is_release_fence lane) m d \<and> unused_after (set (lane_children lane)) m d"
    using that fence_at_submitted [OF _ fences(2)] unused_after_submitted sub by blast
  moreover have "plan_at env (is_acquire_fence lane) plan mark (submitted sub d)"
    if "plan_at env (is_acquire_fence lane) plan mark d"
    using that fences(1) by (auto simp: plan_at_def nth_append less_Suc_eq)
  moreover have "set (lane_children lane) \<inter> in_use (submitted sub d) = {}" if "set (lane_children lane) \<inter> in_use d = {}"
    using that sub by auto
  ultimately show ?thesis
    using ok fence_at_submitted [OF _ fences(1)] free unfolding phase_ok_def by auto
qed

section \<open>Polls, answers and timing\<close>

lemma call_quiet:
  "quiet s0 q A d \<Longrightarrow> on_sync (vk_call driver) d = (r, d') \<Longrightarrow> quiet s0 q A d' \<and> sd_signaled d' = sd_signaled d"
  using quiet_calls [of s0 q A d] by (auto simp: on_sync_def vk_call_def split: option.splits)

lemma fence_status_quiet:
  assumes "quiet s0 q A d" and "fence_status env f d = (r, d')"
  shows "quiet s0 q A d'" and "sd_signaled d' = sd_signaled d" and "r = Inr b \<Longrightarrow> b = (f \<in> sd_signaled d)"
proof -
  obtain r1 d1 where call: "on_sync (vk_call (sy_driver env)) d = (r1, d1)" by fastforce
  show "quiet s0 q A d'" "sd_signaled d' = sd_signaled d" "r = Inr b \<Longrightarrow> b = (f \<in> sd_signaled d)"
    using call_quiet [OF assms(1) call] assms(2)
    by (auto simp: fence_status_def io_bind_def call split: sum.splits)
qed

lemma source_release_complete_quiet:
  assumes "quiet s0 q A d"
  shows "quiet s0 q A (snd (source_release_complete env lane d))"
proof -
  obtain r d' where run: "fence_status env (is_acquire_fence lane) d = (r, d')" by fastforce
  show ?thesis
    using assms fence_status_quiet(1) [OF assms run]
    by (cases r; cases "projl r") (auto simp: source_release_complete_def run quiet_lost)
qed

lemma collect_timing_quiet:
  assumes "quiet s0 q A d" and "collect_timing env lane d = (r, lane', d')"
  shows "quiet s0 q A d'" and "retimed lane lane'"
proof -
  obtain r1 d1 where call: "on_sync (vk_call (sy_driver env)) d = (r1, d1)" by fastforce
  note quiet = call_quiet [OF assms(1) call, THEN conjunct1]
  have collected: "retimed lane (lane\<lparr>is_timing_collected := True\<rparr>)"
    unfolding retimed_def
    by (rule exI [of _ "is_timing_active lane"], rule exI [of _ True], rule exI [of _ "is_timing lane"]) simp
  have sampled: "retimed lane (lane\<lparr>is_timing_collected := True, is_timing := t\<rparr>)" for t
    unfolding retimed_def
    by (rule exI [of _ "is_timing_active lane"], rule exI [of _ True], rule exI [of _ t]) simp
  show "quiet s0 q A d'" "retimed lane lane'"
    using assms quiet collected sampled quiet_lost quiet_report
    by (auto simp: collect_timing_def Let_def call split: if_splits option.splits sum.splits)
qed

lemma release_complete_quiet:
  assumes "quiet s0 q A d" and "release_complete env lane d = (r, lane', d')"
  shows "quiet s0 q A d'" and "retimed lane lane'"
proof -
  obtain r1 d1 where run: "fence_status env (is_release_fence lane) d = (r1, d1)" by fastforce
  note quiet = fence_status_quiet(1) [OF assms(1) run]
  obtain r2 lane2 d2 where collect: "collect_timing env lane d1 = (r2, lane2, d2)" by (metis prod.collapse)
  show "quiet s0 q A d'" "retimed lane lane'"
    using assms quiet quiet_lost [OF quiet] collect_timing_quiet [OF quiet collect]
    by (auto simp: release_complete_def run collect split: if_splits sum.splits bool.splits vk_result.splits)
qed

lemma retimed_take: "retimed lane (snd (take_timing lane))"
  unfolding retimed_def take_timing_def
  by (rule exI [of _ "is_timing_active lane"], rule exI [of _ "is_timing_collected lane"], rule exI [of _ None]) simp

lemma children_accepted:
  assumes "is_ready_semaphore lane = Some x" and "distinct (lane_children lane)"
  shows "set (lane_children lane) = insert x (set (lane_children (lane\<lparr>is_ready_semaphore := None\<rparr>)))"
    and "distinct (lane_children (lane\<lparr>is_ready_semaphore := None\<rparr>))"
    and "x \<notin> set (lane_children (lane\<lparr>is_ready_semaphore := None\<rparr>))"
  using assms by (auto simp: lane_children_def)

lemma unused_after_subset: "unused_after K m d \<Longrightarrow> K' \<subseteq> K \<Longrightarrow> unused_after K' m d"
  unfolding unused_after_def by blast

lemma accept_inv:
  assumes inv: "lane_inv env s0 y" and lane: "ly_lane y = Some lane" and ready: "is_ready_semaphore lane = Some x"
  shows "lane_inv env s0 (y\<lparr>ly_lane := Some (lane\<lparr>is_ready_semaphore := None, is_renderer_accepted := True\<rparr>),
    ly_renderer := insert x (ly_renderer y)\<rparr>)"
proof -
  note parts = lane_invD [OF inv lane]
  let ?lane = "lane\<lparr>is_ready_semaphore := None, is_renderer_accepted := True\<rparr>"
  have same: "lane_children ?lane = lane_children (lane\<lparr>is_ready_semaphore := None\<rparr>)" by (simp add: lane_children_def)
  note children = children_accepted [OF ready parts(2), folded same]
  have "set (lane_children lane) \<union> ly_renderer y = set (lane_children ?lane) \<union> insert x (ly_renderer y)"
    using children(1) by blast
  moreover have "set (lane_children ?lane) \<inter> insert x (ly_renderer y) = {}"
    using children(1,3) parts(3) by blast
  moreover have "phase_ok env (ly_release_lost y) ?lane (ly_plan y) (ly_mark y) (ly_device y)"
  proof -
    have "is_acquire_submitted lane" using parts(4) ready by (auto simp: phase_ok_def unused_lane_def)
    moreover have "\<exists>m. fence_at (is_release_fence lane) m d \<and> unused_after (set (lane_children ?lane)) m d"
      if "\<exists>m. fence_at (is_release_fence lane) m d \<and> unused_after (set (lane_children lane)) m d" for d
      using that unused_after_subset [of "set (lane_children lane)" _ d "set (lane_children ?lane)"] children(1) by blast
    ultimately show ?thesis using parts(4) unfolding phase_ok_def by simp
  qed
  ultimately show ?thesis using parts(1) children(2) by (simp add: lane_inv_def)
qed

lemma reject_inv:
  assumes inv: "lane_inv env s0 y" and lane: "ly_lane y = Some lane" and ready: "is_ready_semaphore lane = Some x"
  shows "lane_inv env s0 (y\<lparr>ly_lane := Some (lane\<lparr>is_renderer_rejected := True\<rparr>)\<rparr>)"
proof -
  note parts = lane_invD [OF inv lane]
  have same: "lane_children (lane\<lparr>is_renderer_rejected := True\<rparr>) = lane_children lane" by (simp add: lane_children_def)
  have "phase_ok env (ly_release_lost y) (lane\<lparr>is_renderer_rejected := True\<rparr>) (ly_plan y) (ly_mark y) (ly_device y)"
    using parts(4) ready unfolding phase_ok_def same by (auto simp: unused_lane_def)
  then show ?thesis using parts same by (simp add: lane_inv_def)
qed

end
