(* ===== verification/Sync_Protocol.thy ===== *)
theory Sync_Protocol
  imports Sync_System
begin

text \<open>
  Every operation of a lane keeps the invariant of \<open>Sync_System\<close>, in any order with the queue, the
  renderer and the submissions of others.
\<close>

section \<open>Reuse and drop\<close>

lemma released_unused:
  assumes "phase_ok env lost lane plan mark d" and "is_release_submitted lane" and "is_release_fence lane \<in> sd_signaled d"
  shows "set (lane_children lane) \<inter> in_use d = {}"
  using assms signaled_unused unfolding phase_ok_def by blast

lemma fresh_lane_simps:
  "lane_children (fresh_lane lane) = lane_children lane"
  "unused_lane (fresh_lane lane) \<longleftrightarrow> is_ready_semaphore lane = None"
  "\<not> is_acquire_submitted (fresh_lane lane)" "\<not> is_release_submitted (fresh_lane lane)"
  "is_ready_semaphore (fresh_lane lane) = is_ready_semaphore lane"
  by (simp_all add: lane_children_def fresh_lane_def unused_lane_def)

lemma fresh_phase:
  assumes "is_ready_semaphore lane = None" and "set (lane_children lane) \<inter> in_use d = {}"
  shows "phase_ok env lost (fresh_lane lane) plan mark d"
  using assms by (simp add: phase_ok_def fresh_lane_simps)

lemma reuse_inv:
  assumes inv: "lane_inv env s0 y" and lane: "ly_lane y = Some lane"
    and run: "reset_for_reuse env lane (ly_device y) = (r, lane', d')"
  shows "lane_inv env s0 (y\<lparr>ly_lane := Some lane', ly_device := d'\<rparr>)"
proof -
  note parts = lane_invD [OF inv lane]
  let ?R = "ly_renderer y" and ?d = "ly_device y"
  obtain r1 d1 where poll: "fence_status env (is_release_fence lane) ?d = (r1, d1)" by fastforce
  note quiet = fence_status_quiet(1) [OF quiet_start [OF parts(1)] poll]
  have kept: "lane_inv env s0 (y\<lparr>ly_lane := Some lane, ly_device := d1\<rparr>)"
    by (rule lane_inv_retimed [OF inv lane retimed_refl quiet])
  have same: "lane_inv env s0 (y\<lparr>ly_lane := Some lane, ly_device := ?d\<rparr>)"
    by (rule lane_inv_retimed [OF inv lane retimed_refl quiet_start [OF parts(1)]])
  show ?thesis
  proof (cases "is_release_submitted lane \<and> r1 = Inr True")
    case False
    then show ?thesis using run kept same by (auto simp: reset_for_reuse_def poll split: if_splits sum.splits bool.splits)
  next
    case True
    then have free: "set (lane_children lane) \<inter> in_use ?d = {}"
      using released_unused [OF parts(4)] fence_status_quiet(3) [OF quiet_start [OF parts(1)] poll] by simp
    have free1: "set (lane_children lane) \<inter> in_use d1 = {}" using free history_quiet(2) [OF quiet] by simp
    note inv1 = device_inv_quiet [OF parts(1) quiet]
    consider x where "is_renderer_rejected lane" "is_ready_semaphore lane = Some x"
      | "is_ready_semaphore lane = None"
      using parts(4) True by (auto simp: phase_ok_def)
    then show ?thesis
    proof cases
      case 1
      let ?lane = "lane\<lparr>is_ready_semaphore := None\<rparr>"
      note children = children_accepted [OF 1(2) parts(2)]
      have gone: "quiet s0 d1 (set (lane_children ?lane) \<union> ?R) (sync_destroy x d1)"
      proof (rule quiet_drop)
        show "x \<notin> set (lane_children ?lane) \<union> ?R" using children(1,3) parts(3) by blast
        show "x \<notin> in_use d1" using children(1) free1 by blast
        show "quiet s0 d1 (insert x (set (lane_children ?lane) \<union> ?R)) d1"
          using quiet_start [OF inv1] children(1) by simp
      qed
      have "set (lane_children ?lane) \<inter> in_use (sync_destroy x d1) = {}"
        using free1 children(1) history_quiet(2) [OF gone] by auto
      then have phase: "phase_ok env (ly_release_lost y) (fresh_lane ?lane) (ly_plan y) (ly_mark y) (sync_destroy x d1)"
        by (intro fresh_phase) simp_all
      have "lane' = fresh_lane ?lane" "d' = sync_destroy x d1"
        using run 1 True by (simp_all add: reset_for_reuse_def poll)
      then show ?thesis
        using phase device_inv_quiet [OF inv1 gone] children(1,2) parts(3) by (simp add: lane_inv_def fresh_lane_simps)
    next
      case 2
      have "lane' = fresh_lane lane" "d' = d1"
        using run True unfolding reset_for_reuse_def poll by (simp_all add: 2 prod_eq_iff split: if_splits)
      then show ?thesis
        using True inv1 parts(2,3) fresh_phase [OF 2 free1] by (simp add: lane_inv_def fresh_lane_simps)
    qed
  qed
qed

lemma destroy_children_quiet:
  assumes "quiet s0 q (set (lane_children lane) \<union> R) d" and "distinct (lane_children lane)"
    and "set (lane_children lane) \<inter> R = {}" and "set (lane_children lane) \<inter> in_use q = {}"
  shows "quiet s0 q R (destroy_children lane d)"
proof -
  have drop_all: "quiet s0 q R (fold sync_destroy xs d)"
    if "quiet s0 q (set xs \<union> R) d" "distinct xs" "set xs \<inter> (R \<union> in_use q) = {}" for xs d
    using that
  proof (induction xs arbitrary: d)
    case (Cons x xs)
    then have "quiet s0 q (set xs \<union> R) (sync_destroy x d)" by (intro quiet_drop) auto
    then show ?case using Cons by simp
  qed simp
  let ?xs = "option_list (is_imported_acquire lane) @ option_list (is_ready_semaphore lane) @
     option_list (map_option tq_pool (is_timestamp_query lane)) @
     [is_release_fence lane, is_acquire_fence lane, is_release_pool lane, is_acquire_pool lane]"
  have option: "option_destroy x e = fold sync_destroy (option_list x) e" for x e by (cases x) simp_all
  have run: "destroy_children lane d = fold sync_destroy ?xs d"
    by (simp add: destroy_children_def option)
  have all: "set ?xs = set (lane_children lane)" by (auto simp: lane_children_def)
  have "distinct ?xs" using assms(2) by (auto simp: lane_children_def)
  then show ?thesis
    unfolding run using assms by (intro drop_all) (simp_all only: all, blast)
qed

lemma drop_inv:
  assumes inv: "lane_inv env s0 y" and lane: "ly_lane y = Some lane"
  shows "lane_inv env s0 (y\<lparr>ly_lane := None, ly_device := image_sync_drop env lane (ly_device y)\<rparr>)"
proof -
  note parts = lane_invD [OF inv lane]
  let ?R = "ly_renderer y" and ?d = "ly_device y" and ?K = "set (lane_children lane)"
  note start = quiet_start [OF parts(1)]
  obtain r1 d1 where poll: "fence_status env (is_release_fence lane) ?d = (r1, d1)" by fastforce
  note quiet = fence_status_quiet(1) [OF start poll]
  have freed: "device_inv s0 ?R (destroy_children lane e)" if "quiet s0 ?d (?K \<union> ?R) e" "?K \<inter> in_use ?d = {}" for e
    using device_inv_quiet [OF parts(1) destroy_children_quiet [OF that(1) parts(2,3) that(2)]] .
  have lost: "\<exists>A. device_inv s0 (A \<union> ?R) (mark_lost e) \<and> A \<inter> ?R = {} \<and> (A = {} \<or> sd_lost (mark_lost e))"
    if "quiet s0 ?d (?K \<union> ?R) e" for e
    using device_inv_quiet [OF parts(1) quiet_lost [OF that]] parts(3) by (intro exI [of _ ?K]) (simp add: mark_lost_def)
  consider "\<not> is_acquire_submitted lane" | "is_acquire_submitted lane" "is_release_submitted lane" "r1 = Inr True"
    | "is_acquire_submitted lane" "is_release_submitted lane" "r1 \<noteq> Inr True"
    | "is_acquire_submitted lane" "\<not> is_release_submitted lane" by blast
  then show ?thesis
  proof cases
    case 1
    then have "?K \<inter> in_use ?d = {}" using parts(4) by (simp add: phase_ok_def)
    then show ?thesis using freed [OF start] 1 by (simp add: lane_inv_def image_sync_drop_def exI [of _ "{}"])
  next
    case 2
    then have "?K \<inter> in_use ?d = {}"
      using released_unused [OF parts(4)] fence_status_quiet(3) [OF start poll] by simp
    then show ?thesis using freed [OF quiet] 2 by (simp add: lane_inv_def image_sync_drop_def poll exI [of _ "{}"])
  next
    case 3
    then show ?thesis
      using lost [OF quiet] by (auto simp: lane_inv_def image_sync_drop_def poll split: sum.splits bool.splits)
  next
    case 4
    then show ?thesis using lost [OF start] by (auto simp: lane_inv_def image_sync_drop_def)
  qed
qed

section \<open>Submissions\<close>

lemma quiet_below: "quiet s0 q A d \<Longrightarrow> x \<in> A \<Longrightarrow> vk_index x < vs_next (sd_vk d)"
  by (auto simp: quiet_def gained_def vk_wf_def)

lemma reset_fence_quiet:
  assumes "quiet s0 q A d" and "f \<notin> in_use q" and "reset_fence env f d = (r, d')"
  shows "quiet s0 q A d'" and "r = Inr u \<Longrightarrow> f \<notin> sd_signaled d'"
proof -
  obtain r1 d1 where call: "on_sync (vk_call (sy_driver env)) d = (r1, d1)" by fastforce
  have d1: "quiet s0 q A d1" using call_quiet [OF assms(1) call] by simp
  then have unset: "quiet s0 q A (d1\<lparr>sd_signaled := sd_signaled d1 - {f}\<rparr>)" by (auto simp: quiet_def)
  then show "quiet s0 q A d'" "r = Inr u \<Longrightarrow> f \<notin> sd_signaled d'"
    using assms(3) d1 quiet_touch [OF unset assms(2)]
    by (auto simp: reset_fence_def io_bind_def call split: sum.splits)
qed

lemma reset_pool_quiet:
  assumes "quiet s0 q A d" and "pool \<notin> in_use q" and "reset_command_pool env pool d = (r, d')"
  shows "quiet s0 q A d'" and "sd_signaled d' = sd_signaled d"
  using call_quiet [OF assms(1)] assms(3) by (simp_all add: reset_command_pool_def quiet_touch [OF assms(1,2)])

lemma record_commands_quiet:
  assumes "quiet s0 q A d" and "record_commands env command commands d = (r, d')"
  shows "quiet s0 q A d'" and "sd_signaled d' = sd_signaled d" and "r = Inr u \<Longrightarrow> sd_recorded d' command = commands"
proof -
  obtain r1 d1 where call: "on_sync (vk_call (sy_driver env)) d = (r1, d1)" by fastforce
  note first = call_quiet [OF assms(1) call]
  let ?d = "d1\<lparr>sd_recorded := (sd_recorded d1)(command := commands)\<rparr>"
  obtain r2 d2 where call2: "on_sync (vk_call (sy_driver env)) ?d = (r2, d2)" by fastforce
  have "quiet s0 q A ?d" using first quiet_recorded by blast
  note second = call_quiet [OF this call2]
  have "sd_recorded d2 = sd_recorded ?d"
    using call2 by (auto simp: on_sync_def vk_call_def split: option.splits)
  then show "quiet s0 q A d'" "sd_signaled d' = sd_signaled d" "r = Inr u \<Longrightarrow> sd_recorded d' command = commands"
    using assms(2) first second
    by (auto simp: record_commands_def io_bind_def io_map_err_def call call2 split: sum.splits)
qed

lemma choose_timing_quiet:
  "quiet s0 q A d \<Longrightarrow> choose_timing env plan lane d = (b, d') \<Longrightarrow> quiet s0 q A d' \<and> sd_signaled d' = sd_signaled d"
  by (auto simp: choose_timing_def quiet_samples split: if_splits)

lemma retimed_active: "retimed lane (lane\<lparr>is_timing_active := b\<rparr>)"
  unfolding retimed_def
  by (rule exI [of _ b], rule exI [of _ "is_timing_collected lane"], rule exI [of _ "is_timing lane"]) simp

text \<open>What was recorded is the plan's.\<close>

lemma record_acquire_quiet:
  assumes "quiet s0 q A d" and "is_acquire_pool lane \<notin> in_use q"
    and "record_acquire env plan lane d = (r, lane', d')"
  shows "quiet s0 q A d'" and "sd_signaled d' = sd_signaled d" and "retimed lane lane'"
    and "r = Inr u \<Longrightarrow> acquire_commands (sy_family env) plan (active_timestamp_query lane') =
      Ok (sd_recorded d' (is_acquire_command lane'))"
proof -
  obtain timed d1 where choose: "choose_timing env plan lane d = (timed, d1)" by fastforce
  note first = choose_timing_quiet [OF assms(1) choose]
  let ?lane = "lane\<lparr>is_timing_active := timed\<rparr>"
  obtain r2 d2 where reset: "reset_command_pool env (is_acquire_pool lane) d1 = (r2, d2)" by fastforce
  note second = reset_pool_quiet [OF conjunct1 [OF first] assms(2) reset]
  note run = assms(3) [unfolded record_acquire_def choose prod.case Let_def reset]
  have "quiet s0 q A d' \<and> sd_signaled d' = sd_signaled d \<and> lane' = ?lane \<and>
      (r = Inr u \<longrightarrow> acquire_commands (sy_family env) plan (active_timestamp_query ?lane) =
        Ok (sd_recorded d' (is_acquire_command ?lane)))"
  proof (cases r2)
    case Inl
    then show ?thesis using run first second by auto
  next
    case (Inr v)
    show ?thesis
    proof (cases "acquire_commands (sy_family env) plan (active_timestamp_query ?lane)")
      case (Inl e)
      then show ?thesis using run \<open>r2 = Inr v\<close> first second by auto
    next
      case (Inr commands)
      obtain r3 d3 where rec: "record_commands env (is_acquire_command lane) commands d2 = (r3, d3)" by fastforce
      show ?thesis
        using run \<open>r2 = Inr v\<close> Inr first second record_commands_quiet [OF second(1) rec] by (auto simp: rec)
    qed
  qed
  then show "quiet s0 q A d'" "sd_signaled d' = sd_signaled d" "retimed lane lane'"
    "r = Inr u \<Longrightarrow> acquire_commands (sy_family env) plan (active_timestamp_query lane') =
      Ok (sd_recorded d' (is_acquire_command lane'))"
    using retimed_active by auto
qed

text \<open>A submission is consumed, or the device is as before; only a lost device leaves it open which.\<close>

lemma submit_queue_cases:
  assumes "quiet s0 q A d" and "sub_fence sub \<notin> in_use q" and "submit_video_queue env sub d = (r, d')"
  obtains d0 where "quiet s0 q A d0" "sd_signaled d0 = sd_signaled d" "d' = submitted sub d0"
      "r = Inr () \<or> r = Inl ERROR_DEVICE_LOST"
  | e where "quiet s0 q A d'" "sd_signaled d' = sd_signaled d" "r = Inl e"
proof -
  obtain r1 d1 where call: "on_sync (vk_call (sy_driver env)) d = (r1, d1)" by fastforce
  note first = call_quiet [OF assms(1) call]
  note run = assms(3) [unfolded submit_video_queue_def quiet_touch [OF assms(1,2)] call, folded submitted_def]
  note all = that
  show ?thesis
  proof (cases r1)
    case (Inr u)
    then show ?thesis using all(1) [of d1] first run by simp
  next
    case (Inl e)
    then show ?thesis
      using all(1) [of d1] all(2) first run by (cases "e = ERROR_DEVICE_LOST") (auto split: if_splits vk_result.splits)
  qed
qed

end
