(* ===== verification/Sync_Life.thy ===== *)
theory Sync_Life
  imports Sync_Protocol
begin

text \<open>
  The two submissions of a lane keep the invariant, so every run from a new lane does; what follows for
  its client.
\<close>

section \<open>Acquiring\<close>

lemma unsubmitted_inv:
  assumes base: "device_inv s0 A (ly_device y)" and quiet: "quiet s0 (ly_device y) (set (lane_children lane) \<union> ly_renderer y) d"
    and "distinct (lane_children lane)" and "set (lane_children lane) \<inter> ly_renderer y = {}"
    and "unused_lane lane" and "set (lane_children lane) \<inter> in_use (ly_device y) = {}"
  shows "lane_inv env s0 (y\<lparr>ly_lane := Some lane, ly_device := d\<rparr>)"
  using assms device_inv_quiet [OF base quiet] history_quiet(2) [OF quiet]
  by (simp add: lane_inv_def phase_ok_def unused_lane_def)

lemma pending_fence:
  assumes base: "device_inv s0 A q" and quiet: "quiet s0 q A' d" and "f \<notin> in_use q"
  shows "\<forall>s \<in> set (sd_pending d). sub_fence s \<noteq> f"
proof -
  have "f \<notin> in_use d" using assms(3) history_quiet(2) [OF quiet] by simp
  then have "\<forall>s \<in> set (sd_pending d). f \<notin> sub_uses s" by (simp add: in_use_def)
  moreover have "\<forall>s \<in> set (sd_pending d). sub_fence s \<in> sub_uses s"
    using device_inv_quiet [OF base quiet] by (simp add: device_inv_def)
  ultimately show ?thesis by metis
qed

lemma acquired_inv:
  assumes base: "device_inv s0 A (ly_device y)" and quiet: "quiet s0 (ly_device y) (set (lane_children lane) \<union> ly_renderer y) d"
    and children: "distinct (lane_children lane)" "set (lane_children lane) \<inter> ly_renderer y = {}"
    and flags: "is_acquire_submitted lane" "\<not> is_release_submitted lane" "\<not> is_renderer_accepted lane"
    and free: "is_acquire_fence lane \<notin> in_use (ly_device y)" "is_release_pool lane \<notin> in_use (ly_device y)"
      "is_release_fence lane \<notin> in_use (ly_device y)"
    and sub: "sub_fence sub = is_acquire_fence lane" "is_acquire_fence lane \<in> sub_uses sub"
      "sub_uses sub \<subseteq> set (lane_children lane)" "is_release_pool lane \<notin> sub_uses sub" "is_release_fence lane \<notin> sub_uses sub"
    and commands: "acquire_commands (sy_family env) plan query = Ok (sub_commands sub)"
    and unset: "is_acquire_fence lane \<notin> sd_signaled d"
    and after: "d' \<in> {submitted sub d, mark_lost (submitted sub d), mark_lost d}"
  shows "lane_inv env s0 (y\<lparr>ly_lane := Some lane, ly_device := d', ly_plan := Some plan,
    ly_mark := length (history (ly_device y))\<rparr>)"
proof -
  let ?m = "length (history (ly_device y))" and ?f = "is_acquire_fence lane"
  note inv = device_inv_quiet [OF base quiet]
  have same: "history d = history (ly_device y)" "in_use d = in_use (ly_device y)" using history_quiet [OF quiet] by simp_all
  note pending = pending_fence [OF base quiet free(1)]
  have "\<forall>x \<in> sub_uses sub. vk_index x < vs_next (sd_vk d)" using quiet_below [OF quiet] sub(3) by blast
  then have done_inv: "device_inv s0 (set (lane_children lane) \<union> ly_renderer y) (submitted sub d)"
    using inv sub(1,2) by (intro device_inv_submitted) simp_all
  have "fence_at ?f ?m (submitted sub d)" using fence_at_new [OF pending unset] same(1) by simp
  moreover have "plan_at env ?f (Some plan) ?m (submitted sub d)"
    using commands unfolding plan_at_def submitted_simps same(1) [symmetric] by auto
  moreover have "is_release_pool lane \<notin> in_use (submitted sub d) \<and> is_release_fence lane \<notin> in_use (submitted sub d)"
    using free(2,3) sub(4,5) same(2) by simp
  ultimately have done_phase: "phase_ok env (ly_release_lost y) lane (Some plan) ?m (submitted sub d)"
    using flags unfolding phase_ok_def by simp
  have "fence_at ?f ?m d"
  proof -
    have "sub_fence (history d ! i) \<noteq> ?f" if "length (sd_done d) \<le> i" "i < length (history d)" for i
      using pending that by (auto simp: history_def nth_append)
    then show ?thesis using unset by (auto simp: fence_at_def)
  qed
  moreover have "plan_at env ?f (Some plan) ?m (mark_lost d)" using same by (simp add: plan_at_def mark_lost_def history_def)
  moreover have "in_use (mark_lost d) = in_use (ly_device y)" "fence_at ?f ?m (mark_lost d) = fence_at ?f ?m d"
    using same(2) by (simp_all add: mark_lost_def fence_at_def history_def in_use_def)
  ultimately have left: "phase_ok env (ly_release_lost y) lane (Some plan) ?m (mark_lost d)"
    using flags free(2,3) unfolding phase_ok_def by simp
  have lost: "device_inv s0 (set (lane_children lane) \<union> ly_renderer y) (mark_lost e) \<and>
      (phase_ok env (ly_release_lost y) lane (Some plan) ?m e \<longrightarrow> phase_ok env (ly_release_lost y) lane (Some plan) ?m (mark_lost e))"
    if "device_inv s0 (set (lane_children lane) \<union> ly_renderer y) e" for e
    using device_inv_quiet [OF that quiet_lost [OF quiet_start [OF that]]]
      phase_ok_quiet [OF quiet_lost [OF quiet_start [OF that]]] by blast
  have "device_inv s0 (set (lane_children lane) \<union> ly_renderer y) d' \<and> phase_ok env (ly_release_lost y) lane (Some plan) ?m d'"
    using after lost [OF done_inv] lost [OF inv] done_inv done_phase left by blast
  then show ?thesis using children by (simp add: lane_inv_def)
qed

text \<open>The ready semaphore joins the children.\<close>

lemma acquired_children:
  assumes "is_ready_semaphore lane = None" and "distinct (lane_children lane)" and "ready \<notin> set (lane_children lane)"
  shows "set (lane_children (acquired_lane import_id staged ready lane)) = insert ready (set (lane_children lane))"
    and "distinct (lane_children (acquired_lane import_id staged ready lane))"
  using assms by (auto simp: lane_children_def acquired_lane_def)

lemma acquire_submission_uses:
  assumes "distinct (lane_children lane)" and "set_option wait \<subseteq> set_option (is_imported_acquire lane)"
    and "ready \<notin> set (lane_children lane)"
  shows "sub_fence (acquire_submission lane wait ready d) = is_acquire_fence lane"
    and "is_acquire_fence lane \<in> sub_uses (acquire_submission lane wait ready d)"
    and "sub_uses (acquire_submission lane wait ready d) \<subseteq> insert ready (set (lane_children lane))"
    and "is_release_pool lane \<notin> sub_uses (acquire_submission lane wait ready d)"
    and "is_release_fence lane \<notin> sub_uses (acquire_submission lane wait ready d)"
  using assms
  by (auto simp: acquire_submission_def lane_children_def active_timestamp_query_def split: if_splits option.splits)

lemma retimed_unused: "retimed lane lane' \<Longrightarrow> unused_lane lane' = unused_lane lane"
  by (auto simp: retimed_def unused_lane_def)

definition acquire_kept :: "sync_env \<Rightarrow> vk_state \<Rightarrow> acquire_work \<Rightarrow> lane_system \<Rightarrow> image_sync \<Rightarrow> sync_device \<Rightarrow> bool" where
  "acquire_kept env s0 plan y lane d \<longleftrightarrow>
     (is_acquire_submitted lane \<longrightarrow> lane_inv env s0 (y\<lparr>ly_lane := Some lane, ly_device := d,
        ly_plan := Some plan, ly_mark := length (history (ly_device y))\<rparr>)) \<and>
     (\<not> is_acquire_submitted lane \<longrightarrow> lane_inv env s0 (y\<lparr>ly_lane := Some lane, ly_device := d\<rparr>))"

lemma unsubmitted_kept:
  assumes "device_inv s0 A (ly_device y)" and "quiet s0 (ly_device y) (set (lane_children lane) \<union> ly_renderer y) d"
    and "distinct (lane_children lane)" and "set (lane_children lane) \<inter> ly_renderer y = {}"
    and "unused_lane lane" and "set (lane_children lane) \<inter> in_use (ly_device y) = {}"
  shows "acquire_kept env s0 plan y lane d"
proof -
  have "\<not> is_acquire_submitted lane" using assms(5) by (simp add: unused_lane_def)
  then show ?thesis using unsubmitted_inv [OF assms] by (simp add: acquire_kept_def)
qed

lemma submit_ready_kept:
  assumes base: "device_inv s0 A (ly_device y)"
    and quiet: "quiet s0 (ly_device y) (insert ready (set (lane_children lane) \<union> ly_renderer y)) d"
    and children: "distinct (lane_children lane)" "set (lane_children lane) \<inter> ly_renderer y = {}"
    and unused: "unused_lane lane" "set (lane_children lane) \<inter> in_use (ly_device y) = {}"
    and ready: "ready \<notin> set (lane_children lane) \<union> ly_renderer y" "ready \<notin> in_use (ly_device y)"
    and wait: "set_option wait \<subseteq> set_option (is_imported_acquire lane)"
    and run: "submit_ready env import_id staged plan wait ready lane d = (r, lane', d')"
  shows "acquire_kept env s0 plan y lane' d'"
proof -
  have free: "is_acquire_fence lane \<notin> in_use (ly_device y)" "is_release_pool lane \<notin> in_use (ly_device y)"
      "is_release_fence lane \<notin> in_use (ly_device y)" "is_acquire_pool lane \<notin> in_use (ly_device y)"
    using unused(2) by (auto simp: lane_children_def)
  have undone: "acquire_kept env s0 plan y l (sync_destroy ready e)"
    if "quiet s0 (ly_device y) (insert ready (set (lane_children lane) \<union> ly_renderer y)) e" "retimed lane l" for l e
    using unsubmitted_kept [OF base, of l] quiet_drop [OF ready that(1)] children unused
      retimed_children [OF that(2)] retimed_unused [OF that(2)] by simp
  obtain r1 d1 where reset: "reset_fence env (is_acquire_fence lane) d = (r1, d1)" by fastforce
  note q1 = reset_fence_quiet [OF quiet free(1) reset]
  show ?thesis
  proof (cases r1)
    case (Inl e)
    then show ?thesis using run undone [OF q1(1) retimed_refl] by (simp add: submit_ready_def reset)
  next
    case (Inr u)
    obtain r2 lane2 d2 where rec: "record_acquire env plan lane d1 = (r2, lane2, d2)" by (metis prod.collapse)
    note q2 = record_acquire_quiet [OF q1(1) free(4) rec]
    show ?thesis
    proof (cases r2)
      case (Inl e)
      then show ?thesis using run \<open>r1 = Inr u\<close> undone [OF q2(1,3)] by (simp add: submit_ready_def reset rec)
    next
      case (Inr v)
      let ?sub = "acquire_submission lane2 wait ready d2" and ?lane = "acquired_lane import_id staged ready lane2"
      note fields = retimed_fields [OF q2(3)]
      obtain r3 d3 where submit: "submit_video_queue env ?sub d2 = (r3, d3)" by fastforce
      note run3 = run [unfolded submit_ready_def reset \<open>r1 = Inr u\<close> prod.case sum.case rec \<open>r2 = Inr v\<close> submit]
      note same = retimed_children [OF q2(3)]
      have none: "is_ready_semaphore lane2 = None" using unused(1) fields by (simp add: unused_lane_def)
      have new: "ready \<notin> set (lane_children lane2)" using ready(1) same by simp
      note joined = acquired_children [OF none _ new, of import_id staged, unfolded same, OF children(1)]
      note uses = acquire_submission_uses [of lane2 wait ready d2, OF _ _ new]
      have kept: "acquire_kept env s0 plan y ?lane e'"
        if e: "quiet s0 (ly_device y) (insert ready (set (lane_children lane) \<union> ly_renderer y)) e"
          "sd_signaled e = sd_signaled d2" "e' \<in> {submitted ?sub e, mark_lost (submitted ?sub e), mark_lost e}" for e e'
      proof -
        have all: "set (lane_children ?lane) = insert ready (set (lane_children lane))" using joined(1) .
        have frame: "is_acquire_fence ?lane = is_acquire_fence lane" "is_release_pool ?lane = is_release_pool lane"
            "is_release_fence ?lane = is_release_fence lane" "is_acquire_submitted ?lane" 
            "\<not> is_release_submitted ?lane" "\<not> is_renderer_accepted ?lane"
          using fields unused(1) q2(3) by (auto simp: acquired_lane_def unused_lane_def retimed_def)
        have uses2: "sub_fence ?sub = is_acquire_fence lane" "is_acquire_fence lane \<in> sub_uses ?sub"
            "sub_uses ?sub \<subseteq> insert ready (set (lane_children lane))" "is_release_pool lane \<notin> sub_uses ?sub"
            "is_release_fence lane \<notin> sub_uses ?sub"
          using uses children(1) wait fields same by simp_all
        have "sub_commands ?sub = sd_recorded d2 (is_acquire_command lane2)" by (simp add: acquire_submission_def)
        then have "acquire_commands (sy_family env) plan (active_timestamp_query lane2) = Ok (sub_commands ?sub)"
          using q2(4) [OF \<open>r2 = Inr v\<close>] by simp
        then have "lane_inv env s0 (y\<lparr>ly_lane := Some ?lane, ly_device := e', ly_plan := Some plan,
            ly_mark := length (history (ly_device y))\<rparr>)"
          using acquired_inv [OF base, of ?lane e ?sub env plan] e joined(2) all frame uses2 children(2) ready(1) free
            q1(2) [OF \<open>r1 = Inr u\<close>] q2(2) by simp
        then show ?thesis using frame by (simp add: acquire_kept_def)
      qed
      have pending: "sub_fence ?sub \<notin> in_use (ly_device y)"
        using uses(1) children(1) wait fields same free(1) by simp
      show ?thesis
      proof (rule submit_queue_cases [OF q2(1) pending submit])
        fix e assume e: "quiet s0 (ly_device y) (insert ready (set (lane_children lane) \<union> ly_renderer y)) e"
            "sd_signaled e = sd_signaled d2" "d3 = submitted ?sub e" "r3 = Inr () \<or> r3 = Inl ERROR_DEVICE_LOST"
        have "lane' = ?lane \<and> d' \<in> {submitted ?sub e, mark_lost (submitted ?sub e)}"
          using e(3,4) run3 by auto
        then show ?thesis using kept [OF e(1,2)] by blast
      next
        fix x assume x: "quiet s0 (ly_device y) (insert ready (set (lane_children lane) \<union> ly_renderer y)) d3"
            "sd_signaled d3 = sd_signaled d2" "r3 = Inl x"
        have "(lane' = ?lane \<and> d' = mark_lost d3) \<or> (lane' = lane2 \<and> d' = sync_destroy ready d3)"
          using x(3) run3 by (cases x) simp_all
        then show ?thesis using kept [OF x(1,2)] undone [OF x(1) q2(3)] by blast
      qed
    qed
  qed
qed

lemma imported_children:
  assumes "distinct (lane_children lane)" and "case is_imported_acquire lane of Some z \<Rightarrow> x = z | None \<Rightarrow> x \<notin> set (lane_children lane)"
  shows "set (lane_children (lane\<lparr>is_imported_acquire := Some x\<rparr>)) = insert x (set (lane_children lane))"
    and "distinct (lane_children (lane\<lparr>is_imported_acquire := Some x\<rparr>))"
  using assms by (auto simp: lane_children_def split: option.splits)

lemma create_ready_kept:
  assumes base: "device_inv s0 A (ly_device y)" and quiet: "quiet s0 (ly_device y) (set (lane_children lane) \<union> ly_renderer y) d"
    and children: "distinct (lane_children lane)" "set (lane_children lane) \<inter> ly_renderer y = {}"
    and unused: "unused_lane lane" "set (lane_children lane) \<inter> in_use (ly_device y) = {}"
    and wait: "set_option wait \<subseteq> set_option (is_imported_acquire lane)"
    and run: "(case create_semaphore env d of
        (Inl e, d2) \<Rightarrow> (Err (sync_error_new Kind_other), lane, d2)
      | (Inr ready, d2) \<Rightarrow> submit_ready env import_id staged plan wait ready lane d2) = (r, lane', d')"
  shows "acquire_kept env s0 plan y lane' d'"
proof -
  obtain r2 d2 where create: "create_semaphore env d = (r2, d2)" by fastforce
  have mk: "\<And>n. vk_index (Semaphore n) = n" by simp
  note made = keeps_result [OF keeps_create [OF mk] quiet create [unfolded create_semaphore_def]]
  show ?thesis
  proof (cases r2)
    case (Inl e)
    then show ?thesis
      using run made unsubmitted_kept [OF base _ children unused] by (simp add: create)
  next
    case (Inr ready)
    then show ?thesis
      using run made submit_ready_kept [OF base _ children unused _ _ wait, of ready d2] by (simp add: create)
  qed
qed

lemma submit_acquire_kept:
  assumes inv: "lane_inv env s0 y" and lane: "ly_lane y = Some lane" and new: "\<not> is_acquire_submitted lane"
    and run: "submit_acquire env import_id staged plan sync_fd lane (ly_device y) = (r, lane', d')"
  shows "acquire_kept env s0 plan y lane' d'"
proof -
  note parts = lane_invD [OF inv lane]
  let ?d = "ly_device y" and ?K = "set (lane_children lane)" and ?R = "ly_renderer y"
  have unused: "unused_lane lane" "?K \<inter> in_use ?d = {}" using parts(4) new by (simp_all add: phase_ok_def)
  note start = quiet_start [OF parts(1)]
  have fresh: "\<not> (is_acquire_submitted lane \<or> is_release_submitted lane)" using unused(1) by (simp add: unused_lane_def)
  show ?thesis
  proof (cases sync_fd)
    case None
    show ?thesis
      using run fresh by (intro create_ready_kept [OF parts(1) start parts(2,3) unused, of None])
        (simp_all add: submit_acquire_def None)
  next
    case (Some fd)
    obtain r1 d1 where imported: "import_temporary_sync_fd env fd (is_imported_acquire lane) ?d = (r1, d1)" by fastforce
    have reusable: "x \<in> ?K \<union> ?R \<and> x \<notin> in_use ?d" if "is_imported_acquire lane = Some x" for x
      using that unused(2) by (auto simp: lane_children_def)
    note made = keeps_result [OF import_temporary_keeps [OF reusable] start imported]
    show ?thesis
    proof (cases r1)
      case (Inl e)
      then show ?thesis
        using run fresh made unsubmitted_kept [OF parts(1) _ parts(2,3) unused]
        by (simp add: submit_acquire_def Some io_bind_def imported)
    next
      case (Inr x)
      let ?lane = "lane\<lparr>is_imported_acquire := Some x\<rparr>"
      have x: "x \<notin> in_use ?d" "case is_imported_acquire lane of Some z \<Rightarrow> x = z | None \<Rightarrow> x \<notin> ?K"
          "quiet s0 ?d (insert x (?K \<union> ?R)) d1" "x \<notin> ?R"
        using made reusable Inr parts(3) by (auto simp: lane_children_def split: option.splits)
      note children = imported_children [OF parts(2) x(2)]
      have "unused_lane ?lane" using unused(1) by (simp add: unused_lane_def)
      moreover have "(case create_semaphore env d1 of
          (Inl e, d2) \<Rightarrow> (Err (sync_error_new Kind_other), ?lane, d2)
        | (Inr ready, d2) \<Rightarrow> submit_ready env import_id staged plan (Some x) ready ?lane d2) = (r, lane', d')"
        using run fresh by (simp add: submit_acquire_def Some io_bind_def io_return_def imported Inr Let_def)
      ultimately show ?thesis
        using x parts(3) unused(2) children by (intro create_ready_kept [OF parts(1), of ?lane d1 "Some x"]) simp_all
    qed
  qed
qed

section \<open>Releasing\<close>

lemma release_submission_uses:
  assumes "distinct (lane_children lane)"
  shows "sub_fence (release_submission lane d) = is_release_fence lane"
    and "is_release_fence lane \<in> sub_uses (release_submission lane d)"
    and "sub_uses (release_submission lane d) \<subseteq> set (lane_children lane)"
    and "is_acquire_fence lane \<noteq> is_release_fence lane"
  using assms
  by (auto simp: release_submission_def lane_children_def active_timestamp_query_def split: if_splits option.splits)

lemma released_children: "lane_children (lane\<lparr>is_release_submitted := b\<rparr>) = lane_children lane"
  by (simp add: lane_children_def)

text \<open>The release is the last submission that uses the lane.\<close>

lemma released_phase:
  assumes phase: "phase_ok env lost lane plan mark d" and children: "distinct (lane_children lane)"
    and flags: "is_acquire_submitted lane" "is_renderer_accepted lane \<or> is_renderer_rejected lane"
    and fence: "fence_at (is_release_fence lane) (length (history d)) (submitted sub d)"
    and sub: "sub_fence sub = is_release_fence lane"
  shows "phase_ok env lost (lane\<lparr>is_release_submitted := True\<rparr>) plan mark (submitted sub d)"
proof -
  have other: "sub_fence sub \<noteq> is_acquire_fence lane" using sub release_submission_uses(4) [OF children] by simp
  have "fence_at (is_acquire_fence lane) mark (submitted sub d)"
    using phase flags(1) fence_at_submitted [OF _ other] by (simp add: phase_ok_def)
  moreover have "plan_at env (is_acquire_fence lane) plan mark (submitted sub d)"
    using phase flags(1) other by (auto simp: phase_ok_def plan_at_def nth_append less_Suc_eq)
  moreover have "unused_after K (length (history d)) (submitted sub d)" for K
    by (simp add: unused_after_def)
  moreover have "is_ready_semaphore lane = None \<or> is_renderer_rejected lane"
    "is_renderer_accepted lane \<longrightarrow> is_ready_semaphore lane = None"
    using phase flags(2) by (auto simp: phase_ok_def)
  ultimately show ?thesis using fence flags(1) unfolding phase_ok_def by auto
qed

lemma lost_phase:
  assumes phase: "phase_ok env lost lane plan mark d" and flags: "is_acquire_submitted lane" "\<not> is_release_submitted lane"
    and other: "sub_fence sub \<noteq> is_acquire_fence lane"
  shows "phase_ok env True lane plan mark (mark_lost (submitted sub d))"
proof -
  let ?d = "mark_lost (submitted sub d)"
  have same: "fence_at f m ?d = fence_at f m (submitted sub d)" "history ?d = history (submitted sub d)" for f m
    by (simp_all add: mark_lost_def fence_at_def history_def)
  have "fence_at (is_acquire_fence lane) mark ?d"
    using phase flags(1) fence_at_submitted [OF _ other] by (simp add: phase_ok_def same)
  moreover have "plan_at env (is_acquire_fence lane) plan mark ?d"
    using phase flags(1) other by (auto simp: same phase_ok_def plan_at_def nth_append less_Suc_eq)
  moreover have "is_renderer_accepted lane \<longrightarrow> is_ready_semaphore lane = None" using phase by (simp add: phase_ok_def)
  ultimately show ?thesis using flags unfolding phase_ok_def by simp
qed

lemma release_inv:
  assumes inv: "lane_inv env s0 y" and lane: "ly_lane y = Some lane" and alive: "\<not> ly_release_lost y"
    and run: "submit_release env import_id staged img lane (ly_device y) = (r, lane', d')"
  shows "lane_inv env s0 (y\<lparr>ly_lane := Some lane', ly_device := d',
    ly_release_lost := ly_release_lost y \<or> r = Err (sync_error_lost ReleaseSubmit), ly_retried := retried\<rparr>)"
proof -
  note parts = lane_invD [OF inv lane]
  let ?d = "ly_device y" and ?A = "set (lane_children lane) \<union> ly_renderer y"
  note start = quiet_start [OF parts(1)]
  have kept: "lane_inv env s0 (y\<lparr>ly_lane := Some lane, ly_device := e, ly_release_lost := ly_release_lost y \<or> b,
      ly_retried := retried\<rparr>)" if "quiet s0 ?d ?A e" for e b
    using lane_inv_release_lost [OF lane_inv_retimed [OF inv lane retimed_refl that], where lost = b and retried = retried] by simp
  show ?thesis
  proof (cases "\<not> is_release_submitted lane \<and> is_acquire_submitted lane \<and>
      (is_renderer_accepted lane \<or> is_renderer_rejected lane) \<and> is_import_id lane = Some import_id")
    case False
    then show ?thesis using run kept [OF start] by (auto simp: submit_release_def Let_def split: if_splits)
  next
    case True
    have free: "is_release_pool lane \<notin> in_use ?d" "is_release_fence lane \<notin> in_use ?d"
      using parts(4) True alive by (simp_all add: phase_ok_def)
    obtain r1 d1 where reset: "reset_fence env (is_release_fence lane) ?d = (r1, d1)" by fastforce
    note q1 = reset_fence_quiet [OF start free(2) reset]
    obtain r2 d2 where pool: "reset_command_pool env (is_release_pool lane) d1 = (r2, d2)" by fastforce
    note q2 = reset_pool_quiet [OF q1(1) free(1) pool]
    obtain r3 d3 where rec: "record_commands env (is_release_command lane)
        (if staged then staged_release_commands (active_timestamp_query lane)
         else direct_release_commands (sy_family env) img) d2 = (r3, d3)" by fastforce
    note q3 = record_commands_quiet [OF q2(1) rec]
    let ?sub = "release_submission lane d3" and ?lane = "lane\<lparr>is_release_submitted := True\<rparr>"
    note uses = release_submission_uses [OF parts(2)]
    obtain r4 d4 where submit: "submit_video_queue env ?sub d3 = (r4, d4)" by fastforce
    have guard: "is_release_submitted lane = False" "is_acquire_submitted lane = True"
        "(\<not> is_renderer_accepted lane \<and> \<not> is_renderer_rejected lane) = False" "(is_import_id lane \<noteq> Some import_id) = False"
      using True by auto
    note go = run [unfolded submit_release_def Let_def guard reset, simplified]
    show ?thesis
    proof (cases "\<exists>u1 u2 u3. r1 = Inr u1 \<and> r2 = Inr u2 \<and> r3 = Inr u3")
      case False
      then show ?thesis
        using go True kept [OF q1(1)] kept [OF q2(1)] kept [OF q3(1)] by (cases r1; cases r2; cases r3) (simp_all add: pool rec)
    next
      case ok: True
      then have unset: "is_release_fence lane \<notin> sd_signaled d3" using q1(2) q2(2) q3(2) by auto
      have pending: "sub_fence ?sub \<notin> in_use ?d" using uses(1) free(2) by simp
      show ?thesis
      proof (rule submit_queue_cases [OF q3(1) pending submit])
        fix e assume e: "quiet s0 ?d ?A e" "sd_signaled e = sd_signaled d3" "d4 = submitted ?sub e"
            "r4 = Inr () \<or> r4 = Inl ERROR_DEVICE_LOST"
        note phase = phase_ok_quiet [OF e(1) parts(4)]
        have others: "\<forall>s \<in> set (sd_pending e). sub_fence s \<noteq> is_release_fence lane"
          using pending_fence [OF parts(1) e(1) free(2)] .
        have "fence_at (is_release_fence lane) (length (history e)) (submitted ?sub e)"
          using fence_at_new [OF others] unset e(2) by simp
        then have released: "phase_ok env (ly_release_lost y) ?lane (ly_plan y) (ly_mark y) (submitted ?sub e)"
          using True uses(1) by (intro released_phase [OF phase parts(2)]) simp_all
        have "\<forall>x \<in> sub_uses ?sub. vk_index x < vs_next (sd_vk e)" using quiet_below [OF e(1)] uses(3) by blast
        then have inv1: "device_inv s0 ?A (submitted ?sub e)"
          using device_inv_quiet [OF parts(1) e(1)] uses(1,2) by (intro device_inv_submitted) simp_all
        have lost: "phase_ok env True lane (ly_plan y) (ly_mark y) (mark_lost (submitted ?sub e))"
          using True uses(1,4) by (intro lost_phase [OF phase]) simp_all
        have "(r = Ok () \<and> lane' = ?lane \<and> d' = submitted ?sub e) \<or>
            (r = Err (sync_error_lost ReleaseSubmit) \<and> lane' = lane \<and> d' = mark_lost (submitted ?sub e))"
          using go True ok e(3,4) by (auto simp: pool rec submit)
        then show ?thesis
          using inv1 device_inv_quiet [OF inv1 quiet_lost [OF quiet_start [OF inv1]]] released lost parts(2,3)
          by (auto simp: lane_inv_def released_children)
      next
        fix x assume x: "quiet s0 ?d ?A d4" "r4 = Inl x"
        have "lane' = lane \<and> (d' = d4 \<or> d' = mark_lost d4)"
          using go True ok x(2) by (cases x) (auto simp: pool rec submit)
        then show ?thesis using kept [OF x(1)] kept [OF quiet_lost [OF x(1)]] by blast
      qed
    qed
  qed
qed

section \<open>Runs\<close>

lemma same_lane: "lane_inv env s0 y \<Longrightarrow> ly_lane y = l \<Longrightarrow> lane_inv env s0 (y\<lparr>ly_lane := l\<rparr>)"
  by (cases y) simp

lemma acquire_step_inv:
  assumes inv: "lane_inv env s0 y"
  shows "lane_inv env s0 (lane_step env (Do_acquire import_id staged plan sync_fd) y)"
proof (cases "ly_lane y")
  case (Some lane)
  obtain r lane' d' where run: "submit_acquire env import_id staged plan sync_fd lane (ly_device y) = (r, lane', d')"
    by (metis prod.collapse)
  show ?thesis
  proof (cases "is_acquire_submitted lane")
    case True
    then have "lane' = lane" "d' = ly_device y" using run by (simp_all add: submit_acquire_def)
    then show ?thesis using inv Some True run by (simp add: lane_inv_def)
  next
    case False
    then show ?thesis
      using submit_acquire_kept [OF inv Some False run] inv Some run by (simp add: acquire_kept_def)
  qed
qed (use inv in simp)

lemma renderer_destroys_inv:
  assumes inv: "lane_inv env s0 y" and x: "x \<in> ly_renderer y" "x \<notin> in_use (ly_device y)"
  shows "lane_inv env s0 (y\<lparr>ly_device := sync_destroy x (ly_device y), ly_renderer := ly_renderer y - {x}\<rparr>)"
proof -
  let ?R = "ly_renderer y - {x}" and ?d = "ly_device y"
  have gone: "quiet s0 ?d (A \<union> ?R) (sync_destroy x ?d)"
    if "device_inv s0 (A \<union> ly_renderer y) ?d" "A \<inter> ly_renderer y = {}" for A
  proof -
    have "A \<union> ly_renderer y - {x} = A \<union> ?R" using that(2) x(1) by blast
    then show ?thesis using quiet_destroy [OF quiet_start [OF that(1)], of x] x by simp
  qed
  show ?thesis
  proof (cases "ly_lane y")
    case (Some lane)
    note parts = lane_invD [OF inv Some]
    note q = gone [OF parts(1,3)]
    have "set (lane_children lane) \<inter> ?R = {}" using parts(3) by blast
    then show ?thesis
      using device_inv_quiet [OF parts(1) q] phase_ok_quiet [OF q parts(4)] parts(2) Some by (simp add: lane_inv_def)
  next
    case None
    then obtain A where A: "device_inv s0 (A \<union> ly_renderer y) ?d" "A \<inter> ly_renderer y = {}" "A = {} \<or> sd_lost ?d"
      using inv by (auto simp: lane_inv_def)
    note q = gone [OF A(1,2)]
    have "A \<inter> ?R = {}" "A = {} \<or> sd_lost (sync_destroy x ?d)" using A(2,3) q by (auto simp: quiet_def)
    then show ?thesis using device_inv_quiet [OF A(1) q] None by (auto simp: lane_inv_def)
  qed
qed

lemma finish_inv: "lane_inv env s0 y \<Longrightarrow> lane_inv env s0 (y\<lparr>ly_device := finish_submission (ly_device y)\<rparr>)"
proof -
  have lost: "sd_lost (finish_submission d) = sd_lost d" for d by (simp add: finish_submission_def split: list.split)
  assume "lane_inv env s0 y"
  then show ?thesis
    using device_inv_finish phase_ok_finish by (auto simp: lane_inv_def lost split: option.splits)
qed

lemma others_inv:
  assumes inv: "lane_inv env s0 y" and fence: "sub_fence sub \<in> sub_uses sub"
    and below: "\<forall>x \<in> sub_uses sub. vk_index x < vs_next (sd_vk (ly_device y))"
    and free: "\<And>lane. ly_lane y = Some lane \<Longrightarrow> sub_uses sub \<inter> set (lane_children lane) = {}"
  shows "lane_inv env s0 (y\<lparr>ly_device := submitted sub (ly_device y)\<rparr>)"
proof (cases "ly_lane y")
  case (Some lane)
  note parts = lane_invD [OF inv Some]
  show ?thesis
    using device_inv_submitted [OF parts(1) below fence] phase_ok_others [OF parts(4) free [OF Some] fence] parts(2,3) Some
    by (simp add: lane_inv_def)
next
  case None
  then obtain A where A: "device_inv s0 (A \<union> ly_renderer y) (ly_device y)" "A \<inter> ly_renderer y = {}"
      "A = {} \<or> sd_lost (ly_device y)"
    using inv by (auto simp: lane_inv_def)
  then show ?thesis using device_inv_submitted [OF A(1) below fence] None by (auto simp: lane_inv_def)
qed

lemma poll_inv:
  assumes inv: "lane_inv env s0 y"
  shows "lane_inv env s0 (lane_step env Poll_source y)" "lane_inv env s0 (lane_step env Poll_release y)"
    "lane_inv env s0 (lane_step env Take_timing y)"
proof -
  have "lane_inv env s0 (lane_step env Poll_source y) \<and> lane_inv env s0 (lane_step env Poll_release y) \<and>
      lane_inv env s0 (lane_step env Take_timing y)"
  proof (cases "ly_lane y")
    case (Some lane)
    note start = quiet_start [OF lane_invD(1) [OF inv Some]]
    obtain r lane' d' where run: "release_complete env lane (ly_device y) = (r, lane', d')" by (metis prod.collapse)
    note q = release_complete_quiet [OF start run]
    have same: "y\<lparr>ly_lane := Some lane, ly_device := d\<rparr> = y\<lparr>ly_device := d\<rparr>" for d using Some by simp
    have kept: "y\<lparr>ly_lane := Some l, ly_device := ly_device y\<rparr> = y\<lparr>ly_lane := Some l\<rparr>" for l by simp
    show ?thesis
      using lane_inv_retimed [OF inv Some retimed_refl source_release_complete_quiet [OF start, of env lane]]
        lane_inv_retimed [OF inv Some q(2,1)] lane_inv_retimed [OF inv Some retimed_take start]
      by (simp add: Some run same kept)
  qed (use inv same_lane [OF inv] in simp)
  then show "lane_inv env s0 (lane_step env Poll_source y)" "lane_inv env s0 (lane_step env Poll_release y)"
    "lane_inv env s0 (lane_step env Take_timing y)" by blast+
qed

lemma answer_inv:
  assumes inv: "lane_inv env s0 y"
  shows "lane_inv env s0 (lane_step env (Do_accept x) y)" and "lane_inv env s0 (lane_step env (Do_reject x) y)"
proof -
  show "lane_inv env s0 (lane_step env (Do_accept x) y)"
  proof (cases "ly_lane y")
    case (Some lane)
    then show ?thesis
      using inv accept_inv [OF inv Some] same_lane [OF inv Some] by (simp add: ganesh_wait_accepted_def)
  qed (use inv in simp)
  show "lane_inv env s0 (lane_step env (Do_reject x) y)"
  proof (cases "ly_lane y")
    case (Some lane)
    then show ?thesis
      using inv reject_inv [OF inv Some] same_lane [OF inv Some] by (simp add: ganesh_wait_rejected_def)
  qed (use inv same_lane [OF inv] in simp)
qed

lemma lane_step_inv:
  assumes inv: "lane_inv env s0 y" and once: "\<not> ly_retried (lane_step env op y)"
  shows "lane_inv env s0 (lane_step env op y)"
proof (cases op)
  case Do_acquire
  then show ?thesis using acquire_step_inv [OF inv] by simp
next
  case (Do_release import_id staged img)
  show ?thesis
  proof (cases "ly_lane y")
    case (Some lane)
    obtain r lane' d' where run: "submit_release env import_id staged img lane (ly_device y) = (r, lane', d')"
      by (metis prod.collapse)
    have "\<not> ly_release_lost y" using once Some run Do_release by simp
    from release_inv [OF inv Some this run] show ?thesis using Some run Do_release by simp
  qed (use inv Do_release in simp)
next
  case Do_reuse
  show ?thesis
  proof (cases "ly_lane y")
    case (Some lane)
    obtain r lane' d' where run: "reset_for_reuse env lane (ly_device y) = (r, lane', d')" by (metis prod.collapse)
    show ?thesis using reuse_inv [OF inv Some run] Some run Do_reuse by simp
  qed (use inv Do_reuse in simp)
next
  case Do_drop
  show ?thesis using inv drop_inv [OF inv] Do_drop by (cases "ly_lane y") simp_all
next
  case (Others_submit sub)
  let ?K = "case ly_lane y of Some lane \<Rightarrow> set (lane_children lane) | None \<Rightarrow> {}"
  show ?thesis
  proof (cases "(\<forall>x \<in> sub_uses sub. vk_index x < vs_next (sd_vk (ly_device y)) \<and> x \<notin> ?K) \<and> sub_fence sub \<in> sub_uses sub")
    case True
    then have "lane_inv env s0 (y\<lparr>ly_device := submitted sub (ly_device y)\<rparr>)" by (intro others_inv [OF inv]) auto
    moreover have "lane_step env op y = y\<lparr>ly_device := submitted sub (ly_device y)\<rparr>"
      unfolding Others_submit lane_step.simps Let_def submitted_def by (rule if_P [OF True])
    ultimately show ?thesis by simp
  next
    case False
    have "lane_step env op y = y"
      unfolding Others_submit lane_step.simps Let_def by (rule if_not_P [OF False])
    then show ?thesis using inv by simp
  qed
next
  case (Renderer_destroys x)
  then show ?thesis using inv renderer_destroys_inv [OF inv] by simp
qed (use answer_inv [OF inv] poll_inv [OF inv] finish_inv [OF inv] in \<open>simp_all del: lane_step.simps add: lane_step.simps(10)\<close>)

lemma lane_step_retried: "ly_retried y \<Longrightarrow> ly_retried (lane_step env op y)"
  by (cases op) (auto simp: Let_def split: option.split prod.split sum.split)

lemma lane_run_retried: "ly_retried y \<Longrightarrow> ly_retried (lane_run env ops y)"
  by (induction ops arbitrary: y) (simp_all add: lane_step_retried del: lane_step.simps)

lemma lane_run_inv: "lane_inv env s0 y \<Longrightarrow> \<not> ly_retried (lane_run env ops y) \<Longrightarrow> lane_inv env s0 (lane_run env ops y)"
proof (induction ops arbitrary: y)
  case (Cons op ops)
  then have "\<not> ly_retried (lane_step env op y)" using lane_run_retried by fastforce
  then show ?case using Cons lane_step_inv by (simp del: lane_step.simps)
qed simp

end
