(* ===== verification/Sync_Properties.thy ===== *)
theory Sync_Properties
  imports Sync_Life
begin

text \<open>
  What holds of a lane made on an idle device, whatever its client, its renderer, the queue and others
  do afterwards, also on a lost device. The one thing a client must not do is to call \<open>submit_release\<close>
  again after a release that lost the device (\<open>ly_retried\<close>): the code does not refuse it.
\<close>

section \<open>Lanes of an idle device\<close>

definition idle_device :: "sync_device \<Rightarrow> bool" where
  "idle_device d \<longleftrightarrow> vk_wf (sd_vk d) \<and> sd_pending d = [] \<and> \<not> sd_misused d"

definition lane_of :: "sync_env \<Rightarrow> sync_device \<Rightarrow> lane_op list \<Rightarrow> lane_system option" where
  "lane_of env d ops =
     (case image_sync_new env d of
        (Inl e, _) \<Rightarrow> None
      | (Inr lane, d') \<Rightarrow> Some (lane_run env ops
          \<lparr>ly_lane = Some lane, ly_device = d', ly_renderer = {}, ly_plan = None, ly_mark = 0,
            ly_release_lost = False, ly_retried = False\<rparr>))"

lemma idle_quiet: "idle_device d \<Longrightarrow> quiet (sd_vk d) d {} d \<and> in_use d = {}"
  by (simp add: idle_device_def quiet_def in_use_def gained_refl)

lemma image_sync_new_exact:
  assumes idle: "idle_device d" and run: "image_sync_new env d = (r, d')"
  shows "case r of Inl e \<Rightarrow> quiet (sd_vk d) d {} d'
    | Inr lane \<Rightarrow> (distinct (lane_children lane) \<and> unused_lane lane) \<and> quiet (sd_vk d) d (set (lane_children lane)) d'"
  using keeps_result [OF image_sync_new_keeps _ run, of d "sd_vk d"] idle_quiet [OF idle] by blast

lemma lane_of_inv:
  assumes idle: "idle_device d" and y: "lane_of env d ops = Some y" and once: "\<not> ly_retried y"
  shows "lane_inv env (sd_vk d) y"
proof -
  obtain lane d' where new: "image_sync_new env d = (Inr lane, d')"
      and y: "y = lane_run env ops \<lparr>ly_lane = Some lane, ly_device = d', ly_renderer = {}, ly_plan = None, ly_mark = 0,
        ly_release_lost = False, ly_retried = False\<rparr>"
    using y by (auto simp: lane_of_def split: prod.splits sum.splits)
  have made: "distinct (lane_children lane)" "unused_lane lane" "quiet (sd_vk d) d (set (lane_children lane)) d'"
    using image_sync_new_exact [OF idle new] by simp_all
  have base: "device_inv (sd_vk d) {} d"
    using idle by (simp add: idle_device_def device_inv_def in_use_def gained_refl)
  let ?y = "\<lparr>ly_lane = None, ly_device = d, ly_renderer = {}, ly_plan = None, ly_mark = 0,
    ly_release_lost = False, ly_retried = False\<rparr>"
  have "lane_inv env (sd_vk d) (?y\<lparr>ly_lane := Some lane, ly_device := d'\<rparr>)"
    using made base idle_quiet [OF idle] by (intro unsubmitted_inv [where A = "{}"]) simp_all
  then show ?thesis using once unfolding y by (intro lane_run_inv) simp_all
qed

text \<open>A retry needs a release that lost the device.\<close>

lemma lane_run_release_lost:
  "ly_retried (lane_run env ops y) \<Longrightarrow> (ly_retried y \<longrightarrow> ly_release_lost y) \<Longrightarrow> ly_release_lost (lane_run env ops y)"
proof (induction ops arbitrary: y)
  case (Cons op ops)
  have "ly_retried (lane_step env op y) \<longrightarrow> ly_release_lost (lane_step env op y)"
    using Cons.prems(2) by (cases op) (auto simp: Let_def split: option.split prod.split sum.split)
  then show ?case using Cons.IH Cons.prems(1) by (simp del: lane_step.simps)
qed simp

lemma lane_of_retried: "lane_of env d ops = Some y \<Longrightarrow> \<not> ly_release_lost y \<Longrightarrow> \<not> ly_retried y"
  using lane_run_release_lost by (fastforce simp: lane_of_def split: prod.splits sum.splits)

section \<open>An example\<close>

definition example_sync_env :: sync_env where
  "example_sync_env = \<lparr>sy_driver = example_driver, sy_lost_consumes = (\<lambda>_. True), sy_family = 0,
     sy_valid_bits = Some 64, sy_period_usable = True, sy_to_ns = (\<lambda>t. t), sy_timing_enabled = True,
     sy_sample_timing = (\<lambda>_. True), sy_query_values = (\<lambda>_. (1, 2, 3))\<rparr>"

definition example_sync_device :: sync_device where
  "example_sync_device = \<lparr>sd_vk = vk_start, sd_recorded = (\<lambda>_. []), sd_pending = [], sd_done = [],
     sd_signaled = {}, sd_misused = False, sd_lost = False, sd_samples = 0, sd_reports = []\<rparr>"

definition example_work :: acquire_work where
  "example_work = Plan_staged_transfer \<lparr>stp_source_buffer = Buffer 100, stp_source_size = 12,
     stp_output = Sampled_nv12 (Image 101), stp_output_initialized = False, stp_dimensions = (4, 2),
     stp_planes = (\<lparr>ip_offset = 0, ip_pitch = 4\<rparr>, \<lparr>ip_offset = 8, ip_pitch = 4\<rparr>)\<rparr>"

lemma example_idle: "idle_device example_sync_device"
  by (simp add: idle_device_def example_sync_device_def vk_wf_start)

lemma example_lane: "\<exists>y. lane_of example_sync_env example_sync_device ops = Some y"
  by (simp add: lane_of_def image_sync_new_def create_command_pool_def example_sync_env_def example_sync_device_def io_bind_def
      io_map_err_def io_cleanup_def on_sync_def vk_create_def vk_call_def vk_new_def vk_start_def example_driver_def
      allocate_command_def create_fences_def create_fence_def create_query_def create_timestamp_query_def Let_def
      report_timing_def io_return_def)

lemmas sync_eval = lane_of_def image_sync_new_def create_command_pool_def example_sync_env_def example_sync_device_def
  io_bind_def io_map_err_def io_cleanup_def io_return_def on_sync_def vk_create_def vk_call_def vk_new_def vk_start_def
  vk_destroy_def example_driver_def allocate_command_def create_fences_def create_fence_def create_query_def
  create_timestamp_query_def Let_def report_timing_def new_lane_def submit_acquire_def import_temporary_sync_fd_def
  is_negative_def duplicate_import_fd_def import_semaphore_fd_def create_semaphore_def submit_ready_def reset_fence_def
  touch_def in_use_def record_acquire_def choose_timing_def reset_command_pool_def acquire_commands_def
  active_timestamp_query_def example_work_def staged_transfer_commands_def transfer_copies_def map_ok_def
  record_commands_def submit_video_queue_def acquired_lane_def acquire_submission_def history_def
  ganesh_wait_accepted_def finish_submission_def fence_status_def source_release_complete_def submit_release_def
  staged_release_commands_def end_timing_def release_submission_def

definition example_acquire :: "lane_op list" where
  "example_acquire = [Do_acquire 7 True example_work (Some 3), Do_accept (Semaphore 9)]"

lemma example_release: "\<exists>y lane lane1 d1. lane_of example_sync_env example_sync_device example_acquire = Some y \<and>
    ly_lane y = Some lane \<and> \<not> ly_release_lost y \<and>
    submit_release example_sync_env 7 True (Image 101) lane (ly_device y) = (Ok (), lane1, d1)"
  by (simp add: sync_eval example_acquire_def)

lemma example_consumed: "\<exists>y lane d1. lane_of example_sync_env example_sync_device (example_acquire @ [Queue_finishes]) = Some y \<and>
    ly_lane y = Some lane \<and> \<not> ly_retried y \<and> source_release_complete example_sync_env lane (ly_device y) = (Ok True, d1)"
  by (simp add: sync_eval example_acquire_def)

text \<open>The device is lost at the release submission (the seventeenth call of the driver), which is consumed all the same.\<close>

definition lost_env :: sync_env where
  "lost_env = example_sync_env\<lparr>sy_valid_bits := None, sy_driver :=
     example_driver\<lparr>dr_fails := (\<lambda>n. if n = 16 then Some ERROR_DEVICE_LOST else None)\<rparr>\<rparr>"

definition lost_release :: "lane_op list" where
  "lost_release = [Do_acquire 7 True example_work None, Do_accept (Semaphore 6), Do_release 7 True (Image 101)]"

definition lost_cycle :: "lane_op list" where
  "lost_cycle = lost_release @ [Poll_release, Queue_finishes, Poll_source, Do_reuse,
     Do_acquire 8 True example_work (Some 3), Do_drop]"

lemma lost_lane: "\<exists>y. lane_of lost_env example_sync_device ops = Some y"
  by (simp add: lane_of_def image_sync_new_def create_command_pool_def lost_env_def example_sync_env_def
      example_sync_device_def io_bind_def io_map_err_def io_cleanup_def on_sync_def vk_create_def vk_call_def vk_new_def
      vk_start_def example_driver_def allocate_command_def create_fences_def create_fence_def create_query_def
      create_timestamp_query_def Let_def report_timing_def io_return_def)

lemma lane_run_append: "lane_run env (ops @ ops') y = lane_run env ops' (lane_run env ops y)"
  by (induction ops arbitrary: y) simp_all

lemma lane_of_append: "lane_of env d ops = Some y \<Longrightarrow> lane_of env d (ops @ ops') = Some (lane_run env ops' y)"
  by (auto simp: lane_of_def lane_run_append split: prod.splits sum.splits)

lemma lane_run_finishes:
  "lane_run env (replicate n Queue_finishes) y = y\<lparr>ly_device := (finish_submission ^^ n) (ly_device y)\<rparr>"
  by (induction n arbitrary: y) (simp_all add: funpow_swap1)

text \<open>A lane that is released once is not released again after a loss.\<close>

fun releases :: "lane_op list \<Rightarrow> nat" where
  "releases [] = 0"
| "releases (Do_release import_id staged img # ops) = Suc (releases ops)"
| "releases (op # ops) = releases ops"

lemma releases_Cons: "releases (op # ops) = releases [op] + releases ops"
  by (cases op) simp_all

lemma lane_step_no_release:
  "releases [op] = 0 \<Longrightarrow> ly_retried (lane_step env op y) = ly_retried y \<and> ly_release_lost (lane_step env op y) = ly_release_lost y"
  by (cases op) (auto simp: Let_def split: option.split prod.split sum.split)

lemma lane_step_first_release: "\<not> ly_release_lost y \<Longrightarrow> ly_retried (lane_step env op y) = ly_retried y"
  by (cases op) (auto simp: Let_def split: option.split prod.split sum.split)

lemma lane_run_no_release: "releases ops = 0 \<Longrightarrow> ly_retried (lane_run env ops y) = ly_retried y"
proof (induction ops arbitrary: y)
  case (Cons op ops)
  then show ?case using releases_Cons [of op ops] lane_step_no_release by (simp del: lane_step.simps)
qed simp

lemma lane_run_one_release:
  "releases ops \<le> 1 \<Longrightarrow> \<not> ly_release_lost y \<Longrightarrow> ly_retried (lane_run env ops y) = ly_retried y"
proof (induction ops arbitrary: y)
  case (Cons op ops)
  show ?case
  proof (cases "releases [op] = 0")
    case True
    then show ?thesis using Cons releases_Cons [of op ops] lane_step_no_release by (simp del: lane_step.simps)
  next
    case False
    then have "releases ops = 0" using Cons.prems(1) releases_Cons [of op ops] by simp
    then show ?thesis using lane_run_no_release lane_step_first_release [OF Cons.prems(2)] by (simp del: lane_step.simps)
  qed
qed simp

lemma one_release_once: "lane_of env d ops = Some y \<Longrightarrow> releases ops \<le> 1 \<Longrightarrow> \<not> ly_retried y"
  by (auto simp: lane_of_def lane_run_one_release split: prod.splits sum.splits)

section \<open>Completion\<close>

lemma finish_all_signals:
  "sub \<in> set (sd_pending d) \<Longrightarrow> sub_fence sub \<in> sd_signaled ((finish_submission ^^ length (sd_pending d)) d)"
proof (induction "sd_pending d" arbitrary: d)
  case (Cons s subs)
  have kept: "sd_signaled d \<subseteq> sd_signaled ((finish_submission ^^ n) d)" for n d
  proof (induction n arbitrary: d)
    case (Suc n)
    have "sd_signaled d \<subseteq> sd_signaled (finish_submission d)" by (auto simp: finish_submission_def split: list.split)
    then show ?case using Suc [of "finish_submission d"] by (auto simp: funpow_swap1)
  qed simp
  let ?d = "finish_submission d"
  have d: "sd_pending ?d = subs" "sub_fence s \<in> sd_signaled ?d"
    using Cons.hyps(2) by (simp_all add: finish_submission_def Cons.hyps(2) [symmetric])
  have "sub_fence sub \<in> sd_signaled ((finish_submission ^^ length subs) ?d)"
    using Cons.prems Cons.hyps(1) [of ?d] d kept [of ?d "length subs"] Cons.hyps(2) [symmetric] by auto
  then show ?case using Cons.hyps(2) [symmetric] by (simp add: funpow_swap1)
qed simp

lemma calls_succeed:
  "dr_fails (sy_driver env) = (\<lambda>_. None) \<Longrightarrow>
   on_sync (vk_call (sy_driver env)) d = (Ok (), d\<lparr>sd_vk := (sd_vk d)\<lparr>vs_calls := vs_calls (sd_vk d) + 1\<rparr>\<rparr>)"
  by (simp add: on_sync_def vk_call_def)

lemma submit_release_posts:
  assumes "submit_release env import_id staged img lane d = (Ok (), lane', d')"
  shows "lane' = lane\<lparr>is_release_submitted := True\<rparr> \<and> (\<exists>sub \<in> set (sd_pending d'). sub_fence sub = is_release_fence lane)"
proof -
  obtain r1 d1 where reset: "reset_fence env (is_release_fence lane) d = (r1, d1)" by fastforce
  obtain r2 d2 where pool: "reset_command_pool env (is_release_pool lane) d1 = (r2, d2)" by fastforce
  define commands where "commands = (if staged then staged_release_commands (active_timestamp_query lane)
       else direct_release_commands (sy_family env) img)"
  obtain r3 d3 where rec: "record_commands env (is_release_command lane) commands d2 = (r3, d3)" by fastforce
  obtain r4 d4 where submit: "submit_video_queue env (release_submission lane d3) d3 = (r4, d4)" by fastforce
  have "r1 = Ok () \<and> r2 = Ok () \<and> r3 = Ok () \<and> r4 = Ok () \<and> lane' = lane\<lparr>is_release_submitted := True\<rparr> \<and> d' = d4"
    using assms [unfolded submit_release_def Let_def, folded commands_def]
    by (auto simp: reset pool rec submit split: if_splits sum.splits vk_result.splits)
  moreover have "release_submission lane d3 \<in> set (sd_pending d4)" if "r4 = Ok ()"
    using submit that by (auto simp: submit_video_queue_def Let_def split: prod.splits sum.splits vk_result.splits)
  moreover have "sub_fence (release_submission lane d3) = is_release_fence lane" by (simp add: release_submission_def)
  ultimately show ?thesis by blast
qed

text \<open>
  A release that loses the device may still be pending, but leaves the lane unreleased: a second call
  passes the guards of the first and resets a fence that is in use. \<open>submit_acquire\<close> sets its flags in the
  same case, so it cannot be repeated.
\<close>

lemma on_sync_call_fields:
  "on_sync (vk_call driver) d = (r, d') \<Longrightarrow> sd_pending d' = sd_pending d \<and>
     (dr_fails driver (vs_calls (sd_vk d)) = None \<longrightarrow> r = Ok ())"
  by (auto simp: on_sync_def vk_call_def split: option.splits)

lemma misused_kept:
  shows "sd_misused d \<Longrightarrow> sd_misused (snd (reset_command_pool env pool d))"
    and "sd_misused d \<Longrightarrow> sd_misused (snd (record_commands env command commands d))"
    and "sd_misused d \<Longrightarrow> sd_misused (snd (submit_video_queue env sub d))"
  by (auto simp: reset_command_pool_def record_commands_def submit_video_queue_def io_bind_def io_map_err_def on_sync_def
      vk_call_def touch_def Let_def split: option.splits sum.splits vk_result.splits)

lemma pending_release_misuses:
  assumes "\<not> is_release_submitted lane" "is_acquire_submitted lane" "is_renderer_accepted lane \<or> is_renderer_rejected lane"
    and "is_import_id lane = Some import_id" and "is_release_fence lane \<in> in_use d"
    and "dr_fails (sy_driver env) (vs_calls (sd_vk d)) = None"
  shows "sd_misused (snd (snd (submit_release env import_id staged img lane d)))"
proof -
  obtain r1 d1 where reset: "reset_fence env (is_release_fence lane) d = (r1, d1)" by fastforce
  obtain r2 d2 where pool: "reset_command_pool env (is_release_pool lane) d1 = (r2, d2)" by fastforce
  define commands where "commands = (if staged then staged_release_commands (active_timestamp_query lane)
       else direct_release_commands (sy_family env) img)"
  obtain r3 d3 where rec: "record_commands env (is_release_command lane) commands d2 = (r3, d3)" by fastforce
  obtain r4 d4 where submit: "submit_video_queue env (release_submission lane d3) d3 = (r4, d4)" by fastforce
  obtain r0 d0 where call: "on_sync (vk_call (sy_driver env)) d = (r0, d0)" by fastforce
  have "sd_misused d1"
    using reset on_sync_call_fields [OF call] assms(5,6) by (auto simp: reset_fence_def io_bind_def call touch_def in_use_def)
  then have "sd_misused d1 \<and> sd_misused d2 \<and> sd_misused d3 \<and> sd_misused d4 \<and> sd_misused (mark_lost d4)"
    using misused_kept [of d1] misused_kept [of d2] misused_kept [of d3] pool rec submit
    by (metis (no_types, lifting) mark_lost_def snd_conv sync_device.select_convs(6) sync_device.surjective
        sync_device.update_convs(7))
  moreover have guard: "is_release_submitted lane = False" "is_acquire_submitted lane = True"
      "(\<not> is_renderer_accepted lane \<and> \<not> is_renderer_rejected lane) = False" "(is_import_id lane \<noteq> Some import_id) = False"
    using assms(1-4) by auto
  ultimately show ?thesis
    unfolding submit_release_def Let_def commands_def [symmetric] guard reset
    by (simp add: pool rec submit split: sum.split vk_result.split)
qed

lemma lost_release_retry_misuses:
  assumes run: "submit_release env import_id staged img lane d = (Err (sync_error_lost ReleaseSubmit), lane', d')"
    and "\<And>n. sy_lost_consumes env n" and "dr_fails (sy_driver env) (vs_calls (sd_vk d')) = None"
  shows "lane' = lane \<and> sd_misused (snd (snd (submit_release env import_id staged img lane' d')))"
proof -
  obtain r1 d1 where reset: "reset_fence env (is_release_fence lane) d = (r1, d1)" by fastforce
  obtain r2 d2 where pool: "reset_command_pool env (is_release_pool lane) d1 = (r2, d2)" by fastforce
  define commands where "commands = (if staged then staged_release_commands (active_timestamp_query lane)
       else direct_release_commands (sy_family env) img)"
  obtain r3 d3 where rec: "record_commands env (is_release_command lane) commands d2 = (r3, d3)" by fastforce
  obtain r4 d4 where submit: "submit_video_queue env (release_submission lane d3) d3 = (r4, d4)" by fastforce
  have guards: "\<not> is_release_submitted lane" "is_acquire_submitted lane" "is_renderer_accepted lane \<or> is_renderer_rejected lane"
      "is_import_id lane = Some import_id" and lost: "r4 = Err ERROR_DEVICE_LOST" "lane' = lane" "d' = mark_lost d4"
    using run [unfolded submit_release_def Let_def, folded commands_def]
    by (auto simp: reset pool rec submit sync_error_new_def sync_error_lost_def split: if_splits sum.splits vk_result.splits)
  have "release_submission lane d3 \<in> set (sd_pending d4)"
    using submit lost(1) assms(2) by (auto simp: submit_video_queue_def Let_def split: prod.splits sum.splits vk_result.splits)
  then have "is_release_fence lane \<in> in_use d'"
    unfolding lost(3) in_use_def mark_lost_def by (force simp: release_submission_def)
  from pending_release_misuses [OF guards this assms(3)] show ?thesis using lost(2) by simp
qed

lemma released_completes:
  assumes "idle_device d0" and "lane_of env d0 ops = Some y" and "ly_lane y = Some lane" and "\<not> ly_release_lost y"
    and "submit_release env import_id staged img lane (ly_device y) = (Ok (), lane1, d1)"
    and "d2 = (finish_submission ^^ length (sd_pending d1)) d1" and "dr_fails (sy_driver env) = (\<lambda>_. None)"
  shows "fst (release_complete env lane1 d2) = Ok True \<and> fst (reset_for_reuse env lane1 d2) = Ok ()"
proof -
  note inv = lane_of_inv [OF assms(1,2) lane_of_retried [OF assms(2,4)]]
  note posted = submit_release_posts [OF assms(5)]
  have phase: "phase_ok env (ly_release_lost y) lane1 (ly_plan y) (ly_mark y) d1"
    using lane_invD(4) [OF release_inv [OF inv assms(3,4,5), where retried = False], of lane1] by simp
  have submitted: "is_release_submitted lane1" using posted by simp
  obtain sub where sub: "sub \<in> set (sd_pending d1)" "sub_fence sub = is_release_fence lane1" using posted by auto
  have "is_release_fence lane1 \<in> sd_signaled d2"
    using finish_all_signals [OF sub(1)] sub(2) unfolding assms(6) by simp
  then have poll: "\<exists>d3. fence_status env (is_release_fence lane1) d2 = (Ok True, d3)"
    by (simp add: fence_status_def io_bind_def calls_succeed [OF assms(7)])
  then obtain d3 where poll: "fence_status env (is_release_fence lane1) d2 = (Ok True, d3)" by blast
  have "is_ready_semaphore lane1 = None \<or> is_renderer_rejected lane1" using phase submitted by (simp add: phase_ok_def)
  moreover have "\<exists>lane2 d4. collect_timing env lane1 d3 = (Ok (), lane2, d4)"
    by (auto simp: collect_timing_def Let_def calls_succeed [OF assms(7)] split: option.split)
  ultimately show ?thesis
    using submitted poll by (auto simp: release_complete_def reset_for_reuse_def split: option.split)
qed

lemma fresh_as_new:
  "is_ready_semaphore lane = None \<Longrightarrow> fresh_lane lane =
     (new_lane (is_acquire_pool lane) (is_acquire_command lane) (is_release_pool lane) (is_release_command lane)
       (is_acquire_fence lane) (is_release_fence lane) (is_timestamp_query lane))\<lparr>is_imported_acquire := is_imported_acquire lane\<rparr>"
  by (cases lane) (simp add: fresh_lane_def new_lane_def)

lemma reset_as_new:
  assumes "reset_for_reuse env lane d = (Ok (), lane', d')"
  shows "lane' = (new_lane (is_acquire_pool lane) (is_acquire_command lane) (is_release_pool lane)
      (is_release_command lane) (is_acquire_fence lane) (is_release_fence lane) (is_timestamp_query lane))
      \<lparr>is_imported_acquire := is_imported_acquire lane\<rparr>"
proof (cases "is_ready_semaphore lane")
  case None
  then show ?thesis
    using assms fresh_as_new [OF None] by (auto simp: reset_for_reuse_def split: if_splits sum.splits prod.splits bool.splits)
next
  case (Some x)
  then show ?thesis
    using assms fresh_as_new [of "lane\<lparr>is_ready_semaphore := None\<rparr>"]
    by (auto simp: reset_for_reuse_def split: if_splits sum.splits prod.splits bool.splits)
qed

section \<open>Properties\<close>

text \<open>C23: a new lane owns exactly its children. A creation that fails at any of its calls destroys
  everything it made; one that succeeds leaves pools, fences and a query pool, all distinct, and
  nothing is used while pending or destroyed twice.\<close>

theorem lane_created_exactly:
  assumes "idle_device d" and "image_sync_new env d = (r, d')"
  shows "sd_pending d' = [] \<and> \<not> sd_misused d' \<and> vs_fault (sd_vk d') = vs_fault (sd_vk d) \<and>
    (case r of Inl e \<Rightarrow> vs_live (sd_vk d') = vs_live (sd_vk d)
     | Inr lane \<Rightarrow> distinct (lane_children lane) \<and> unused_lane lane \<and>
         vs_live (sd_vk d') = vs_live (sd_vk d) \<union> set (lane_children lane) \<and>
         vs_live (sd_vk d) \<inter> set (lane_children lane) = {})"
  using image_sync_new_exact [OF assms] assms(1)
  by (cases r) (auto simp: quiet_def gained_def idle_device_def)

theorem lane_created_exactly_witness:
  "\<exists>lane d. image_sync_new example_sync_env example_sync_device = (Inr lane, d) \<and> distinct (lane_children lane) \<and>
     vs_live (sd_vk d) = set (lane_children lane)"
proof -
  obtain y where "lane_of example_sync_env example_sync_device [] = Some y" using example_lane by blast
  then obtain lane d where new: "image_sync_new example_sync_env example_sync_device = (Inr lane, d)"
    by (auto simp: lane_of_def split: prod.splits sum.splits)
  then show ?thesis
    using lane_created_exactly [OF example_idle new] by (simp add: example_sync_device_def vk_start_def)
qed

text \<open>C7: no Vulkan object is destroyed, reset, recorded again or imported into while a submission uses
  it, and none is destroyed twice or while another refers to it. This holds after any order of the lane's
  operations, accepted or failed at any call, with the queue finishing at any time, submissions of others,
  the renderer destroying its semaphores, losses of the device and operations called after a loss, and the
  drop of the lane, as long as the client does not call \<open>submit_release\<close> again after one of its release
  submissions lost the device (\<open>lost_release_retry_misuses\<close> shows what that second call does).\<close>

theorem lane_never_misused:
  assumes "idle_device d" and "lane_of env d ops = Some y" and "\<not> ly_retried y"
  shows "\<not> sd_misused (ly_device y) \<and> vs_fault (sd_vk (ly_device y)) = vs_fault (sd_vk d)"
  using lane_of_inv [OF assms] by (auto simp: lane_inv_def device_inv_def gained_def split: option.splits)

definition example_cycle :: "lane_op list" where
  "example_cycle = [Do_acquire 7 True example_work (Some 3), Do_accept (Semaphore 9), Do_release 7 True (Image 101),
     Poll_source, Queue_finishes, Poll_source, Queue_finishes, Poll_release, Take_timing, Do_reuse,
     Do_acquire 8 True example_work (Some 3), Do_drop]"

lemma example_cycle_once: "lane_of example_sync_env d example_cycle = Some y \<Longrightarrow> \<not> ly_retried y"
  by (rule one_release_once) (assumption, simp add: example_cycle_def)

lemma lost_cycle_once: "lane_of lost_env d lost_cycle = Some y \<Longrightarrow> \<not> ly_retried y"
  by (rule one_release_once) (assumption, simp add: lost_cycle_def lost_release_def)

theorem lane_never_misused_witness:
  "(\<exists>y. lane_of example_sync_env example_sync_device example_cycle = Some y \<and> \<not> sd_misused (ly_device y)) \<and>
   (\<exists>y. lane_of lost_env example_sync_device lost_cycle = Some y \<and> \<not> sd_misused (ly_device y))"
  using example_lane [of example_cycle] lost_lane [of lost_cycle] lane_never_misused [OF example_idle]
    example_cycle_once lost_cycle_once by blast

text \<open>C11: what is alive belongs to someone. While a lane lives, the device holds what it held before, the
  lane's children and the semaphores the renderer took over, all distinct; a dropped lane leaves exactly
  the renderer's semaphores, unless the device was given up as lost. No lost release was retried.\<close>

theorem lane_owns_exactly:
  assumes "idle_device d" and "lane_of env d ops = Some y" and "\<not> ly_retried y"
  shows "case ly_lane y of
      Some lane \<Rightarrow> distinct (lane_children lane) \<and> set (lane_children lane) \<inter> ly_renderer y = {} \<and>
        vs_live (sd_vk (ly_device y)) = vs_live (sd_vk d) \<union> set (lane_children lane) \<union> ly_renderer y
    | None \<Rightarrow> sd_lost (ly_device y) \<or> vs_live (sd_vk (ly_device y)) = vs_live (sd_vk d) \<union> ly_renderer y"
  using lane_of_inv [OF assms] by (auto simp: lane_inv_def device_inv_def gained_def split: option.splits)

theorem lane_owns_exactly_witness:
  "\<exists>y. lane_of example_sync_env example_sync_device [Do_drop] = Some y \<and> ly_lane y = None \<and>
     (sd_lost (ly_device y) \<or> vs_live (sd_vk (ly_device y)) = ly_renderer y)"
proof -
  obtain y where y: "lane_of example_sync_env example_sync_device [Do_drop] = Some y" using example_lane by blast
  then have "ly_lane y = None" "\<not> ly_retried y" by (auto simp: lane_of_def split: prod.splits sum.splits)
  then show ?thesis
    using lane_owns_exactly [OF example_idle y] y by (simp add: example_sync_device_def vk_start_def)
qed

text \<open>C8: the producer is told only when it is true. If the poll of the source reports completion, the
  submission of the last acquire is finished, and its commands were those recorded for the plan that
  was acquired: every read of the producer's memory has happened. No lost release was retried.\<close>

theorem source_release_means_consumed:
  assumes "idle_device d" and "lane_of env d ops = Some y" and "ly_lane y = Some lane"
    and "source_release_complete env lane (ly_device y) = (Ok True, d')" and "\<not> ly_retried y"
  shows "\<exists>plan query. ly_plan y = Some plan \<and> ly_mark y < length (sd_done (ly_device y)) \<and>
    acquire_commands (sy_family env) plan query = Ok (sub_commands (sd_done (ly_device y) ! ly_mark y))"
proof -
  let ?d = "ly_device y" and ?f = "is_acquire_fence lane"
  note parts = lane_invD [OF lane_of_inv [OF assms(1,2,5)] assms(3)]
  obtain r d1 where poll: "fence_status env ?f ?d = (r, d1)" by fastforce
  have submitted: "is_acquire_submitted lane" "r = Ok True"
    using assms(4) by (auto simp: source_release_complete_def poll split: if_splits sum.splits vk_result.splits)
  then have "?f \<in> sd_signaled ?d" using fence_status_quiet(3) [OF quiet_start [OF parts(1)] poll] by simp
  then have m: "ly_mark y < length (sd_done ?d)" "sub_fence (history ?d ! ly_mark y) = ?f"
    using parts(4) submitted(1) by (simp_all add: phase_ok_def fence_at_def)
  have same: "history ?d ! ly_mark y = sd_done ?d ! ly_mark y" using m(1) by (simp add: history_def nth_append)
  have "ly_mark y < length (history ?d)" using m(1) by (simp add: history_def)
  then show ?thesis
    using parts(4) submitted(1) m unfolding same phase_ok_def plan_at_def by (metis same)
qed

theorem source_release_means_consumed_witness:
  "\<exists>y. lane_of example_sync_env example_sync_device (example_acquire @ [Queue_finishes]) = Some y \<and>
     ly_mark y < length (sd_done (ly_device y))"
proof -
  obtain y lane d1 where y: "lane_of example_sync_env example_sync_device (example_acquire @ [Queue_finishes]) = Some y"
      "ly_lane y = Some lane" "\<not> ly_retried y" "source_release_complete example_sync_env lane (ly_device y) = (Ok True, d1)"
    using example_consumed by blast
  then show ?thesis using source_release_means_consumed [OF example_idle y(1,2,4,3)] by blast
qed

text \<open>C10: a lane is recycled only when it is idle. If the release is reported complete, or the lane is reset
  for reuse, no submission that is still pending uses any of its children, and a reset lane is as new: it
  is the lane that \<open>ImportedImageSync::new\<close> builds of the same pools, commands, fences and query, with
  no frame, answer or timing of the last cycle; only the semaphore that holds imported fences is kept. A
  semaphore the renderer rejected is destroyed. No lost release was retried.\<close>

theorem released_lane_is_idle:
  assumes "idle_device d" and "lane_of env d ops = Some y" and "ly_lane y = Some lane" and "\<not> ly_retried y"
  shows "(release_complete env lane (ly_device y) = (Ok True, lane', d') \<longrightarrow> set (lane_children lane) \<inter> in_use d' = {}) \<and>
    (reset_for_reuse env lane (ly_device y) = (Ok (), lane', d') \<longrightarrow>
       lane' = (new_lane (is_acquire_pool lane) (is_acquire_command lane) (is_release_pool lane) (is_release_command lane)
           (is_acquire_fence lane) (is_release_fence lane) (is_timestamp_query lane))
         \<lparr>is_imported_acquire := is_imported_acquire lane\<rparr> \<and>
       set (lane_children lane') \<inter> in_use d' = {} \<and>
       (is_ready_semaphore lane \<noteq> None \<longrightarrow> is_renderer_rejected lane \<and> the (is_ready_semaphore lane) \<notin> vs_live (sd_vk d')))"
proof (intro conjI impI)
  let ?d = "ly_device y" and ?f = "is_release_fence lane"
  note inv = lane_of_inv [OF assms(1,2,4)]
  note parts = lane_invD [OF inv assms(3)]
  note start = quiet_start [OF parts(1)]
  obtain r d1 where poll: "fence_status env ?f ?d = (r, d1)" by fastforce
  {
    assume run: "release_complete env lane ?d = (Ok True, lane', d')"
    then have "is_release_submitted lane" "r = Ok True"
      by (auto simp: release_complete_def poll split: if_splits sum.splits vk_result.splits bool.splits prod.splits)
    moreover from this have "?f \<in> sd_signaled ?d" using fence_status_quiet(3) [OF start poll] by simp
    ultimately show "set (lane_children lane) \<inter> in_use d' = {}"
      using released_unused [OF parts(4)] history_quiet(2) [OF release_complete_quiet(1) [OF start run]] by simp
  next
    assume run: "reset_for_reuse env lane ?d = (Ok (), lane', d')"
    then show "lane' = (new_lane (is_acquire_pool lane) (is_acquire_command lane) (is_release_pool lane)
        (is_release_command lane) (is_acquire_fence lane) (is_release_fence lane) (is_timestamp_query lane))
        \<lparr>is_imported_acquire := is_imported_acquire lane\<rparr>"
      by (rule reset_as_new)
    have "\<not> is_acquire_submitted lane'" using reset_as_new [OF run] by (simp add: new_lane_def)
    then show "set (lane_children lane') \<inter> in_use d' = {}"
      using lane_invD(4) [OF reuse_inv [OF inv assms(3) run], of lane'] by (simp add: phase_ok_def)
    assume ready: "is_ready_semaphore lane \<noteq> None"
    then show "is_renderer_rejected lane" "the (is_ready_semaphore lane) \<notin> vs_live (sd_vk d')"
      using run by (auto simp: reset_for_reuse_def sync_destroy_def vk_destroy_def touch_def
          split: if_splits sum.splits bool.splits prod.splits option.splits)
  }
qed

theorem released_lane_is_idle_witness:
  "\<exists>n y lane lane' d'. lane_of example_sync_env example_sync_device
       (example_acquire @ Do_release 7 True (Image 101) # replicate n Queue_finishes) = Some y \<and> ly_lane y = Some lane \<and>
     reset_for_reuse example_sync_env lane (ly_device y) = (Ok (), lane', d') \<and>
     is_import_id lane' = None \<and> is_timing lane' = None \<and> \<not> is_timing_active lane' \<and>
     is_imported_acquire lane' = is_imported_acquire lane \<and> set (lane_children lane') \<inter> in_use d' = {}"
proof -
  obtain y lane lane1 d1 where y: "lane_of example_sync_env example_sync_device example_acquire = Some y"
      "ly_lane y = Some lane" "\<not> ly_release_lost y"
      "submit_release example_sync_env 7 True (Image 101) lane (ly_device y) = (Ok (), lane1, d1)"
    using example_release by blast
  let ?n = "length (sd_pending d1)" and ?d2 = "(finish_submission ^^ length (sd_pending d1)) d1"
  let ?z = "y\<lparr>ly_lane := Some lane1, ly_device := ?d2\<rparr>"
  have "dr_fails (sy_driver example_sync_env) = (\<lambda>_. None)" by (simp add: example_sync_env_def example_driver_def)
  from released_completes [OF example_idle y refl this] have "fst (reset_for_reuse example_sync_env lane1 ?d2) = Ok ()" by simp
  then obtain lane2 d3 where reset: "reset_for_reuse example_sync_env lane1 ?d2 = (Ok (), lane2, d3)" by (metis prod.collapse)
  have once: "\<not> ly_retried ?z" using lane_of_retried [OF y(1,3)] by simp
  have same: "y\<lparr>ly_lane := l, ly_retried := ly_retried y \<or> ly_release_lost y, ly_device := e\<rparr> = y\<lparr>ly_lane := l, ly_device := e\<rparr>" for l e
    using y(3) by (cases y) simp
  have z: "lane_of example_sync_env example_sync_device
      (example_acquire @ Do_release 7 True (Image 101) # replicate ?n Queue_finishes) = Some ?z"
    using lane_of_append [OF y(1), of "Do_release 7 True (Image 101) # replicate ?n Queue_finishes"] y(2,4)
    by (simp add: lane_run_finishes same)
  have kept: "ly_lane ?z = Some lane1" and run: "reset_for_reuse example_sync_env lane1 (ly_device ?z) = (Ok (), lane2, d3)"
    using reset by simp_all
  note new = released_lane_is_idle [OF example_idle z kept once, THEN conjunct2, THEN mp, OF run]
  have "is_import_id lane2 = None \<and> is_timing lane2 = None \<and> \<not> is_timing_active lane2 \<and>
      is_imported_acquire lane2 = is_imported_acquire lane1"
    unfolding conjunct1 [OF new] by (simp add: new_lane_def)
  then show ?thesis using z kept run new by blast
qed



end
