(* ===== verification/Importer_Teardown.thy ===== *)
theory Importer_Teardown
  imports Importer_Properties "HOL-Library.Multiset"
begin

text \<open>
  The end of an importer: the drop of \<open>VulkanDmaBufImporter\<close> while a client may still hold images, and the
  drops of those images afterwards. Each \<open>Arc\<close> of the importer and of its images refers to one resource,
  which is dropped with the last \<open>Arc\<close>.
\<close>

section \<open>The Arcs\<close>

definition lease_arc :: "(nat \<Rightarrow> resource_id) \<Rightarrow> nat \<Rightarrow> lease_table \<Rightarrow> resource_id list" where
  "lease_arc tag l t = (case lease_resource l t of Some r \<Rightarrow> [tag r] | None \<Rightarrow> [])"

definition option_arc :: "resource_id \<Rightarrow> compute_pipeline option \<Rightarrow> resource_id list" where
  "option_arc i p = (case p of Some _ \<Rightarrow> [i] | None \<Rightarrow> [])"

fun operation_arc :: "importer \<Rightarrow> staged_operation \<Rightarrow> resource_id list" where
  "operation_arc im (Compute p _) = [if im_rgba_compute im = Some p then Rgba_pipeline_id else Planar_pipeline_id]"
| "operation_arc im (Buffer_transfer _) = []"
| "operation_arc im Image_transfer = []"

text \<open>The fields of an image, in the order they are dropped.\<close>

fun image_arcs :: "importer \<Rightarrow> imported_kind \<Rightarrow> resource_id list" where
  "image_arcs im (Direct_packed l) = lease_arc Packed_source_id l (sc_table (im_packed_cache im))"
| "image_arcs im (Direct_bgra_scanout a) = [Scanout_id a]"
| "image_arcs im (Direct_nv12 l _) = lease_arc Nv12_source_id l (sc_table (im_nv12_cache im))"
| "image_arcs im (Staged_packed p) =
     lease_arc Packed_source_id (sp_source p) (sc_table (im_packed_cache im)) @
     lease_arc Packed_slot_id (sp_output p) (op_table (im_packed_pool im)) @ [Packed_pipeline_id]"
| "image_arcs im (Staged_nv12 n) =
     lease_arc Nv12_source_id (sn_source n) (sc_table (im_nv12_cache im)) @
     lease_arc Nv12_slot_id (sn_output n) (op_table (im_nv12_pool im)) @ operation_arc im (sn_operation n)"

text \<open>The fields of the importer, in the order they are declared. A hash map drops its values in its own
  order, \<open>iterate\<close>.\<close>

definition importer_arcs :: "(nat list \<Rightarrow> nat list) \<Rightarrow> importer \<Rightarrow> resource_id list" where
  "importer_arcs iterate im =
     map (Nv12_slot_id \<circ> snd) (op_slots (im_nv12_pool im)) @
     map Nv12_source_id (iterate (map snd (sc_entries (im_nv12_cache im)))) @
     map (Packed_slot_id \<circ> snd) (op_slots (im_packed_pool im)) @
     map Packed_source_id (iterate (map snd (sc_entries (im_packed_cache im)))) @
     option_arc Rgba_pipeline_id (im_rgba_compute im) @ option_arc Planar_pipeline_id (im_planar_compute im) @
     option_arc Packed_pipeline_id (im_packed_compute im)"

section \<open>The drops\<close>

text \<open>\<open>Arc\<close>s are dropped in turn, beside those that others keep.\<close>

definition drop_resource :: "importer \<Rightarrow> resource_id \<Rightarrow> 'f world \<Rightarrow> 'f world" where
  "drop_resource im i = vk_drop (handle_drop (resource_handle im i))"

fun drop_arcs :: "importer \<Rightarrow> resource_id list \<Rightarrow> resource_id list \<Rightarrow> 'f world \<Rightarrow> 'f world" where
  "drop_arcs im kept [] w = w"
| "drop_arcs im kept (i # arcs) w =
     drop_arcs im kept arcs (if i \<in> set arcs \<or> i \<in> set kept then w else drop_resource im i w)"

definition arcs_of_images :: "importer \<Rightarrow> imported_image list \<Rightarrow> resource_id list" where
  "arcs_of_images im images = concat (map (image_arcs im \<circ> ii_kind) images)"

definition importer_drop :: "(nat list \<Rightarrow> nat list) \<Rightarrow> importer \<Rightarrow> imported_image list \<Rightarrow> 'f world \<Rightarrow> 'f world" where
  "importer_drop iterate im images = drop_arcs im (arcs_of_images im images) (importer_arcs iterate im)"

fun images_drop :: "importer \<Rightarrow> imported_image list \<Rightarrow> 'f world \<Rightarrow> 'f world" where
  "images_drop im [] w = w"
| "images_drop im (img # images) w =
     images_drop im images (drop_arcs im (arcs_of_images im images) (image_arcs im (ii_kind img)) w)"

section \<open>What is left\<close>

lemma drop_arcs_holds:
  "vk_wf s0 \<Longrightarrow> holds s0 (set arcs \<union> set kept) (resource_handle im) (w_vk w) \<Longrightarrow>
   holds s0 (set kept) (resource_handle im) (w_vk (drop_arcs im kept arcs w))"
proof (induction arcs arbitrary: w)
  case Nil
  then show ?case by simp
next
  case (Cons i arcs)
  show ?case
  proof (cases "i \<in> set arcs \<union> set kept")
    case True
    then have "set (i # arcs) \<union> set kept = set arcs \<union> set kept" by auto
    then show ?thesis using Cons True by simp
  next
    case False
    then have minus: "set (i # arcs) \<union> set kept - {i} = set arcs \<union> set kept" by auto
    have "holds s0 (set (i # arcs) \<union> set kept - {i}) (resource_handle im)
        (handle_drop (resource_handle im i) (w_vk w))"
      by (rule holds_dispose [OF Cons.prems]) simp
    then show ?thesis
      using Cons.IH [OF Cons.prems(1), of "drop_resource im i w"] False
      by (simp add: minus drop_resource_def vk_drop_def del: set_simps)
  qed
qed

lemma images_drop_holds:
  "vk_wf s0 \<Longrightarrow> holds s0 (set (arcs_of_images im (images @ later))) (resource_handle im) (w_vk w) \<Longrightarrow> later = [] \<Longrightarrow>
   holds s0 {} (resource_handle im) (w_vk (images_drop im images w))"
proof (induction images arbitrary: w)
  case Nil
  then show ?case by (simp add: arcs_of_images_def)
next
  case (Cons img images)
  have "holds s0 (set (image_arcs im (ii_kind img)) \<union> set (arcs_of_images im images)) (resource_handle im) (w_vk w)"
    using Cons.prems by (simp add: arcs_of_images_def)
  from Cons.IH [OF Cons.prems(1) _ Cons.prems(3), of "drop_arcs im (arcs_of_images im images) (image_arcs im (ii_kind img)) w"]
    drop_arcs_holds [OF Cons.prems(1) this]
  show ?case using Cons.prems(3) by simp
qed

lemma lease_arc_set: "set (lease_arc tag l t) = {tag r |r. lease_resource l t = Some r}"
  by (auto simp: lease_arc_def split: option.splits)

lemma option_arc_set: "set (option_arc i p) = (if p = None then {} else {i})"
  by (cases p) (simp_all add: option_arc_def)

text \<open>The importer and its images have the Arcs of every resource, and none else.\<close>

lemma pool_lease_slot: "lease_resource l (op_table p) = Some r \<Longrightarrow> r \<in> pool_resources p"
  by (auto simp: pool_resources_def leased_resources_def lease_resource_def)

lemma pool_slots_all:
  assumes "output_pool_ok fits p ls"
  shows "pool_resources p = snd ` set (op_slots p)"
proof -
  have "r \<in> snd ` set (op_slots p)" if "lt_leases (op_table p) l = Some (r, q)" for l r q
    using assms that unfolding output_pool_ok_def pool_inv_def by blast
  then show ?thesis by (auto simp: pool_resources_def leased_resources_def)
qed

lemma cache_lease_entry:
  "cache_inv s \<Longrightarrow> lease_resource l (sc_table s) = Some r \<Longrightarrow> r \<in> cached_resources s"
  using cache_inv_leases [of s l r] by (auto simp: lease_resource_def cached_resources_def)

lemma lease_arcs_inside:
  "cache_inv (im_packed_cache im) \<Longrightarrow> set (lease_arc Packed_source_id l (sc_table (im_packed_cache im))) \<subseteq> resource_ids im X"
  "cache_inv (im_nv12_cache im) \<Longrightarrow> set (lease_arc Nv12_source_id l (sc_table (im_nv12_cache im))) \<subseteq> resource_ids im X"
  "set (lease_arc Packed_slot_id l (op_table (im_packed_pool im))) \<subseteq> resource_ids im X"
  "set (lease_arc Nv12_slot_id l (op_table (im_nv12_pool im))) \<subseteq> resource_ids im X"
  by (auto simp: lease_arc_set resource_ids_def dest: cache_lease_entry pool_lease_slot)

lemma image_arcs_inside:
  assumes "cache_inv (im_packed_cache im)" and "cache_inv (im_nv12_cache im)"
    and "kind_fits im k" and "set (scanouts_of k) \<subseteq> X"
  shows "set (image_arcs im k) \<subseteq> resource_ids im X"
proof -
  have op: "x \<in> resource_ids im X" if "x \<in> set (operation_arc im op)" "operation_fits im strategy op" for x strategy op
    using that by (cases op) (auto simp: resource_ids_def pipeline_ids_def)
  have packed: "Packed_pipeline_id \<in> resource_ids im X" if "im_packed_compute im \<noteq> None"
    using that by (auto simp: resource_ids_def pipeline_ids_def)
  have "Scanout_id a \<in> resource_ids im X" if "a \<in> X" for a using that by (simp add: resource_ids_def)
  then show ?thesis
    using assms(3,4) packed lease_arcs_inside [where im = im and X = X] assms(1,2) by (cases k) (auto intro: op)
qed

lemma importer_arcs_set:
  assumes "\<And>xs. mset (iterate xs) = mset xs"
  shows "set (importer_arcs iterate im) = pipeline_ids im \<union>
    Nv12_source_id ` cached_resources (im_nv12_cache im) \<union> Packed_source_id ` cached_resources (im_packed_cache im) \<union>
    Nv12_slot_id ` snd ` set (op_slots (im_nv12_pool im)) \<union> Packed_slot_id ` snd ` set (op_slots (im_packed_pool im))"
proof -
  have "set (iterate xs) = set xs" for xs using assms by (rule mset_eq_setD)
  then show ?thesis
    by (auto simp: importer_arcs_def option_arc_set pipeline_ids_def cached_resources_def image_comp)
qed

lemma all_arcs:
  assumes ok: "client_ok s0 c" and iterate: "\<And>xs :: nat list. mset (iterate xs) = mset xs" and images: "mset images = mset (cl_images c)"
  shows "set (importer_arcs iterate (cl_importer c)) \<union> set (arcs_of_images (cl_importer c) images) =
    resource_ids (cl_importer c) (set (hl_scanouts (image_holdings (cl_images c))))"
    (is "?A \<union> ?B = resource_ids ?im ?X")
proof
  have same: "set images = set (cl_images c)" using images by (rule mset_eq_setD)
  have im: "importer_ok s0 (image_holdings (cl_images c)) ?im (cl_world c)"
    and fits: "\<And>img. img \<in> set images \<Longrightarrow> kind_fits ?im (ii_kind img)"
    using ok by (simp_all add: client_ok_def same)
  have caches: "cache_inv (im_packed_cache ?im)" "cache_inv (im_nv12_cache ?im)"
    using im by (simp_all add: importer_ok_def cache_ok_def)
  have slots: "pool_resources (im_packed_pool ?im) = snd ` set (op_slots (im_packed_pool ?im))"
      "pool_resources (im_nv12_pool ?im) = snd ` set (op_slots (im_nv12_pool ?im))"
    using im pool_slots_all unfolding importer_ok_def by blast+
  have scan: "?X = (\<Union>img \<in> set images. set (scanouts_of (ii_kind img)))" by (auto simp: image_holdings_def same)
  have "set (image_arcs ?im (ii_kind img)) \<subseteq> resource_ids ?im ?X" if "img \<in> set images" for img
    by (rule image_arcs_inside [OF caches fits [OF that]]) (use that scan in auto)
  then show "?A \<union> ?B \<subseteq> resource_ids ?im ?X"
    by (auto simp: arcs_of_images_def importer_arcs_set [OF iterate] resource_ids_def slots)
  have "Scanout_id a \<in> ?B" if "a \<in> set (scanouts_of (ii_kind img))" "img \<in> set images" for a img
    using that by (cases "ii_kind img") (force simp: arcs_of_images_def)+
  then show "resource_ids ?im ?X \<subseteq> ?A \<union> ?B"
    unfolding importer_arcs_set [OF iterate] resource_ids_def slots scan by auto
qed

section \<open>What the images keep\<close>

text \<open>The acquire work of an image only uses objects of its own Arcs.\<close>

definition arc_objects :: "importer \<Rightarrow> resource_id list \<Rightarrow> vk_object set" where
  "arc_objects im arcs = (\<Union>i \<in> set arcs. handle_objects (resource_handle im i))"

lemma arc_objects_append [simp]: "arc_objects im (xs @ ys) = arc_objects im xs \<union> arc_objects im ys"
  by (simp add: arc_objects_def)

lemma source_arc_objects:
  "leased_source l (im_nv12_cache im) = Some a \<Longrightarrow>
   arc_objects im (lease_arc Nv12_source_id l (sc_table (im_nv12_cache im))) = handle_objects (Nv12_source_handle a)"
  "leased_source l (im_packed_cache im) = Some b \<Longrightarrow>
   arc_objects im (lease_arc Packed_source_id l (sc_table (im_packed_cache im))) = handle_objects (Packed_source_handle (fst b))"
  "leased_slot l (im_nv12_pool im) = Some x \<Longrightarrow>
   arc_objects im (lease_arc Nv12_slot_id l (op_table (im_nv12_pool im))) = handle_objects (Staged_slot_handle x)"
  "leased_slot l (im_packed_pool im) = Some y \<Longrightarrow>
   arc_objects im (lease_arc Packed_slot_id l (op_table (im_packed_pool im))) = handle_objects (Packed_slot_handle y)"
  by (auto simp: leased_source_def leased_slot_def arc_objects_def lease_arc_def Option.bind_eq_Some_conv)

lemma operation_arc_objects:
  "operation_fits im strategy (Compute p constants) \<Longrightarrow>
   {cp_pipeline p, cp_pipeline_layout p} \<subseteq> arc_objects im (operation_arc im (Compute p constants))"
  by (auto simp: arc_objects_def pipeline_objects_def)

lemma plan_in_arcs:
  assumes fit: "kind_fits im (ii_kind img)" and plan: "acquire_plan img im = Some plan"
  shows "plan_objects plan \<subseteq> arc_objects im (image_arcs im (ii_kind img))"
proof (cases "ii_kind img")
  case (Direct_packed l)
  then show ?thesis using fit plan
    by (auto simp: acquire_plan_def packed_source_image_def packed_source_is_def source_arc_objects image_objects_def
        split: option.splits packed_source_allocation.splits prod.splits)
next
  case (Direct_bgra_scanout a)
  then show ?thesis using plan by (auto simp: acquire_plan_def arc_objects_def image_objects_def)
next
  case (Direct_nv12 l m)
  then show ?thesis using fit plan
    by (auto simp: acquire_plan_def nv12_source_image_def nv12_source_is_def source_arc_objects image_objects_def
        split: option.splits nv12_source_allocation.splits)
next
  case (Staged_packed p)
  obtain a slot where source: "leased_source (sp_source p) (im_packed_cache im) = Some a"
      "leased_slot (sp_output p) (im_packed_pool im) = Some slot" "im_packed_compute im = Some (sp_pipeline p)"
    using fit by (auto simp: Staged_packed packed_source_is_def packed_output_is_def)
  have "{cp_pipeline (sp_pipeline p), cp_pipeline_layout (sp_pipeline p)} \<subseteq> arc_objects im [Packed_pipeline_id]"
    by (simp add: arc_objects_def source pipeline_objects_def)
  then show ?thesis
    using plan source buffer_inside
    by (auto simp: acquire_plan_def packed_plan_def Staged_packed source_arc_objects packed_slot_objects_def
        viewed_objects_def image_objects_def split: option.splits packed_source_allocation.splits prod.splits)
next
  case (Staged_nv12 n)
  obtain strategy a slot where source: "leased_source (sn_source n) (im_nv12_cache im) = Some a" "source_fits strategy a"
      "leased_slot (sn_output n) (im_nv12_pool im) = Some slot" "operation_fits im strategy (sn_operation n)"
    using fit by (auto simp: Staged_nv12 nv12_source_is_def nv12_output_is_def)
  then show ?thesis
    using plan buffer_inside slot_sampled_inside [of "so_images slot"] operation_arc_objects [of im strategy]
    by (cases "sn_operation n"; cases a)
      (auto simp: acquire_plan_def nv12_plan_def Let_def Staged_nv12 source_arc_objects staged_slot_objects_def
        image_objects_def split: option.splits)
qed

section \<open>The order\<close>

text \<open>Each resource is dropped with its last Arc.\<close>

definition teardown_order :: "(nat list \<Rightarrow> nat list) \<Rightarrow> importer \<Rightarrow> imported_image list \<Rightarrow> resource_id list" where
  "teardown_order iterate im images = remdups (importer_arcs iterate im @ arcs_of_images im images)"

lemma drop_arcs_order:
  "fold (drop_resource im) (remdups kept) (drop_arcs im kept arcs w) = fold (drop_resource im) (remdups (arcs @ kept)) w"
  by (induction arcs arbitrary: w) simp_all

lemma images_drop_order: "images_drop im images w = fold (drop_resource im) (remdups (arcs_of_images im images)) w"
proof (induction images arbitrary: w)
  case (Cons img images)
  then show ?case
    using drop_arcs_order [of im "arcs_of_images im images" "image_arcs im (ii_kind img)" w]
    by (simp add: arcs_of_images_def)
qed (simp add: arcs_of_images_def)

text \<open>Every \<open>x\<close> has a later \<open>y\<close>.\<close>

fun followed_by :: "'a \<Rightarrow> 'a \<Rightarrow> 'a list \<Rightarrow> bool" where
  "followed_by x y [] \<longleftrightarrow> True"
| "followed_by x y (z # zs) \<longleftrightarrow> (z = x \<longrightarrow> y \<in> set zs) \<and> followed_by x y zs"

lemma followed_by_absent: "x \<notin> set xs \<Longrightarrow> followed_by x y xs"
  by (induction xs) auto

lemma followed_by_append:
  "followed_by x y (xs @ ys) \<longleftrightarrow> followed_by x y ys \<and> (x \<notin> set xs \<or> y \<in> set ys \<or> followed_by x y xs)"
  by (induction xs) (auto simp: followed_by_absent)

lemma followed_by_concat: "(\<And>xs. xs \<in> set xss \<Longrightarrow> followed_by x y xs) \<Longrightarrow> followed_by x y (concat xss)"
  by (induction xss) (auto simp: followed_by_append)

lemma remdups_after: "followed_by x y xs \<Longrightarrow> remdups xs = A @ y # B \<Longrightarrow> x \<notin> set B"
proof (induction xs arbitrary: A)
  case (Cons z zs)
  show ?case
  proof (cases "z \<in> set zs")
    case True
    then show ?thesis using Cons by simp
  next
    case False
    then have split: "z # remdups zs = A @ y # B" using Cons.prems(2) by simp
    show ?thesis
    proof (cases A)
      case Nil
      then have y: "z = y" "B = remdups zs" using split by simp_all
      have "y \<in> set zs" if mem: "x \<in> set zs"
      proof -
        obtain U V where "zs = U @ x # V" using split_list [OF mem] by blast
        then show ?thesis using Cons.prems(1) by (auto simp: followed_by_append)
      qed
      then show ?thesis using False y by auto
    next
      case (Cons a A')
      then show ?thesis using Cons.IH [of A'] Cons.prems(1) split by simp
    qed
  qed
qed simp

text \<open>The pipeline whose descriptor set layout the set of a slot has.\<close>

fun slot_pipeline :: "importer \<Rightarrow> resource_id \<Rightarrow> resource_id option" where
  "slot_pipeline im (Packed_slot_id _) = Some Packed_pipeline_id"
| "slot_pipeline im (Nv12_slot_id r) =
     (case map_option so_images (op_resources (im_nv12_pool im) r) of
        Some (Slot_rgba _ _) \<Rightarrow> Some Rgba_pipeline_id
      | Some (Slot_planes _ _ _ _) \<Rightarrow> Some Planar_pipeline_id
      | _ \<Rightarrow> None)"
| "slot_pipeline im _ = None"

lemma slot_pipeline_cases:
  assumes "slot_pipeline im i = Some p"
  obtains r where "i = Packed_slot_id r" "p = Packed_pipeline_id"
  | r x where "i = Nv12_slot_id r" "op_resources (im_nv12_pool im) r = Some x" "slot_images_fit LinearBufferToRgba (so_images x)"
      "p = Rgba_pipeline_id"
  | r x where "i = Nv12_slot_id r" "op_resources (im_nv12_pool im) r = Some x" "slot_images_fit LinearBufferToYuvPlanes (so_images x)"
      "p = Planar_pipeline_id"
  using assms by (cases i) (auto split: option.splits slot_images.splits)

lemma importer_arcs_followed:
  assumes "slot_pipeline im i = Some p" and "p \<in> pipeline_ids im"
  shows "followed_by i p (importer_arcs iterate im)"
proof -
  let ?pipelines = "option_arc Rgba_pipeline_id (im_rgba_compute im) @ option_arc Planar_pipeline_id (im_planar_compute im) @
    option_arc Packed_pipeline_id (im_packed_compute im)"
  have in_pipelines: "set ?pipelines = pipeline_ids im" by (auto simp: option_arc_set pipeline_ids_def)
  have "i \<notin> set ?pipelines" using assms(1) unfolding in_pipelines by (cases i) (auto simp: pipeline_ids_def)
  moreover have "p \<in> set ?pipelines" using assms(2) by (simp only: in_pipelines)
  ultimately have "followed_by i p (xs @ ?pipelines)" for xs
    using followed_by_append [of i p xs ?pipelines] followed_by_absent [of i ?pipelines p] by blast
  then show ?thesis unfolding importer_arcs_def by (metis append.assoc)
qed

lemma image_arcs_followed:
  assumes fit: "kind_fits im k" and p: "slot_pipeline im i = Some p"
    and differ: "im_rgba_compute im = None \<or> im_rgba_compute im \<noteq> im_planar_compute im"
  shows "followed_by i p (image_arcs im k)"
proof (cases "i \<in> set (image_arcs im k)")
  case False
  then show ?thesis by (rule followed_by_absent)
next
  case True
  show ?thesis
  proof (cases k)
    case (Staged_packed q)
    have "p = Packed_pipeline_id" if "\<exists>r. i = Packed_slot_id r" using p that by auto
    moreover have "\<exists>r. i = Packed_slot_id r" using True p by (auto simp: Staged_packed lease_arc_set)
    ultimately show ?thesis by (auto simp: Staged_packed followed_by_append lease_arc_def split: option.splits)
  next
    case (Staged_nv12 n)
    obtain strategy x where x: "leased_slot (sn_output n) (im_nv12_pool im) = Some x" "slot_images_fit strategy (so_images x)"
        "operation_fits im strategy (sn_operation n)"
      using fit by (auto simp: Staged_nv12 nv12_output_is_def slot_fits_def)
    have no_slot: "i \<notin> set (operation_arc im (sn_operation n))" using p by (cases "sn_operation n") auto
    then obtain r where r: "i = Nv12_slot_id r" "lease_resource (sn_output n) (op_table (im_nv12_pool im)) = Some r"
      using True p by (auto simp: Staged_nv12 lease_arc_set)
    then have "op_resources (im_nv12_pool im) r = Some x" using x(1) by (simp add: leased_slot_def)
    then have "operation_arc im (sn_operation n) = [p]"
      using p x(2,3) differ r(1) by (cases "sn_operation n"; cases "so_images x") auto
    then show ?thesis using r no_slot by (simp add: Staged_nv12 followed_by_append lease_arc_def split: option.split)
  qed (use True p in \<open>auto simp: lease_arc_set\<close>)
qed

lemma pipelines_differ:
  assumes "device_ok s0 im X w"
  shows "im_rgba_compute im = None \<or> im_rgba_compute im \<noteq> im_planar_compute im"
proof (rule ccontr)
  assume "\<not> ?thesis"
  then obtain p where p: "im_rgba_compute im = Some p" "im_planar_compute im = Some p" by (cases "im_rgba_compute im") auto
  then have "{Rgba_pipeline_id, Planar_pipeline_id} \<subseteq> resource_ids im X" by (auto simp: resource_ids_def pipeline_ids_def)
  then show False
    using device_ok_disjoint [OF assms, of Rgba_pipeline_id Planar_pipeline_id] p by (auto simp: pipeline_objects_def)
qed

lemma teardown_followed:
  assumes ok: "client_ok s0 c" and iterate: "\<And>xs :: nat list. mset (iterate xs) = mset xs" and images: "mset images = mset (cl_images c)"
    and order: "teardown_order iterate (cl_importer c) images = A @ p # B" and i: "i \<in> set B"
  shows "slot_pipeline (cl_importer c) i \<noteq> Some p"
proof
  assume p: "slot_pipeline (cl_importer c) i = Some p"
  let ?im = "cl_importer c"
  have "p \<in> set (teardown_order iterate ?im images)" using order by simp
  then have "p \<in> resource_ids ?im (set (hl_scanouts (image_holdings (cl_images c))))"
    using all_arcs [OF ok iterate images] by (auto simp: teardown_order_def)
  moreover have "p \<in> {Rgba_pipeline_id, Planar_pipeline_id, Packed_pipeline_id}"
    using p by (cases rule: slot_pipeline_cases) auto
  ultimately have "p \<in> pipeline_ids ?im" by (auto simp: resource_ids_def)
  note first = importer_arcs_followed [OF p this, of iterate]
  have "kind_fits ?im (ii_kind img)" if "img \<in> set images" for img
    using ok that mset_eq_setD [OF images] by (simp add: client_ok_def)
  then have "followed_by i p (arcs_of_images ?im images)"
    unfolding arcs_of_images_def
    using image_arcs_followed [OF _ p pipelines_differ [OF client_ok_device [OF ok]]] by (intro followed_by_concat) auto
  then have "followed_by i p (importer_arcs iterate ?im @ arcs_of_images ?im images)"
    using first by (simp add: followed_by_append)
  then show False using remdups_after order i by (fastforce simp: teardown_order_def)
qed

section \<open>Properties\<close>

text \<open>C18: images outlive their importer. Drop the importer while a client holds any images: the device then has
  exactly what their Arcs keep, beside what it started with, nothing was destroyed twice or before its
  users, and every object that the acquire work of an image uses is still alive.\<close>

theorem images_outlive_importer:
  assumes "vk_wf s0" and "\<And>i. \<not> dr_empty (env_driver env) i"
    and "client_of env limits preference s0 files n ops = Some c"
    and "\<And>xs :: nat list. mset (iterate xs) = mset xs"
    and "w = importer_drop iterate (cl_importer c) (cl_images c) (cl_world c)"
  shows "vs_live (w_vk w) = vs_live s0 \<union> arc_objects (cl_importer c) (arcs_of_images (cl_importer c) (cl_images c)) \<and>
    vs_fault (w_vk w) = vs_fault s0 \<and>
    (\<forall>img \<in> set (cl_images c). \<exists>plan. acquire_plan img (cl_importer c) = Some plan \<and> plan_objects plan \<subseteq> vs_live (w_vk w))"
proof -
  let ?im = "cl_importer c" and ?kept = "arcs_of_images (cl_importer c) (cl_images c)"
  have ok: "client_ok s0 c" by (rule client_of_ok [OF assms(1-3)])
  have "holds s0 (set (importer_arcs iterate ?im) \<union> set ?kept) (resource_handle ?im) (w_vk (cl_world c))"
    using client_ok_device [OF ok] all_arcs [OF ok assms(4) refl] by (simp add: device_ok_def)
  from drop_arcs_holds [OF assms(1) this]
  have held: "holds s0 (set ?kept) (resource_handle ?im) (w_vk w)" by (simp add: assms(5) importer_drop_def)
  then have live: "vs_live (w_vk w) = vs_live s0 \<union> arc_objects ?im ?kept" "vs_fault (w_vk w) = vs_fault s0"
    by (simp_all add: holds_def gained_def arc_objects_def)
  have "\<exists>plan. acquire_plan img ?im = Some plan \<and> plan_objects plan \<subseteq> vs_live (w_vk w)" if img: "img \<in> set (cl_images c)" for img
  proof -
    obtain plan where plan: "acquire_plan img ?im = Some plan"
      using client_image_shown [OF ok img] by (auto simp: shows_resource_def)
    have "kind_fits ?im (ii_kind img)" using ok img by (simp add: client_ok_def)
    from plan_in_arcs [OF this plan] have "plan_objects plan \<subseteq> arc_objects ?im ?kept"
      using img by (auto simp: arc_objects_def arcs_of_images_def)
    then show ?thesis using plan live(1) by blast
  qed
  then show ?thesis using live by blast
qed

theorem images_outlive_importer_witness:
  "\<exists>c img plan. example_client (example_ops []) = Some c \<and> cl_images c ! 0 = img \<and>
     acquire_plan img (cl_importer c) = Some plan \<and>
     plan_objects plan \<subseteq> vs_live (w_vk (importer_drop rev (cl_importer c) (cl_images c) (cl_world c)))"
proof -
  obtain d where d: "length (cl_images d) = 2" "example_client (example_ops []) = Some d"
    using example_images by fastforce
  then have "cl_images d ! 0 \<in> set (cl_images d)" by (intro nth_mem) simp
  then show ?thesis
    using images_outlive_importer [OF vk_wf_start example_env_driver example_client_of [OF d(2)] mset_rev refl] d(2)
    by blast
qed

text \<open>C19: a teardown frees everything, in a safe order. Drop the importer first and then its images in any order:
  every resource is dropped exactly once, the descriptor sets of a slot always before the pipeline that
  owns their layout, and the device ends with the objects and references it started with.\<close>

theorem teardown_frees_everything:
  assumes "vk_wf s0" and "\<And>i. \<not> dr_empty (env_driver env) i"
    and "client_of env limits preference s0 files n ops = Some c"
    and "\<And>xs :: nat list. mset (iterate xs) = mset xs" and "mset images = mset (cl_images c)"
    and "w = images_drop (cl_importer c) images (importer_drop iterate (cl_importer c) images (cl_world c))"
    and "order = teardown_order iterate (cl_importer c) images"
  shows "vs_live (w_vk w) = vs_live s0 \<and> vk_edges (w_vk w) = vk_edges s0 \<and> vs_fault (w_vk w) = vs_fault s0 \<and>
    w = fold (drop_resource (cl_importer c)) order (cl_world c) \<and> distinct order \<and>
    set order = resource_ids (cl_importer c) (set (hl_scanouts (image_holdings (cl_images c)))) \<and>
    (\<forall>A p B i. order = A @ p # B \<longrightarrow> i \<in> set B \<longrightarrow> slot_pipeline (cl_importer c) i \<noteq> Some p)"
proof -
  let ?im = "cl_importer c" and ?kept = "arcs_of_images (cl_importer c) images"
  have ok: "client_ok s0 c" by (rule client_of_ok [OF assms(1-3)])
  note arcs = all_arcs [OF ok assms(4,5)]
  have "holds s0 (set (importer_arcs iterate ?im) \<union> set ?kept) (resource_handle ?im) (w_vk (cl_world c))"
    using client_ok_device [OF ok] arcs by (simp add: device_ok_def)
  from images_drop_holds [OF assms(1) _ refl, of ?im images] drop_arcs_holds [OF assms(1) this]
  have "holds s0 {} (resource_handle ?im) (w_vk w)" by (simp add: assms(6) importer_drop_def)
  then have "vs_live (w_vk w) = vs_live s0 \<and> vk_edges (w_vk w) = vk_edges s0 \<and> vs_fault (w_vk w) = vs_fault s0"
    by (simp add: holds_def gained_def)
  moreover have "w = fold (drop_resource ?im) order (cl_world c)"
    by (simp add: assms(6,7) images_drop_order importer_drop_def drop_arcs_order teardown_order_def)
  moreover have "distinct order" "set order = resource_ids ?im (set (hl_scanouts (image_holdings (cl_images c))))"
    using arcs by (simp_all add: assms(7) teardown_order_def)
  moreover have "\<forall>A p B i. order = A @ p # B \<longrightarrow> i \<in> set B \<longrightarrow> slot_pipeline ?im i \<noteq> Some p"
    unfolding assms(7) using teardown_followed [OF ok assms(4,5)] by blast
  ultimately show ?thesis by blast
qed

theorem teardown_frees_everything_witness:
  "\<exists>c. example_client (example_ops []) = Some c \<and> length (cl_images c) = 2 \<and>
     vs_live (w_vk (images_drop (cl_importer c) (rev (cl_images c))
       (importer_drop rev (cl_importer c) (rev (cl_images c)) (cl_world c)))) = {}"
proof -
  obtain d where d: "length (cl_images d) = 2" "example_client (example_ops []) = Some d"
    using example_images by fastforce
  show ?thesis
    using conjunct1 [OF teardown_frees_everything [OF vk_wf_start example_env_driver example_client_of [OF d(2)] mset_rev mset_rev refl refl]] d
    by (intro exI [of _ d]) (simp add: vk_start_def)
qed

end
