(* ===== verification/Egl_Fence.thy ===== *)
theory Egl_Fence
  imports Prelude
begin

text \<open>
  \<open>egl.rs\<close>: the selection of a table of EGL entry points, and the native fences made, imported,
  duplicated, waited for and destroyed with it. The entry points are functions on a world that has the
  descriptors of the process; \<open>poll\<close>, the loader and what is at an address are parameters.
\<close>

section \<open>Descriptors\<close>

text \<open>
  \<open>ew_flags\<close> are the open descriptors with their flags, \<open>ew_owned\<close> those that values of Rust own,
  \<open>ew_fcntl_fails\<close> the failures of the calls to come. The rest is the state of EGL.
\<close>

record 'e egl_world =
  ew_flags :: "i32 \<Rightarrow> i32 option"
  ew_owned :: "i32 set"
  ew_fcntl_fails :: "bool list"
  ew_egl :: 'e

definition FD_CLOEXEC :: i32 where
  "FD_CLOEXEC = 1"

definition next_fails :: "'e egl_world \<Rightarrow> bool" where
  "next_fails w = (case ew_fcntl_fails w of [] \<Rightarrow> False | b # _ \<Rightarrow> b)"

definition fcntl_getfd :: "i32 \<Rightarrow> 'e egl_world \<Rightarrow> i32 \<times> 'e egl_world" where
  "fcntl_getfd fd w =
     (case ew_flags w fd of
        Some flags \<Rightarrow> (if next_fails w then - 1 else flags, w\<lparr>ew_fcntl_fails := tl (ew_fcntl_fails w)\<rparr>)
      | None \<Rightarrow> (- 1, w))"

definition fcntl_setfd :: "i32 \<Rightarrow> i32 \<Rightarrow> 'e egl_world \<Rightarrow> i32 \<times> 'e egl_world" where
  "fcntl_setfd fd flags w =
     (if ew_flags w fd = None then (- 1, w)
      else if next_fails w then (- 1, w\<lparr>ew_fcntl_fails := tl (ew_fcntl_fails w)\<rparr>)
      else (0, w\<lparr>ew_fcntl_fails := tl (ew_fcntl_fails w), ew_flags := (ew_flags w)(fd \<mapsto> flags)\<rparr>))"

text \<open>\<open>OwnedFd\<close>: taken over, given up by \<open>into_raw_fd\<close>, dropped.\<close>

definition own_fd :: "i32 \<Rightarrow> 'e egl_world \<Rightarrow> 'e egl_world" where
  "own_fd fd w = w\<lparr>ew_owned := insert fd (ew_owned w)\<rparr>"


definition drop_fd :: "i32 \<Rightarrow> 'e egl_world \<Rightarrow> 'e egl_world" where
  "drop_fd fd w = w\<lparr>ew_owned := ew_owned w - {fd}, ew_flags := (ew_flags w)(fd := None)\<rparr>"

section \<open>Types and entry points\<close>

text \<open>Displays and syncs are addresses, 0 the null pointer; an \<open>Attrib\<close> is an \<open>isize\<close> of 64 bits.\<close>

type_synonym egl_display = u64
type_synonym egl_sync = u64
type_synonym egl_boolean = u32
type_synonym egl_int = i32
type_synonym egl_attrib = i64

definition EGL_FALSE :: egl_boolean where "EGL_FALSE = 0"
definition EGL_NONE :: egl_int where "EGL_NONE = 0x3038"
definition EGL_SUCCESS :: egl_int where "EGL_SUCCESS = 0x3000"
definition SYNC_NATIVE_FENCE_ANDROID :: u32 where "SYNC_NATIVE_FENCE_ANDROID = 0x3144"
definition SYNC_NATIVE_FENCE_FD_ANDROID :: egl_int where "SYNC_NATIVE_FENCE_FD_ANDROID = 0x3145"
definition CONDITION_SATISFIED :: egl_int where "CONDITION_SATISFIED = 0x30F6"
definition TIMEOUT_EXPIRED :: egl_int where "TIMEOUT_EXPIRED = 0x30F5"
definition EGL_FOREVER :: u64 where "EGL_FOREVER = - 1"

type_synonym ('r, 'e) egl_call = "'e egl_world \<Rightarrow> 'r \<times> 'e egl_world"

datatype egl_sync_abi = Khr | Core15

record 'e khr_bundle =
  kb_create :: "(egl_display \<Rightarrow> u32 \<Rightarrow> egl_int list \<Rightarrow> (egl_sync, 'e) egl_call) option"
  kb_destroy :: "(egl_display \<Rightarrow> egl_sync \<Rightarrow> (egl_boolean, 'e) egl_call) option"
  kb_client_wait :: "(egl_display \<Rightarrow> egl_sync \<Rightarrow> egl_int \<Rightarrow> u64 \<Rightarrow> (egl_int, 'e) egl_call) option"
  kb_server_wait :: "(egl_display \<Rightarrow> egl_sync \<Rightarrow> egl_int \<Rightarrow> (egl_int, 'e) egl_call) option"

record 'e core_bundle =
  cb_create :: "(egl_display \<Rightarrow> u32 \<Rightarrow> egl_attrib list \<Rightarrow> (egl_sync, 'e) egl_call) option"
  cb_destroy :: "(egl_display \<Rightarrow> egl_sync \<Rightarrow> (egl_boolean, 'e) egl_call) option"
  cb_client_wait :: "(egl_display \<Rightarrow> egl_sync \<Rightarrow> egl_int \<Rightarrow> u64 \<Rightarrow> (egl_int, 'e) egl_call) option"
  cb_server_wait :: "(egl_display \<Rightarrow> egl_sync \<Rightarrow> egl_int \<Rightarrow> (egl_boolean, 'e) egl_call) option"

record 'e fence_loader =
  fl_khr :: "'e khr_bundle"
  fl_core :: "'e core_bundle"
  fl_duplicate :: "(egl_display \<Rightarrow> egl_sync \<Rightarrow> (egl_int, 'e) egl_call) option"
  fl_get_error :: "(egl_int, 'e) egl_call option"

datatype 'e selected_functions = Selected_khr "'e khr_bundle" | Selected_core "'e core_bundle"

record fence_capabilities =
  fc_producer_export :: bool
  fc_consumer_import :: bool
  fc_server_wait :: bool

record 'e fence_functions =
  ff_selected :: "'e selected_functions"
  ff_duplicate :: "(egl_display \<Rightarrow> egl_sync \<Rightarrow> (egl_int, 'e) egl_call) option"
  ff_get_error :: "(egl_int, 'e) egl_call option"
  ff_capabilities :: fence_capabilities

datatype sync_create_error = Create_unsupported | Create_failed egl_int
datatype fence_duplicate_error = Duplicate_unsupported | Duplicate_failed egl_int | Duplicate_cloexec
datatype server_wait_outcome = Wait_queued | Wait_unsupported | Wait_failed egl_int
datatype client_wait_outcome =
  Client_satisfied | Client_timeout | Client_unsupported | Client_failed egl_int egl_int

record sync_handle =
  sh_display :: egl_display
  sh_raw :: egl_sync

record destroy_error =
  de_handle :: sync_handle
  de_egl_error :: egl_int

section \<open>Extensions and selection\<close>

text \<open>\<open>split_ascii_whitespace\<close> of the standard library.\<close>

definition is_ascii_whitespace :: "char \<Rightarrow> bool" where
  "is_ascii_whitespace c \<longleftrightarrow> c \<in> {CHR '' '', CHR 0x09, CHR 0x0A, CHR 0x0C, CHR 0x0D}"

abbreviation in_token :: "char \<Rightarrow> bool" where
  "in_token c \<equiv> \<not> is_ascii_whitespace c"

function split_ascii_whitespace :: "string \<Rightarrow> string list" where
  "split_ascii_whitespace [] = []"
| "split_ascii_whitespace (c # cs) =
     (if is_ascii_whitespace c then split_ascii_whitespace cs
      else (c # takeWhile in_token cs) # split_ascii_whitespace (dropWhile in_token cs))"
  by pat_completeness auto
termination
  by (relation "measure length") (auto simp: less_Suc_eq_le length_dropWhile_le)

definition has_extension :: "string \<Rightarrow> string \<Rightarrow> bool" where
  "has_extension extensions wanted \<longleftrightarrow> wanted \<noteq> [] \<and> list_ex (\<lambda>token. token = wanted) (split_ascii_whitespace extensions)"

definition select_producer :: "string \<Rightarrow> 'e fence_loader \<Rightarrow> 'e fence_functions option" where
  "select_producer egl_extensions loader =
     (let extensions_ok = has_extension egl_extensions ''EGL_ANDROID_native_fence_sync'' \<and>
            has_extension egl_extensions ''EGL_KHR_fence_sync'';
          complete = kb_create (fl_khr loader) \<noteq> None \<and> kb_destroy (fl_khr loader) \<noteq> None \<and> fl_duplicate loader \<noteq> None in
      if extensions_ok \<and> complete
      then Some \<lparr>ff_selected = Selected_khr (fl_khr loader), ff_duplicate = fl_duplicate loader,
             ff_get_error = fl_get_error loader,
             ff_capabilities = \<lparr>fc_producer_export = True, fc_consumer_import = False, fc_server_wait = False\<rparr>\<rparr>
      else None)"

definition select_khr_consumer :: "bool \<Rightarrow> 'e fence_loader \<Rightarrow> 'e fence_functions" where
  "select_khr_consumer server_wait loader =
     \<lparr>ff_selected = Selected_khr (if server_wait then fl_khr loader else (fl_khr loader)\<lparr>kb_server_wait := None\<rparr>),
      ff_duplicate = fl_duplicate loader, ff_get_error = fl_get_error loader,
      ff_capabilities = \<lparr>fc_producer_export = False, fc_consumer_import = True, fc_server_wait = server_wait\<rparr>\<rparr>"

definition select_core_consumer :: "bool \<Rightarrow> 'e fence_loader \<Rightarrow> 'e fence_functions" where
  "select_core_consumer server_wait loader =
     \<lparr>ff_selected = Selected_core (if server_wait then fl_core loader else (fl_core loader)\<lparr>cb_server_wait := None\<rparr>),
      ff_duplicate = None, ff_get_error = fl_get_error loader,
      ff_capabilities = \<lparr>fc_producer_export = False, fc_consumer_import = True, fc_server_wait = server_wait\<rparr>\<rparr>"

definition select_consumer ::
  "string \<Rightarrow> string \<Rightarrow> bool \<Rightarrow> bool \<Rightarrow> 'e fence_loader \<Rightarrow> 'e fence_functions option" where
  "select_consumer egl_extensions gl_extensions egl_15_or_newer core_server_wait_supported loader =
     (let native = has_extension egl_extensions ''EGL_ANDROID_native_fence_sync'';
          khr_extensions = native \<and> has_extension egl_extensions ''EGL_KHR_fence_sync'';
          khr = fl_khr loader; core = fl_core loader;
          khr_complete = kb_create khr \<noteq> None \<and> kb_destroy khr \<noteq> None \<and> kb_client_wait khr \<noteq> None;
          core_complete = cb_create core \<noteq> None \<and> cb_destroy core \<noteq> None \<and> cb_client_wait core \<noteq> None in
      if khr_extensions \<and> khr_complete
      then Some (select_khr_consumer (kb_server_wait khr \<noteq> None \<and> has_extension egl_extensions ''EGL_KHR_wait_sync'' \<and>
             has_extension gl_extensions ''GL_OES_EGL_sync'') loader)
      else if native \<and> egl_15_or_newer \<and> core_complete
      then Some (select_core_consumer (cb_server_wait core \<noteq> None \<and> core_server_wait_supported) loader)
      else None)"

text \<open>
  \<open>load_with\<close> asks the caller for the address of each symbol, in this order; the transmute of an
  address to a function of the type of its slot is the parameter \<open>at\<close>.
\<close>

record 'e entry_points =
  ep_khr_create :: "u64 \<Rightarrow> egl_display \<Rightarrow> u32 \<Rightarrow> egl_int list \<Rightarrow> (egl_sync, 'e) egl_call"
  ep_core_create :: "u64 \<Rightarrow> egl_display \<Rightarrow> u32 \<Rightarrow> egl_attrib list \<Rightarrow> (egl_sync, 'e) egl_call"
  ep_destroy :: "u64 \<Rightarrow> egl_display \<Rightarrow> egl_sync \<Rightarrow> (egl_boolean, 'e) egl_call"
  ep_client_wait :: "u64 \<Rightarrow> egl_display \<Rightarrow> egl_sync \<Rightarrow> egl_int \<Rightarrow> u64 \<Rightarrow> (egl_int, 'e) egl_call"
  ep_khr_server_wait :: "u64 \<Rightarrow> egl_display \<Rightarrow> egl_sync \<Rightarrow> egl_int \<Rightarrow> (egl_int, 'e) egl_call"
  ep_core_server_wait :: "u64 \<Rightarrow> egl_display \<Rightarrow> egl_sync \<Rightarrow> egl_int \<Rightarrow> (egl_boolean, 'e) egl_call"
  ep_duplicate :: "u64 \<Rightarrow> egl_display \<Rightarrow> egl_sync \<Rightarrow> (egl_int, 'e) egl_call"
  ep_get_error :: "u64 \<Rightarrow> (egl_int, 'e) egl_call"

definition load_function :: "(u64 \<Rightarrow> 'f) \<Rightarrow> u64 \<Rightarrow> 'f option" where
  "load_function interpret address = (if address \<noteq> 0 then Some (interpret address) else None)"

definition load_with :: "'e entry_points \<Rightarrow> (string \<Rightarrow> 's \<Rightarrow> u64 \<times> 's) \<Rightarrow> 's \<Rightarrow> 'e fence_loader \<times> 's" where
  "load_with at load s =
     (let (khr_create, s) = load ''eglCreateSyncKHR'' s;
          (khr_destroy, s) = load ''eglDestroySyncKHR'' s;
          (khr_client_wait, s) = load ''eglClientWaitSyncKHR'' s;
          (khr_server_wait, s) = load ''eglWaitSyncKHR'' s;
          (create, s) = load ''eglCreateSync'' s;
          (destroy, s) = load ''eglDestroySync'' s;
          (client_wait, s) = load ''eglClientWaitSync'' s;
          (server_wait, s) = load ''eglWaitSync'' s;
          (duplicate, s) = load ''eglDupNativeFenceFDANDROID'' s;
          (get_error, s) = load ''eglGetError'' s in
      (\<lparr>fl_khr = \<lparr>kb_create = load_function (ep_khr_create at) khr_create,
            kb_destroy = load_function (ep_destroy at) khr_destroy,
            kb_client_wait = load_function (ep_client_wait at) khr_client_wait,
            kb_server_wait = load_function (ep_khr_server_wait at) khr_server_wait\<rparr>,
         fl_core = \<lparr>cb_create = load_function (ep_core_create at) create,
            cb_destroy = load_function (ep_destroy at) destroy,
            cb_client_wait = load_function (ep_client_wait at) client_wait,
            cb_server_wait = load_function (ep_core_server_wait at) server_wait\<rparr>,
         fl_duplicate = load_function (ep_duplicate at) duplicate,
         fl_get_error = load_function (ep_get_error at) get_error\<rparr>, s))"

definition sync_abi :: "'e fence_functions \<Rightarrow> egl_sync_abi" where
  "sync_abi f = (case ff_selected f of Selected_khr _ \<Rightarrow> Khr | Selected_core _ \<Rightarrow> Core15)"

section \<open>Fences\<close>

definition take_error :: "'e fence_functions \<Rightarrow> (egl_int, 'e) egl_call" where
  "take_error f w = (case ff_get_error f of Some get_error \<Rightarrow> get_error w | None \<Rightarrow> (EGL_SUCCESS, w))"

text \<open>The attributes of a creation, in the width of the chosen table.\<close>

definition khr_attributes :: "i32 option \<Rightarrow> egl_int list" where
  "khr_attributes fence_fd =
     (case fence_fd of Some fd \<Rightarrow> [SYNC_NATIVE_FENCE_FD_ANDROID, fd, EGL_NONE] | None \<Rightarrow> [EGL_NONE])"

definition core_attributes :: "i32 option \<Rightarrow> egl_attrib list" where
  "core_attributes fence_fd =
     (case fence_fd of
        Some fd \<Rightarrow> [scast SYNC_NATIVE_FENCE_FD_ANDROID, scast fd, scast EGL_NONE] | None \<Rightarrow> [scast EGL_NONE])"

definition create_entry :: "'e fence_functions \<Rightarrow> (egl_display \<Rightarrow> i32 option \<Rightarrow> (egl_sync, 'e) egl_call) option" where
  "create_entry f =
     (case ff_selected f of
        Selected_khr bundle \<Rightarrow> map_option (\<lambda>create display fence_fd.
          create display SYNC_NATIVE_FENCE_ANDROID (khr_attributes fence_fd)) (kb_create bundle)
      | Selected_core bundle \<Rightarrow> map_option (\<lambda>create display fence_fd.
          create display SYNC_NATIVE_FENCE_ANDROID (core_attributes fence_fd)) (cb_create bundle))"

definition create_sync ::
  "'e fence_functions \<Rightarrow> egl_display \<Rightarrow> i32 option \<Rightarrow> (sync_create_error + sync_handle, 'e) egl_call" where
  "create_sync f display fence_fd w =
     (case create_entry f of
        None \<Rightarrow> (Err Create_unsupported, w)
      | Some create \<Rightarrow>
          (case create display fence_fd w of (raw, w') \<Rightarrow>
             if raw = 0 then (case take_error f w' of (e, w'') \<Rightarrow> (Err (Create_failed e), w''))
             else (Ok \<lparr>sh_display = display, sh_raw = raw\<rparr>, w')))"

definition create_export_fence :: "'e fence_functions \<Rightarrow> egl_display \<Rightarrow> (sync_create_error + sync_handle, 'e) egl_call" where
  "create_export_fence f display w =
     (if \<not> fc_producer_export (ff_capabilities f) then (Err Create_unsupported, w) else create_sync f display None w)"


definition duplicate_fence :: "'e fence_functions \<Rightarrow> sync_handle \<Rightarrow> (fence_duplicate_error + i32, 'e) egl_call" where
  "duplicate_fence f h w =
     (if \<not> fc_producer_export (ff_capabilities f) then (Err Duplicate_unsupported, w)
      else case ff_duplicate f of
        None \<Rightarrow> (Err Duplicate_unsupported, w)
      | Some duplicate \<Rightarrow>
          (case duplicate (sh_display h) (sh_raw h) w of (fd, w1) \<Rightarrow>
             if is_negative fd then (case take_error f w1 of (e, w2) \<Rightarrow> (Err (Duplicate_failed e), w2))
             else (case fcntl_getfd fd (own_fd fd w1) of (flags, w2) \<Rightarrow>
               if is_negative flags then (Err Duplicate_cloexec, drop_fd fd w2)
               else (case fcntl_setfd fd (flags OR FD_CLOEXEC) w2 of (r, w3) \<Rightarrow>
                 if is_negative r then (Err Duplicate_cloexec, drop_fd fd w3) else (Ok fd, w3)))))"

definition destroy_entry :: "'e fence_functions \<Rightarrow> (egl_display \<Rightarrow> egl_sync \<Rightarrow> (egl_boolean, 'e) egl_call) option" where
  "destroy_entry f =
     (case ff_selected f of Selected_khr bundle \<Rightarrow> kb_destroy bundle | Selected_core bundle \<Rightarrow> cb_destroy bundle)"

definition destroy_sync :: "'e fence_functions \<Rightarrow> sync_handle \<Rightarrow> (destroy_error + unit, 'e) egl_call" where
  "destroy_sync f h w =
     (case (case destroy_entry f of
         Some destroy \<Rightarrow> (case destroy (sh_display h) (sh_raw h) w of (r, w') \<Rightarrow> (r \<noteq> EGL_FALSE, w'))
       | None \<Rightarrow> (False, w)) of (destroyed, w') \<Rightarrow>
       if destroyed then (Ok (), w')
       else (case take_error f w' of (e, w'') \<Rightarrow> (Err \<lparr>de_handle = h, de_egl_error = e\<rparr>, w'')))"

text \<open>The two tables differ in the type of the answer of a server wait.\<close>

definition server_wait_entry :: "'e fence_functions \<Rightarrow> (egl_display \<Rightarrow> egl_sync \<Rightarrow> (bool, 'e) egl_call) option" where
  "server_wait_entry f =
     (case ff_selected f of
        Selected_khr bundle \<Rightarrow> map_option (\<lambda>wait display sync w. apfst (\<lambda>r. r \<noteq> ucast EGL_FALSE) (wait display sync 0 w))
          (kb_server_wait bundle)
      | Selected_core bundle \<Rightarrow> map_option (\<lambda>wait display sync w. apfst (\<lambda>r. r \<noteq> EGL_FALSE) (wait display sync 0 w))
          (cb_server_wait bundle))"

definition wait_server :: "'e fence_functions \<Rightarrow> sync_handle \<Rightarrow> (server_wait_outcome, 'e) egl_call" where
  "wait_server f h w =
     (if \<not> fc_server_wait (ff_capabilities f) then (Wait_unsupported, w)
      else case server_wait_entry f of
        None \<Rightarrow> (Wait_unsupported, w)
      | Some wait \<Rightarrow>
          (case wait (sh_display h) (sh_raw h) w of (succeeded, w') \<Rightarrow>
             if succeeded then (Wait_queued, w')
             else (case take_error f w' of (e, w'') \<Rightarrow> (Wait_failed e, w''))))"

text \<open>\<open>std::time::Duration\<close>: seconds and less than a second of nanoseconds.\<close>

record duration =
  du_secs :: u64
  du_nanos :: u32

definition duration_ok :: "duration \<Rightarrow> bool" where
  "duration_ok t \<longleftrightarrow> unat (du_nanos t) < 10 ^ 9"

definition as_nanos :: "duration \<Rightarrow> nat" where
  "as_nanos t = unat (du_secs t) * 10 ^ 9 + unat (du_nanos t)"

definition as_millis :: "duration \<Rightarrow> nat" where
  "as_millis t = unat (du_secs t) * 1000 + unat (du_nanos t) div 10 ^ 6"

definition client_wait_entry ::
  "'e fence_functions \<Rightarrow> (egl_display \<Rightarrow> egl_sync \<Rightarrow> egl_int \<Rightarrow> u64 \<Rightarrow> (egl_int, 'e) egl_call) option" where
  "client_wait_entry f =
     (case ff_selected f of Selected_khr bundle \<Rightarrow> kb_client_wait bundle | Selected_core bundle \<Rightarrow> cb_client_wait bundle)"

definition wait_nanos :: "duration \<Rightarrow> u64" where
  "wait_nanos timeout = word_of_nat (min (as_nanos timeout) (unat (EGL_FOREVER - 1)))"

definition wait_client :: "'e fence_functions \<Rightarrow> sync_handle \<Rightarrow> duration \<Rightarrow> (client_wait_outcome, 'e) egl_call" where
  "wait_client f h timeout w =
     (case client_wait_entry f of
        None \<Rightarrow> (Client_unsupported, w)
      | Some wait \<Rightarrow>
          (case wait (sh_display h) (sh_raw h) 0 (wait_nanos timeout) w of (status, w') \<Rightarrow>
             if status = CONDITION_SATISFIED then (Client_satisfied, w')
             else if status = TIMEOUT_EXPIRED then (Client_timeout, w')
             else (case take_error f w' of (e, w'') \<Rightarrow> (Client_failed status e, w''))))"

section \<open>Polling\<close>

definition POLLIN :: "16 word" where "POLLIN = 1"
definition POLLERR :: "16 word" where "POLLERR = 8"
definition POLLNVAL :: "16 word" where "POLLNVAL = 0x20"

datatype poll_error = Poll_os | Poll_revents "16 word" | Poll_unexpected "16 word"
datatype poll_outcome = Poll_signaled | Poll_timeout | Poll_error poll_error

definition poll_timeout :: "duration \<Rightarrow> i32" where
  "poll_timeout timeout = word_of_nat (min (as_millis timeout) (2 ^ 31 - 1))"

definition poll_sync_file :: "(i32 \<Rightarrow> 16 word \<Rightarrow> i32 \<Rightarrow> i32 \<times> 16 word) \<Rightarrow> i32 \<Rightarrow> duration \<Rightarrow> poll_outcome" where
  "poll_sync_file poll fence timeout =
     (case poll fence POLLIN (poll_timeout timeout) of (result, revents) \<Rightarrow>
        if is_negative result then Poll_error Poll_os
        else if result = 0 then Poll_timeout
        else if revents AND (POLLERR OR POLLNVAL) \<noteq> 0 then Poll_error (Poll_revents revents)
        else if revents AND POLLIN \<noteq> 0 then Poll_signaled
        else Poll_error (Poll_unexpected revents))"

section \<open>Tokens\<close>

text \<open>A token stands between whitespace or the ends of the string.\<close>

definition token_of :: "string \<Rightarrow> string \<Rightarrow> bool" where
  "token_of wanted s \<longleftrightarrow> wanted \<noteq> [] \<and> list_all in_token wanted \<and>
     (\<exists>pre post. s = pre @ wanted @ post \<and> (pre = [] \<or> is_ascii_whitespace (last pre)) \<and>
        (post = [] \<or> is_ascii_whitespace (hd post)))"

lemma token_ofI:
  "s = pre @ wanted @ post \<Longrightarrow> wanted \<noteq> [] \<Longrightarrow> list_all in_token wanted \<Longrightarrow> pre = [] \<or> is_ascii_whitespace (last pre) \<Longrightarrow>
   post = [] \<or> is_ascii_whitespace (hd post) \<Longrightarrow> token_of wanted s"
  unfolding token_of_def by blast

lemma token_of_Nil: "\<not> token_of wanted []"
  by (simp add: token_of_def)

lemma token_of_space:
  assumes "is_ascii_whitespace c"
  shows "token_of wanted (c # cs) \<longleftrightarrow> token_of wanted cs"
proof
  assume "token_of wanted (c # cs)"
  then obtain pre post where s: "c # cs = pre @ wanted @ post" "wanted \<noteq> []" "list_all in_token wanted"
      "pre = [] \<or> is_ascii_whitespace (last pre)" "post = [] \<or> is_ascii_whitespace (hd post)"
    by (auto simp: token_of_def)
  have "pre \<noteq> []"
  proof
    assume "pre = []"
    then have "in_token c" using s(1-3) by (cases wanted) auto
    then show False using assms by simp
  qed
  then obtain pre' where pre: "pre = c # pre'" using s(1) by (cases pre) auto
  have "pre' = [] \<or> is_ascii_whitespace (last pre')" using s(4) by (cases "pre' = []") (simp_all add: pre)
  then show "token_of wanted cs" using s by (intro token_ofI [of cs pre' wanted post]) (simp_all add: pre)
next
  assume "token_of wanted cs"
  then obtain pre post where "cs = pre @ wanted @ post" "wanted \<noteq> []" "list_all in_token wanted"
      "pre = [] \<or> is_ascii_whitespace (last pre)" "post = [] \<or> is_ascii_whitespace (hd post)"
    by (auto simp: token_of_def)
  then show "token_of wanted (c # cs)"
    using assms by (intro token_ofI [of _ "c # pre" _ post]) auto
qed

lemma token_prefix:
  assumes "list_all in_token t" and "list_all in_token wanted" and "t @ rest = wanted @ post"
    and "rest = [] \<or> is_ascii_whitespace (hd rest)" and "post = [] \<or> is_ascii_whitespace (hd post)"
  shows "t = wanted"
  using assms
proof (induction t arbitrary: wanted)
  case Nil
  then show ?case by (cases wanted) auto
next
  case (Cons c t)
  then show ?case by (cases wanted) auto
qed

lemma token_of_token:
  assumes t: "list_all in_token t" "t \<noteq> []" and rest: "rest = [] \<or> is_ascii_whitespace (hd rest)"
  shows "token_of wanted (t @ rest) \<longleftrightarrow> wanted = t \<or> token_of wanted rest"
proof
  assume "token_of wanted (t @ rest)"
  then obtain pre post where s: "t @ rest = pre @ wanted @ post" "wanted \<noteq> []" "list_all in_token wanted"
      "pre = [] \<or> is_ascii_whitespace (last pre)" "post = [] \<or> is_ascii_whitespace (hd post)"
    by (auto simp: token_of_def)
  show "wanted = t \<or> token_of wanted rest"
  proof (cases "pre = []")
    case True
    then show ?thesis using token_prefix [OF t(1) s(3) _ rest s(5)] s(1) by simp
  next
    case False
    consider us where "pre = t @ us" "rest = us @ wanted @ post" | us where "t = pre @ us" "us @ rest = wanted @ post"
      using s(1) by (auto simp: append_eq_append_conv2)
    then show ?thesis
    proof cases
      case 1
      have "us = [] \<or> is_ascii_whitespace (last us)" using 1(1) s(4) False by (cases "us = []") simp_all
      then show ?thesis using token_ofI [OF 1(2) s(2,3) _ s(5)] by simp
    next
      case 2
      have "in_token (last pre)" using t(1) 2(1) False by (auto simp: list_all_iff)
      then show ?thesis using s(4) False by simp
    qed
  qed
next
  assume "wanted = t \<or> token_of wanted rest"
  then show "token_of wanted (t @ rest)"
  proof
    assume "wanted = t"
    then show ?thesis using t rest by (intro token_ofI [of _ "[]" _ rest]) simp_all
  next
    assume "token_of wanted rest"
    then obtain pre post where r: "rest = pre @ wanted @ post" "wanted \<noteq> []" "list_all in_token wanted"
        "pre = [] \<or> is_ascii_whitespace (last pre)" "post = [] \<or> is_ascii_whitespace (hd post)"
      by (auto simp: token_of_def)
    have "pre \<noteq> []"
    proof
      assume "pre = []"
      then show False using r(1-3) rest by (cases wanted) auto
    qed
    then show ?thesis using r by (intro token_ofI [of _ "t @ pre" _ post]) simp_all
  qed
qed

lemma split_tokens: "wanted \<in> set (split_ascii_whitespace s) \<longleftrightarrow> token_of wanted s"
proof (induction s rule: split_ascii_whitespace.induct)
  case 1
  then show ?case by (simp add: token_of_Nil)
next
  case (2 c cs)
  show ?case
  proof (cases "is_ascii_whitespace c")
    case True
    then show ?thesis using 2(1) by (simp add: token_of_space)
  next
    case False
    let ?t = "c # takeWhile in_token cs" and ?rest = "dropWhile in_token cs"
    have "list_all in_token ?t" using False set_takeWhileD [of _ in_token cs] by (auto simp: list_all_iff)
    moreover have "?rest = [] \<or> is_ascii_whitespace (hd ?rest)" using hd_dropWhile [of in_token cs] by auto
    ultimately have "token_of wanted (?t @ ?rest) \<longleftrightarrow> wanted = ?t \<or> token_of wanted ?rest"
      by (intro token_of_token) simp_all
    then show ?thesis using 2(2) [OF False] False by simp
  qed
qed

section \<open>Selected tables\<close>

lemma load_function_eq_None: "load_function interpret address = None \<longleftrightarrow> address = 0"
  by (simp add: load_function_def)

text \<open>With a loader that keeps no state, a consumer of the core table needs the three symbols of the core.\<close>

lemma load_with_core_complete:
  "(cb_create (fl_core l) \<noteq> None \<and> cb_destroy (fl_core l) \<noteq> None \<and> cb_client_wait (fl_core l) \<noteq> None) \<longleftrightarrow>
     address ''eglCreateSync'' \<noteq> 0 \<and> address ''eglDestroySync'' \<noteq> 0 \<and> address ''eglClientWaitSync'' \<noteq> 0"
  if "load_with at (\<lambda>name s. (address name, s)) () = (l, u)"
proof -
  have "l = fst (load_with at (\<lambda>name s. (address name, s)) ())" using that by simp
  then show ?thesis by (simp only: load_with_def Let_def prod.case fst_conv fence_loader.simps core_bundle.simps load_function_eq_None)
qed

lemma select_producer_Some:
  "select_producer egl loader = Some f \<Longrightarrow>
   ff_selected f = Selected_khr (fl_khr loader) \<and> ff_duplicate f = fl_duplicate loader \<and> ff_get_error f = fl_get_error loader \<and>
   ff_capabilities f = \<lparr>fc_producer_export = True, fc_consumer_import = False, fc_server_wait = False\<rparr> \<and>
   has_extension egl ''EGL_ANDROID_native_fence_sync'' \<and> has_extension egl ''EGL_KHR_fence_sync'' \<and>
   kb_create (fl_khr loader) \<noteq> None \<and> kb_destroy (fl_khr loader) \<noteq> None \<and> fl_duplicate loader \<noteq> None"
  by (simp only: select_producer_def Let_def split: if_splits) auto

lemma select_consumer_cases:
  assumes "select_consumer egl gl v15 core_wait loader = Some f"
  obtains b where "f = select_khr_consumer b loader" "has_extension egl ''EGL_ANDROID_native_fence_sync''"
      "has_extension egl ''EGL_KHR_fence_sync''" "kb_create (fl_khr loader) \<noteq> None" "kb_destroy (fl_khr loader) \<noteq> None"
      "kb_client_wait (fl_khr loader) \<noteq> None" "b \<longrightarrow> kb_server_wait (fl_khr loader) \<noteq> None"
  | b where "f = select_core_consumer b loader" "has_extension egl ''EGL_ANDROID_native_fence_sync''" "v15"
      "cb_create (fl_core loader) \<noteq> None" "cb_destroy (fl_core loader) \<noteq> None"
      "cb_client_wait (fl_core loader) \<noteq> None" "b \<longrightarrow> cb_server_wait (fl_core loader) \<noteq> None"
  using assms unfolding select_consumer_def Let_def by (auto split: if_splits)

section \<open>Properties\<close>

text \<open>C35: an extension is found exactly when it is a whole token of the extension string: delimited by
  ASCII whitespace or the ends, so that neither a prefix nor a suffix of a longer name is accepted.\<close>

theorem has_extension_exact:
  "has_extension extensions wanted \<longleftrightarrow>
     wanted \<noteq> [] \<and> list_all in_token wanted \<and>
     (\<exists>pre post. extensions = pre @ wanted @ post \<and> (pre = [] \<or> is_ascii_whitespace (last pre)) \<and>
        (post = [] \<or> is_ascii_whitespace (hd post)))"
  using split_tokens [of wanted extensions] unfolding has_extension_def token_of_def by (auto simp: list_ex_iff)

text \<open>C32: a selected table is complete for what it offers, and never mixes the two ABIs. Its creation and
  destruction exist, a table for export is of the KHR ABI and can duplicate, one for import can wait on
  the client, and the capability of a server wait is that of its table; so no operation a table is
  selected for answers that it is unsupported.\<close>

theorem selected_tables_complete:
  assumes "select_producer egl loader = Some f \<or> select_consumer egl gl egl_15 core_wait loader = Some f"
  shows "has_extension egl ''EGL_ANDROID_native_fence_sync'' \<and> create_entry f \<noteq> None \<and> destroy_entry f \<noteq> None \<and>
    (fc_producer_export (ff_capabilities f) \<noteq> fc_consumer_import (ff_capabilities f)) \<and>
    (fc_producer_export (ff_capabilities f) \<longrightarrow> sync_abi f = Khr \<and> ff_duplicate f \<noteq> None) \<and>
    (fc_consumer_import (ff_capabilities f) \<longrightarrow> client_wait_entry f \<noteq> None) \<and>
    (fc_server_wait (ff_capabilities f) \<longrightarrow> server_wait_entry f \<noteq> None) \<and>
    (case sync_abi f of
       Khr \<Rightarrow> has_extension egl ''EGL_KHR_fence_sync'' \<and>
         (ff_selected f = Selected_khr (fl_khr loader) \<or> ff_selected f = Selected_khr ((fl_khr loader)\<lparr>kb_server_wait := None\<rparr>))
     | Core15 \<Rightarrow> egl_15 \<and>
         (ff_selected f = Selected_core (fl_core loader) \<or> ff_selected f = Selected_core ((fl_core loader)\<lparr>cb_server_wait := None\<rparr>)))"
  using assms
proof
  assume "select_producer egl loader = Some f"
  from select_producer_Some [OF this] show ?thesis
    by (simp add: create_entry_def destroy_entry_def sync_abi_def)
next
  assume "select_consumer egl gl egl_15 core_wait loader = Some f"
  then show ?thesis
    by (cases rule: select_consumer_cases)
      (simp_all add: select_khr_consumer_def select_core_consumer_def create_entry_def destroy_entry_def sync_abi_def
        client_wait_entry_def server_wait_entry_def)
qed


text \<open>What EGL documents: a duplicate is a new descriptor of the caller; reading the error changes none.\<close>

definition duplicate_documented :: "'e fence_functions \<Rightarrow> bool" where
  "duplicate_documented f \<longleftrightarrow>
     (\<forall>duplicate. ff_duplicate f = Some duplicate \<longrightarrow> (\<forall>display sync w fd w'. duplicate display sync w = (fd, w') \<longrightarrow>
        ew_owned w' = ew_owned w \<and>
        (if is_negative fd then ew_flags w' = ew_flags w
         else ew_flags w fd = None \<and> fd \<notin> ew_owned w \<and>
           (\<exists>flags. \<not> is_negative flags \<and> ew_flags w' = (ew_flags w)(fd \<mapsto> flags))))) \<and>
     (\<forall>w. ew_owned (snd (take_error f w)) = ew_owned w \<and> ew_flags (snd (take_error f w)) = ew_flags w)"

lemma duplicate_documentedD:
  assumes "duplicate_documented f" and "ff_duplicate f = Some duplicate" and "duplicate display sync w = (fd, w1)"
  shows "ew_owned w1 = ew_owned w" and "if is_negative fd then ew_flags w1 = ew_flags w
      else ew_flags w fd = None \<and> fd \<notin> ew_owned w \<and>
        (\<exists>flags. \<not> is_negative flags \<and> ew_flags w1 = (ew_flags w)(fd \<mapsto> flags))"
    and "ew_owned (snd (take_error f w1)) = ew_owned w1" and "ew_flags (snd (take_error f w1)) = ew_flags w1"
  using assms unfolding duplicate_documented_def by blast+

lemma fcntl_getfd_result:
  "fcntl_getfd fd w = (a, w') \<Longrightarrow>
   ew_owned w' = ew_owned w \<and> ew_flags w' = ew_flags w \<and> (is_negative a \<or> ew_flags w fd = Some a)"
  by (auto simp: fcntl_getfd_def is_negative_def split: option.splits)

lemma fcntl_setfd_result:
  "fcntl_setfd fd flags w = (b, w') \<Longrightarrow>
   ew_owned w' = ew_owned w \<and> (if is_negative b then ew_flags w' = ew_flags w else ew_flags w' = (ew_flags w)(fd \<mapsto> flags))"
  by (auto simp: fcntl_setfd_def is_negative_def split: if_splits)

text \<open>C34: a duplicated fence is closed on exec and owned once, or not there at all. On success the caller owns
  one new descriptor whose close-on-exec flag is set and whose other flags are kept; on every error,
  of EGL or of either \<open>fcntl\<close>, the descriptors are those of before.\<close>

theorem duplicated_fence_owned_exactly:
  assumes "duplicate_documented f" and "duplicate_fence f h w = (r, w')"
  shows "case r of
      Inr fd \<Rightarrow> fd \<notin> ew_owned w \<and> ew_owned w' = insert fd (ew_owned w) \<and> ew_flags w fd = None \<and>
        (\<exists>duplicate w1 flags. ff_duplicate f = Some duplicate \<and> duplicate (sh_display h) (sh_raw h) w = (fd, w1) \<and>
           ew_flags w1 fd = Some flags \<and> ew_flags w' = (ew_flags w)(fd \<mapsto> flags OR FD_CLOEXEC))
    | Inl _ \<Rightarrow> ew_owned w' = ew_owned w \<and> ew_flags w' = ew_flags w"
proof (cases "fc_producer_export (ff_capabilities f) \<and> ff_duplicate f \<noteq> None")
  case False
  then show ?thesis using assms(2) by (cases "ff_duplicate f") (auto simp: duplicate_fence_def split: if_splits)
next
  case True
  then obtain duplicate where d: "ff_duplicate f = Some duplicate" by blast
  obtain fd w1 where w1: "duplicate (sh_display h) (sh_raw h) w = (fd, w1)" by fastforce
  have new: "ew_owned w1 = ew_owned w" "if is_negative fd then ew_flags w1 = ew_flags w
      else ew_flags w fd = None \<and> fd \<notin> ew_owned w \<and>
        (\<exists>flags. \<not> is_negative flags \<and> ew_flags w1 = (ew_flags w)(fd \<mapsto> flags))"
    and err: "ew_owned (snd (take_error f w1)) = ew_owned w1" "ew_flags (snd (take_error f w1)) = ew_flags w1"
    using duplicate_documentedD [OF assms(1) d w1] by blast+
  note run = assms(2) [unfolded duplicate_fence_def d w1 option.case prod.case if_not_P [OF not_not [THEN iffD2, OF conjunct1 [OF True]]]]
  show ?thesis
  proof (cases "is_negative fd")
    case True
    then show ?thesis using run new err by (auto split: prod.splits)
  next
    case False
    then obtain flags where fl: "ew_flags w fd = None" "fd \<notin> ew_owned w" "\<not> is_negative flags"
        "ew_flags w1 = (ew_flags w)(fd \<mapsto> flags)" using new(2) by auto
    obtain a w2 where w2: "fcntl_getfd fd (own_fd fd w1) = (a, w2)" by fastforce
    have o2: "ew_owned w2 = insert fd (ew_owned w)" "ew_flags w2 = (ew_flags w)(fd \<mapsto> flags)" "is_negative a \<or> a = flags"
      using fcntl_getfd_result [OF w2] fl new(1) by (auto simp: own_fd_def)
    obtain b w3 where w3: "fcntl_setfd fd (a OR FD_CLOEXEC) w2 = (b, w3)" by fastforce
    have o3: "ew_owned w3 = insert fd (ew_owned w)"
        "if is_negative b then ew_flags w3 = ew_flags w2 else ew_flags w3 = (ew_flags w2)(fd \<mapsto> a OR FD_CLOEXEC)"
      using fcntl_setfd_result [OF w3] o2(1) by simp_all
    have undo: "insert fd (ew_owned w) - {fd} = ew_owned w" "(ew_flags w)(fd := None) = ew_flags w"
      using fl by (simp_all add: fun_upd_idem)
    have r: "r = Inl Duplicate_cloexec \<and> (w' = drop_fd fd w2 \<or> w' = drop_fd fd w3 \<and> is_negative b) \<or>
        r = Inr fd \<and> w' = w3 \<and> \<not> is_negative a \<and> \<not> is_negative b"
      using run False by (auto simp: w2 w3 split: if_splits)
    have "ew_flags w1 fd = Some flags" using fl(4) by simp
    then show ?thesis using r o2 o3 fl(1,2) d w1 undo by (elim disjE conjE) (auto simp: drop_fd_def)
  qed
qed

text \<open>No wait is endless. Whatever the duration, a client wait gets its nanoseconds or the largest finite
  time, never the value that means forever, and a poll gets its milliseconds or the largest
  positive number, never a negative one, which would mean forever too.\<close>

lemma waits_are_finite:
  "unat (wait_nanos timeout) = min (as_nanos timeout) (2 ^ 64 - 2) \<and> wait_nanos timeout < EGL_FOREVER \<and>
   \<not> is_negative (poll_timeout timeout) \<and> unat (poll_timeout timeout) = min (as_millis timeout) (2 ^ 31 - 1)"
proof -
  have unat_forever: "unat EGL_FOREVER = 2 ^ 64 - 1"
    by (simp add: EGL_FOREVER_def unsigned_minus_1_eq_mask mask_eq_exp_minus_1)
  then have "1 \<le> EGL_FOREVER" by (simp add: word_le_nat_alt)
  then have forever: "unat (EGL_FOREVER - 1) = 2 ^ 64 - 2" using unat_forever by (simp add: unat_sub)
  have nanos: "unat (wait_nanos timeout) = min (as_nanos timeout) (2 ^ 64 - 2)"
    unfolding wait_nanos_def forever by (simp add: unsigned_of_nat take_bit_nat_eq_self min_def)
  have "wait_nanos timeout < EGL_FOREVER" using nanos unat_forever by (simp add: word_less_nat_alt)
  moreover have poll: "unat (poll_timeout timeout) = min (as_millis timeout) (2 ^ 31 - 1)"
    unfolding poll_timeout_def by (simp add: unsigned_of_nat take_bit_nat_eq_self min_def)
  moreover have "\<not> is_negative (poll_timeout timeout)" using poll by (intro small_not_negative) simp
  ultimately show ?thesis using nanos by blast
qed

text \<open>An EGL that hands out descriptor 9 when it is free.\<close>

definition sample_loader :: "unit fence_loader" where
  "sample_loader =
     \<lparr>fl_khr = \<lparr>kb_create = Some (\<lambda>_ _ attributes w. (if 2 < length attributes \<and> attributes ! 1 = 4 then 0 else 7, w)),
        kb_destroy = Some (\<lambda>_ _ w. (1, w)), kb_client_wait = Some (\<lambda>_ _ _ _ w. (CONDITION_SATISFIED, w)),
        kb_server_wait = Some (\<lambda>_ _ _ w. (1, w))\<rparr>,
      fl_core = \<lparr>cb_create = None, cb_destroy = None, cb_client_wait = None, cb_server_wait = None\<rparr>,
      fl_duplicate = Some (\<lambda>_ _ w. if ew_flags w 9 = None \<and> 9 \<notin> ew_owned w
        then (9, w\<lparr>ew_flags := (ew_flags w)(9 \<mapsto> 2)\<rparr>) else (- 1, w)),
      fl_get_error = Some (\<lambda>w. (0x300C, w))\<rparr>"

definition sample_fences :: "unit fence_functions" where
  "sample_fences = \<lparr>ff_selected = Selected_khr (fl_khr sample_loader), ff_duplicate = fl_duplicate sample_loader,
     ff_get_error = fl_get_error sample_loader,
     ff_capabilities = \<lparr>fc_producer_export = True, fc_consumer_import = False, fc_server_wait = False\<rparr>\<rparr>"

definition sample_world :: "bool list \<Rightarrow> unit egl_world" where
  "sample_world fails = \<lparr>ew_flags = Map.empty(4 \<mapsto> 0), ew_owned = {4}, ew_fcntl_fails = fails, ew_egl = ()\<rparr>"

lemma sample_producer:
  "select_producer ''EGL_KHR_fence_sync EGL_ANDROID_native_fence_sync'' sample_loader = Some sample_fences"
  by (simp add: select_producer_def has_extension_def is_ascii_whitespace_def sample_loader_def sample_fences_def)

lemma sample_consumer:
  "select_consumer ''EGL_KHR_fence_sync EGL_ANDROID_native_fence_sync'' ''GL_OES_EGL_sync'' False False sample_loader =
     Some (select_khr_consumer False sample_loader)"
  by (simp add: select_consumer_def has_extension_def is_ascii_whitespace_def sample_loader_def)

lemma sample_documented: "duplicate_documented sample_fences"
proof -
  have "\<not> is_negative (2 :: i32)" "is_negative (- 1 :: i32)" "\<not> is_negative (9 :: i32)" by (simp_all add: is_negative_def)
  then show ?thesis
    unfolding duplicate_documented_def sample_fences_def sample_loader_def take_error_def
    by (auto split: if_splits)
qed

theorem selected_tables_complete_witness:
  "create_entry (select_khr_consumer False sample_loader) \<noteq> None \<and>
   client_wait_entry (select_khr_consumer False sample_loader) \<noteq> None"
  using selected_tables_complete [OF disjI2 [OF sample_consumer]] by (simp add: select_khr_consumer_def)


theorem duplicated_fence_owned_exactly_witness:
  "ew_owned (snd (duplicate_fence sample_fences \<lparr>sh_display = 3, sh_raw = 7\<rparr> (sample_world [False]))) = {9, 4} \<and>
   ew_owned (snd (duplicate_fence sample_fences \<lparr>sh_display = 3, sh_raw = 7\<rparr> (sample_world [False, True]))) = {4}"
proof -
  let ?h = "\<lparr>sh_display = 3, sh_raw = 7\<rparr>"
  note run = duplicate_fence_def sample_fences_def sample_loader_def sample_world_def fcntl_getfd_def fcntl_setfd_def
    own_fd_def drop_fd_def next_fails_def is_negative_def FD_CLOEXEC_def
  have ok: "duplicate_fence sample_fences ?h (sample_world [False]) =
      (Ok 9, (sample_world [])\<lparr>ew_owned := {9, 4}, ew_flags := [4 \<mapsto> 0, 9 \<mapsto> 3]\<rparr>)"
    by (simp add: run)
  have err: "fst (duplicate_fence sample_fences ?h (sample_world [False, True])) = Err Duplicate_cloexec"
    by (simp add: run)
  show ?thesis
    using duplicated_fence_owned_exactly [OF sample_documented ok]
      duplicated_fence_owned_exactly [OF sample_documented prod.collapse [symmetric], of ?h "sample_world [False, True]"]
    by (simp add: ok err) (simp add: sample_world_def)
qed

end
