(* ===== verification/Spec2Isabelle.thy ===== *)
theory Spec2Isabelle
  imports Lease_Transfer Frame_Cycle Sync_Properties Importer_Teardown Egl_Fence
begin

text \<open>
  A model of \<open>src/rust/video-interop\<close>, the Rust half of \<open>video_interop\<close>: frames made of DMA-BUF
  descriptors move between BEAM processes and GPU renderers without a copy. Paths below are under
  \<open>src/rust/video-interop/src\<close>.

  The program. A frame (\<open>frame.rs\<close>) is a descriptor of DMA-BUFs (\<open>dmabuf.rs\<close>) or a binary, with a
  visible rectangle (\<open>geometry.rs\<close>), a modifier per object (\<open>modifier.rs\<close>) and an acquire
  synchronisation (\<open>sync_file.rs\<close>); \<open>format.rs\<close> is the schema of a stream of frames. A consumer
  duplicates the descriptors (\<open>fd.rs\<close>) and owes the producer a release message, which a dispatcher
  thread sends (\<open>beam.rs\<close>). A renderer imports the descriptors on its Vulkan device
  (\<open>vulkan/identity.rs\<close>, \<open>vulkan/capability.rs\<close>, \<open>vulkan/mod.rs\<close>): it samples the producer's memory
  directly, or stages it through a copy or a compute shader into an image of a bounded pool. A lane
  (\<open>vulkan/sync.rs\<close>) submits that work, hands the image to the renderer and takes it back.

  The theories, in the order they build on each other.

  \<^item> \<open>Prelude\<close>: Rust's integers as words with their checked operations, results as sums.
  \<^item> \<open>Errors\<close> (\<open>error.rs\<close>, \<open>vulkan/error.rs\<close>), \<open>Geometry\<close> (\<open>geometry.rs\<close>, \<open>modifier.rs\<close>),
    \<open>Format_Schema\<close> (\<open>format.rs\<close>), \<open>Fd_Table\<close> (\<open>fd.rs\<close>), \<open>DmaBuf\<close> (\<open>dmabuf.rs\<close>,
    \<open>vulkan/identity.rs\<close>), \<open>Frame\<close> (\<open>frame.rs\<close>, \<open>sync_file.rs\<close>): each validation accepts exactly its
    schema; term codecs round-trip and are bounded; a duplication owns exactly what it returns and closes
    what it opened when it fails.
  \<^item> \<open>Dispatcher\<close> (\<open>beam.rs\<close>): the dispatcher as a step relation of any number of threads over its mutex,
    condition variables and queue. It never aborts, sends in order, and a finished close has
    delivered every message; a measure shows that close cannot be kept from finishing.
    \<open>Lease_Transfer\<close>: a frame is prepared, claimed, released or abandoned; its release message is
    sent exactly once.
  \<^item> \<open>Nv12_Layout\<close> (\<open>vulkan/mod.rs\<close>): the checks of a plane layout, against byte-wise specifications; the
    addresses that any invocation of \<open>vulkan/nv12.comp\<close>, \<open>vulkan/nv12_planes.comp\<close> or
    \<open>vulkan/packed_to_bgra.comp\<close> reads stay in the source buffer.
  \<^item> \<open>Vulkan_Capability\<close> (\<open>vulkan/capability.rs\<close>, \<open>vulkan/mod.rs\<close>): the inventory of import strategies
    from the answers of the device, validation and resolution of capabilities.
  \<^item> \<open>Exclusive_Lease\<close>, \<open>Source_Cache\<close>, \<open>Output_Pool\<close> (\<open>vulkan/mod.rs\<close>): the tables of leases shared by
    the two source caches and the two output pools, their locked sections, and the interleavings of
    claims, releases and evictions: one holder at a time, no eviction of what is in use.
  \<^item> \<open>Device_Resources\<close> (\<open>vulkan/mod.rs\<close>): every creation and destruction of Vulkan objects, on a device
    that records live objects, references between them and faults. \<open>Resource_Safety\<close> and
    \<open>Owned_Resources\<close>: each creation leaves what its handle owns, or nothing when it fails; each drop
    removes exactly that.
  \<^item> \<open>Held_Resources\<close>, \<open>Resource_Ledger\<close>, \<open>Claim_Effects\<close>: many handles on one device; what the caches
    and pools do to the resources behind their entries; what one claim changes for the others.
  \<^item> \<open>Importer\<close> (\<open>vulkan/mod.rs\<close>): \<open>VulkanDmaBufImporter\<close> and \<open>ImportedDmaBufImage\<close>, composed of all of the
    above. \<open>Device_Ledger\<close>, \<open>Importer_Safety\<close>, \<open>Importer_Life\<close>, \<open>Importer_Start\<close>: the invariant of an
    importer and of the images of its client, kept by every operation on every branch.
    \<open>Importer_Properties\<close>: what follows for a client of a new importer. \<open>Importer_Teardown\<close>: the drop of
    the importer, its images before or after it: nothing is leaked or dropped before its users.
  \<^item> \<open>Sync_Commands\<close> (\<open>vulkan/sync.rs\<close>): every command buffer as a list of commands, and a queue that
    executes them while it tracks owners, layouts, accesses and timestamps. \<open>Frame_Cycle\<close>: a frame goes to
    the renderer and back without breaking a rule; the bytes copied; the times measured.
  \<^item> \<open>Sync_Lane\<close> (\<open>vulkan/sync.rs\<close>): \<open>ImportedImageSync\<close> on a device whose queue finishes submissions at any
    time. \<open>Sync_Safety\<close>: what each operation creates and gives back. \<open>Sync_System\<close>: a lane, its renderer, the
    queue and others as steps in any order, with the invariant that relates fences to submissions.
    \<open>Sync_Protocol\<close>, \<open>Sync_Life\<close>: every step keeps it. \<open>Sync_Properties\<close>: nothing is used while pending or
    leaked, polls are true, and a released lane becomes reusable and as new. These hold for a client that
    does not call \<open>submit_release\<close> again after a release that lost the device; what such a call does is
    \<open>lost_release_retry_misuses\<close>.
  \<^item> \<open>Egl_Fence\<close> (\<open>egl.rs\<close>): the choice of a table of EGL entry points and the native fences made with it:
    a table offers only what it can do, a descriptor has one owner on every path, and an import passes it
    to EGL in the attribute list of the table's ABI.

  Interfaces are locales, each interpreted on the model: \<open>fd_duplicator\<close> on the POSIX descriptor table,
  \<open>client_admission\<close> on the dispatcher, the handles of \<open>Owned_Resources\<close> on each creation, and
  \<open>resource_ledger\<close> on the columns of the importer's device.

  What stands outside. The BEAM, the kernel and the Vulkan driver are parameters: a driver is a record of
  functions that may fail any call (\<open>vk_driver\<close>), a device a record of query answers (\<open>vk_device\<close>), the
  file system a state with a probe, EGL a table of functions on a world with the descriptors of the process,
  with what is at a loaded address and \<open>poll\<close> as arguments. The importer's properties assume that the device starts well-formed
  and that \<open>vkAllocateDescriptorSets\<close> does not succeed with an empty list: on that answer the code leaks
  a pool (\<open>empty_descriptor_list_leaks_pool\<close>).

  Bounds. Sizes, offsets and counters are words of their Rust width; no fuel is used, recursion is on
  lists or carries a measure.

  Not modelled. The display strings of errors; locks poisoned by a panic; other threads during one
  import of \<open>Importer\<close> (their interleavings at the locked sections are in \<open>Source_Cache\<close> and
  \<open>Output_Pool\<close>); the test-support injections of \<open>beam.rs\<close>; the codecs Rustler
  derives; in \<open>vulkan/sync.rs\<close> the conversion of ticks to nanoseconds (a parameter) and the renderer itself,
  which is assumed to destroy the semaphores it accepted only when they are idle; in the shaders the colours
  and the floating point, whose rounding of a sample's position is a parameter; the Elixir sources.
\<close>

end
